(* ===== verification/Mitos_Prelude.thy ===== *)
theory Mitos_Prelude
  imports Complex_Main "HOL-Library.Word" "HOL-Library.List_Lexorder" "HOL-Library.Char_ord"
begin

text \<open>
  Shared vocabulary of the development: the Go types the components use, two's complement
  wrap-around of signed arithmetic, lower case hexadecimal printing, and the list and map
  lemmas that several components rest on.

  Go \<^verbatim>\<open>string\<close> and \<^verbatim>\<open>[]byte\<close> are both \<^typ>\<open>string\<close>, a list of bytes; the order on
  strings is the byte-wise lexicographic order of Go's \<^verbatim>\<open><\<close>. Unsigned integers are words
  of their width. Signed integers are \<^typ>\<open>int\<close> with the wrap-around written out by
  \<open>i32\<close> and \<open>i64\<close> wherever the source adds, subtracts or converts.
\<close>

section \<open>Collections of facts\<close>

named_theorems wrap_simps \<open>in-range arithmetic does not wrap\<close>
named_theorems inv_intros \<open>preservation of component invariants\<close>

section \<open>Types\<close>

type_synonym uint8 = "8 word"
type_synonym uint32 = "32 word"
type_synonym bytes = string

text \<open>An error result is \<open>Inl\<close>, a normal result is \<open>Inr\<close>.\<close>

type_synonym ('e, 'a) result = "'e + 'a"

abbreviation is_ok :: "('e, 'a) result \<Rightarrow> bool" where
  "is_ok r \<equiv> \<not> isl r"

text \<open>
  A \<^verbatim>\<open>time.Time\<close> is a count of nanoseconds with the zero time at \<open>0\<close>; a
  \<^verbatim>\<open>time.Duration\<close> is a count of nanoseconds.
\<close>

type_synonym time = int
type_synonym duration = int

abbreviation IsZero :: "time \<Rightarrow> bool" where
  "IsZero t \<equiv> t = 0"

abbreviation second_ns :: duration where
  "second_ns \<equiv> 1000000000"

section \<open>Signed machine integers\<close>

definition i64 :: "int \<Rightarrow> int" where
  "i64 x = (x + 2 ^ 63) mod 2 ^ 64 - 2 ^ 63"

definition i32 :: "int \<Rightarrow> int" where
  "i32 x = (x + 2 ^ 31) mod 2 ^ 32 - 2 ^ 31"

definition in_i64 :: "int \<Rightarrow> bool" where
  "in_i64 x \<longleftrightarrow> - (2 ^ 63) \<le> x \<and> x < 2 ^ 63"

definition in_i32 :: "int \<Rightarrow> bool" where
  "in_i32 x \<longleftrightarrow> - (2 ^ 31) \<le> x \<and> x < 2 ^ 31"

lemma i64_id [wrap_simps]: "in_i64 x \<Longrightarrow> i64 x = x"
  by (simp add: i64_def in_i64_def)

lemma i32_id [wrap_simps]: "in_i32 x \<Longrightarrow> i32 x = x"
  by (simp add: i32_def in_i32_def)

lemma in_i64_i64 [simp]: "in_i64 (i64 x)"
proof -
  have "0 \<le> (x + 2 ^ 63) mod 2 ^ 64" "(x + 2 ^ 63) mod 2 ^ 64 < 2 ^ 64"
    by simp_all
  then show ?thesis by (simp add: i64_def in_i64_def)
qed

lemma in_i32_i32 [simp]: "in_i32 (i32 x)"
proof -
  have "0 \<le> (x + 2 ^ 31) mod 2 ^ 32" "(x + 2 ^ 31) mod 2 ^ 32 < 2 ^ 32"
    by simp_all
  then show ?thesis by (simp add: i32_def in_i32_def)
qed

text \<open>Go's integer division truncates towards zero.\<close>

definition quot :: "int \<Rightarrow> int \<Rightarrow> int" where
  "quot a b = sgn a * sgn b * (\<bar>a\<bar> div \<bar>b\<bar>)"

lemma quot_nonneg: "0 \<le> a \<Longrightarrow> 0 < b \<Longrightarrow> quot a b = a div b"
  by (cases "a = 0") (simp_all add: quot_def)

section \<open>Hexadecimal printing\<close>

definition hex_digit :: "nat \<Rightarrow> char" where
  "hex_digit n = ''0123456789abcdef'' ! (n mod 16)"

definition hex_byte :: "uint8 \<Rightarrow> string" where
  "hex_byte b = [hex_digit (unat b div 16), hex_digit (unat b)]"

definition hex_string :: "uint8 list \<Rightarrow> string" where
  "hex_string bs = concat (map hex_byte bs)"

lemma length_hex_byte [simp]: "length (hex_byte b) = 2"
  by (simp add: hex_byte_def)

lemma length_hex_string [simp]: "length (hex_string bs) = 2 * length bs"
  by (induction bs) (simp_all add: hex_string_def)

section \<open>Lists and maps\<close>

lemma find_None_iff': "find P xs = None \<longleftrightarrow> (\<forall>x \<in> set xs. \<not> P x)"
  by (auto simp: find_None_iff)

lemma find_SomeD: "find P xs = Some x \<Longrightarrow> x \<in> set xs \<and> P x"
  by (auto simp: find_Some_iff)

lemma ran_upd_None: "ran (m(k := None)) \<subseteq> ran m"
  by (auto simp: ran_def split: if_splits)

lemma inj_on_dom_upd:
  assumes "inj_on m (dom m)" and "\<And>k'. k' \<noteq> k \<Longrightarrow> m k' \<noteq> Some v"
  shows "inj_on (m(k \<mapsto> v)) (dom (m(k \<mapsto> v)))"
  using assms by (auto simp: inj_on_def dom_def split: if_splits)

lemma inj_on_dom_del:
  assumes "inj_on m (dom m)"
  shows "inj_on (m(k := None)) (dom (m(k := None)))"
  using assms by (auto simp: inj_on_def dom_def split: if_splits)

lemma ran_del_inj:
  assumes inj: "inj_on m (dom m)" and x: "m x = Some b"
  shows "ran (m(x := None)) = ran m - {b}"
proof (rule set_eqI)
  fix c
  have "c \<in> ran (m(x := None)) \<longleftrightarrow> (\<exists>y. y \<noteq> x \<and> m y = Some c)"
    by (auto simp: ran_def)
  also have "\<dots> \<longleftrightarrow> c \<in> ran m \<and> c \<noteq> b"
  proof
    assume "\<exists>y. y \<noteq> x \<and> m y = Some c"
    then obtain y where y: "y \<noteq> x" "m y = Some c" by blast
    have "c \<noteq> b"
    proof
      assume "c = b"
      with x y(2) have "y = x" by (intro inj_onD [OF inj]) (simp_all add: domI)
      with y(1) show False by simp
    qed
    with y(2) show "c \<in> ran m \<and> c \<noteq> b" by (simp add: ranI)
  next
    assume c: "c \<in> ran m \<and> c \<noteq> b"
    then obtain y where "m y = Some c" by (auto simp: ran_def)
    with x c show "\<exists>y. y \<noteq> x \<and> m y = Some c" by (intro exI [of _ y]) auto
  qed
  finally show "c \<in> ran (m(x := None)) \<longleftrightarrow> c \<in> ran m - {b}" by simp
qed

section \<open>Unsigned loops\<close>

text \<open>
  The values of \<^verbatim>\<open>i\<close> in the Go loop \<^verbatim>\<open>for i := uint32(0); i < n; i++\<close>; a loop that
  continues until a test holds and then returns is \<open>find\<close> over this list.
\<close>

lemma unat_u32_less: "unat (w :: uint32) < 2 ^ 32"
  using unsigned_less [of w] by simp

lemma unat_u32_of_nat: "k < 2 ^ 32 \<Longrightarrow> unat (word_of_nat k :: uint32) = k"
  by (simp add: unat_of_nat)

definition u32_upto :: "uint32 \<Rightarrow> uint32 list" where
  "u32_upto n = map word_of_nat [0..<unat n]"

lemma set_u32_upto: "set (u32_upto n) = {i. i < n}"
proof (rule set_eqI)
  fix i :: uint32
  have "i \<in> set (u32_upto n) \<longleftrightarrow> (\<exists>k < unat n. i = word_of_nat k)"
    by (auto simp: u32_upto_def)
  also have "\<dots> \<longleftrightarrow> i < n"
  proof
    assume "\<exists>k < unat n. i = word_of_nat k"
    then obtain k where k: "k < unat n" "i = word_of_nat k" by blast
    have "k < 2 ^ 32" using k(1) unat_u32_less [of n] by simp
    then have "unat i = k" using k(2) by (simp add: unat_u32_of_nat)
    with k(1) show "i < n" by (simp add: word_less_nat_alt)
  next
    assume "i < n"
    then have "unat i < unat n" by (simp add: word_less_nat_alt)
    then show "\<exists>k < unat n. i = word_of_nat k"
      by (intro exI [of _ "unat i"]) simp
  qed
  finally show "i \<in> set (u32_upto n) \<longleftrightarrow> i \<in> {i. i < n}" by simp
qed

lemma u32_rotate_less:
  assumes "0 < (n :: uint32)"
  shows "(s + i) mod n < n"
  using assms by (simp add: word_mod_less_divisor)

text \<open>
  Rotating by a cursor \<open>s\<close> modulo \<open>n\<close> visits every index below \<open>n\<close>, as long as the sum
  cannot wrap around.
\<close>

lemma u32_rotate_surj:
  fixes n s b :: uint32
  assumes n: "unat n \<le> 2 ^ 31" and s: "s < n" and b: "b < n"
  shows "\<exists>i < n. (s + i) mod n = b"
proof -
  define k where "k = (if unat s \<le> unat b then unat b - unat s else unat b + unat n - unat s)"
  have un: "unat s < unat n" "unat b < unat n"
    using s b by (simp_all add: word_less_nat_alt)
  have kn: "k < unat n" using un by (auto simp: k_def)
  have k32: "k < 2 ^ 32" using kn n by simp
  have mk: "(unat s + k) mod unat n = unat b"
    using un by (auto simp: k_def)
  let ?i = "word_of_nat k :: uint32"
  have ui: "unat ?i = k" using k32 by (simp add: unat_u32_of_nat)
  have "unat s + k < 2 ^ 32" using un kn n by simp
  then have us: "unat (s + ?i) = unat s + k"
    using ui by (simp add: unat_word_ariths)
  have "unat ((s + ?i) mod n) = unat b"
    using us mk by (simp add: unat_mod)
  then have "(s + ?i) mod n = b" by (simp add: word_unat_eq_iff)
  moreover have "?i < n" using kn ui by (simp add: word_less_nat_alt)
  ultimately show ?thesis by blast
qed

end
