(* ===== verification/Resource_Pool.thy ===== *)
theory Resource_Pool
  imports Mitos_Prelude
begin

text \<open>
  The contract shared by the two allocators of a node: the /30 link allocator of
  \<^verbatim>\<open>netconf\<close> and the jailer uid allocator of \<^verbatim>\<open>firecracker\<close>. A pool hands out resources of
  a finite universe under keys; a resource handed out is one nobody holds, and an acquire for
  a fresh key is refused only when every resource is taken. The lemmas about whole runs of
  acquires are proved here once and used through the interpretations.
\<close>

text \<open>A run of acquires, one per key, that stops at the first refusal.\<close>

fun acquire_run :: "('s \<Rightarrow> 'k \<Rightarrow> ('r \<times> 's) option) \<Rightarrow> 's \<Rightarrow> 'k list \<Rightarrow> ('r list \<times> 's) option" where
  "acquire_run acq s [] = Some ([], s)"
| "acquire_run acq s (k # ks) =
     (case acq s k of
        None \<Rightarrow> None
      | Some (r, s') \<Rightarrow>
          (case acquire_run acq s' ks of
             None \<Rightarrow> None
           | Some (rs, s'') \<Rightarrow> Some (r # rs, s'')))"

locale resource_pool =
  fixes inv :: "'s \<Rightarrow> bool"
    and univ :: "'s \<Rightarrow> 'r set"
    and taken :: "'s \<Rightarrow> 'r set"
    and fresh :: "'s \<Rightarrow> 'k \<Rightarrow> bool"
    and acq :: "'s \<Rightarrow> 'k \<Rightarrow> ('r \<times> 's) option"
  assumes finite_univ: "inv s \<Longrightarrow> finite (univ s)"
    and taken_univ: "inv s \<Longrightarrow> taken s \<subseteq> univ s"
    and acq_Some: "inv s \<Longrightarrow> fresh s k \<Longrightarrow> acq s k = Some (r, s') \<Longrightarrow>
      inv s' \<and> univ s' = univ s \<and> r \<in> univ s \<and> r \<notin> taken s \<and> taken s' = insert r (taken s)"
    and acq_None: "inv s \<Longrightarrow> fresh s k \<Longrightarrow> acq s k = None \<Longrightarrow> taken s = univ s"
    and acq_fresh: "inv s \<Longrightarrow> fresh s k \<Longrightarrow> acq s k = Some (r, s') \<Longrightarrow> fresh s k' \<Longrightarrow> k' \<noteq> k
      \<Longrightarrow> fresh s' k'"
begin

lemma run_exclusive:
  assumes "inv s" and "distinct ks" and "\<forall>k \<in> set ks. fresh s k"
    and "acquire_run acq s ks = Some (rs, s')"
  shows "inv s' \<and> univ s' = univ s \<and> length rs = length ks \<and> distinct rs \<and>
    set rs \<subseteq> univ s \<and> set rs \<inter> taken s = {} \<and> taken s' = taken s \<union> set rs"
  using assms
proof (induction ks arbitrary: s rs)
  case Nil
  then show ?case by simp
next
  case (Cons k ks)
  from Cons.prems(4) obtain r s1 rs1 where
    a: "acq s k = Some (r, s1)" and run: "acquire_run acq s1 ks = Some (rs1, s')" and rs: "rs = r # rs1"
    by (auto split: option.splits)
  have st: "inv s1 \<and> univ s1 = univ s \<and> r \<in> univ s \<and> r \<notin> taken s \<and> taken s1 = insert r (taken s)"
    using Cons.prems(1,3) a by (intro acq_Some) auto
  have fr: "\<forall>k' \<in> set ks. fresh s1 k'"
  proof
    fix k' assume "k' \<in> set ks"
    with Cons.prems(2,3) have "fresh s k'" "k' \<noteq> k" by auto
    then show "fresh s1 k'" using Cons.prems(1,3) a by (intro acq_fresh [of s k r s1 k']) auto
  qed
  have "inv s' \<and> univ s' = univ s1 \<and> length rs1 = length ks \<and> distinct rs1 \<and>
      set rs1 \<subseteq> univ s1 \<and> set rs1 \<inter> taken s1 = {} \<and> taken s' = taken s1 \<union> set rs1"
    using Cons.IH [of s1 rs1] st fr run Cons.prems(2) by auto
  with st rs show ?case by auto
qed

lemma run_refused_full:
  assumes "inv s" and "distinct ks" and "\<forall>k \<in> set ks. fresh s k"
    and "acquire_run acq s ks = None"
  shows "card (univ s - taken s) < length ks"
  using assms
proof (induction ks arbitrary: s)
  case Nil
  then show ?case by simp
next
  case (Cons k ks)
  show ?case
  proof (cases "acq s k")
    case None
    then have "taken s = univ s" using Cons.prems(1,3) acq_None by auto
    then show ?thesis by simp
  next
    case (Some p)
    then obtain r s1 where a: "acq s k = Some (r, s1)" by (cases p) auto
    then have run: "acquire_run acq s1 ks = None"
      using Cons.prems(4) by (auto split: option.splits)
    have st: "inv s1 \<and> univ s1 = univ s \<and> r \<in> univ s \<and> r \<notin> taken s \<and> taken s1 = insert r (taken s)"
      using Cons.prems(1,3) a by (intro acq_Some) auto
    have fr: "\<forall>k' \<in> set ks. fresh s1 k'"
    proof
      fix k' assume "k' \<in> set ks"
      with Cons.prems(2,3) have "fresh s k'" "k' \<noteq> k" by auto
      then show "fresh s1 k'" using Cons.prems(1,3) a by (intro acq_fresh [of s k r s1 k']) auto
    qed
    have "card (univ s1 - taken s1) < length ks"
      using Cons.IH [of s1] st fr run Cons.prems(2) by auto
    moreover have "univ s - taken s = insert r (univ s1 - taken s1)" using st by auto
    moreover have "finite (univ s1 - taken s1)"
      using st by (intro finite_Diff finite_univ) simp
    ultimately show ?thesis by (simp add: card_insert_if)
  qed
qed

lemma run_succeeds:
  assumes "inv s" and "distinct ks" and "\<forall>k \<in> set ks. fresh s k"
    and "length ks \<le> card (univ s - taken s)"
  obtains rs s' where "acquire_run acq s ks = Some (rs, s')"
proof (cases "acquire_run acq s ks")
  case None
  with run_refused_full [OF assms(1-3)] assms(4) show ?thesis by simp
next
  case (Some p)
  then show ?thesis using that by (cases p) auto
qed

end

end
