(* ===== verification/Net_Identity.thy ===== *)
theory Net_Identity
  imports Resource_Pool
begin

unbundle bit_operations_syntax

text \<open>
  The per-sandbox network identity allocator of \<^verbatim>\<open>internal/netconf/identity.go\<close>: a subnet is
  carved into /30 point-to-point blocks and every live sandbox holds one of them. The hash
  \<^verbatim>\<open>sha256.Sum256\<close> and the CIDR parser \<^verbatim>\<open>net.ParseCIDR\<close> are arguments of the definitions.
  The mutex makes every method one atomic state update.
\<close>

section \<open>Addresses and identities\<close>

text \<open>
  A non-nil \<^verbatim>\<open>net.IP\<close>; \<open>IPv4\<close> also stands for the IPv4-mapped 16 byte form, which
  \<^verbatim>\<open>To4\<close> treats alike. A nil \<^verbatim>\<open>net.IP\<close> is \<open>None\<close>.
\<close>

datatype net_ip = IPv4 uint32 | IPv6 "128 word"

fun To4 :: "net_ip option \<Rightarrow> uint32 option" where
  "To4 (Some (IPv4 a)) = Some a"
| "To4 _ = None"

record Identity =
  TapName :: string
  GuestMAC :: string
  HostIP :: "net_ip option"
  GuestIP :: "net_ip option"

datatype netconf_error =
    BadSubnet string
  | NotIPv4 string
  | SubnetTooSmall string
  | EmptyTapPrefix
  | TapPrefixTooLong string
  | ErrSubnetExhausted string
  | NoIPv4GuestIP string
  | GuestIPBelowSubnet string
  | GuestIPNotInSubnet string

record Allocator =
  a_cidr :: string
  a_base :: uint32
  a_count :: uint32
  a_prefix :: string
  a_next :: uint32
  a_byID :: "string \<rightharpoonup> Identity"
  a_inUse :: "uint32 \<Rightarrow> bool"
  a_idIndex :: "string \<rightharpoonup> uint32"

definition maxIfaceName :: nat where
  "maxIfaceName = 15"

section \<open>Derived names\<close>

type_synonym sha256_fun = "string \<Rightarrow> uint8 list"

definition tapName :: "sha256_fun \<Rightarrow> Allocator \<Rightarrow> string \<Rightarrow> string" where
  "tapName sha a sandboxID = a_prefix a @ hex_string (take 4 (sha sandboxID))"

definition mac_first_octet :: "uint8 \<Rightarrow> uint8" where
  "mac_first_octet b = (b OR 2) AND NOT 1"

definition deriveMAC :: "sha256_fun \<Rightarrow> string \<Rightarrow> string" where
  "deriveMAC sha sandboxID =
     (let sum = sha sandboxID in
      hex_byte (mac_first_octet (sum ! 0)) @ '':'' @ hex_byte (sum ! 1) @ '':'' @
      hex_byte (sum ! 2) @ '':'' @ hex_byte (sum ! 3) @ '':'' @
      hex_byte (sum ! 4) @ '':'' @ hex_byte (sum ! 5))"

definition DeriveTapName :: "sha256_fun \<Rightarrow> string \<Rightarrow> string" where
  "DeriveTapName sha guestIP =
     (let name = ''sbt'' @ take 12 (hex_string (sha guestIP)) in
      if length name > maxIfaceName then take maxIfaceName name else name)"

definition inPodSecondaryBase :: uint32 where
  "inPodSecondaryBase = push_bit 24 100 OR push_bit 16 64"

definition inPodSecondaryBlocks :: uint32 where
  "inPodSecondaryBlocks = push_bit 14 1"

definition DeriveInPodSecondaryLink :: "sha256_fun \<Rightarrow> string \<Rightarrow> net_ip \<times> net_ip \<times> string" where
  "DeriveInPodSecondaryLink sha vmID =
     (let sum = sha vmID;
          block = (push_bit 8 (ucast (sum ! 0)) OR ucast (sum ! 1)) mod inPodSecondaryBlocks;
          blockBase = inPodSecondaryBase + 4 * block
      in (IPv4 (blockBase + 2), IPv4 (blockBase + 1), deriveMAC sha vmID))"

definition identityForBlock :: "sha256_fun \<Rightarrow> Allocator \<Rightarrow> string \<Rightarrow> uint32 \<Rightarrow> Identity" where
  "identityForBlock sha a sandboxID block =
     (let blockBase = a_base a + 4 * block in
      \<lparr>TapName = tapName sha a sandboxID,
       GuestMAC = deriveMAC sha sandboxID,
       HostIP = Some (IPv4 (blockBase + 1)),
       GuestIP = Some (IPv4 (blockBase + 2))\<rparr>)"

section \<open>Operations\<close>

text \<open>
  The parser returns the network address, the number of leading one bits of the mask and the
  width of the mask in bits.
\<close>

type_synonym cidr_parser = "string \<Rightarrow> (net_ip \<times> nat \<times> nat) option"

definition NewAllocator ::
  "cidr_parser \<Rightarrow> string \<Rightarrow> string \<Rightarrow> (netconf_error, Allocator) result" where
  "NewAllocator parse cidr tapPrefix =
     (case parse cidr of
        None \<Rightarrow> Inl (BadSubnet cidr)
      | Some (ip, ones, bits) \<Rightarrow>
          (case To4 (Some ip) of
             None \<Rightarrow> Inl (NotIPv4 cidr)
           | Some ip4 \<Rightarrow>
               if bits \<noteq> 32 then Inl (NotIPv4 cidr)
               else if ones > 30 then Inl (SubnetTooSmall cidr)
               else if tapPrefix = [] then Inl EmptyTapPrefix
               else if length tapPrefix + 8 > maxIfaceName then Inl (TapPrefixTooLong tapPrefix)
               else Inr \<lparr>a_cidr = cidr, a_base = ip4, a_count = push_bit (30 - ones) 1,
                         a_prefix = tapPrefix, a_next = 0, a_byID = Map.empty,
                         a_inUse = (\<lambda>_. False), a_idIndex = Map.empty\<rparr>))"

definition Acquire :: "sha256_fun \<Rightarrow> Allocator \<Rightarrow> string \<Rightarrow> (netconf_error, Identity) result \<times> Allocator" where
  "Acquire sha a sandboxID =
     (case a_byID a sandboxID of
        Some ident \<Rightarrow> (Inr ident, a)
      | None \<Rightarrow>
          (case find (\<lambda>i. \<not> a_inUse a ((a_next a + i) mod a_count a)) (u32_upto (a_count a)) of
             None \<Rightarrow> (Inl (ErrSubnetExhausted (a_cidr a)), a)
           | Some i \<Rightarrow>
               let block = (a_next a + i) mod a_count a;
                   a1 = a\<lparr>a_inUse := (a_inUse a)(block := True), a_next := (block + 1) mod a_count a\<rparr>;
                   ident = identityForBlock sha a1 sandboxID block
               in (Inr ident,
                   a1\<lparr>a_byID := (a_byID a1)(sandboxID \<mapsto> ident),
                      a_idIndex := (a_idIndex a1)(sandboxID \<mapsto> block)\<rparr>)))"

definition MarkInUse :: "Allocator \<Rightarrow> string \<Rightarrow> Identity \<Rightarrow> (netconf_error, unit) result \<times> Allocator" where
  "MarkInUse a sandboxID ident =
     (case To4 (GuestIP ident) of
        None \<Rightarrow> (Inl (NoIPv4GuestIP sandboxID), a)
      | Some guestU \<Rightarrow>
          if guestU < a_base a + 2 then (Inl (GuestIPBelowSubnet sandboxID), a)
          else
            let offset = guestU - a_base a;
                block = (offset - 2) div 4
            in if (offset - 2) mod 4 \<noteq> 0 \<or> block \<ge> a_count a
               then (Inl (GuestIPNotInSubnet sandboxID), a)
               else if a_byID a sandboxID \<noteq> None then (Inr (), a)
               else (Inr (),
                     a\<lparr>a_inUse := (a_inUse a)(block := True),
                       a_byID := (a_byID a)(sandboxID \<mapsto> ident),
                       a_idIndex := (a_idIndex a)(sandboxID \<mapsto> block)\<rparr>))"

text \<open>The map iteration order of the lookup is an argument: any enumeration of the live ids.\<close>

definition TapForGuestIP :: "Allocator \<Rightarrow> string list \<Rightarrow> net_ip option \<Rightarrow> string" where
  "TapForGuestIP a order ip =
     (case To4 ip of
        None \<Rightarrow> []
      | Some want \<Rightarrow>
          (case find (\<lambda>x. case a_byID a x of None \<Rightarrow> False | Some ident \<Rightarrow> GuestIP ident = Some (IPv4 want)) order of
             None \<Rightarrow> []
           | Some x \<Rightarrow> TapName (the (a_byID a x))))"

definition Release :: "Allocator \<Rightarrow> string \<Rightarrow> Allocator" where
  "Release a sandboxID =
     (case a_idIndex a sandboxID of
        None \<Rightarrow> a
      | Some block \<Rightarrow>
          a\<lparr>a_inUse := (a_inUse a)(block := False),
            a_byID := (a_byID a)(sandboxID := None),
            a_idIndex := (a_idIndex a)(sandboxID := None)\<rparr>)"

section \<open>The allocator invariant\<close>

definition block_guest :: "Allocator \<Rightarrow> uint32 \<Rightarrow> uint32" where
  "block_guest a b = a_base a + 4 * b + 2"

definition geometry_ok :: "Allocator \<Rightarrow> bool" where
  "geometry_ok a \<longleftrightarrow> 0 < a_count a \<and> unat (a_base a) + 4 * unat (a_count a) \<le> 2 ^ 32 \<and>
     a_next a < a_count a"

text \<open>
  The three maps agree: the live ids are the same in both, every held block is marked in use,
  every block in use is held by a live id (nothing leaks), no two live ids hold one block, and
  the recorded guest address is the guest side of the held block.
\<close>

definition alloc_inv :: "Allocator \<Rightarrow> bool" where
  "alloc_inv a \<longleftrightarrow> geometry_ok a \<and>
     dom (a_byID a) = dom (a_idIndex a) \<and>
     (\<forall>b. a_inUse a b \<longleftrightarrow> b \<in> ran (a_idIndex a)) \<and>
     (\<forall>b \<in> ran (a_idIndex a). b < a_count a) \<and>
     inj_on (a_idIndex a) (dom (a_idIndex a)) \<and>
     (\<forall>x b. a_idIndex a x = Some b \<longrightarrow>
        (\<exists>ident. a_byID a x = Some ident \<and> GuestIP ident = Some (IPv4 (block_guest a b))))"

lemma alloc_invD:
  assumes "alloc_inv a"
  shows "geometry_ok a" "dom (a_byID a) = dom (a_idIndex a)"
    "\<And>b. a_inUse a b \<longleftrightarrow> b \<in> ran (a_idIndex a)"
    "\<And>b. b \<in> ran (a_idIndex a) \<Longrightarrow> b < a_count a"
    "inj_on (a_idIndex a) (dom (a_idIndex a))"
    "\<And>x b. a_idIndex a x = Some b \<Longrightarrow>
       \<exists>ident. a_byID a x = Some ident \<and> GuestIP ident = Some (IPv4 (block_guest a b))"
  using assms by (auto simp: alloc_inv_def)

lemma next_of_block: "0 < (n :: uint32) \<Longrightarrow> (b + 1) mod n < n"
  by (simp add: word_mod_less_divisor)

text \<open>Distinct blocks have distinct guest addresses, because the subnet does not wrap around.\<close>

lemma unat_block_guest:
  assumes "geometry_ok a" and "b < a_count a"
  shows "unat (block_guest a b) = unat (a_base a) + 4 * unat b + 2"
proof -
  have b: "unat b < unat (a_count a)" using assms(2) by (simp add: word_less_nat_alt)
  then have lt: "unat (a_base a) + 4 * unat b + 2 < 2 ^ 32"
    using assms(1) by (simp add: geometry_ok_def)
  then have "unat (4 * b) = 4 * unat b"
    by (simp add: unat_word_ariths)
  then show ?thesis using lt by (simp add: block_guest_def unat_word_ariths)
qed

lemma block_guest_inj:
  assumes "geometry_ok a" "b < a_count a" "c < a_count a" "block_guest a b = block_guest a c"
  shows "b = c"
  using assms unat_block_guest [of a b] unat_block_guest [of a c] by (simp add: word_unat_eq_iff)

section \<open>Every operation keeps the invariant\<close>

lemma unat_push_bit_count:
  assumes "ones \<le> 30"
  shows "unat (push_bit (30 - ones) 1 :: uint32) = 2 ^ (30 - ones)"
proof -
  have "(2::nat) ^ (30 - ones) < 2 ^ 32"
    by (rule power_strict_increasing) auto
  then have "unat (word_of_nat (2 ^ (30 - ones)) :: uint32) = 2 ^ (30 - ones)"
    by (rule unat_u32_of_nat)
  then show ?thesis by (simp add: push_bit_eq_mult)
qed

lemma NewAllocator_inv [inv_intros]:
  assumes "NewAllocator parse cidr p = Inr a"
    and "\<And>ip ones. parse cidr = Some (IPv4 ip, ones, 32) \<Longrightarrow> unat ip + 2 ^ (32 - ones) \<le> 2 ^ 32"
  shows "alloc_inv a"
proof -
  from assms(1) obtain ip ones where
    pr: "parse cidr = Some (IPv4 ip, ones, 32)" and ones: "ones \<le> 30" and
    a: "a = \<lparr>a_cidr = cidr, a_base = ip, a_count = push_bit (30 - ones) 1, a_prefix = p, a_next = 0,
             a_byID = Map.empty, a_inUse = (\<lambda>_. False), a_idIndex = Map.empty\<rparr>"
    by (auto simp: NewAllocator_def split: option.splits prod.splits if_splits elim!: To4.elims)
  have c: "unat (a_count a) = 2 ^ (30 - ones)"
    using unat_push_bit_count [OF ones] by (simp add: a)
  have "(4::nat) * 2 ^ (30 - ones) = 2 ^ (32 - ones)"
  proof -
    have "32 - ones = 2 + (30 - ones)" using ones by simp
    then show ?thesis by (simp add: power_add)
  qed
  then have "unat (a_base a) + 4 * unat (a_count a) \<le> 2 ^ 32" using assms(2) [OF pr] a c by simp
  moreover have "0 < a_count a" using c by (simp add: word_less_nat_alt)
  ultimately show ?thesis using a by (simp add: alloc_inv_def geometry_ok_def)
qed

text \<open>The common step of \<open>Acquire\<close> and \<open>MarkInUse\<close>: a free block is bound to an id that holds none.\<close>

lemma bind_block_inv:
  assumes inv: "alloc_inv a" and b: "b < a_count a" "\<not> a_inUse a b"
    and x: "a_byID a x = None" and g: "GuestIP ident = Some (IPv4 (block_guest a b))"
    and n: "n < a_count a"
  shows "alloc_inv (a\<lparr>a_inUse := (a_inUse a)(b := True), a_next := n,
    a_byID := (a_byID a)(x \<mapsto> ident), a_idIndex := (a_idIndex a)(x \<mapsto> b)\<rparr>)"
proof -
  note D = alloc_invD [OF inv]
  have xi: "a_idIndex a x = None" using x D(2) by blast
  have nb: "b \<notin> ran (a_idIndex a)" using b(2) D(3) by simp
  then have inj: "inj_on ((a_idIndex a)(x \<mapsto> b)) (dom ((a_idIndex a)(x \<mapsto> b)))"
    using D(5) by (intro inj_on_dom_upd) (auto simp: ran_def)
  let ?a = "a\<lparr>a_inUse := (a_inUse a)(b := True), a_next := n,
    a_byID := (a_byID a)(x \<mapsto> ident), a_idIndex := (a_idIndex a)(x \<mapsto> b)\<rparr>"
  have ran: "ran (a_idIndex ?a) = insert b (ran (a_idIndex a))" using xi by simp
  have bg: "block_guest ?a = block_guest a" by (simp add: block_guest_def fun_eq_iff)
  have "geometry_ok ?a" using D(1) n by (simp add: geometry_ok_def)
  moreover have "dom (a_byID ?a) = dom (a_idIndex ?a)" using D(2) by simp
  moreover have "\<forall>c. a_inUse ?a c \<longleftrightarrow> c \<in> ran (a_idIndex ?a)" using D(3) ran by simp
  moreover have "\<forall>c \<in> ran (a_idIndex ?a). c < a_count ?a" using D(4) ran b(1) by simp
  moreover have "\<forall>y c. a_idIndex ?a y = Some c \<longrightarrow>
      (\<exists>i. a_byID ?a y = Some i \<and> GuestIP i = Some (IPv4 (block_guest ?a c)))"
    unfolding bg using D(6) g by simp
  ultimately show ?thesis using inj by (simp only: alloc_inv_def) simp
qed

lemma Acquire_cases:
  assumes "a_byID a x = None" and "Acquire sha a x = (r, a')"
  obtains (exhausted) "r = Inl (ErrSubnetExhausted (a_cidr a))" "a' = a"
      "\<forall>i < a_count a. a_inUse a ((a_next a + i) mod a_count a)"
    | (granted) i b ident where "i < a_count a" "b = (a_next a + i) mod a_count a" "\<not> a_inUse a b"
      "r = Inr ident" "ident = identityForBlock sha a x b"
      "a' = a\<lparr>a_inUse := (a_inUse a)(b := True), a_next := (b + 1) mod a_count a,
              a_byID := (a_byID a)(x \<mapsto> ident), a_idIndex := (a_idIndex a)(x \<mapsto> b)\<rparr>"
proof (cases "find (\<lambda>i. \<not> a_inUse a ((a_next a + i) mod a_count a)) (u32_upto (a_count a))")
  case None
  then have "\<forall>i < a_count a. a_inUse a ((a_next a + i) mod a_count a)"
    by (auto simp: find_None_iff set_u32_upto)
  with None assms show ?thesis by (intro exhausted) (auto simp: Acquire_def)
next
  case (Some i)
  then have "i < a_count a" "\<not> a_inUse a ((a_next a + i) mod a_count a)"
    by (auto dest!: find_SomeD simp: set_u32_upto)
  with Some assms show ?thesis
    by (intro granted [of i]) (auto simp: Acquire_def Let_def identityForBlock_def tapName_def)
qed

lemma identityForBlock_guest [simp]:
  "GuestIP (identityForBlock sha a x b) = Some (IPv4 (block_guest a b))"
  by (simp add: identityForBlock_def Let_def block_guest_def)

lemma Acquire_held: "a_byID a x = Some ident \<Longrightarrow> Acquire sha a x = (Inr ident, a)"
  by (simp add: Acquire_def)

lemma Acquire_inv [inv_intros]:
  assumes inv: "alloc_inv a" and acq: "Acquire sha a x = (r, a')"
  shows "alloc_inv a'"
proof (cases "a_byID a x")
  case (Some ident)
  with acq inv show ?thesis by (simp add: Acquire_held)
next
  case None
  have pos: "0 < a_count a" using alloc_invD(1) [OF inv] by (simp add: geometry_ok_def)
  from None acq show ?thesis
  proof (cases rule: Acquire_cases)
    case exhausted
    with inv show ?thesis by simp
  next
    case (granted i b ident)
    with inv None pos show ?thesis
      by (auto intro!: bind_block_inv simp: u32_rotate_less next_of_block)
  qed
qed

lemma Release_inv [inv_intros]:
  assumes inv: "alloc_inv a"
  shows "alloc_inv (Release a x)"
proof (cases "a_idIndex a x")
  case None
  with inv show ?thesis by (simp add: Release_def)
next
  case (Some b)
  note D = alloc_invD [OF inv]
  have r: "ran ((a_idIndex a)(x := None)) = ran (a_idIndex a) - {b}"
    using D(5) Some by (rule ran_del_inj)
  let ?a = "Release a x"
  have a: "a_idIndex ?a = (a_idIndex a)(x := None)" "a_byID ?a = (a_byID a)(x := None)"
    "a_inUse ?a = (a_inUse a)(b := False)" "a_count ?a = a_count a" "block_guest ?a = block_guest a"
    using Some by (simp_all add: Release_def block_guest_def fun_eq_iff)
  have "geometry_ok ?a" using D(1) Some by (simp add: geometry_ok_def Release_def)
  moreover have "dom (a_byID ?a) = dom (a_idIndex ?a)" using D(2) a by simp
  moreover have "\<forall>c. a_inUse ?a c \<longleftrightarrow> c \<in> ran (a_idIndex ?a)" unfolding a r using D(3) by simp
  moreover have "\<forall>c \<in> ran (a_idIndex ?a). c < a_count ?a" unfolding a r using D(4) by simp
  moreover have "inj_on (a_idIndex ?a) (dom (a_idIndex ?a))"
    unfolding a using D(5) by (rule inj_on_dom_del)
  moreover have "\<forall>y c. a_idIndex ?a y = Some c \<longrightarrow>
      (\<exists>i. a_byID ?a y = Some i \<and> GuestIP i = Some (IPv4 (block_guest ?a c)))"
    unfolding a using D(6) by simp
  ultimately show ?thesis by (simp only: alloc_inv_def) simp
qed

text \<open>
  \<open>MarkInUse\<close> recovers the block from the recorded guest address. It does not look whether
  another id already holds that block, so exclusivity needs the recorded addresses to differ.
\<close>

lemma MarkInUse_cases:
  assumes "MarkInUse a x ident = (r, a')" and "a_byID a x = None"
  obtains (refused) e where "r = Inl e" "a' = a"
    | (marked) b where "r = Inr ()" "b < a_count a" "GuestIP ident = Some (IPv4 (block_guest a b))"
      "a' = a\<lparr>a_inUse := (a_inUse a)(b := True), a_byID := (a_byID a)(x \<mapsto> ident),
              a_idIndex := (a_idIndex a)(x \<mapsto> b)\<rparr>"
proof (cases "To4 (GuestIP ident)")
  case None
  with assms show ?thesis by (intro refused) (auto simp: MarkInUse_def)
next
  case (Some g)
  then have g: "GuestIP ident = Some (IPv4 g)" by (auto elim: To4.elims)
  define d where "d = g - a_base a - 2"
  show ?thesis
  proof (cases "g < a_base a + 2 \<or> d mod 4 \<noteq> 0 \<or> d div 4 \<ge> a_count a")
    case True
    with Some assms show ?thesis
      by (intro refused [of "projl r"]) (auto simp: MarkInUse_def Let_def d_def split: if_splits)
  next
    case False
    have "d = d div 4 * 4" using False div_mult_mod_eq [of d 4] by simp
    then have "4 * (d div 4) = d" by (metis mult.commute)
    then have "block_guest a (d div 4) = g" by (simp add: block_guest_def d_def)
    with False Some g assms show ?thesis
      by (intro marked [of "d div 4"]) (auto simp: MarkInUse_def Let_def d_def not_le split: if_splits)
  qed
qed

lemma guest_in_use:
  assumes inv: "alloc_inv a" and b: "a_inUse a b"
  obtains y ident where "a_byID a y = Some ident" "GuestIP ident = Some (IPv4 (block_guest a b))"
proof -
  from b obtain y where "a_idIndex a y = Some b"
    using alloc_invD(3) [OF inv] by (auto simp: ran_def)
  with alloc_invD(6) [OF inv this] that show ?thesis by blast
qed

lemma MarkInUse_inv [inv_intros]:
  assumes inv: "alloc_inv a" and m: "MarkInUse a x ident = (r, a')"
    and free: "\<And>y i. a_byID a y = Some i \<Longrightarrow> y \<noteq> x \<Longrightarrow> GuestIP i \<noteq> GuestIP ident"
  shows "alloc_inv a'"
proof (cases "a_byID a x")
  case (Some i)
  with m inv show ?thesis
    by (auto simp: MarkInUse_def Let_def split: option.splits if_splits)
next
  case None
  from m None show ?thesis
  proof (cases rule: MarkInUse_cases)
    case (refused e)
    with inv show ?thesis by simp
  next
    case (marked b)
    have nu: "\<not> a_inUse a b"
    proof
      assume "a_inUse a b"
      with inv obtain y i where y: "a_byID a y = Some i" "GuestIP i = Some (IPv4 (block_guest a b))"
        by (rule guest_in_use)
      with None have "y \<noteq> x" by auto
      with y marked(3) free show False by auto
    qed
    have n: "a_next a < a_count a" using alloc_invD(1) [OF inv] by (simp add: geometry_ok_def)
    show ?thesis using bind_block_inv [OF inv marked(2) nu None marked(3) n] marked(4) by simp
  qed
qed

section \<open>Runs of the allocator\<close>

text \<open>
  One atomic method call. Re-adoption after a restart records a guest address that no other
  live sandbox holds.
\<close>

inductive alloc_step :: "sha256_fun \<Rightarrow> Allocator \<Rightarrow> Allocator \<Rightarrow> bool" for sha where
  step_acquire: "Acquire sha a x = (r, a') \<Longrightarrow> alloc_step sha a a'"
| step_mark: "MarkInUse a x ident = (r, a') \<Longrightarrow>
    (\<And>y i. a_byID a y = Some i \<Longrightarrow> y \<noteq> x \<Longrightarrow> GuestIP i \<noteq> GuestIP ident) \<Longrightarrow> alloc_step sha a a'"
| step_release: "alloc_step sha a (Release a x)"

lemma alloc_step_inv: "alloc_step sha a a' \<Longrightarrow> alloc_inv a \<Longrightarrow> alloc_inv a'"
  by (induction rule: alloc_step.induct) (auto intro: Acquire_inv Release_inv MarkInUse_inv)

lemma alloc_steps_inv: "(alloc_step sha)\<^sup>*\<^sup>* a a' \<Longrightarrow> alloc_inv a \<Longrightarrow> alloc_inv a'"
  by (induction rule: rtranclp_induct) (auto intro: alloc_step_inv)

lemma guests_distinct:
  assumes inv: "alloc_inv a" and x: "a_byID a x = Some i" and y: "a_byID a y = Some j"
    and g: "GuestIP i = GuestIP j"
  shows "x = y"
proof -
  note D = alloc_invD [OF inv]
  obtain b c where bc: "a_idIndex a x = Some b" "a_idIndex a y = Some c"
    using x y D(2) by blast
  have bg: "GuestIP i = Some (IPv4 (block_guest a b))" "GuestIP j = Some (IPv4 (block_guest a c))"
    using D(6) [OF bc(1)] D(6) [OF bc(2)] x y by auto
  have lt: "b < a_count a" "c < a_count a" using bc D(4) by (auto intro: ranI)
  have "block_guest a b = block_guest a c" using bg g by simp
  then have "b = c" by (rule block_guest_inj [OF D(1) lt])
  then have "a_idIndex a x = a_idIndex a y" using bc by simp
  then show ?thesis using bc by (intro inj_onD [OF D(5)]) (simp_all add: domI)
qed

lemma TapForGuestIP_live:
  assumes inv: "alloc_inv a" and order: "set order = dom (a_byID a)"
    and x: "a_byID a x = Some i" and g: "GuestIP i = Some (IPv4 w)"
  shows "TapForGuestIP a order (Some (IPv4 w)) = TapName i"
proof -
  let ?P = "\<lambda>x. case a_byID a x of None \<Rightarrow> False | Some ident \<Rightarrow> GuestIP ident = Some (IPv4 w)"
  have "x \<in> set order" using order x by auto
  moreover have "?P x" using x g by simp
  ultimately obtain y where y: "find ?P order = Some y"
    by (cases "find ?P order") (auto simp: find_None_iff)
  then have "?P y" by (auto dest: find_SomeD)
  then obtain j where j: "a_byID a y = Some j" "GuestIP j = Some (IPv4 w)"
    by (auto split: option.splits)
  with inv x g have "x = y" by (intro guests_distinct [of a x i y j]) auto
  with y j x show ?thesis by (simp add: TapForGuestIP_def)
qed

section \<open>The allocator as a resource pool\<close>

definition guest_univ :: "Allocator \<Rightarrow> uint32 set" where
  "guest_univ a = block_guest a ` {b. b < a_count a}"

definition guest_taken :: "Allocator \<Rightarrow> uint32 set" where
  "guest_taken a = block_guest a ` ran (a_idIndex a)"

definition net_fresh :: "Allocator \<Rightarrow> string \<Rightarrow> bool" where
  "net_fresh a x \<longleftrightarrow> a_byID a x = None"

text \<open>\<open>Acquire\<close> seen as handing out a guest address.\<close>

definition net_acquire :: "sha256_fun \<Rightarrow> Allocator \<Rightarrow> string \<Rightarrow> (uint32 \<times> Allocator) option" where
  "net_acquire sha a x =
     (case Acquire sha a x of
        (Inl e, a') \<Rightarrow> None
      | (Inr ident, a') \<Rightarrow> map_option (\<lambda>g. (g, a')) (To4 (GuestIP ident)))"

lemma Acquire_exhausted_full:
  assumes inv: "alloc_inv a" and x: "a_byID a x = None"
    and acq: "Acquire sha a x = (Inl e, a')"
  shows "a' = a \<and> (\<forall>b < a_count a. a_inUse a b)"
proof -
  have geo: "geometry_ok a" using alloc_invD(1) [OF inv] .
  have cnt: "unat (a_count a) \<le> 2 ^ 31" and nxt: "a_next a < a_count a"
    using geo by (auto simp: geometry_ok_def)
  from x acq show ?thesis
  proof (cases rule: Acquire_cases)
    case exhausted
    have "a_inUse a b" if b: "b < a_count a" for b
    proof -
      obtain i where "i < a_count a" "(a_next a + i) mod a_count a = b"
        using u32_rotate_surj [OF cnt nxt b] by blast
      with exhausted(3) show ?thesis by auto
    qed
    with exhausted(2) show ?thesis by simp
  next
    case (granted i b ident)
    then show ?thesis by simp
  qed
qed

lemma net_acquire_Some:
  assumes inv: "alloc_inv a" and x: "net_fresh a x" and acq: "net_acquire sha a x = Some (g, a')"
  shows "alloc_inv a' \<and> guest_univ a' = guest_univ a \<and> g \<in> guest_univ a \<and> g \<notin> guest_taken a \<and>
    guest_taken a' = insert g (guest_taken a) \<and> a_byID a' = (a_byID a)(x := a_byID a' x)"
proof -
  obtain ident where A: "Acquire sha a x = (Inr ident, a')" and g: "To4 (GuestIP ident) = Some g"
    using acq by (auto simp: net_acquire_def split: prod.splits sum.splits)
  note D = alloc_invD [OF inv]
  have x0: "a_byID a x = None" using x by (simp add: net_fresh_def)
  from x0 A show ?thesis
  proof (cases rule: Acquire_cases)
    case (granted i b id')
    have b: "b < a_count a"
      using granted(2) D(1) by (simp add: u32_rotate_less geometry_ok_def)
    have gb: "g = block_guest a b" using g granted(4,5) by simp
    have xi: "a_idIndex a x = None" using x0 D(2) by blast
    have nb: "b \<notin> ran (a_idIndex a)" using granted(3) D(3) by simp
    have bg: "block_guest a' = block_guest a" using granted(6) by (simp add: block_guest_def fun_eq_iff)
    have "g \<notin> guest_taken a"
    proof
      assume "g \<in> guest_taken a"
      then obtain c where c: "c \<in> ran (a_idIndex a)" "block_guest a b = block_guest a c"
        unfolding guest_taken_def gb by blast
      have "b = c" by (rule block_guest_inj [OF D(1) b D(4) [OF c(1)] c(2)])
      with c(1) nb show False by simp
    qed
    moreover have "guest_taken a' = insert g (guest_taken a)"
      unfolding guest_taken_def bg using granted(6) xi gb by simp
    moreover have "guest_univ a' = guest_univ a" unfolding guest_univ_def bg using granted(6) by simp
    moreover have "g \<in> guest_univ a" using gb b by (simp add: guest_univ_def)
    moreover have "alloc_inv a'" using inv A by (rule Acquire_inv)
    ultimately show ?thesis using granted(6) by simp
  qed simp
qed

lemma net_acquire_None:
  assumes inv: "alloc_inv a" and x: "net_fresh a x" and acq: "net_acquire sha a x = None"
  shows "guest_taken a = guest_univ a"
proof -
  have x0: "a_byID a x = None" using x by (simp add: net_fresh_def)
  obtain r a' where A: "Acquire sha a x = (r, a')" by fastforce
  from x0 A have "\<exists>e. r = Inl e"
  proof (cases rule: Acquire_cases)
    case (granted i b ident)
    then show ?thesis using acq A by (simp add: net_acquire_def)
  qed simp
  then obtain e where "r = Inl e" ..
  with A have "\<forall>b < a_count a. a_inUse a b"
    using Acquire_exhausted_full [OF inv x0] by simp
  then have "ran (a_idIndex a) = {b. b < a_count a}"
    using alloc_invD(3,4) [OF inv] by auto
  then show ?thesis by (simp add: guest_taken_def guest_univ_def)
qed

interpretation net_pool: resource_pool alloc_inv guest_univ guest_taken net_fresh "net_acquire sha" for sha
proof unfold_locales
  fix s :: Allocator and k :: string and r :: uint32 and s' :: Allocator and k'
  show "finite (guest_univ s)" by simp
  show "guest_taken s \<subseteq> guest_univ s" if "alloc_inv s"
    using alloc_invD(4) [OF that] by (auto simp: guest_taken_def guest_univ_def)
  assume a: "alloc_inv s" "net_fresh s k"
  show "guest_taken s = guest_univ s" if "net_acquire sha s k = None"
    using a that by (rule net_acquire_None)
  assume "net_acquire sha s k = Some (r, s')"
  note N = net_acquire_Some [OF a this]
  show "alloc_inv s' \<and> guest_univ s' = guest_univ s \<and> r \<in> guest_univ s \<and> r \<notin> guest_taken s \<and>
    guest_taken s' = insert r (guest_taken s)" using N by blast
  have "a_byID s' k' = a_byID s k'" if "k' \<noteq> k" using N that by (metis fun_upd_apply)
  then show "net_fresh s' k'" if "net_fresh s k'" "k' \<noteq> k"
    using that by (simp add: net_fresh_def)
qed

section \<open>Derived names are well formed\<close>

text \<open>
  Bit 1 of the first octet marks the address as locally administered, bit 0 clear marks it as
  unicast; the other six bits are those of the hash.
\<close>

lemma mac_first_octet_bits:
  "bit (mac_first_octet b) 1 \<and> \<not> bit (mac_first_octet b) 0 \<and>
   (\<forall>k. 2 \<le> k \<longrightarrow> bit (mac_first_octet b) k = bit b k)"
  by (auto simp: mac_first_octet_def bit_simps bit_2_iff bit_1_iff dest: bit_imp_le_length)

lemma NewAllocator_prefix:
  "NewAllocator parse cidr p = Inr a \<Longrightarrow> a_prefix a = p \<and> p \<noteq> [] \<and> length p + 8 \<le> maxIfaceName"
  by (auto simp: NewAllocator_def split: option.splits prod.splits if_splits)

lemma alloc_step_prefix: "alloc_step sha a a' \<Longrightarrow> a_prefix a' = a_prefix a"
  by (auto simp: Acquire_def MarkInUse_def Release_def Let_def
      elim!: alloc_step.cases split: option.splits if_splits)

lemma alloc_steps_prefix: "(alloc_step sha)\<^sup>*\<^sup>* a a' \<Longrightarrow> a_prefix a' = a_prefix a"
  by (induction rule: rtranclp_induct) (auto dest: alloc_step_prefix)

lemma tapName_length: "length (tapName sha a x) \<le> length (a_prefix a) + 8"
  by (simp add: tapName_def)

section \<open>Properties\<close>

text \<open>The documented contract of the parser: the address it returns is the first of its block.\<close>

definition parses_network :: "cidr_parser \<Rightarrow> string \<Rightarrow> bool" where
  "parses_network parse cidr \<longleftrightarrow>
     (case parse cidr of
        Some (IPv4 ip, ones, bits) \<Rightarrow> bits = 32 \<longrightarrow> ones \<le> 32 \<and> 2 ^ (32 - ones) dvd unat ip
      | _ \<Rightarrow> True)"

lemma dvd_below_fits:
  assumes "(d :: nat) dvd n" and "d dvd m" and "n < m"
  shows "n + d \<le> m"
proof -
  from assms obtain k l where "n = d * k" "m = d * l" by (auto elim!: dvdE)
  with assms(3) have "d * Suc k \<le> d * l" by (intro mult_le_mono2) (auto simp: Suc_le_eq)
  with \<open>n = d * k\<close> \<open>m = d * l\<close> show ?thesis by simp
qed

lemma parses_networkD:
  assumes "parses_network parse cidr" and "parse cidr = Some (IPv4 ip, ones, 32)"
  shows "unat ip + 2 ^ (32 - ones) \<le> 2 ^ 32"
proof (rule dvd_below_fits)
  show "2 ^ (32 - ones) dvd unat ip" using assms by (simp add: parses_network_def)
  show "(2::nat) ^ (32 - ones) dvd 2 ^ 32" by (rule le_imp_power_dvd) simp
  show "unat ip < 2 ^ 32" by (rule unat_u32_less)
qed

lemma reachable_inv:
  assumes "parses_network parse cidr" and "NewAllocator parse cidr p = Inr a0"
    and "(alloc_step sha)\<^sup>*\<^sup>* a0 a"
  shows "alloc_inv a"
  using assms by (blast intro: alloc_steps_inv NewAllocator_inv parses_networkD)

text \<open>
  C6: In every state an allocator can reach through acquires, re-adoptions and releases, two
  different live sandboxes hold different guest addresses, the reverse lookup of a live
  sandbox's address finds that sandbox's tap whatever the map iteration order, and no block is
  leaked: the blocks in use are exactly those of live sandboxes.
\<close>

theorem net_reachable_exclusive:
  assumes "parses_network parse cidr" and "NewAllocator parse cidr p = Inr a0"
    and "(alloc_step sha)\<^sup>*\<^sup>* a0 a" and "set order = dom (a_byID a)"
    and "a_byID a x = Some i"
  shows "(\<forall>y j. a_byID a y = Some j \<and> y \<noteq> x \<longrightarrow> GuestIP j \<noteq> GuestIP i) \<and>
    TapForGuestIP a order (GuestIP i) = TapName i \<and>
    {b. a_inUse a b} = ran (a_idIndex a) \<and> dom (a_idIndex a) = dom (a_byID a)"
proof -
  have inv: "alloc_inv a" using assms(1-3) by (rule reachable_inv)
  note D = alloc_invD [OF inv]
  obtain b where "a_idIndex a x = Some b" using assms(5) D(2) by blast
  then have "GuestIP i = Some (IPv4 (block_guest a b))" using D(6) assms(5) by fastforce
  then have "TapForGuestIP a order (GuestIP i) = TapName i"
    using TapForGuestIP_live [OF inv assms(4,5)] by simp
  moreover have "\<forall>y j. a_byID a y = Some j \<and> y \<noteq> x \<longrightarrow> GuestIP j \<noteq> GuestIP i"
    using guests_distinct [OF inv _ assms(5)] by blast
  ultimately show ?thesis using D(2,3) by auto
qed

definition demo_sha :: sha256_fun where
  "demo_sha x = replicate 32 7"

definition demo_parse :: cidr_parser where
  "demo_parse s = Some (IPv4 0x0A000000, 29, 32)"

definition demo_alloc :: Allocator where
  "demo_alloc = \<lparr>a_cidr = ''10.0.0.0/29'', a_base = 0x0A000000, a_count = 2, a_prefix = ''mt'',
     a_next = 0, a_byID = Map.empty, a_inUse = (\<lambda>_. False), a_idIndex = Map.empty\<rparr>"

lemma demo_NewAllocator: "NewAllocator demo_parse ''10.0.0.0/29'' ''mt'' = Inr demo_alloc"
  by (simp add: NewAllocator_def demo_parse_def demo_alloc_def maxIfaceName_def push_bit_eq_mult)

lemma demo_parses: "parses_network demo_parse ''10.0.0.0/29''"
  by (simp add: parses_network_def demo_parse_def)

definition demo_two :: Allocator where
  "demo_two = snd (Acquire demo_sha (snd (Acquire demo_sha demo_alloc ''x'')) ''y'')"

lemma demo_reach: "(alloc_step demo_sha)\<^sup>*\<^sup>* demo_alloc demo_two"
  unfolding demo_two_def
  by (rule rtranclp.rtrancl_into_rtrancl [OF r_into_rtranclp]; rule step_acquire; rule prod.collapse [symmetric])

lemma u32_upto_2: "u32_upto 2 = [0, 1]"
proof -
  have "[0..<2] = [0, Suc 0]" by (simp add: upt_rec)
  then show ?thesis by (simp add: u32_upto_def)
qed

lemmas demo_simps = demo_two_def demo_alloc_def demo_sha_def Acquire_def identityForBlock_def
  Let_def u32_upto_2

lemma demo_two_ids:
  "map_option GuestIP (a_byID demo_two ''x'') = Some (Some (IPv4 0x0A000002))"
  "map_option GuestIP (a_byID demo_two ''y'') = Some (Some (IPv4 0x0A000006))"
  "dom (a_byID demo_two) = {''x'', ''y''}"
  by (auto simp: demo_simps)

theorem net_reachable_exclusive_witness:
  "\<exists>i. a_byID demo_two ''x'' = Some i \<and> a_byID demo_two ''y'' \<noteq> None \<and>
     (\<forall>y j. a_byID demo_two y = Some j \<and> y \<noteq> ''x'' \<longrightarrow> GuestIP j \<noteq> GuestIP i) \<and>
     TapForGuestIP demo_two [''y'', ''x''] (GuestIP i) = TapName i \<and>
     {b. a_inUse demo_two b} = ran (a_idIndex demo_two) \<and> dom (a_idIndex demo_two) = dom (a_byID demo_two)"
proof -
  obtain i where i: "a_byID demo_two ''x'' = Some i" using demo_two_ids(1) by auto
  moreover have "set [''y'', ''x''] = dom (a_byID demo_two)" using demo_two_ids(3) by auto
  ultimately show ?thesis
    using net_reachable_exclusive [OF demo_parses demo_NewAllocator demo_reach _ i, of "[''y'', ''x'']"]
      demo_two_ids(2) by auto
qed

lemma card_u32_less: "card {b :: uint32. b < n} = unat n"
proof -
  have "distinct (u32_upto n)"
    unfolding u32_upto_def distinct_map
  proof (intro conjI inj_onI)
    fix i j assume "i \<in> set [0..<unat n]" "j \<in> set [0..<unat n]"
      and e: "(word_of_nat i :: uint32) = word_of_nat j"
    then have "i < 2 ^ 32" "j < 2 ^ 32" using unat_u32_less [of n] by auto
    then show "i = j" using e unat_u32_of_nat by metis
  qed simp
  then have "card (set (u32_upto n)) = unat n" by (simp only: distinct_card) (simp add: u32_upto_def)
  then show ?thesis by (simp add: set_u32_upto)
qed

lemma card_guest_univ:
  assumes "geometry_ok a"
  shows "card (guest_univ a) = unat (a_count a)"
proof -
  have "inj_on (block_guest a) {b. b < a_count a}"
    using block_guest_inj [OF assms] by (intro inj_onI) simp
  then show ?thesis by (simp add: guest_univ_def card_image card_u32_less)
qed

lemma NewAllocator_fresh:
  assumes "NewAllocator parse cidr p = Inr a"
  shows "guest_taken a = {}" and "net_fresh a x"
    and "parse cidr = Some (IPv4 ip, ones, 32) \<Longrightarrow> unat (a_count a) = 2 ^ (30 - ones)"
  using assms unat_push_bit_count [of ones]
  by (auto simp: NewAllocator_def guest_taken_def net_fresh_def
      split: option.splits prod.splits if_splits elim!: To4.elims)

text \<open>
  The capacity of a node's subnet is exact. A /n subnet serves any \<open>2 ^ (30 - n)\<close> different
  sandboxes, each with a guest address of its own inside the subnet, and it refuses one more;
  a refusal never happens earlier.
\<close>

theorem net_capacity:
  assumes "parses_network parse cidr" and "NewAllocator parse cidr p = Inr a"
    and "parse cidr = Some (IPv4 ip, ones, 32)" and "distinct ids"
  shows "if length ids \<le> 2 ^ (30 - ones)
    then \<exists>gs a'. acquire_run (net_acquire sha) a ids = Some (gs, a') \<and> distinct gs \<and>
      length gs = length ids \<and> set gs \<subseteq> guest_univ a \<and> guest_taken a' = set gs
    else acquire_run (net_acquire sha) a ids = None"
proof -
  have inv: "alloc_inv a" using assms(2) parses_networkD [OF assms(1)] by (rule NewAllocator_inv)
  have fr: "\<forall>x \<in> set ids. net_fresh a x" using NewAllocator_fresh(2) [OF assms(2)] by simp
  note t = NewAllocator_fresh(1) [OF assms(2)]
  have c: "card (guest_univ a) = 2 ^ (30 - ones)"
    using card_guest_univ [OF alloc_invD(1) [OF inv]] NewAllocator_fresh(3) [OF assms(2,3)] by simp
  note X = net_pool.run_exclusive [OF inv assms(4) fr]
  show ?thesis
  proof (cases "length ids \<le> 2 ^ (30 - ones)")
    case True
    then obtain gs a' where "acquire_run (net_acquire sha) a ids = Some (gs, a')"
      using net_pool.run_succeeds [OF inv assms(4) fr] c t by (metis Diff_empty)
    with X [OF this] True t show ?thesis by auto
  next
    case False
    have "acquire_run (net_acquire sha) a ids = None"
    proof (cases "acquire_run (net_acquire sha) a ids")
      case (Some q)
      then obtain gs a' where run: "acquire_run (net_acquire sha) a ids = Some (gs, a')" by (cases q) auto
      note x = X [OF run]
      have "card (set gs) \<le> card (guest_univ a)" using x by (intro card_mono) auto
      moreover have "card (set gs) = length ids" using x by (simp add: distinct_card)
      ultimately show ?thesis using False c by simp
    qed
    then show ?thesis using False by simp
  qed
qed

theorem net_capacity_witness:
  "(\<exists>gs a'. acquire_run (net_acquire demo_sha) demo_alloc [''x'', ''y''] = Some (gs, a') \<and> distinct gs \<and>
      length gs = 2 \<and> set gs \<subseteq> guest_univ demo_alloc \<and> guest_taken a' = set gs) \<and>
   acquire_run (net_acquire demo_sha) demo_alloc [''x'', ''y'', ''z''] = None"
proof -
  have p: "demo_parse ''10.0.0.0/29'' = Some (IPv4 0x0A000000, 29, 32)" by (simp add: demo_parse_def)
  note N = net_capacity [OF demo_parses demo_NewAllocator p, where sha = demo_sha]
  show ?thesis using N [of "[''x'', ''y'']"] N [of "[''x'', ''y'', ''z'']"]
    by (simp del: acquire_run.simps add: numeral_2_eq_2)
qed

text \<open>
  In every reachable state, the identity an acquire returns has an interface name within the
  kernel limit that starts with the configured prefix, and a MAC of six colon separated octets
  whose first octet is the hash's with the locally administered bit set and the multicast bit
  cleared; host and guest are the two usable addresses of one /30 block inside the subnet.
\<close>

theorem net_identity_wellformed:
  assumes "parses_network parse cidr" and "NewAllocator parse cidr p = Inr a0"
    and "(alloc_step sha)\<^sup>*\<^sup>* a0 a" and "a_byID a x = None"
    and "Acquire sha a x = (Inr ident, a')"
  shows "length (TapName ident) \<le> maxIfaceName \<and> take (length p) (TapName ident) = p \<and>
    length (GuestMAC ident) = 17 \<and>
    take 2 (GuestMAC ident) = hex_byte (mac_first_octet (sha x ! 0)) \<and>
    bit (mac_first_octet (sha x ! 0)) 1 \<and> \<not> bit (mac_first_octet (sha x ! 0)) 0 \<and>
    (\<exists>b < a_count a. HostIP ident = Some (IPv4 (a_base a + 4 * b + 1)) \<and>
       GuestIP ident = Some (IPv4 (a_base a + 4 * b + 2)) \<and> \<not> a_inUse a b \<and> a_inUse a' b)"
proof -
  have inv: "alloc_inv a" using assms(1-3) by (rule reachable_inv)
  have pre: "a_prefix a = p" "length p + 8 \<le> maxIfaceName"
    using alloc_steps_prefix [OF assms(3)] NewAllocator_prefix [OF assms(2)] by auto
  from assms(4,5) show ?thesis
  proof (cases rule: Acquire_cases)
    case (granted i b id')
    have "b < a_count a"
      using granted(2) alloc_invD(1) [OF inv] by (simp add: u32_rotate_less geometry_ok_def)
    moreover have "length (TapName ident) \<le> maxIfaceName \<and> take (length p) (TapName ident) = p"
      using granted pre tapName_length [of sha a x] by (simp add: identityForBlock_def tapName_def Let_def)
    ultimately show ?thesis using granted mac_first_octet_bits [of "sha x ! 0"]
      by (auto simp: identityForBlock_def deriveMAC_def Let_def)
  qed simp
qed

theorem net_identity_wellformed_witness:
  "\<exists>ident a'. Acquire demo_sha demo_alloc ''x'' = (Inr ident, a') \<and>
    length (TapName ident) \<le> maxIfaceName \<and> take (length ''mt'') (TapName ident) = ''mt'' \<and>
    length (GuestMAC ident) = 17 \<and>
    take 2 (GuestMAC ident) = hex_byte (mac_first_octet 7) \<and>
    (\<exists>b < 2. HostIP ident = Some (IPv4 (0x0A000000 + 4 * b + 1)) \<and>
       GuestIP ident = Some (IPv4 (0x0A000000 + 4 * b + 2)) \<and> a_inUse a' b)"
proof -
  obtain ident a' where A: "Acquire demo_sha demo_alloc ''x'' = (Inr ident, a')"
    by (auto simp: demo_simps)
  have x: "a_byID demo_alloc ''x'' = None" by (simp add: demo_alloc_def)
  have d: "demo_sha ''x'' ! 0 = 7" "a_count demo_alloc = 2" "a_base demo_alloc = 0x0A000000"
    by (simp_all add: demo_sha_def demo_alloc_def)
  show ?thesis
    using net_identity_wellformed [OF demo_parses demo_NewAllocator rtranclp.rtrancl_refl x A] A
    unfolding d by blast
qed

end
