(* ===== verification/Json_Text.thy ===== *)
theory Json_Text
  imports Mitos_Prelude
begin

text \<open>
  Decimal printing of integers and the unique readability of JSON text: an encoder is
  \<open>delimited\<close> when the text it prints determines the value and where the text ends, whatever
  follows. Encodings put together from such pieces determine all their parts.
\<close>

section \<open>Decimal integers\<close>

definition dec_digit :: "nat \<Rightarrow> char" where
  "dec_digit n = char_of (48 + n mod 10)"

fun dec_nat :: "nat \<Rightarrow> string" where
  "dec_nat n = (if n < 10 then [dec_digit n] else dec_nat (n div 10) @ [dec_digit n])"

declare dec_nat.simps [simp del]

definition dec_int :: "int \<Rightarrow> string" where
  "dec_int i = (if i < 0 then CHR ''-'' # dec_nat (nat (- i)) else dec_nat (nat i))"

definition is_digit :: "char \<Rightarrow> bool" where
  "is_digit c \<longleftrightarrow> of_char c \<ge> (48 :: nat) \<and> of_char c \<le> (57 :: nat)"

definition digits_value :: "string \<Rightarrow> nat" where
  "digits_value s = foldl (\<lambda>v c. 10 * v + (of_char c - 48)) 0 s"

lemma of_char_dec_digit: "(of_char (dec_digit n) :: nat) = 48 + n mod 10"
proof -
  have "48 + n mod 10 < (256 :: nat)" by (rule less_trans [of _ 58]) simp_all
  then show ?thesis by (simp add: dec_digit_def of_char_of take_bit_eq_mod)
qed

lemma is_digit_dec_digit [simp]: "is_digit (dec_digit n)"
  using mod_less_divisor [of 10 n] by (simp add: is_digit_def of_char_dec_digit)

lemma digits_dec_nat: "list_all is_digit (dec_nat n) \<and> dec_nat n \<noteq> [] \<and> digits_value (dec_nat n) = n"
proof (induction n rule: dec_nat.induct)
  case (1 n)
  show ?case
  proof (cases "n < 10")
    case True
    then show ?thesis by (simp add: dec_nat.simps [of n] digits_value_def of_char_dec_digit)
  next
    case False
    with 1 show ?thesis by (simp add: dec_nat.simps [of n] digits_value_def of_char_dec_digit)
  qed
qed

text \<open>A run of digits ends where the first other character stands.\<close>

lemma digits_split:
  assumes "list_all is_digit ds" "list_all is_digit es" "\<not> is_digit c" "\<not> is_digit d"
    and "ds @ c # r = es @ d # q"
  shows "ds = es \<and> c = d \<and> r = q"
proof -
  have t: "takeWhile is_digit (xs @ x # ys) = xs" if "list_all is_digit xs" "\<not> is_digit x" for xs x ys
    using that by (induction xs) simp_all
  have "ds = es" using t [OF assms(1,3), of r] t [OF assms(2,4), of q] assms(5) by simp
  with assms(5) show ?thesis by simp
qed

lemma not_digit [simp]: "\<not> is_digit CHR ''-''" "\<not> is_digit CHR '',''" "\<not> is_digit (CHR 0x7D)" "\<not> is_digit (CHR 0x5D)"
  by (simp_all add: is_digit_def)

lemma dec_int_split:
  assumes "dec_int i @ c # r = dec_int j @ d # q" and "\<not> is_digit c" "\<not> is_digit d"
  shows "i = j \<and> c = d \<and> r = q"
proof -
  have ne: "dec_nat n \<noteq> []" and dg: "list_all is_digit (dec_nat n)" and v: "digits_value (dec_nat n) = n" for n
    using digits_dec_nat by auto
  have hd: "is_digit (hd (dec_nat n))" for n using ne [of n] dg [of n] by (cases "dec_nat n") auto
  have nm: "dec_nat n @ x \<noteq> CHR ''-'' # y" for n x y
    using hd [of n] ne [of n] by (cases "dec_nat n") auto
  have same: "m = n \<and> c = d \<and> r = q" if "dec_nat m @ c # r = dec_nat n @ d # q" for m n
    using digits_split [OF dg dg assms(2,3) that] v by metis
  show ?thesis
  proof (cases "i < 0"; cases "j < 0")
    assume ij: "i < 0" "j < 0"
    then have "dec_nat (nat (- i)) @ c # r = dec_nat (nat (- j)) @ d # q" using assms(1) by (simp add: dec_int_def)
    from same [OF this] ij show ?thesis by (simp add: eq_nat_nat_iff)
  next
    assume ij: "\<not> i < 0" "\<not> j < 0"
    then have "dec_nat (nat i) @ c # r = dec_nat (nat j) @ d # q" using assms(1) by (simp add: dec_int_def)
    from same [OF this] ij show ?thesis by (simp add: eq_nat_nat_iff)
  next
    assume "i < 0" "\<not> j < 0"
    then have "dec_nat (nat j) @ (d # q) = CHR ''-'' # (dec_nat (nat (- i)) @ c # r)"
      using assms(1) by (simp add: dec_int_def)
    then show ?thesis using nm by blast
  next
    assume "\<not> i < 0" "j < 0"
    then have "dec_nat (nat i) @ (c # r) = CHR ''-'' # (dec_nat (nat (- j)) @ d # q)"
      using assms(1) by (simp add: dec_int_def)
    then show ?thesis using nm by blast
  qed
qed

section \<open>Delimited encoders\<close>

definition delimited :: "('a \<Rightarrow> string) \<Rightarrow> bool" where
  "delimited e \<longleftrightarrow> (\<forall>x y r q. e x @ r = e y @ q \<longrightarrow> x = y \<and> r = q)"

lemma delimitedI: "(\<And>x y r q. e x @ r = e y @ q \<Longrightarrow> x = y \<and> r = q) \<Longrightarrow> delimited e"
  unfolding delimited_def by blast

lemma delimitedD: "delimited e \<Longrightarrow> e x @ r = e y @ q \<Longrightarrow> x = y \<and> r = q"
  unfolding delimited_def by blast

lemma delimited_int:
  assumes "\<not> is_digit c"
  shows "delimited (\<lambda>i. dec_int i @ [c])"
proof (rule delimitedI)
  fix i j r q
  assume "(dec_int i @ [c]) @ r = (dec_int j @ [c]) @ q"
  then have "dec_int i @ c # r = dec_int j @ c # q" by simp
  from dec_int_split [OF this assms assms] show "i = j \<and> r = q" by blast
qed

lemma delimited_pair:
  assumes "delimited e" "delimited f"
  shows "delimited (\<lambda>(x, y). e x @ f y)"
proof (rule delimitedI)
  fix p q r s
  assume "(case p of (x, y) \<Rightarrow> e x @ f y) @ r = (case q of (x, y) \<Rightarrow> e x @ f y) @ s"
  then have "e (fst p) @ f (snd p) @ r = e (fst q) @ f (snd q) @ s" by (simp add: case_prod_beta)
  from delimitedD [OF assms(1) this] have "fst p = fst q" "f (snd p) @ r = f (snd q) @ s" by auto
  with delimitedD [OF assms(2)] show "p = q \<and> r = s" by (metis prod.expand)
qed

lemma delimited_fixed: "delimited e \<Longrightarrow> delimited (\<lambda>x. s @ e x)"
  by (rule delimitedI) (simp add: delimitedD)

lemma delimited_after: "delimited e \<Longrightarrow> delimited (\<lambda>x. e x @ s)"
  by (rule delimitedI) (metis append_assoc delimitedD same_append_eq)

lemma delimited_via:
  assumes "delimited e" "inj g"
  shows "delimited (\<lambda>x. e (g x))"
  by (rule delimitedI) (metis assms delimitedD injD)

text \<open>A comma separated list closed by a bracket, whose items never start with the bracket.\<close>

fun json_items :: "('a \<Rightarrow> string) \<Rightarrow> 'a list \<Rightarrow> string" where
  "json_items e [] = []"
| "json_items e [x] = e x"
| "json_items e (x # y # ys) = e x @ '','' @ json_items e (y # ys)"

lemma json_items_tail:
  "json_items e (x # xs) = e x @ concat (map (\<lambda>y. '','' @ e y) xs)"
  by (induction xs arbitrary: x) simp_all

lemma delimited_items:
  assumes e: "\<And>x y r q. (hd r = CHR '','' \<or> hd r = CHR 0x5D) \<and> (hd q = CHR '','' \<or> hd q = CHR 0x5D) \<and> r \<noteq> [] \<and> q \<noteq> [] \<Longrightarrow>
      e x @ r = e y @ q \<Longrightarrow> x = y \<and> r = q"
    and ne: "\<And>x. e x \<noteq> [] \<and> hd (e x) \<noteq> CHR 0x5D"
  shows "delimited (\<lambda>xs. json_items e xs @ [CHR 0x5D])"
proof -
  have tail: "xs = ys \<and> r = q"
    if "concat (map (\<lambda>y. '','' @ e y) xs) @ CHR 0x5D # r = concat (map (\<lambda>y. '','' @ e y) ys) @ CHR 0x5D # q" for xs ys r q
    using that
  proof (induction xs arbitrary: ys)
    case Nil
    then show ?case by (cases ys) auto
  next
    case (Cons x xs)
    then obtain y zs where ys: "ys = y # zs" by (cases ys) auto
    let ?t = "\<lambda>as b. concat (map (\<lambda>y. '','' @ e y) as) @ CHR 0x5D # b"
    have h: "(hd (?t as b) = CHR '','' \<or> hd (?t as b) = CHR 0x5D) \<and> ?t as b \<noteq> []" for as b
      by (cases as) auto
    have "e x @ ?t xs r = e y @ ?t zs q" using Cons.prems ys by simp
    then have "x = y \<and> ?t xs r = ?t zs q" using e h by blast
    with Cons.IH ys show ?case by blast
  qed
  show ?thesis
    unfolding delimited_def
  proof (intro allI impI)
    fix xs ys r q
    assume a: "(json_items e xs @ [CHR 0x5D]) @ r = (json_items e ys @ [CHR 0x5D]) @ q"
    show "xs = ys \<and> r = q"
    proof (cases xs)
      case Nil
      then show ?thesis using a ne by (cases ys) (auto simp: json_items_tail, (metis append_eq_Cons_conv list.sel(1))+)
    next
      case (Cons x xs')
      show ?thesis
      proof (cases ys)
        case Nil
        then show ?thesis using a Cons ne [of x] by (auto simp: json_items_tail) (metis append_eq_Cons_conv list.sel(1))+
      next
        case (Cons y ys')
        let ?t = "\<lambda>as b. concat (map (\<lambda>y. '','' @ e y) as) @ CHR 0x5D # b"
        have h: "(hd (?t as b) = CHR '','' \<or> hd (?t as b) = CHR 0x5D) \<and> ?t as b \<noteq> []" for as b
          by (cases as) auto
        have "e x @ ?t xs' r = e y @ ?t ys' q" using a Cons \<open>xs = x # xs'\<close> by (simp add: json_items_tail)
        then have "x = y \<and> ?t xs' r = ?t ys' q" using e h by blast
        with tail \<open>xs = x # xs'\<close> Cons show ?thesis by blast
      qed
    qed
  qed
qed

end
