(* ===== verification/Net_Address.thy ===== *)
theory Net_Address
  imports Net_Identity Go_Text
begin

text \<open>
  The address functions of Go's \<^verbatim>\<open>net\<close> package the networking code uses: parsing and printing of
  addresses, CIDR blocks and host and port pairs. An address of sixteen bytes with the IPv4
  prefix is the same address as its four bytes and is written \<open>IPv4\<close>.
\<close>

unbundle bit_operations_syntax

section \<open>Parsing addresses\<close>

text \<open>A field of a dotted address: decimal, at most 255, without leading zeros.\<close>

definition parse_octet :: "string \<Rightarrow> nat option" where
  "parse_octet s =
     (if s = [] \<or> \<not> list_all is_digit s \<or> (length s > 1 \<and> hd s = CHR ''0'') \<or> digits_value s > 255 then None
      else Some (digits_value s))"

definition parse_v4_fields :: "string \<Rightarrow> nat list option" where
  "parse_v4_fields s =
     (case map parse_octet (Split s (CHR ''.'')) of
        [Some a, Some b, Some c, Some d] \<Rightarrow> Some [a, b, c, d]
      | _ \<Rightarrow> None)"

definition hex_value :: "string \<Rightarrow> nat" where
  "hex_value s = foldl (\<lambda>a c. 16 * a + the (from_hex c)) 0 s"

text \<open>
  The loop of the IPv6 parser: the groups so far, the position of the ellipsis, and the text that
  is left when eight groups are read or the text ends.
\<close>

function v6_groups :: "nat list \<Rightarrow> nat option \<Rightarrow> string \<Rightarrow> (nat list \<times> nat option \<times> string) option" where
  "v6_groups gs el s =
     (if length gs \<ge> 8 then Some (gs, el, s)
      else let ds = takeWhile (\<lambda>c. from_hex c \<noteq> None) s; s1 = drop (length ds) s
      in if ds = [] \<or> length ds > 4 then None
         else if s1 \<noteq> [] \<and> hd s1 = CHR ''.'' then
           (if el = None \<and> length gs \<noteq> 6 \<or> length gs + 2 > 8 then None
            else case parse_v4_fields s of
                   None \<Rightarrow> None
                 | Some bs \<Rightarrow> Some (gs @ [bs ! 0 * 256 + bs ! 1, bs ! 2 * 256 + bs ! 3], el, []))
         else let gs1 = gs @ [hex_value ds]
              in if s1 = [] then Some (gs1, el, [])
                 else if hd s1 \<noteq> CHR '':'' \<or> length s1 = 1 then None
                 else if s1 ! 1 = CHR '':'' then
                   (if el \<noteq> None then None
                    else if length s1 = 2 then Some (gs1, Some (length gs1), [])
                    else v6_groups gs1 (Some (length gs1)) (drop 2 s1))
                 else v6_groups gs1 el (tl s1))"
  by pat_completeness auto
termination
  by (relation "measure (\<lambda>(gs, el, s). 8 - length gs)") auto

declare v6_groups.simps [simp del]

definition parse_v6 :: "string \<Rightarrow> nat list option" where
  "parse_v6 s =
     (let lead = HasPrefix s ''::''; s1 = (if lead then drop 2 s else s)
      in if lead \<and> s1 = [] then Some (replicate 8 0)
         else case v6_groups [] (if lead then Some 0 else None) s1 of
                None \<Rightarrow> None
              | Some (gs, el, rest) \<Rightarrow>
                  if rest \<noteq> [] then None
                  else if length gs < 8
                  then (case el of None \<Rightarrow> None | Some e \<Rightarrow> Some (take e gs @ replicate (8 - length gs) 0 @ drop e gs))
                  else if el \<noteq> None then None else Some gs)"

definition join_word :: "'a::len word \<Rightarrow> nat list \<Rightarrow> 'a word" where
  "join_word radix ds = foldl (\<lambda>w d. w * radix + word_of_nat d) 0 ds"

text \<open>The sixteen byte form of an IPv4 address.\<close>

definition mapped_v4 :: "uint32 \<Rightarrow> 128 word" where
  "mapped_v4 x = push_bit 32 0xFFFF OR ucast x"

definition norm_ip :: "128 word \<Rightarrow> net_ip" where
  "norm_ip w = (if drop_bit 32 w = 0xFFFF then IPv4 (ucast w) else IPv6 w)"

text \<open>An address and whether it was written as IPv4; an address with a zone is refused by the callers.\<close>

definition ParseAddr :: "string \<Rightarrow> (nat \<times> 128 word) option" where
  "ParseAddr s =
     (if CHR ''%'' \<in> set s then None
      else case find (\<lambda>c. c = CHR ''.'' \<or> c = CHR '':'') s of
             None \<Rightarrow> None
           | Some c \<Rightarrow>
               if c = CHR ''.'' then map_option (\<lambda>bs. (32, mapped_v4 (join_word 256 bs))) (parse_v4_fields s)
               else map_option (\<lambda>gs. (128, join_word 65536 gs)) (parse_v6 s))"

definition ParseIP :: "string \<Rightarrow> net_ip option" where
  "ParseIP s = map_option (\<lambda>(bits, w). norm_ip w) (ParseAddr s)"

section \<open>CIDR blocks\<close>

record IPNet =
  net_IP :: net_ip
  net_ones :: nat
  net_bits :: nat

definition parse_prefix_len :: "string \<Rightarrow> nat option" where
  "parse_prefix_len s = (if s = [] \<or> \<not> list_all is_digit s \<or> digits_value s \<ge> 0xFFFFFF then None else Some (digits_value s))"

text \<open>The leading \<open>n\<close> bits of an address of \<open>bits\<close> bits, within its sixteen bytes.\<close>

definition mask_word :: "nat \<Rightarrow> nat \<Rightarrow> 128 word \<Rightarrow> 128 word" where
  "mask_word bits n w = push_bit (bits - n) (drop_bit (bits - n) w)"

definition ParseCIDR :: "string \<Rightarrow> IPNet option" where
  "ParseCIDR s =
     (case Cut s (CHR ''/'') of
        None \<Rightarrow> None
      | Some (addr, len) \<Rightarrow>
          (case (ParseAddr addr, parse_prefix_len len) of
             (Some (bits, w), Some n) \<Rightarrow>
               if n > bits then None else Some \<lparr>net_IP = norm_ip (mask_word bits n w), net_ones = n, net_bits = bits\<rparr>
           | _ \<Rightarrow> None))"

text \<open>Whether an address lies in a block; a block of the IPv4 prefix is a block of IPv4 addresses.\<close>

definition as16 :: "net_ip \<Rightarrow> 128 word" where
  "as16 ip = (case ip of IPv4 x \<Rightarrow> mapped_v4 x | IPv6 w \<Rightarrow> w)"

definition block_ones :: "IPNet \<Rightarrow> nat" where
  "block_ones c = (if net_bits c = 32 then net_ones c + 96 else net_ones c)"

definition in_block :: "net_ip \<Rightarrow> IPNet \<Rightarrow> bool" where
  "in_block ip c \<longleftrightarrow> mask_word 128 (block_ones c) (as16 ip) = mask_word 128 (block_ones c) (as16 (net_IP c))"

section \<open>Printing\<close>

fun hex_nat :: "nat \<Rightarrow> string" where
  "hex_nat n = (if n < 16 then [hex_digit n] else hex_nat (n div 16) @ [hex_digit n])"

declare hex_nat.simps [simp del]

definition word_groups :: "128 word \<Rightarrow> nat list" where
  "word_groups w = map (\<lambda>i. unat (take_bit 16 (drop_bit (112 - 16 * i) w))) [0..<8]"

definition zero_run :: "nat list \<Rightarrow> nat \<Rightarrow> nat" where
  "zero_run gs i = length (takeWhile (\<lambda>g. g = 0) (drop i gs))"

text \<open>The first longest run of at least two zero groups.\<close>

definition ellipsis_at :: "nat list \<Rightarrow> (nat \<times> nat) option" where
  "ellipsis_at gs =
     foldl (\<lambda>best i. let l = zero_run gs i in if l \<ge> 2 \<and> (case best of None \<Rightarrow> True | Some (j, m) \<Rightarrow> l > m) then Some (i, l) else best)
       None [0..<8]"

definition v6_string :: "128 word \<Rightarrow> string" where
  "v6_string w =
     (let gs = word_groups w
      in case ellipsis_at gs of
           None \<Rightarrow> Join (map hex_nat gs) '':''
         | Some (i, l) \<Rightarrow> Join (map hex_nat (take i gs)) '':'' @ ''::'' @ Join (map hex_nat (drop (i + l) gs)) '':'')"

definition v4_string :: "uint32 \<Rightarrow> string" where
  "v4_string x = Join (map (\<lambda>i. dec_nat (unat (take_bit 8 (drop_bit (24 - 8 * i) x)))) [0..<4]) ''.''"

definition ip_String :: "net_ip option \<Rightarrow> string" where
  "ip_String ip = (case ip of None \<Rightarrow> ''<nil>'' | Some (IPv4 x) \<Rightarrow> v4_string x | Some (IPv6 w) \<Rightarrow> v6_string w)"

definition net_String :: "IPNet \<Rightarrow> string" where
  "net_String c =
     ip_String (Some (net_IP c)) @ ''/'' @
     dec_nat (case net_IP c of IPv4 x \<Rightarrow> (if net_bits c = 128 then net_ones c - 96 else net_ones c) | IPv6 w \<Rightarrow> net_ones c)"

section \<open>Host and port\<close>

definition last_index :: "char \<Rightarrow> string \<Rightarrow> nat option" where
  "last_index c s = (if c \<in> set s then Some (length s - 1 - length (takeWhile (\<lambda>x. x \<noteq> c) (rev s))) else None)"

definition first_index :: "char \<Rightarrow> string \<Rightarrow> nat option" where
  "first_index c s = (if c \<in> set s then Some (length (takeWhile (\<lambda>x. x \<noteq> c) s)) else None)"

definition SplitHostPort :: "string \<Rightarrow> (string \<times> string) option" where
  "SplitHostPort s =
     (case last_index (CHR '':'') s of
        None \<Rightarrow> None
      | Some i \<Rightarrow>
          (case (if hd s = CHR ''['' then
                   (case first_index (CHR '']'') s of
                      None \<Rightarrow> None
                    | Some e \<Rightarrow> if e + 1 = i then Some (take (e - 1) (tl s), 1, e + 1) else None)
                 else if CHR '':'' \<in> set (take i s) then None else Some (take i s, 0, 0)) of
             None \<Rightarrow> None
           | Some (host, j, k) \<Rightarrow>
               if CHR ''['' \<in> set (drop j s) \<or> CHR '']'' \<in> set (drop k s) then None
               else Some (host, drop (i + 1) s)))"

section \<open>Facts\<close>

lemma replicate_numeral: "replicate (numeral k) x = x # replicate (pred_numeral k) x"
  by (simp add: numeral_eq_Suc)

lemmas address_eval =
  ParseCIDR_def ParseIP_def ParseAddr_def parse_v6_def v6_groups.simps parse_v4_fields_def parse_octet_def parse_prefix_len_def
  hex_value_def from_hex_def HasPrefix_def Let_def join_word_def mapped_v4_def norm_ip_def mask_word_def replicate_numeral
  digits_value_def is_digit_def

lemma bit_mask_word: "bit (mask_word b n w) i \<longleftrightarrow> b - n \<le> i \<and> bit w i" for w :: "128 word"
  by (auto simp: mask_word_def bit_simps dest: bit_imp_le_length)

lemma bit_mapped_v4: "bit (mapped_v4 x) i \<longleftrightarrow> (if i < 32 then bit x i else i < 48)"
proof -
  have m: "mapped_v4 x = push_bit 32 (mask 16) OR ucast x"
    by (simp add: mapped_v4_def mask_numeral)
  show ?thesis
    unfolding m bit_or_iff bit_push_bit_iff bit_mask_iff bit_ucast_iff by (auto dest: bit_imp_le_length)
qed

lemma word_bits_eq: "u = v \<longleftrightarrow> (\<forall>i. bit u i = bit v i)" for u v :: "'a::len word"
  by (auto intro: bit_eqI)

lemma mask_word_eq_iff:
  "mask_word 128 m u = mask_word 128 m v \<longleftrightarrow> (\<forall>i. 128 - m \<le> i \<longrightarrow> bit u i = bit v i)" for u v :: "128 word"
  by (auto simp: word_bits_eq bit_mask_word)

lemma in_block_v4:
  assumes "net_bits c = 32" "net_ones c \<le> 32" "net_IP c = IPv4 y"
  shows "in_block (IPv4 x) c \<longleftrightarrow> drop_bit (32 - net_ones c) x = drop_bit (32 - net_ones c) y"
proof -
  let ?k = "32 - net_ones c"
  have "in_block (IPv4 x) c \<longleftrightarrow> (\<forall>i. ?k \<le> i \<longrightarrow> bit (mapped_v4 x) i = bit (mapped_v4 y) i)"
    using assms by (simp add: in_block_def block_ones_def as16_def mask_word_eq_iff)
  also have "\<dots> \<longleftrightarrow> (\<forall>i. ?k \<le> i \<and> i < 32 \<longrightarrow> bit x i = bit y i)"
    by (auto simp: bit_mapped_v4)
  also have "\<dots> \<longleftrightarrow> (\<forall>i. ?k \<le> i \<longrightarrow> bit x i = bit y i)"
    using bit_imp_le_length [of x] bit_imp_le_length [of y] by auto
  also have "\<dots> \<longleftrightarrow> drop_bit ?k x = drop_bit ?k y"
    unfolding word_bits_eq bit_drop_bit_eq o_def by (metis le_Suc_ex le_add1)
  finally show ?thesis .
qed

end
