(* ===== verification/Nft_Rules.thy ===== *)
theory Nft_Rules
  imports Net_Address
begin

text \<open>
  The nftables documents the networking code writes. A document is a list of statements and
  \<open>render\<close> prints it, one statement a line, as the code's format strings do; the quoting of
  \<^verbatim>\<open>%q\<close> is an argument. What \<^verbatim>\<open>nft\<close> and the kernel make of a document is not code of the
  repository: the evaluation of a chain is an argument \<open>eval\<close> with the documented behaviour
  \<open>evaluates_rules\<close>, and \<open>chain_verdict\<close> is a function that has it.
\<close>

section \<open>Statements\<close>

datatype nft_family = Inet | Ip

datatype nft_operand = OIP "net_ip option" | ONet IPNet | OText string

datatype nft_match =
    IpSaddr nft_operand
  | IpDaddr nft_operand
  | Ip6Saddr nft_operand
  | Ip6Daddr nft_operand
  | TcpDport int
  | UdpDport int
  | CtEstablishedRelated
  | IpDaddrTcpDportIn string
  | Ip6DaddrTcpDportIn string
  | NfprotoIpv6

datatype nft_action =
    Accept
  | Drop
  | CounterName string
  | Masquerade
  | DnatTo "net_ip option" int
  | IifnameVmap string

type_synonym nft_rule = "nft_match list \<times> nft_action"

datatype nft_stmt =
    AddTable nft_family string
  | AddBaseChain nft_family string string string string int
  | AddChain nft_family string string
  | AddMap nft_family string string
  | AddSet nft_family string string string
  | AddCounter nft_family string string
  | AddRule nft_family string string nft_rule
  | AddElement nft_family string string string string
  | FlushChain nft_family string string
  | DeleteTable nft_family string

section \<open>Text\<close>

fun operand_text :: "nft_operand \<Rightarrow> string" where
  "operand_text (OIP ip) = ip_String ip"
| "operand_text (ONet c) = net_String c"
| "operand_text (OText s) = s"

fun match_text :: "nft_match \<Rightarrow> string" where
  "match_text (IpSaddr x) = ''ip saddr '' @ operand_text x"
| "match_text (IpDaddr x) = ''ip daddr '' @ operand_text x"
| "match_text (Ip6Saddr x) = ''ip6 saddr '' @ operand_text x"
| "match_text (Ip6Daddr x) = ''ip6 daddr '' @ operand_text x"
| "match_text (TcpDport n) = ''tcp dport '' @ dec_int n"
| "match_text (UdpDport n) = ''udp dport '' @ dec_int n"
| "match_text CtEstablishedRelated = ''ct state established,related''"
| "match_text (IpDaddrTcpDportIn nm) = ''ip daddr . tcp dport @'' @ nm"
| "match_text (Ip6DaddrTcpDportIn nm) = ''ip6 daddr . tcp dport @'' @ nm"
| "match_text NfprotoIpv6 = ''meta nfproto ipv6''"

fun action_text :: "nft_action \<Rightarrow> string" where
  "action_text Accept = ''accept''"
| "action_text Drop = ''drop''"
| "action_text (CounterName n) = ''counter name '' @ n"
| "action_text Masquerade = ''masquerade''"
| "action_text (DnatTo ip port) = ''dnat to '' @ ip_String ip @ '':'' @ dec_int port"
| "action_text (IifnameVmap m) = ''iifname vmap @'' @ m"

fun family_text :: "nft_family \<Rightarrow> string" where
  "family_text Inet = ''inet''"
| "family_text Ip = ''ip''"

fun stmt_text :: "(string \<Rightarrow> string) \<Rightarrow> nft_stmt \<Rightarrow> string" where
  "stmt_text quote (AddTable f t) = ''add table '' @ family_text f @ '' '' @ t"
| "stmt_text quote (AddBaseChain f t c kind hook prio) =
     ''add chain '' @ family_text f @ '' '' @ t @ '' '' @ c @ '' { type '' @ kind @ '' hook '' @ hook @
     '' priority '' @ dec_int prio @ '' ; policy accept ; }''"
| "stmt_text quote (AddChain f t c) = ''add chain '' @ family_text f @ '' '' @ t @ '' '' @ c"
| "stmt_text quote (AddMap f t m) = ''add map '' @ family_text f @ '' '' @ t @ '' '' @ m @ '' { type ifname : verdict ; }''"
| "stmt_text quote (AddSet f t s addr) =
     ''add set '' @ family_text f @ '' '' @ t @ '' '' @ s @ '' { type '' @ addr @ '' . inet_service ; flags timeout ; }''"
| "stmt_text quote (AddCounter f t c) = ''add counter '' @ family_text f @ '' '' @ t @ '' '' @ c"
| "stmt_text quote (AddRule f t c r) =
     ''add rule '' @ family_text f @ '' '' @ t @ '' '' @ c @ '' '' @
     Join (map match_text (fst r) @ [action_text (snd r)]) '' ''"
| "stmt_text quote (AddElement f t m key c) =
     ''add element '' @ family_text f @ '' '' @ t @ '' '' @ m @ '' { '' @ quote key @ '' : jump '' @ c @ '' }''"
| "stmt_text quote (FlushChain f t c) = ''flush chain '' @ family_text f @ '' '' @ t @ '' '' @ c"
| "stmt_text quote (DeleteTable f t) = ''delete table '' @ family_text f @ '' '' @ t"

definition render :: "(string \<Rightarrow> string) \<Rightarrow> nft_stmt list \<Rightarrow> string" where
  "render quote doc = concat (map (\<lambda>s. stmt_text quote s @ [CHR 0x0A]) doc)"

section \<open>Packets and rules\<close>

datatype transport = Tcp | Udp | OtherProto

text \<open>A packet as the filter sees it: its addresses, its transport and destination port, and whether
  connection tracking knows its flow.\<close>

record packet =
  p_src :: net_ip
  p_dst :: net_ip
  p_proto :: transport
  p_dport :: int
  p_known :: bool

text \<open>The contents of the dynamic sets: the address and port pairs that have not timed out.\<close>

type_synonym pins = "string \<Rightarrow> (net_ip \<times> int) set"

definition is_v4 :: "net_ip \<Rightarrow> bool" where
  "is_v4 ip \<longleftrightarrow> (case ip of IPv4 _ \<Rightarrow> True | IPv6 _ \<Rightarrow> False)"

definition packet_v4 :: "packet \<Rightarrow> bool" where
  "packet_v4 p \<longleftrightarrow> is_v4 (p_src p) \<and> is_v4 (p_dst p)"

definition packet_v6 :: "packet \<Rightarrow> bool" where
  "packet_v6 p \<longleftrightarrow> \<not> is_v4 (p_src p) \<and> \<not> is_v4 (p_dst p)"

fun covers :: "nft_operand \<Rightarrow> net_ip \<Rightarrow> bool" where
  "covers (OIP x) ip \<longleftrightarrow> x = Some ip"
| "covers (ONet c) ip \<longleftrightarrow> in_block ip c"
| "covers (OText s) ip \<longleftrightarrow> ParseIP s = Some ip \<or> (case ParseCIDR s of None \<Rightarrow> False | Some c \<Rightarrow> in_block ip c)"

text \<open>The documented meaning of a match: an \<^verbatim>\<open>ip\<close> match holds of IPv4 packets only and an
  \<^verbatim>\<open>ip6\<close> match of IPv6 packets only.\<close>

fun match_holds :: "pins \<Rightarrow> nft_match \<Rightarrow> packet \<Rightarrow> bool" where
  "match_holds pins (IpSaddr x) p \<longleftrightarrow> packet_v4 p \<and> covers x (p_src p)"
| "match_holds pins (IpDaddr x) p \<longleftrightarrow> packet_v4 p \<and> covers x (p_dst p)"
| "match_holds pins (Ip6Saddr x) p \<longleftrightarrow> packet_v6 p \<and> covers x (p_src p)"
| "match_holds pins (Ip6Daddr x) p \<longleftrightarrow> packet_v6 p \<and> covers x (p_dst p)"
| "match_holds pins (TcpDport n) p \<longleftrightarrow> p_proto p = Tcp \<and> p_dport p = n"
| "match_holds pins (UdpDport n) p \<longleftrightarrow> p_proto p = Udp \<and> p_dport p = n"
| "match_holds pins CtEstablishedRelated p \<longleftrightarrow> p_known p"
| "match_holds pins (IpDaddrTcpDportIn nm) p \<longleftrightarrow> packet_v4 p \<and> p_proto p = Tcp \<and> (p_dst p, p_dport p) \<in> pins nm"
| "match_holds pins (Ip6DaddrTcpDportIn nm) p \<longleftrightarrow> packet_v6 p \<and> p_proto p = Tcp \<and> (p_dst p, p_dport p) \<in> pins nm"
| "match_holds pins NfprotoIpv6 p \<longleftrightarrow> packet_v6 p"

definition rule_holds :: "pins \<Rightarrow> nft_rule \<Rightarrow> packet \<Rightarrow> bool" where
  "rule_holds pins r p \<longleftrightarrow> (\<forall>m \<in> set (fst r). match_holds pins m p)"

text \<open>
  The documented walk of a regular chain: the rules are tried in order, the first accept or drop
  whose matches hold decides, every other action lets the walk go on, and a walk off the end
  returns to the calling chain.
\<close>

datatype verdict = Accepted | Dropped

type_synonym rule_eval = "pins \<Rightarrow> nft_rule list \<Rightarrow> packet \<Rightarrow> verdict option"

definition evaluates_rules :: "rule_eval \<Rightarrow> bool" where
  "evaluates_rules eval \<longleftrightarrow>
     (\<forall>pins p. eval pins [] p = None) \<and>
     (\<forall>pins r rs p. eval pins (r # rs) p =
        (if rule_holds pins r p
         then (case snd r of Accept \<Rightarrow> Some Accepted | Drop \<Rightarrow> Some Dropped | _ \<Rightarrow> eval pins rs p)
         else eval pins rs p))"

fun chain_verdict :: rule_eval where
  "chain_verdict pins [] p = None"
| "chain_verdict pins (r # rs) p =
     (if rule_holds pins r p
      then (case snd r of Accept \<Rightarrow> Some Accepted | Drop \<Rightarrow> Some Dropped | _ \<Rightarrow> chain_verdict pins rs p)
      else chain_verdict pins rs p)"

lemma chain_verdict_evaluates: "evaluates_rules chain_verdict"
  by (simp add: evaluates_rules_def)

lemma evaluates_rules_unique:
  assumes "evaluates_rules eval"
  shows "eval pins rs p = chain_verdict pins rs p"
proof -
  have nil: "eval pins [] p = None"
    and cons: "eval pins (r # rs) p =
        (if rule_holds pins r p
         then (case snd r of Accept \<Rightarrow> Some Accepted | Drop \<Rightarrow> Some Dropped | _ \<Rightarrow> eval pins rs p)
         else eval pins rs p)" for r rs
    using assms unfolding evaluates_rules_def by blast+
  show ?thesis by (induction rs) (simp_all add: nil cons split: nft_action.splits)
qed

lemma chain_verdict_append:
  "chain_verdict pins (rs @ rs') p =
     (case chain_verdict pins rs p of None \<Rightarrow> chain_verdict pins rs' p | Some v \<Rightarrow> Some v)"
  by (induction rs) (auto split: nft_action.splits)

text \<open>Rules of one action decide when one of them holds.\<close>

lemma chain_verdict_all:
  assumes "\<And>r. r \<in> set rs \<Longrightarrow> snd r = Accept"
  shows "chain_verdict pins rs p = (if \<exists>r \<in> set rs. rule_holds pins r p then Some Accepted else None)"
  using assms by (induction rs) auto

section \<open>The state of the filter\<close>

text \<open>
  The documented effect of a document: objects are added unless they exist, a rule is appended to
  its chain, a flush empties a chain, and the statements of a document take effect together.
\<close>

record nft_state =
  n_rules :: "(nft_family \<times> string \<times> string) \<rightharpoonup> nft_rule list"
  n_jumps :: "(nft_family \<times> string \<times> string \<times> string) \<rightharpoonup> string"
  n_sets :: "(nft_family \<times> string \<times> string) set"
  n_counters :: "(nft_family \<times> string \<times> string) set"

fun apply_stmt :: "nft_stmt \<Rightarrow> nft_state \<Rightarrow> nft_state" where
  "apply_stmt (AddTable f t) n = n"
| "apply_stmt (AddBaseChain f t c kind hook prio) n =
     (if n_rules n (f, t, c) = None then n\<lparr>n_rules := (n_rules n)((f, t, c) \<mapsto> [])\<rparr> else n)"
| "apply_stmt (AddChain f t c) n =
     (if n_rules n (f, t, c) = None then n\<lparr>n_rules := (n_rules n)((f, t, c) \<mapsto> [])\<rparr> else n)"
| "apply_stmt (AddMap f t m) n = n"
| "apply_stmt (AddSet f t s addr) n = n\<lparr>n_sets := insert (f, t, s) (n_sets n)\<rparr>"
| "apply_stmt (AddCounter f t c) n = n\<lparr>n_counters := insert (f, t, c) (n_counters n)\<rparr>"
| "apply_stmt (AddRule f t c r) n =
     n\<lparr>n_rules := (n_rules n)((f, t, c) := map_option (\<lambda>rs. rs @ [r]) (n_rules n (f, t, c)))\<rparr>"
| "apply_stmt (AddElement f t m key c) n = n\<lparr>n_jumps := (n_jumps n)((f, t, m, key) \<mapsto> c)\<rparr>"
| "apply_stmt (FlushChain f t c) n = n\<lparr>n_rules := (n_rules n)((f, t, c) := map_option (\<lambda>_. []) (n_rules n (f, t, c)))\<rparr>"
| "apply_stmt (DeleteTable f t) n =
     n\<lparr>n_rules := (\<lambda>(f', t', c). if f' = f \<and> t' = t then None else n_rules n (f', t', c)),
       n_jumps := (\<lambda>(f', t', m, k). if f' = f \<and> t' = t then None else n_jumps n (f', t', m, k)),
       n_sets := {x \<in> n_sets n. fst x \<noteq> f \<or> fst (snd x) \<noteq> t},
       n_counters := {x \<in> n_counters n. fst x \<noteq> f \<or> fst (snd x) \<noteq> t}\<rparr>"

definition apply_doc :: "nft_stmt list \<Rightarrow> nft_state \<Rightarrow> nft_state" where
  "apply_doc doc n = fold apply_stmt doc n"

end
