(* ===== verification/Net_Policy.thy ===== *)
theory Net_Policy
  imports Nft_Rules
begin

text \<open>
  The network posture of a sandbox (\<^verbatim>\<open>internal/netconf\<close>): the parsers of the allowlists, the
  rendering of the chains, and the argument vectors of the host commands. A rendered block is
  its list of statements; \<open>render\<close> prints it.
\<close>

section \<open>Allowlists\<close>

type_synonym EgressPolicy = string
type_synonym InboundPolicy = string

definition EgressDeny :: EgressPolicy where "EgressDeny = ''deny''"
definition EgressAllow :: EgressPolicy where "EgressAllow = ''allow''"
definition InboundDeny :: InboundPolicy where "InboundDeny = ''deny''"
definition InboundAllow :: InboundPolicy where "InboundAllow = ''allow''"

record HostPort =
  hp_IP :: "net_ip option"
  hp_Port :: int

datatype policy_error =
    SplitFailed string
  | EmptyHost string
  | InvalidPort string
  | PortOutOfRange string int
  | OnlyIPv4 string
  | BadName string string
  | BadCIDR string

text \<open>The checks \<^verbatim>\<open>ParseAllowEntry\<close> and \<^verbatim>\<open>ParseNameAllowList\<close> begin with.\<close>

definition split_entry :: "string \<Rightarrow> (policy_error, string \<times> int) result" where
  "split_entry s =
     (case SplitHostPort s of
        None \<Rightarrow> Inl (SplitFailed s)
      | Some (host, portStr) \<Rightarrow>
          if host = [] then Inl (EmptyHost s)
          else (case ParseInt64 portStr of
                  None \<Rightarrow> Inl (InvalidPort s)
                | Some port \<Rightarrow> if port < 1 \<or> port > 65535 then Inl (PortOutOfRange s port) else Inr (host, port)))"

definition ParseAllowEntry :: "string \<Rightarrow> (policy_error, HostPort \<times> bool) result" where
  "ParseAllowEntry s =
     (case split_entry s of
        Inl e \<Rightarrow> Inl e
      | Inr (host, port) \<Rightarrow>
          (case ParseIP host of
             None \<Rightarrow> Inr (\<lparr>hp_IP = None, hp_Port = 0\<rparr>, True)
           | Some ip \<Rightarrow>
               (case To4 (Some ip) of
                  None \<Rightarrow> Inl (OnlyIPv4 s)
                | Some ip4 \<Rightarrow> Inr (\<lparr>hp_IP = Some (IPv4 ip4), hp_Port = port\<rparr>, False))))"

fun split_allow :: "string list \<Rightarrow> HostPort list \<Rightarrow> string list \<Rightarrow> (policy_error, HostPort list \<times> string list) result" where
  "split_allow [] enforceable skipped = Inr (enforceable, skipped)"
| "split_allow (e # es) enforceable skipped =
     (case ParseAllowEntry e of
        Inl err \<Rightarrow> Inl err
      | Inr (hp, isName) \<Rightarrow>
          if isName then split_allow es enforceable (skipped @ [e])
          else split_allow es (enforceable @ [hp]) skipped)"

definition SplitAllowList :: "string list \<Rightarrow> (policy_error, HostPort list \<times> string list) result" where
  "SplitAllowList entries = split_allow entries [] []"

definition is_label_char :: "char \<Rightarrow> bool" where
  "is_label_char c \<longleftrightarrow>
     (CHR ''a'' \<le> c \<and> c \<le> CHR ''z'') \<or> (CHR ''A'' \<le> c \<and> c \<le> CHR ''Z'') \<or>
     (CHR ''0'' \<le> c \<and> c \<le> CHR ''9'') \<or> c = CHR ''-''"

definition isValidLabel :: "string \<Rightarrow> bool" where
  "isValidLabel label \<longleftrightarrow>
     \<not> (label = [] \<or> length label > 63) \<and>
     \<not> (hd label = CHR ''-'' \<or> last label = CHR ''-'') \<and>
     list_all is_label_char label"

definition isValidDomain :: "string \<Rightarrow> bool" where
  "isValidDomain s \<longleftrightarrow>
     s \<noteq> [] \<and> (let labels = Split s (CHR ''.'') in length labels \<ge> 2 \<and> list_all isValidLabel labels)"

text \<open>The error of a name, if it has one.\<close>

definition validateNameAllowEntry :: "string \<Rightarrow> string option" where
  "validateNameAllowEntry host =
     (let name = TrimSuffix host ''.''
      in if name = [] then Some ''empty name''
         else if HasPrefix name ''*.'' then
           (let domain = TrimPrefix name ''*.''
            in if Contains domain ''*'' then Some ''wildcard must be a single leading label''
               else if \<not> isValidDomain domain then Some ''wildcard must be followed by a valid domain''
               else None)
         else if Contains name ''*'' then Some ''a wildcard must be exactly a single leading label''
         else if \<not> isValidDomain name then Some ''invalid domain''
         else None)"

text \<open>
  \<^verbatim>\<open>strings.ToLower\<close>: a text of ASCII bytes is lowered byte by byte; the lowering of other text
  follows the Unicode tables, the argument.
\<close>

definition lower_char :: "char \<Rightarrow> char" where
  "lower_char c = (if CHR ''A'' \<le> c \<and> c \<le> CHR ''Z'' then char_of (of_char c + 32 :: nat) else c)"

definition ToLower :: "(string \<Rightarrow> string) \<Rightarrow> string \<Rightarrow> string" where
  "ToLower unicode s = (if list_all (\<lambda>c. (of_char c :: nat) < 128) s then map lower_char s else unicode s)"

fun parse_names :: "(string \<Rightarrow> string) \<Rightarrow> string list \<Rightarrow> (string \<rightharpoonup> int list) \<Rightarrow> (policy_error, string \<rightharpoonup> int list) result" where
  "parse_names unicode [] names = Inr names"
| "parse_names unicode (e # es) names =
     (case split_entry e of
        Inl err \<Rightarrow> Inl err
      | Inr (host, port) \<Rightarrow>
          if ParseIP host \<noteq> None then parse_names unicode es names
          else (case validateNameAllowEntry host of
                  Some err \<Rightarrow> Inl (BadName e err)
                | None \<Rightarrow>
                    let key = ToLower unicode (TrimSuffix host ''.'');
                        ports = (case names key of None \<Rightarrow> [] | Some ps \<Rightarrow> ps)
                    in parse_names unicode es (if port \<in> set ports then names else names(key \<mapsto> ports @ [port]))))"

definition ParseNameAllowList :: "(string \<Rightarrow> string) \<Rightarrow> string list \<Rightarrow> (policy_error, string \<rightharpoonup> int list) result" where
  "ParseNameAllowList unicode entries =
     (case parse_names unicode entries Map.empty of
        Inl err \<Rightarrow> Inl err
      | Inr names \<Rightarrow> Inr (\<lambda>k. map_option sort (names k)))"

fun parse_cidrs :: "string list \<Rightarrow> IPNet list \<Rightarrow> IPNet list \<Rightarrow> (policy_error, IPNet list \<times> IPNet list) result" where
  "parse_cidrs [] v4 v6 = Inr (v4, v6)"
| "parse_cidrs (e # es) v4 v6 =
     (case ParseCIDR (TrimSpace e) of
        None \<Rightarrow> Inl (BadCIDR e)
      | Some ipnet \<Rightarrow>
          if To4 (Some (net_IP ipnet)) \<noteq> None then parse_cidrs es (v4 @ [ipnet]) v6
          else parse_cidrs es v4 (v6 @ [ipnet]))"

definition ParseCIDRList :: "string list \<Rightarrow> (policy_error, IPNet list \<times> IPNet list) result" where
  "ParseCIDRList entries = parse_cidrs entries [] []"

section \<open>Names of nftables objects\<close>

definition SharedTableName :: string where "SharedTableName = ''mitos_egress''"
definition BaseChainName :: string where "BaseChainName = ''forward''"
definition NatTableName :: string where "NatTableName = ''mitos_nat''"
definition DispatchMapName :: string where "DispatchMapName = ''tapdispatch''"
definition InputBaseChainName :: string where "InputBaseChainName = ''input''"
definition InputDispatchMapName :: string where "InputDispatchMapName = ''tapdispatch_in''"
definition SandboxInputChainName :: "string \<Rightarrow> string" where "SandboxInputChainName tap = ''sbin_'' @ tap"
definition SandboxChainName :: "string \<Rightarrow> string" where "SandboxChainName tap = ''sb_'' @ tap"
definition proxyDNATBaseChainName :: string where "proxyDNATBaseChainName = ''prerouting''"
definition ProxyDNATDispatchMapName :: string where "ProxyDNATDispatchMapName = ''proxydnat''"
definition ProxyDNATChainName :: "string \<Rightarrow> string" where "ProxyDNATChainName tap = ''proxydnat_'' @ tap"
definition SandboxAllowSetName :: "string \<Rightarrow> string" where "SandboxAllowSetName tap = ''sb_'' @ tap @ ''_dyn''"
definition SandboxAllowSet6Name :: "string \<Rightarrow> string" where "SandboxAllowSet6Name tap = ''sb_'' @ tap @ ''_dyn6''"
definition SandboxEgressCounterName :: "string \<Rightarrow> string" where
  "SandboxEgressCounterName tap = ''sb_'' @ tap @ ''_egress''"

definition metadataV4Addr :: string where "metadataV4Addr = ''169.254.169.254''"
definition metadataV4Net :: string where "metadataV4Net = ''169.254.0.0/16''"
definition metadataV6Addr :: string where "metadataV6Addr = ''fd00:ec2::254''"

section \<open>Chains\<close>

record SandboxPolicy =
  sp_Egress :: EgressPolicy
  sp_Allow :: "HostPort list"
  sp_AllowCIDRs :: "string list"
  sp_BlockNetwork :: bool
  sp_Inbound :: InboundPolicy
  sp_InboundCIDRs :: "string list"
  sp_Counter :: bool
  sp_ProxySentinel :: "net_ip option"
  sp_ProxyPort :: int

record ChainSpec =
  cs_Tap :: string
  cs_GuestIP :: "net_ip option"
  cs_Egress :: EgressPolicy
  cs_Allow :: "HostPort list"
  cs_AllowCIDRsV4 :: "IPNet list"
  cs_AllowCIDRsV6 :: "IPNet list"
  cs_ResolverIP :: "net_ip option"
  cs_BlockNetwork :: bool
  cs_Counter :: bool
  cs_ProxyGatewayIP :: "net_ip option"
  cs_ProxyPort :: int
  cs_AllowCIDRs :: "string list"

record InputChainSpec =
  is_Tap :: string
  is_GuestIP :: "net_ip option"
  is_ResolverIP :: "net_ip option"
  is_Inbound :: InboundPolicy
  is_InboundCIDRs :: "string list"

definition RenderMetadataBlock :: "string \<Rightarrow> string \<Rightarrow> net_ip option \<Rightarrow> nft_stmt list" where
  "RenderMetadataBlock table chain guestIP =
     [AddRule Inet table chain ([IpSaddr (OIP guestIP), IpDaddr (OText metadataV4Addr)], Drop),
      AddRule Inet table chain ([IpSaddr (OIP guestIP), IpDaddr (OText metadataV4Net)], Drop),
      AddRule Inet table chain ([Ip6Daddr (OText metadataV6Addr)], Drop)]"

definition RenderProxyAccept :: "string \<Rightarrow> string \<Rightarrow> net_ip option \<Rightarrow> net_ip option \<Rightarrow> int \<Rightarrow> nft_stmt list" where
  "RenderProxyAccept table chain guestIP gatewayIP proxyPort =
     [AddRule Inet table chain ([IpSaddr (OIP guestIP), IpDaddr (OIP gatewayIP), TcpDport proxyPort], Accept)]"

text \<open>The CIDR blocks of a specification: the parsed ones, or the raw list parsed on the spot.\<close>

definition spec_cidrs :: "ChainSpec \<Rightarrow> IPNet list \<times> IPNet list" where
  "spec_cidrs spec =
     (if cs_AllowCIDRsV4 spec = [] \<and> cs_AllowCIDRsV6 spec = [] \<and> cs_AllowCIDRs spec \<noteq> []
      then (case ParseCIDRList (cs_AllowCIDRs spec) of Inl _ \<Rightarrow> ([], []) | Inr vs \<Rightarrow> vs)
      else (cs_AllowCIDRsV4 spec, cs_AllowCIDRsV6 spec))"

definition RenderSandboxChainSpec :: "ChainSpec \<Rightarrow> nft_stmt list" where
  "RenderSandboxChainSpec spec =
     (let table = SharedTableName; chain = SandboxChainName (cs_Tap spec); dispatch = DispatchMapName;
          saddr = IpSaddr (OIP (cs_GuestIP spec));
          rule = (\<lambda>ms a. AddRule Inet table chain (ms, a));
          counter = SandboxEgressCounterName (cs_Tap spec);
          element = AddElement Inet table dispatch (cs_Tap spec) chain;
          set4 = SandboxAllowSetName (cs_Tap spec); set6 = SandboxAllowSet6Name (cs_Tap spec);
          (v4, v6) = spec_cidrs spec;
          final = (if cs_Egress spec = EgressAllow then Accept else Drop)
      in [AddChain Inet table chain] @
         (if cs_Counter spec then [AddCounter Inet table counter, rule [saddr] (CounterName counter)] else []) @
         RenderMetadataBlock table chain (cs_GuestIP spec) @
         (if cs_BlockNetwork spec then [rule [saddr] Drop, rule [NfprotoIpv6] Drop, element]
          else
            (if cs_ProxyGatewayIP spec \<noteq> None
             then RenderProxyAccept table chain (cs_GuestIP spec) (cs_ProxyGatewayIP spec) (cs_ProxyPort spec) else []) @
            [rule [saddr, CtEstablishedRelated] Accept] @
            map (\<lambda>hp. rule [saddr, IpDaddr (OIP (hp_IP hp)), TcpDport (hp_Port hp)] Accept) (cs_Allow spec) @
            map (\<lambda>c. rule [saddr, IpDaddr (ONet c)] Accept) v4 @
            map (\<lambda>c. rule [Ip6Daddr (ONet c)] Accept) v6 @
            (if cs_ResolverIP spec \<noteq> None
             then [rule [saddr, IpDaddr (OIP (cs_ResolverIP spec)), UdpDport 53] Accept,
                   rule [saddr, IpDaddr (OIP (cs_ResolverIP spec)), TcpDport 53] Accept]
             else []) @
            [AddSet Inet table set4 ''ipv4_addr'',
             rule [saddr, IpDaddrTcpDportIn set4] Accept,
             AddSet Inet table set6 ''ipv6_addr'',
             rule [Ip6DaddrTcpDportIn set6] Accept,
             rule [saddr] final,
             rule [NfprotoIpv6] final,
             element]))"

definition RenderSandboxInputChainSpec :: "InputChainSpec \<Rightarrow> nft_stmt list" where
  "RenderSandboxInputChainSpec spec =
     (let table = SharedTableName; chain = SandboxInputChainName (is_Tap spec); dispatch = InputDispatchMapName;
          saddr = IpSaddr (OIP (is_GuestIP spec)); guestDaddr = IpDaddr (OIP (is_GuestIP spec));
          rule = (\<lambda>ms a. AddRule Inet table chain (ms, a))
      in [AddChain Inet table chain] @
         (if is_ResolverIP spec \<noteq> None
          then [rule [saddr, IpDaddr (OIP (is_ResolverIP spec)), UdpDport 53] Accept,
                rule [saddr, IpDaddr (OIP (is_ResolverIP spec)), TcpDport 53] Accept]
          else []) @
         (if is_Inbound spec = InboundAllow
          then (if is_InboundCIDRs spec = [] then [rule [guestDaddr] Accept]
                else (let (v4, v6) = (case ParseCIDRList (is_InboundCIDRs spec) of Inl _ \<Rightarrow> ([], []) | Inr vs \<Rightarrow> vs)
                      in map (\<lambda>c. rule [guestDaddr, IpSaddr (ONet c)] Accept) v4 @
                         map (\<lambda>c. rule [Ip6Daddr (OIP (is_GuestIP spec)), Ip6Saddr (ONet c)] Accept) v6))
          else []) @
         [rule [saddr] Drop, AddElement Inet table dispatch (is_Tap spec) chain])"

definition RenderSharedTable :: "nft_stmt list" where
  "RenderSharedTable =
     [AddTable Inet SharedTableName,
      AddBaseChain Inet SharedTableName BaseChainName ''filter'' ''forward'' 0,
      AddMap Inet SharedTableName DispatchMapName,
      FlushChain Inet SharedTableName BaseChainName,
      AddRule Inet SharedTableName BaseChainName ([], IifnameVmap DispatchMapName)]"

definition RenderSharedInputTable :: "nft_stmt list" where
  "RenderSharedInputTable =
     [AddTable Inet SharedTableName,
      AddBaseChain Inet SharedTableName InputBaseChainName ''filter'' ''input'' 0,
      AddMap Inet SharedTableName InputDispatchMapName,
      FlushChain Inet SharedTableName InputBaseChainName,
      AddRule Inet SharedTableName InputBaseChainName ([], IifnameVmap InputDispatchMapName)]"

definition RenderMasquerade :: "net_ip option \<Rightarrow> nft_stmt list" where
  "RenderMasquerade guestIP =
     [AddTable Ip NatTableName,
      AddBaseChain Ip NatTableName ''postrouting'' ''nat'' ''postrouting'' 100,
      FlushChain Ip NatTableName ''postrouting'',
      AddRule Ip NatTableName ''postrouting'' ([IpSaddr (OIP guestIP)], Masquerade)]"

definition RenderMasqueradeDelete :: "nft_stmt list" where
  "RenderMasqueradeDelete = [AddTable Ip NatTableName, DeleteTable Ip NatTableName]"

definition RenderProxyDNAT :: "string \<Rightarrow> net_ip option \<Rightarrow> int \<Rightarrow> net_ip option \<Rightarrow> nft_stmt list" where
  "RenderProxyDNAT tap sentinel proxyPort gatewayIP =
     (let table = NatTableName; base = proxyDNATBaseChainName; dispatch = ProxyDNATDispatchMapName;
          chain = ProxyDNATChainName tap
      in [AddTable Ip table,
          AddBaseChain Ip table base ''nat'' ''prerouting'' (-100),
          AddMap Ip table dispatch,
          FlushChain Ip table base,
          AddRule Ip table base ([], IifnameVmap dispatch),
          AddChain Ip table chain,
          AddRule Ip table chain ([IpDaddr (OIP sentinel), TcpDport proxyPort], DnatTo gatewayIP proxyPort),
          AddElement Ip table dispatch tap chain])"

definition RenderSandboxInputChain :: "string \<Rightarrow> net_ip option \<Rightarrow> net_ip option \<Rightarrow> nft_stmt list" where
  "RenderSandboxInputChain tap guestIP resolverIP =
     RenderSandboxInputChainSpec \<lparr>is_Tap = tap, is_GuestIP = guestIP, is_ResolverIP = resolverIP,
       is_Inbound = InboundDeny, is_InboundCIDRs = []\<rparr>"

definition RenderSandboxChain :: "string \<Rightarrow> net_ip option \<Rightarrow> EgressPolicy \<Rightarrow> HostPort list \<Rightarrow> net_ip option \<Rightarrow> nft_stmt list" where
  "RenderSandboxChain tap guestIP policy allow resolverIP =
     RenderSandboxChainSpec \<lparr>cs_Tap = tap, cs_GuestIP = guestIP, cs_Egress = policy, cs_Allow = allow,
       cs_AllowCIDRsV4 = [], cs_AllowCIDRsV6 = [], cs_ResolverIP = resolverIP, cs_BlockNetwork = False,
       cs_Counter = False, cs_ProxyGatewayIP = None, cs_ProxyPort = 0, cs_AllowCIDRs = []\<rparr>"

section \<open>Host commands\<close>

definition TapAddArgs :: "string \<Rightarrow> string list" where
  "TapAddArgs tap = [''ip'', ''tuntap'', ''add'', tap, ''mode'', ''tap'']"

definition AddrAddArgs :: "net_ip option \<Rightarrow> string \<Rightarrow> string list" where
  "AddrAddArgs hostIP tap = [''ip'', ''addr'', ''add'', ip_String hostIP @ ''/30'', ''dev'', tap]"

definition LinkUpArgs :: "string \<Rightarrow> string list" where
  "LinkUpArgs tap = [''ip'', ''link'', ''set'', tap, ''up'']"

definition ResolverAddrAddArgs :: "net_ip option \<Rightarrow> string \<Rightarrow> string list" where
  "ResolverAddrAddArgs resolverIP tap = [''ip'', ''addr'', ''add'', ip_String resolverIP @ ''/32'', ''dev'', tap]"

definition LinkDelArgs :: "string \<Rightarrow> string list" where
  "LinkDelArgs tap = [''ip'', ''link'', ''del'', tap]"

definition IPBatchArgs :: "string list" where
  "IPBatchArgs = [''ip'', ''-batch'', ''-'']"

definition RenderIPBatch :: "string \<Rightarrow> net_ip option \<Rightarrow> net_ip option \<Rightarrow> string" where
  "RenderIPBatch tap hostIP resolverIP =
     (let cmds = [TapAddArgs tap, AddrAddArgs hostIP tap, LinkUpArgs tap] @
                 (if resolverIP \<noteq> None then [ResolverAddrAddArgs resolverIP tap] else [])
      in concat (map (\<lambda>c. Join (tl c) '' '' @ [CHR 0x0A]) cmds))"

definition NftApplyArgs :: "string list" where
  "NftApplyArgs = [''nft'', ''-f'', ''-'']"

definition NftDeleteDispatchElementArgs :: "(string \<Rightarrow> string) \<Rightarrow> string \<Rightarrow> string list" where
  "NftDeleteDispatchElementArgs quote tap =
     [''nft'', ''delete'', ''element'', ''inet'', SharedTableName, DispatchMapName, ''{ '' @ quote tap @ '' }'']"

definition NftDeleteSandboxChainArgs :: "string \<Rightarrow> string list" where
  "NftDeleteSandboxChainArgs tap = [''nft'', ''delete'', ''chain'', ''inet'', SharedTableName, SandboxChainName tap]"

definition NftDeleteInputDispatchElementArgs :: "(string \<Rightarrow> string) \<Rightarrow> string \<Rightarrow> string list" where
  "NftDeleteInputDispatchElementArgs quote tap =
     [''nft'', ''delete'', ''element'', ''inet'', SharedTableName, InputDispatchMapName, ''{ '' @ quote tap @ '' }'']"

definition NftDeleteSandboxInputChainArgs :: "string \<Rightarrow> string list" where
  "NftDeleteSandboxInputChainArgs tap = [''nft'', ''delete'', ''chain'', ''inet'', SharedTableName, SandboxInputChainName tap]"

definition NftDeleteSandboxAllowSetArgs :: "string \<Rightarrow> string list" where
  "NftDeleteSandboxAllowSetArgs tap = [''nft'', ''delete'', ''set'', ''inet'', SharedTableName, SandboxAllowSetName tap]"

definition NftDeleteSandboxEgressCounterArgs :: "string \<Rightarrow> string list" where
  "NftDeleteSandboxEgressCounterArgs tap =
     [''nft'', ''delete'', ''counter'', ''inet'', SharedTableName, SandboxEgressCounterName tap]"

definition NftDeleteProxyDNATDispatchElementArgs :: "(string \<Rightarrow> string) \<Rightarrow> string \<Rightarrow> string list" where
  "NftDeleteProxyDNATDispatchElementArgs quote tap =
     [''nft'', ''delete'', ''element'', ''ip'', NatTableName, ProxyDNATDispatchMapName, ''{ '' @ quote tap @ '' }'']"

definition NftDeleteProxyDNATChainArgs :: "string \<Rightarrow> string list" where
  "NftDeleteProxyDNATChainArgs tap = [''nft'', ''delete'', ''chain'', ''ip'', NatTableName, ProxyDNATChainName tap]"

definition MasqueradeAddArgs :: "string \<Rightarrow> string \<Rightarrow> string list" where
  "MasqueradeAddArgs subnetCIDR uplink =
     [''iptables'', ''-t'', ''nat'', ''-A'', ''POSTROUTING'', ''-s'', subnetCIDR, ''-o'', uplink, ''-j'', ''MASQUERADE'']"

definition MasqueradeDelArgs :: "string \<Rightarrow> string \<Rightarrow> string list" where
  "MasqueradeDelArgs subnetCIDR uplink =
     [''iptables'', ''-t'', ''nat'', ''-D'', ''POSTROUTING'', ''-s'', subnetCIDR, ''-o'', uplink, ''-j'', ''MASQUERADE'']"

definition NftReadEgressCounterArgs :: "string \<Rightarrow> string list" where
  "NftReadEgressCounterArgs tap =
     [''nft'', ''-j'', ''list'', ''counter'', ''inet'', SharedTableName, SandboxEgressCounterName tap]"

text \<open>The JSON decoder is an argument: the bytes of each element that carries a counter.\<close>

definition ParseEgressCounterBytes :: "(string \<Rightarrow> int option list option) \<Rightarrow> string \<Rightarrow> (string, int) result" where
  "ParseEgressCounterBytes unmarshal jsonOut =
     (case unmarshal jsonOut of
        None \<Rightarrow> Inl ''parse nft counter json''
      | Some elems \<Rightarrow>
          (case find (\<lambda>e. e \<noteq> None) elems of
             Some (Some bytes) \<Rightarrow> Inr bytes
           | _ \<Rightarrow> Inl ''nft counter json carried no counter object''))"

end
