(* ===== verification/Egress_Chain.thy ===== *)
theory Egress_Chain
  imports Net_Policy
begin

text \<open>
  What the rendered chains admit, and that the rendered documents are well typed: the packets an
  egress chain accepts are exactly those its specification names, and every document refers only
  to objects declared before and of the right type.
\<close>

section \<open>The rules of a document\<close>

fun stmt_rule :: "string \<Rightarrow> nft_stmt \<Rightarrow> nft_rule list" where
  "stmt_rule chain (AddRule f t c r) = (if f = Inet \<and> t = SharedTableName \<and> c = chain then [r] else [])"
| "stmt_rule chain _ = []"

definition chain_rules :: "string \<Rightarrow> nft_stmt list \<Rightarrow> nft_rule list" where
  "chain_rules chain doc = concat (map (stmt_rule chain) doc)"

lemma chain_rules_simps [simp]:
  "chain_rules c [] = []"
  "chain_rules c (s # doc) = stmt_rule c s @ chain_rules c doc"
  "chain_rules c (doc @ doc') = chain_rules c doc @ chain_rules c doc'"
  by (simp_all add: chain_rules_def)

lemma chain_rules_map [simp]:
  "chain_rules c (map (\<lambda>x. AddRule Inet SharedTableName c (f x)) xs) = map f xs"
  by (induction xs) auto

text \<open>The rules between the metadata drops and the terminal verdict only accept.\<close>

definition allow_rules :: "ChainSpec \<Rightarrow> nft_rule list" where
  "allow_rules spec =
     (let saddr = IpSaddr (OIP (cs_GuestIP spec)); (v4, v6) = spec_cidrs spec
      in (if cs_ProxyGatewayIP spec \<noteq> None
          then [([saddr, IpDaddr (OIP (cs_ProxyGatewayIP spec)), TcpDport (cs_ProxyPort spec)], Accept)] else []) @
         [([saddr, CtEstablishedRelated], Accept)] @
         map (\<lambda>hp. ([saddr, IpDaddr (OIP (hp_IP hp)), TcpDport (hp_Port hp)], Accept)) (cs_Allow spec) @
         map (\<lambda>c. ([saddr, IpDaddr (ONet c)], Accept)) v4 @
         map (\<lambda>c. ([Ip6Daddr (ONet c)], Accept)) v6 @
         (if cs_ResolverIP spec \<noteq> None
          then [([saddr, IpDaddr (OIP (cs_ResolverIP spec)), UdpDport 53], Accept),
                ([saddr, IpDaddr (OIP (cs_ResolverIP spec)), TcpDport 53], Accept)] else []) @
         [([saddr, IpDaddrTcpDportIn (SandboxAllowSetName (cs_Tap spec))], Accept),
          ([Ip6DaddrTcpDportIn (SandboxAllowSet6Name (cs_Tap spec))], Accept)])"

definition egress_rules :: "ChainSpec \<Rightarrow> nft_rule list" where
  "egress_rules spec =
     (let saddr = IpSaddr (OIP (cs_GuestIP spec));
          final = (if cs_Egress spec = EgressAllow then Accept else Drop)
      in (if cs_Counter spec then [([saddr], CounterName (SandboxEgressCounterName (cs_Tap spec)))] else []) @
         [([saddr, IpDaddr (OText metadataV4Addr)], Drop), ([saddr, IpDaddr (OText metadataV4Net)], Drop),
          ([Ip6Daddr (OText metadataV6Addr)], Drop)] @
         (if cs_BlockNetwork spec then [([saddr], Drop), ([NfprotoIpv6], Drop)]
          else allow_rules spec @ [([saddr], final), ([NfprotoIpv6], final)]))"

lemma chain_rules_egress:
  "chain_rules (SandboxChainName (cs_Tap spec)) (RenderSandboxChainSpec spec) = egress_rules spec"
  by (auto simp: RenderSandboxChainSpec_def egress_rules_def allow_rules_def Let_def RenderMetadataBlock_def RenderProxyAccept_def
      split: prod.split)

section \<open>Metadata addresses\<close>

definition metadata_v6 :: "128 word" where
  "metadata_v6 = 0xFD000EC2000000000000000000000254"

definition is_metadata :: "net_ip \<Rightarrow> bool" where
  "is_metadata ip \<longleftrightarrow> (case ip of IPv4 x \<Rightarrow> drop_bit 16 x = 0xA9FE | IPv6 w \<Rightarrow> w = metadata_v6)"

lemma metadata_parses:
  "ParseIP metadataV4Addr = Some (IPv4 0xA9FEA9FE)" "ParseCIDR metadataV4Addr = None"
  "ParseIP metadataV4Net = None" "ParseCIDR metadataV4Net = Some \<lparr>net_IP = IPv4 0xA9FE0000, net_ones = 16, net_bits = 32\<rparr>"
  "ParseIP metadataV6Addr = Some (IPv6 metadata_v6)" "ParseCIDR metadataV6Addr = None"
  by (simp_all add: metadataV4Addr_def metadataV4Net_def metadataV6Addr_def metadata_v6_def address_eval)

section \<open>What an egress chain admits\<close>

definition guest_packet :: "ChainSpec \<Rightarrow> packet \<Rightarrow> bool" where
  "guest_packet spec p \<longleftrightarrow> packet_v4 p \<and> cs_GuestIP spec = Some (p_src p)"

text \<open>The destinations a specification lets an IPv4 packet of the guest and an IPv6 packet reach.\<close>

definition allowed_v4 :: "pins \<Rightarrow> ChainSpec \<Rightarrow> packet \<Rightarrow> bool" where
  "allowed_v4 pins spec p \<longleftrightarrow>
     cs_ProxyGatewayIP spec = Some (p_dst p) \<and> p_proto p = Tcp \<and> p_dport p = cs_ProxyPort spec \<or>
     p_known p \<or>
     (\<exists>hp \<in> set (cs_Allow spec). hp_IP hp = Some (p_dst p) \<and> p_proto p = Tcp \<and> p_dport p = hp_Port hp) \<or>
     (\<exists>c \<in> set (fst (spec_cidrs spec)). in_block (p_dst p) c) \<or>
     cs_ResolverIP spec = Some (p_dst p) \<and> p_proto p \<noteq> OtherProto \<and> p_dport p = 53 \<or>
     p_proto p = Tcp \<and> (p_dst p, p_dport p) \<in> pins (SandboxAllowSetName (cs_Tap spec))"

definition allowed_v6 :: "pins \<Rightarrow> ChainSpec \<Rightarrow> packet \<Rightarrow> bool" where
  "allowed_v6 pins spec p \<longleftrightarrow>
     (\<exists>c \<in> set (snd (spec_cidrs spec)). in_block (p_dst p) c) \<or>
     p_proto p = Tcp \<and> (p_dst p, p_dport p) \<in> pins (SandboxAllowSet6Name (cs_Tap spec))"

definition egress_admits :: "pins \<Rightarrow> ChainSpec \<Rightarrow> packet \<Rightarrow> bool" where
  "egress_admits pins spec p \<longleftrightarrow>
     \<not> is_metadata (p_dst p) \<and> \<not> cs_BlockNetwork spec \<and>
     (cs_Egress spec = EgressAllow \<or> (if packet_v4 p then allowed_v4 pins spec p else allowed_v6 pins spec p))"

lemma chain_verdict_accepts:
  "chain_verdict pins (map (\<lambda>x. (f x, Accept)) xs) p =
     (if \<exists>x \<in> set xs. \<forall>m \<in> set (f x). match_holds pins m p then Some Accepted else None)"
  by (induction xs) (auto simp: rule_holds_def)

lemma metadata_holds:
  "packet_v4 p \<Longrightarrow> covers (OText metadataV4Net) (p_dst p) \<longleftrightarrow> is_metadata (p_dst p)"
  "packet_v4 p \<Longrightarrow> covers (OText metadataV4Addr) (p_dst p) \<Longrightarrow> is_metadata (p_dst p)"
  "packet_v6 p \<Longrightarrow> covers (OText metadataV6Addr) (p_dst p) \<longleftrightarrow> is_metadata (p_dst p)"
  by (auto simp: metadata_parses is_metadata_def in_block_v4 packet_v4_def packet_v6_def is_v4_def split: net_ip.splits)

lemma families_exclusive: "packet_v4 p \<Longrightarrow> \<not> packet_v6 p"
  by (simp add: packet_v4_def packet_v6_def)

lemma allow_rules_accept: "r \<in> set (allow_rules spec) \<Longrightarrow> snd r = Accept"
  by (auto simp: allow_rules_def Let_def split: prod.splits if_splits)

lemma list_ex_map: "list_ex P (map f xs) \<longleftrightarrow> (\<exists>x \<in> set xs. P (f x))"
  by (auto simp: list_ex_iff)

lemma allow_rules_hold:
  "(\<exists>r \<in> set (allow_rules spec). rule_holds pins r p) \<longleftrightarrow>
     guest_packet spec p \<and> allowed_v4 pins spec p \<or> packet_v6 p \<and> allowed_v6 pins spec p"
proof -
  obtain v4 v6 where v: "spec_cidrs spec = (v4, v6)" by force
  have res: "p_proto p \<noteq> OtherProto \<longleftrightarrow> p_proto p = Tcp \<or> p_proto p = Udp" by (cases "p_proto p") auto
  have ex: "(\<exists>r \<in> set rs. rule_holds pins r p) = list_ex (\<lambda>r. rule_holds pins r p) rs" for rs
    by (simp add: list_ex_iff)
  show ?thesis
  proof (cases "packet_v6 p")
    case True
    then have "\<not> packet_v4 p" using families_exclusive by blast
    then show ?thesis using True unfolding ex
      by (simp add: list_ex_map allow_rules_def Let_def v guest_packet_def allowed_v6_def rule_holds_def)
  next
    case False
    then show ?thesis unfolding ex
      by (simp add: list_ex_map allow_rules_def Let_def v guest_packet_def allowed_v4_def rule_holds_def res) blast
  qed
qed

lemma metadata_rules_verdict:
  "chain_verdict pins [([IpSaddr (OIP (cs_GuestIP spec)), IpDaddr (OText metadataV4Addr)], Drop),
       ([IpSaddr (OIP (cs_GuestIP spec)), IpDaddr (OText metadataV4Net)], Drop),
       ([Ip6Daddr (OText metadataV6Addr)], Drop)] p =
     (if (guest_packet spec p \<or> packet_v6 p) \<and> is_metadata (p_dst p) then Some Dropped else None)"
proof (cases "packet_v6 p")
  case True
  then have "\<not> packet_v4 p" using families_exclusive by blast
  then show ?thesis using metadata_holds(3) [OF True] True by (simp add: rule_holds_def guest_packet_def del: covers.simps)
next
  case False
  then show ?thesis using metadata_holds(1,2) [of p]
    by (simp add: rule_holds_def guest_packet_def) blast
qed

lemma terminal_rules_verdict:
  "chain_verdict pins [([IpSaddr (OIP (cs_GuestIP spec))], a), ([NfprotoIpv6], a)] p =
     (if guest_packet spec p \<or> packet_v6 p
      then (case a of Accept \<Rightarrow> Some Accepted | Drop \<Rightarrow> Some Dropped | _ \<Rightarrow> None) else None)"
  by (simp add: rule_holds_def guest_packet_def split: nft_action.splits)

lemma egress_rules_verdict:
  "chain_verdict pins (egress_rules spec) p =
     (if guest_packet spec p \<or> packet_v6 p
      then Some (if egress_admits pins spec p then Accepted else Dropped) else None)"
proof -
  have counter: "chain_verdict pins (if cs_Counter spec then [(ms, CounterName c)] else []) p = None" for ms c
    by simp
  have families: "guest_packet spec p \<Longrightarrow> packet_v4 p \<and> \<not> packet_v6 p" "packet_v6 p \<Longrightarrow> \<not> packet_v4 p"
    using families_exclusive [of p] by (auto simp: guest_packet_def)
  show ?thesis
    using families
    unfolding egress_rules_def Let_def chain_verdict_append counter metadata_rules_verdict
    by (auto simp: chain_verdict_append terminal_rules_verdict chain_verdict_all [OF allow_rules_accept] allow_rules_hold
        egress_admits_def simp del: chain_verdict.simps)
qed

theorem egress_exact:
  assumes "evaluates_rules eval"
  shows "eval pins (chain_rules (SandboxChainName (cs_Tap spec)) (RenderSandboxChainSpec spec)) p =
     (if guest_packet spec p \<or> packet_v6 p
      then Some (if egress_admits pins spec p then Accepted else Dropped) else None)"
  by (simp add: evaluates_rules_unique [OF assms] chain_rules_egress egress_rules_verdict)

section \<open>The input chain\<close>

definition input_rules :: "InputChainSpec \<Rightarrow> nft_rule list" where
  "input_rules spec = chain_rules (SandboxInputChainName (is_Tap spec)) (RenderSandboxInputChainSpec spec)"

definition inbound_cidrs :: "InputChainSpec \<Rightarrow> IPNet list \<times> IPNet list" where
  "inbound_cidrs spec = (case ParseCIDRList (is_InboundCIDRs spec) of Inl _ \<Rightarrow> ([], []) | Inr vs \<Rightarrow> vs)"

text \<open>
  What the input chain accepts: the resolver, and under an inbound allow packets to the guest's own
  address. An IPv6 packet is decided by no rule.
\<close>

definition input_admits :: "InputChainSpec \<Rightarrow> packet \<Rightarrow> bool" where
  "input_admits spec p \<longleftrightarrow>
     packet_v4 p \<and>
     (is_GuestIP spec = Some (p_src p) \<and> is_ResolverIP spec = Some (p_dst p) \<and> p_proto p \<noteq> OtherProto \<and> p_dport p = 53 \<or>
      is_Inbound spec = InboundAllow \<and> is_GuestIP spec = Some (p_dst p) \<and>
      (is_InboundCIDRs spec = [] \<or> (\<exists>c \<in> set (fst (inbound_cidrs spec)). in_block (p_src p) c)))"

lemma input_rules_verdict:
  assumes "\<And>w. is_GuestIP spec \<noteq> Some (IPv6 w)"
  shows "chain_verdict pins (input_rules spec) p =
     (if input_admits spec p then Some Accepted
      else if packet_v4 p \<and> is_GuestIP spec = Some (p_src p) then Some Dropped else None)"
proof -
  obtain v4 v6 where v: "inbound_cidrs spec = (v4, v6)" by force
  have res: "p_proto p \<noteq> OtherProto \<longleftrightarrow> p_proto p = Tcp \<or> p_proto p = Udp" by (cases "p_proto p") auto
  define pre where "pre = (let saddr = IpSaddr (OIP (is_GuestIP spec)); guestDaddr = IpDaddr (OIP (is_GuestIP spec)) in
     (if is_ResolverIP spec \<noteq> None
      then [([saddr, IpDaddr (OIP (is_ResolverIP spec)), UdpDport 53], Accept),
            ([saddr, IpDaddr (OIP (is_ResolverIP spec)), TcpDport 53], Accept)] else []) @
     (if is_Inbound spec = InboundAllow
      then (if is_InboundCIDRs spec = [] then [([guestDaddr], Accept)]
            else map (\<lambda>c. ([guestDaddr, IpSaddr (ONet c)], Accept)) v4 @
                 map (\<lambda>c. ([Ip6Daddr (OIP (is_GuestIP spec)), Ip6Saddr (ONet c)], Accept)) v6)
      else []))"
  have rules: "input_rules spec = pre @ [([IpSaddr (OIP (is_GuestIP spec))], Drop)]"
    using v by (auto simp: input_rules_def RenderSandboxInputChainSpec_def Let_def pre_def inbound_cidrs_def)
  have accept: "snd r = Accept" if "r \<in> set pre" for r
    using that by (auto simp: pre_def Let_def split: if_splits)
  have v6: "\<not> (packet_v6 p \<and> is_GuestIP spec = Some (p_dst p))"
    using assms by (cases "p_dst p") (auto simp: packet_v6_def is_v4_def)
  have "(\<exists>r \<in> set pre. rule_holds pins r p) \<longleftrightarrow> input_admits spec p"
  proof -
    have ex: "(\<exists>r \<in> set pre. rule_holds pins r p) = list_ex (\<lambda>r. rule_holds pins r p) pre"
      by (simp add: list_ex_iff)
    show ?thesis unfolding ex using v6
      by (simp add: pre_def Let_def list_ex_map rule_holds_def input_admits_def res v) blast
  qed
  then show ?thesis
    by (simp add: rules chain_verdict_append chain_verdict_all [OF accept] rule_holds_def)
qed

section \<open>Typed documents\<close>

text \<open>
  The documented static rules of a document: an object is declared before it is used, a set is
  looked up with addresses of its type, an \<^verbatim>\<open>ip\<close> match has an IPv4 operand and an \<^verbatim>\<open>ip6\<close> match an
  IPv6 operand, and a port is in range. Checking gives the declarations after the document.
\<close>

record decls =
  d_tables :: "(nft_family \<times> string) set"
  d_chains :: "(nft_family \<times> string \<times> string) set"
  d_maps :: "(nft_family \<times> string \<times> string) set"
  d_sets :: "(nft_family \<times> string \<times> string) \<rightharpoonup> string"
  d_counters :: "(nft_family \<times> string \<times> string) set"

fun operand_v4 :: "nft_operand \<Rightarrow> bool" where
  "operand_v4 (OIP x) \<longleftrightarrow> (case x of Some (IPv4 _) \<Rightarrow> True | _ \<Rightarrow> False)"
| "operand_v4 (ONet c) \<longleftrightarrow> is_v4 (net_IP c)"
| "operand_v4 (OText s) \<longleftrightarrow>
     (case ParseIP s of Some ip \<Rightarrow> is_v4 ip | None \<Rightarrow> (case ParseCIDR s of Some c \<Rightarrow> is_v4 (net_IP c) | None \<Rightarrow> False))"

fun operand_v6 :: "nft_operand \<Rightarrow> bool" where
  "operand_v6 (OIP x) \<longleftrightarrow> (case x of Some (IPv6 _) \<Rightarrow> True | _ \<Rightarrow> False)"
| "operand_v6 (ONet c) \<longleftrightarrow> \<not> is_v4 (net_IP c)"
| "operand_v6 (OText s) \<longleftrightarrow>
     (case ParseIP s of Some ip \<Rightarrow> \<not> is_v4 ip | None \<Rightarrow> (case ParseCIDR s of Some c \<Rightarrow> \<not> is_v4 (net_IP c) | None \<Rightarrow> False))"

definition port_ok :: "int \<Rightarrow> bool" where
  "port_ok n \<longleftrightarrow> 0 \<le> n \<and> n \<le> 65535"

fun match_typed :: "decls \<Rightarrow> nft_family \<Rightarrow> string \<Rightarrow> nft_match \<Rightarrow> bool" where
  "match_typed d f t (IpSaddr x) \<longleftrightarrow> operand_v4 x"
| "match_typed d f t (IpDaddr x) \<longleftrightarrow> operand_v4 x"
| "match_typed d f t (Ip6Saddr x) \<longleftrightarrow> f = Inet \<and> operand_v6 x"
| "match_typed d f t (Ip6Daddr x) \<longleftrightarrow> f = Inet \<and> operand_v6 x"
| "match_typed d f t (TcpDport n) \<longleftrightarrow> port_ok n"
| "match_typed d f t (UdpDport n) \<longleftrightarrow> port_ok n"
| "match_typed d f t CtEstablishedRelated \<longleftrightarrow> True"
| "match_typed d f t (IpDaddrTcpDportIn s) \<longleftrightarrow> d_sets d (f, t, s) = Some ''ipv4_addr''"
| "match_typed d f t (Ip6DaddrTcpDportIn s) \<longleftrightarrow> f = Inet \<and> d_sets d (f, t, s) = Some ''ipv6_addr''"
| "match_typed d f t NfprotoIpv6 \<longleftrightarrow> f = Inet"

fun action_typed :: "decls \<Rightarrow> nft_family \<Rightarrow> string \<Rightarrow> nft_action \<Rightarrow> bool" where
  "action_typed d f t (CounterName c) \<longleftrightarrow> (f, t, c) \<in> d_counters d"
| "action_typed d f t (IifnameVmap m) \<longleftrightarrow> (f, t, m) \<in> d_maps d"
| "action_typed d f t (DnatTo ip port) \<longleftrightarrow> operand_v4 (OIP ip) \<and> port_ok port"
| "action_typed d f t _ \<longleftrightarrow> True"

fun check_stmt :: "decls \<Rightarrow> nft_stmt \<Rightarrow> decls option" where
  "check_stmt d (AddTable f t) = Some (d\<lparr>d_tables := insert (f, t) (d_tables d)\<rparr>)"
| "check_stmt d (AddBaseChain f t c kind hook prio) =
     (if (f, t) \<in> d_tables d then Some (d\<lparr>d_chains := insert (f, t, c) (d_chains d)\<rparr>) else None)"
| "check_stmt d (AddChain f t c) =
     (if (f, t) \<in> d_tables d then Some (d\<lparr>d_chains := insert (f, t, c) (d_chains d)\<rparr>) else None)"
| "check_stmt d (AddMap f t m) = (if (f, t) \<in> d_tables d then Some (d\<lparr>d_maps := insert (f, t, m) (d_maps d)\<rparr>) else None)"
| "check_stmt d (AddSet f t s addr) =
     (if (f, t) \<in> d_tables d \<and> d_sets d (f, t, s) \<in> {None, Some addr}
      then Some (d\<lparr>d_sets := (d_sets d)((f, t, s) \<mapsto> addr)\<rparr>) else None)"
| "check_stmt d (AddCounter f t c) =
     (if (f, t) \<in> d_tables d then Some (d\<lparr>d_counters := insert (f, t, c) (d_counters d)\<rparr>) else None)"
| "check_stmt d (AddRule f t c r) =
     (if (f, t, c) \<in> d_chains d \<and> list_all (match_typed d f t) (fst r) \<and> action_typed d f t (snd r) then Some d else None)"
| "check_stmt d (AddElement f t m key c) = (if (f, t, m) \<in> d_maps d \<and> (f, t, c) \<in> d_chains d then Some d else None)"
| "check_stmt d (FlushChain f t c) = (if (f, t, c) \<in> d_chains d then Some d else None)"
| "check_stmt d (DeleteTable f t) =
     (if (f, t) \<in> d_tables d
      then Some (d\<lparr>d_tables := d_tables d - {(f, t)}, d_chains := {x \<in> d_chains d. (fst x, fst (snd x)) \<noteq> (f, t)},
                   d_maps := {x \<in> d_maps d. (fst x, fst (snd x)) \<noteq> (f, t)},
                   d_sets := (\<lambda>x. if (fst x, fst (snd x)) = (f, t) then None else d_sets d x),
                   d_counters := {x \<in> d_counters d. (fst x, fst (snd x)) \<noteq> (f, t)}\<rparr>)
      else None)"

fun check_doc :: "decls \<Rightarrow> nft_stmt list \<Rightarrow> decls option" where
  "check_doc d [] = Some d"
| "check_doc d (s # doc) = (case check_stmt d s of None \<Rightarrow> None | Some d' \<Rightarrow> check_doc d' doc)"

lemma check_doc_append:
  "check_doc d (doc @ doc') = (case check_doc d doc of None \<Rightarrow> None | Some d' \<Rightarrow> check_doc d' doc')"
  by (induction doc arbitrary: d) (auto split: option.splits)

lemma check_doc_rules:
  "(f, t, c) \<in> d_chains d \<Longrightarrow>
   check_doc d (map (\<lambda>x. AddRule f t c (g x)) xs) =
     (if \<forall>x \<in> set xs. list_all (match_typed d f t) (fst (g x)) \<and> action_typed d f t (snd (g x)) then Some d else None)"
  by (induction xs) auto

end
