(* ===== verification/Egress_Filter.thy ===== *)
theory Egress_Filter
  imports Egress_Chain
begin

text \<open>
  The host side of the egress filter: the husk pod's filter (\<^verbatim>\<open>internal/husk/netfilter.go\<close>) and
  the network manager of raw forkd (\<^verbatim>\<open>internal/network/network_apply.go\<close>). The runner of host
  commands is an argument, as in the source; what \<^verbatim>\<open>nft\<close> does with the rules is the hypothesis
  \<open>nft_host\<close>, in terms of a view of the host's state.
\<close>

section \<open>Runner\<close>

datatype stdin = NoInput | NftDoc "nft_stmt list" | BatchText string

type_synonym 'w runner = "string list \<Rightarrow> stdin \<Rightarrow> 'w \<Rightarrow> string option \<times> 'w"
type_synonym 'w forwardEnabler = "'w \<Rightarrow> string option \<times> 'w"

datatype filter_error =
    AllowlistError policy_error
  | CidrError policy_error
  | ForwardingError string
  | StepError string string

text \<open>A best-effort sequence: every command is run and the first error is returned.\<close>

fun attempt_all :: "'w runner \<Rightarrow> (string \<times> string list \<times> stdin) list \<Rightarrow> filter_error option \<Rightarrow> 'w \<Rightarrow> filter_error option \<times> 'w" where
  "attempt_all run [] firstErr w = (firstErr, w)"
| "attempt_all run ((what, argv, input) # cmds) firstErr w =
     (case run argv input w of
        (Some e, w') \<Rightarrow> attempt_all run cmds (if firstErr = None then Some (StepError what e) else firstErr) w'
      | (None, w') \<Rightarrow> attempt_all run cmds firstErr w')"

text \<open>A strict sequence: the first error stops it.\<close>

fun run_all :: "'w runner \<Rightarrow> (string \<times> string list \<times> stdin) list \<Rightarrow> 'w \<Rightarrow> filter_error option \<times> 'w" where
  "run_all run [] w = (None, w)"
| "run_all run ((what, argv, input) # cmds) w =
     (case run argv input w of
        (Some e, w') \<Rightarrow> (Some (StepError what e), w')
      | (None, w') \<Rightarrow> run_all run cmds w')"

section \<open>The husk pod's filter\<close>

record NetfilterConfig =
  nc_Tap :: string
  nc_GuestIP :: "net_ip option"
  nc_HostIP :: "net_ip option"
  nc_Egress :: EgressPolicy
  nc_Allow :: "string list"
  nc_BlockNetwork :: bool
  nc_AllowCIDRs :: "string list"
  nc_Inbound :: InboundPolicy
  nc_InboundCIDRs :: "string list"
  nc_ResolverIP :: "net_ip option"

definition netfilterPolicyConfig ::
  "string \<Rightarrow> string list \<Rightarrow> bool \<Rightarrow> string list \<Rightarrow> string \<Rightarrow> string list \<Rightarrow> NetfilterConfig" where
  "netfilterPolicyConfig egress allow block cidrs inbound inboundCIDRs =
     \<lparr>nc_Tap = [], nc_GuestIP = None, nc_HostIP = None,
      nc_Egress = (if egress = [] then EgressDeny else egress), nc_Allow = allow, nc_BlockNetwork = block,
      nc_AllowCIDRs = cidrs, nc_Inbound = inbound, nc_InboundCIDRs = inboundCIDRs, nc_ResolverIP = None\<rparr>"

definition teardownEgressFilter :: "(string \<Rightarrow> string) \<Rightarrow> 'w runner \<Rightarrow> string \<Rightarrow> 'w \<Rightarrow> filter_error option \<times> 'w" where
  "teardownEgressFilter quote run tap w =
     attempt_all run
       [(''delete tap'', LinkDelArgs tap, NoInput),
        (''delete dispatch element'', NftDeleteDispatchElementArgs quote tap, NoInput),
        (''delete chain'', NftDeleteSandboxChainArgs tap, NoInput),
        (''delete allow set'', NftDeleteSandboxAllowSetArgs tap, NoInput),
        (''delete egress counter'', NftDeleteSandboxEgressCounterArgs tap, NoInput),
        (''delete input dispatch element'', NftDeleteInputDispatchElementArgs quote tap, NoInput),
        (''delete input chain'', NftDeleteSandboxInputChainArgs tap, NoInput),
        (''delete masquerade table'', NftApplyArgs, NftDoc RenderMasqueradeDelete)]
       None w"

definition ensureEgressLink ::
  "(string \<Rightarrow> string) \<Rightarrow> 'w runner \<Rightarrow> 'w forwardEnabler option \<Rightarrow> NetfilterConfig \<Rightarrow> 'w \<Rightarrow> filter_error option \<times> 'w" where
  "ensureEgressLink quote run enableForwarding cfg w =
     (case (case enableForwarding of None \<Rightarrow> (None, w) | Some enable \<Rightarrow> enable w) of
        (Some e, w1) \<Rightarrow> (Some (ForwardingError e), w1)
      | (None, w1) \<Rightarrow>
          let w2 = snd (run (LinkDelArgs (nc_Tap cfg)) NoInput w1)
          in case run IPBatchArgs (BatchText (RenderIPBatch (nc_Tap cfg) (nc_HostIP cfg) (nc_ResolverIP cfg))) w2 of
               (Some e, w3) \<Rightarrow> (Some (StepError ''set up tap'' e), snd (teardownEgressFilter quote run (nc_Tap cfg) w3))
             | (None, w3) \<Rightarrow> (None, w3))"

definition policy_chain :: "NetfilterConfig \<Rightarrow> HostPort list \<Rightarrow> IPNet list \<Rightarrow> IPNet list \<Rightarrow> ChainSpec" where
  "policy_chain cfg enforceable v4 v6 =
     \<lparr>cs_Tap = nc_Tap cfg, cs_GuestIP = nc_GuestIP cfg, cs_Egress = nc_Egress cfg, cs_Allow = enforceable,
      cs_AllowCIDRsV4 = v4, cs_AllowCIDRsV6 = v6, cs_ResolverIP = nc_ResolverIP cfg,
      cs_BlockNetwork = nc_BlockNetwork cfg, cs_Counter = True, cs_ProxyGatewayIP = None, cs_ProxyPort = 0,
      cs_AllowCIDRs = []\<rparr>"

definition policy_input :: "NetfilterConfig \<Rightarrow> InputChainSpec" where
  "policy_input cfg =
     \<lparr>is_Tap = nc_Tap cfg, is_GuestIP = nc_GuestIP cfg, is_ResolverIP = nc_ResolverIP cfg,
      is_Inbound = nc_Inbound cfg, is_InboundCIDRs = nc_InboundCIDRs cfg\<rparr>"

definition policy_document :: "NetfilterConfig \<Rightarrow> HostPort list \<Rightarrow> IPNet list \<Rightarrow> IPNet list \<Rightarrow> nft_stmt list" where
  "policy_document cfg enforceable v4 v6 =
     RenderSharedTable @ RenderSandboxChainSpec (policy_chain cfg enforceable v4 v6) @ RenderMasquerade (nc_GuestIP cfg) @
     RenderSharedInputTable @ RenderSandboxInputChainSpec (policy_input cfg)"

definition applyEgressPolicy ::
  "(string \<Rightarrow> string) \<Rightarrow> 'w runner \<Rightarrow> NetfilterConfig \<Rightarrow> 'w \<Rightarrow> filter_error option \<times> 'w" where
  "applyEgressPolicy quote run cfg w =
     (case SplitAllowList (nc_Allow cfg) of
        Inl e \<Rightarrow> (Some (AllowlistError e), w)
      | Inr (enforceable, skipped) \<Rightarrow>
          (case ParseCIDRList (nc_AllowCIDRs cfg) of
             Inl e \<Rightarrow> (Some (CidrError e), w)
           | Inr (cidrV4, cidrV6) \<Rightarrow>
               (case run NftApplyArgs (NftDoc (policy_document cfg enforceable cidrV4 cidrV6)) w of
                  (Some e, w') \<Rightarrow> (Some (StepError ''apply egress filter'' e), snd (teardownEgressFilter quote run (nc_Tap cfg) w'))
                | (None, w') \<Rightarrow> (None, w'))))"

definition applyEgressFilter ::
  "(string \<Rightarrow> string) \<Rightarrow> 'w runner \<Rightarrow> 'w forwardEnabler option \<Rightarrow> NetfilterConfig \<Rightarrow> 'w \<Rightarrow> filter_error option \<times> 'w" where
  "applyEgressFilter quote run enableForwarding cfg w =
     (case SplitAllowList (nc_Allow cfg) of
        Inl e \<Rightarrow> (Some (AllowlistError e), w)
      | Inr _ \<Rightarrow>
          (case ParseCIDRList (nc_AllowCIDRs cfg) of
             Inl e \<Rightarrow> (Some (CidrError e), w)
           | Inr _ \<Rightarrow>
               (case ensureEgressLink quote run enableForwarding cfg w of
                  (Some e, w') \<Rightarrow> (Some e, w')
                | (None, w') \<Rightarrow> applyEgressPolicy quote run cfg w')))"

section \<open>The network manager\<close>

record applyOptions =
  o_subnetCIDR :: string
  o_uplink :: string
  o_enableForwarding :: bool
  o_proxyEnabled :: bool

definition setup_chain :: "Identity \<Rightarrow> SandboxPolicy \<Rightarrow> net_ip option \<Rightarrow> IPNet list \<Rightarrow> IPNet list \<Rightarrow> ChainSpec" where
  "setup_chain ident policy resolverIP cidrV4 cidrV6 =
     (let spec = \<lparr>cs_Tap = TapName ident, cs_GuestIP = GuestIP ident, cs_Egress = sp_Egress policy, cs_Allow = sp_Allow policy,
                  cs_AllowCIDRsV4 = cidrV4, cs_AllowCIDRsV6 = cidrV6, cs_ResolverIP = resolverIP,
                  cs_BlockNetwork = sp_BlockNetwork policy, cs_Counter = sp_Counter policy,
                  cs_ProxyGatewayIP = None, cs_ProxyPort = 0, cs_AllowCIDRs = []\<rparr>
      in if sp_ProxySentinel policy \<noteq> None
         then spec\<lparr>cs_ProxyGatewayIP := HostIP ident, cs_ProxyPort := sp_ProxyPort policy\<rparr> else spec)"

definition network_setup ::
  "'w runner \<Rightarrow> 'w forwardEnabler \<Rightarrow> Identity \<Rightarrow> SandboxPolicy \<Rightarrow> net_ip option \<Rightarrow> applyOptions \<Rightarrow> 'w \<Rightarrow> filter_error option \<times> 'w" where
  "network_setup run enableForward ident policy resolverIP opts w =
     (case (if o_enableForwarding opts then enableForward w else (None, w)) of
        (Some e, w1) \<Rightarrow> (Some (ForwardingError e), w1)
      | (None, w1) \<Rightarrow>
          let w2 = snd (run (LinkDelArgs (TapName ident)) NoInput w1)
          in case run_all run
                    [(''create tap'', TapAddArgs (TapName ident), NoInput),
                     (''assign host ip'', AddrAddArgs (HostIP ident) (TapName ident), NoInput),
                     (''bring tap up'', LinkUpArgs (TapName ident), NoInput),
                     (''apply shared egress table'', NftApplyArgs, NftDoc RenderSharedTable)] w2 of
               (Some e, w3) \<Rightarrow> (Some e, w3)
             | (None, w3) \<Rightarrow>
                 (case ParseCIDRList (sp_AllowCIDRs policy) of
                    Inl e \<Rightarrow> (Some (CidrError e), w3)
                  | Inr (cidrV4, cidrV6) \<Rightarrow>
                      run_all run
                        ([(''apply egress chain'', NftApplyArgs,
                           NftDoc (RenderSandboxChainSpec (setup_chain ident policy resolverIP cidrV4 cidrV6)))] @
                         (if sp_ProxySentinel policy \<noteq> None
                          then [(''apply proxy DNAT'', NftApplyArgs,
                                 NftDoc (RenderProxyDNAT (TapName ident) (sp_ProxySentinel policy) (sp_ProxyPort policy) (HostIP ident)))]
                          else []) @
                         (if o_uplink opts \<noteq> [] then [(''add masquerade'', MasqueradeAddArgs (o_subnetCIDR opts) (o_uplink opts), NoInput)]
                          else [])) w3))"

definition network_teardown ::
  "(string \<Rightarrow> string) \<Rightarrow> 'w runner \<Rightarrow> Identity \<Rightarrow> applyOptions \<Rightarrow> 'w \<Rightarrow> filter_error option \<times> 'w" where
  "network_teardown quote run ident opts w =
     attempt_all run
       ((if o_uplink opts \<noteq> [] then [(''delete masquerade'', MasqueradeDelArgs (o_subnetCIDR opts) (o_uplink opts), NoInput)] else []) @
        [(''delete tap'', LinkDelArgs (TapName ident), NoInput),
         (''delete egress dispatch element'', NftDeleteDispatchElementArgs quote (TapName ident), NoInput),
         (''delete egress chain'', NftDeleteSandboxChainArgs (TapName ident), NoInput),
         (''delete egress allow set'', NftDeleteSandboxAllowSetArgs (TapName ident), NoInput),
         (''delete egress counter'', NftDeleteSandboxEgressCounterArgs (TapName ident), NoInput)] @
        (if o_proxyEnabled opts
         then [(''delete proxy DNAT dispatch element'', NftDeleteProxyDNATDispatchElementArgs quote (TapName ident), NoInput),
               (''delete proxy DNAT chain'', NftDeleteProxyDNATChainArgs (TapName ident), NoInput)]
         else []))
       None w"

record Options =
  mo_SubnetCIDR :: string
  mo_Uplink :: string
  mo_EnableForwarding :: bool
  mo_ProxyEnabled :: bool

definition NewManager :: "Options \<Rightarrow> applyOptions" where
  "NewManager opts =
     \<lparr>o_subnetCIDR = mo_SubnetCIDR opts, o_uplink = mo_Uplink opts, o_enableForwarding = mo_EnableForwarding opts,
      o_proxyEnabled = mo_ProxyEnabled opts\<rparr>"

text \<open>\<^verbatim>\<open>conntrack -D\<close> exits non-zero when nothing matched; its summary line tells that from a failure.\<close>

definition FlushSource ::
  "(string list \<Rightarrow> 'w \<Rightarrow> (string \<times> bool option) \<times> 'w) \<Rightarrow> (string \<Rightarrow> string) \<Rightarrow> net_ip option \<Rightarrow> 'w \<Rightarrow> bool \<times> 'w" where
  "FlushSource flush unicode guestIP w =
     (case flush [''conntrack'', ''-D'', ''-s'', ip_String guestIP] w of
        ((out, None), w') \<Rightarrow> (True, w')
      | ((out, Some isExit), w') \<Rightarrow> (isExit \<and> Contains (ToLower unicode out) ''flow entries have been deleted'', w'))"

section \<open>The host's filter state\<close>

text \<open>
  The documented behaviour of the commands, in terms of a view of the filter state: a document is
  applied as a whole or not at all, a delete removes the named object or fails, and commands other
  than \<^verbatim>\<open>nft\<close> leave the filter alone.
\<close>

definition command_effect :: "'w runner \<Rightarrow> ('w \<Rightarrow> nft_state) \<Rightarrow> string list \<Rightarrow> stdin \<Rightarrow> (nft_state \<Rightarrow> nft_state) \<Rightarrow> bool" where
  "command_effect run view argv input eff \<longleftrightarrow>
     (\<forall>w. view (snd (run argv input w)) = (if fst (run argv input w) = None then eff (view w) else view w))"

definition nft_host :: "(string \<Rightarrow> string) \<Rightarrow> 'w runner \<Rightarrow> ('w \<Rightarrow> nft_state) \<Rightarrow> bool" where
  "nft_host quote run view \<longleftrightarrow>
     (\<forall>doc. command_effect run view NftApplyArgs (NftDoc doc) (apply_doc doc)) \<and>
     (\<forall>argv input. hd argv \<noteq> ''nft'' \<longrightarrow> command_effect run view argv input id) \<and>
     (\<forall>f t c. command_effect run view [''nft'', ''delete'', ''chain'', family_text f, t, c] NoInput
        (\<lambda>n. n\<lparr>n_rules := (n_rules n)((f, t, c) := None)\<rparr>)) \<and>
     (\<forall>f t m k. command_effect run view [''nft'', ''delete'', ''element'', family_text f, t, m, ''{ '' @ quote k @ '' }''] NoInput
        (\<lambda>n. n\<lparr>n_jumps := (n_jumps n)((f, t, m, k) := None)\<rparr>)) \<and>
     (\<forall>f t s. command_effect run view [''nft'', ''delete'', ''set'', family_text f, t, s] NoInput
        (\<lambda>n. n\<lparr>n_sets := n_sets n - {(f, t, s)}\<rparr>)) \<and>
     (\<forall>f t c. command_effect run view [''nft'', ''delete'', ''counter'', family_text f, t, c] NoInput
        (\<lambda>n. n\<lparr>n_counters := n_counters n - {(f, t, c)}\<rparr>))"

section \<open>Effect of documents\<close>

text \<open>The rules a document appends to a chain, whether it empties or removes it, and whether it names it at all.\<close>

type_synonym chain_key = "nft_family \<times> string \<times> string"

fun stmt_chain :: "nft_stmt \<Rightarrow> chain_key option" where
  "stmt_chain (AddBaseChain f t c kind hook prio) = Some (f, t, c)"
| "stmt_chain (AddChain f t c) = Some (f, t, c)"
| "stmt_chain (AddRule f t c r) = Some (f, t, c)"
| "stmt_chain (FlushChain f t c) = Some (f, t, c)"
| "stmt_chain _ = None"

fun stmt_resets :: "chain_key \<Rightarrow> nft_stmt \<Rightarrow> bool" where
  "stmt_resets k (FlushChain f t c) \<longleftrightarrow> k = (f, t, c)"
| "stmt_resets k (DeleteTable f t) \<longleftrightarrow> (fst k, fst (snd k)) = (f, t)"
| "stmt_resets k _ \<longleftrightarrow> False"

fun stmt_appends :: "chain_key \<Rightarrow> nft_stmt \<Rightarrow> nft_rule list" where
  "stmt_appends k (AddRule f t c r) = (if k = (f, t, c) then [r] else [])"
| "stmt_appends k _ = []"

definition doc_appends :: "chain_key \<Rightarrow> nft_stmt list \<Rightarrow> nft_rule list" where
  "doc_appends k doc = concat (map (stmt_appends k) doc)"

lemma apply_doc_simps [simp]:
  "apply_doc [] n = n"
  "apply_doc (s # doc) n = apply_doc doc (apply_stmt s n)"
  "apply_doc (doc @ doc') n = apply_doc doc' (apply_doc doc n)"
  by (simp_all add: apply_doc_def)

lemma doc_appends_simps [simp]:
  "doc_appends k [] = []"
  "doc_appends k (s # doc) = stmt_appends k s @ doc_appends k doc"
  "doc_appends k (doc @ doc') = doc_appends k doc @ doc_appends k doc'"
  by (simp_all add: doc_appends_def)

lemma apply_stmt_frame:
  assumes "stmt_chain s \<noteq> Some k" "\<not> stmt_resets k s"
  shows "n_rules (apply_stmt s n) k = n_rules n k"
  using assms by (cases s; cases k) auto

lemma apply_doc_frame:
  assumes "\<And>s. s \<in> set doc \<Longrightarrow> stmt_chain s \<noteq> Some k \<and> \<not> stmt_resets k s"
  shows "n_rules (apply_doc doc n) k = n_rules n k"
  using assms by (induction doc arbitrary: n) (simp_all add: apply_stmt_frame)

lemma apply_stmt_appends:
  assumes "n_rules n k = Some rs" "\<not> stmt_resets k s"
  shows "n_rules (apply_stmt s n) k = Some (rs @ stmt_appends k s)"
  using assms by (cases s; cases k) auto

lemma apply_doc_appends:
  assumes "n_rules n k = Some rs" "\<And>s. s \<in> set doc \<Longrightarrow> \<not> stmt_resets k s"
  shows "n_rules (apply_doc doc n) k = Some (rs @ doc_appends k doc)"
  using assms
proof (induction doc arbitrary: n rs)
  case (Cons s doc)
  have "n_rules (apply_stmt s n) k = Some (rs @ stmt_appends k s)"
    using Cons.prems by (simp add: apply_stmt_appends)
  then have "n_rules (apply_doc doc (apply_stmt s n)) k = Some ((rs @ stmt_appends k s) @ doc_appends k doc)"
    using Cons.prems by (intro Cons.IH) simp_all
  then show ?case by simp
qed simp

lemma doc_appends_chain_rules: "doc_appends (Inet, SharedTableName, c) doc = chain_rules c doc"
proof (induction doc)
  case (Cons s doc)
  then show ?case by (cases s) auto
qed simp

text \<open>The element a document adds to a map.\<close>

fun stmt_element :: "nft_stmt \<Rightarrow> (nft_family \<times> string \<times> string \<times> string) option" where
  "stmt_element (AddElement f t m k c) = Some (f, t, m, k)"
| "stmt_element _ = None"

fun deletes_table :: "nft_stmt \<Rightarrow> bool" where
  "deletes_table (DeleteTable f t) = True"
| "deletes_table _ = False"

lemma apply_doc_jump_frame:
  assumes "\<And>s. s \<in> set doc \<Longrightarrow> stmt_element s \<noteq> Some k \<and> \<not> deletes_table s"
  shows "n_jumps (apply_doc doc n) k = n_jumps n k"
  using assms
proof (induction doc arbitrary: n)
  case (Cons s doc)
  have "n_jumps (apply_stmt s n) k = n_jumps n k" using Cons.prems [of s] by (cases s) auto
  then show ?case using Cons by simp
qed simp

section \<open>The policy document\<close>

abbreviation egress_key :: "string \<Rightarrow> chain_key" where
  "egress_key tap \<equiv> (Inet, SharedTableName, SandboxChainName tap)"

abbreviation input_key :: "string \<Rightarrow> chain_key" where
  "input_key tap \<equiv> (Inet, SharedTableName, SandboxInputChainName tap)"

lemmas object_names =
  SharedTableName_def BaseChainName_def NatTableName_def DispatchMapName_def InputBaseChainName_def
  InputDispatchMapName_def SandboxInputChainName_def SandboxChainName_def

lemmas shared_documents = RenderSharedTable_def RenderSharedInputTable_def RenderMasquerade_def

text \<open>The statements of a per-sandbox block name only that sandbox's chain and element and reset nothing.\<close>

definition own_statement :: "chain_key \<Rightarrow> string \<Rightarrow> string \<Rightarrow> nft_stmt \<Rightarrow> bool" where
  "own_statement k m tap s \<longleftrightarrow>
     (stmt_chain s = None \<or> stmt_chain s = Some k) \<and> (\<forall>k'. \<not> stmt_resets k' s) \<and> \<not> deletes_table s \<and>
     (stmt_element s = None \<or> stmt_element s = Some (Inet, SharedTableName, m, tap))"

lemma sandbox_chain_statements:
  "list_all (own_statement (egress_key (cs_Tap spec)) DispatchMapName (cs_Tap spec)) (RenderSandboxChainSpec spec)"
proof -
  obtain v4 v6 where v: "spec_cidrs spec = (v4, v6)" by force
  show ?thesis
    by (simp add: RenderSandboxChainSpec_def Let_def RenderMetadataBlock_def RenderProxyAccept_def v own_statement_def
        list.pred_map comp_def list.pred_True)
qed

lemma input_chain_statements:
  "list_all (own_statement (input_key (is_Tap spec)) InputDispatchMapName (is_Tap spec)) (RenderSandboxInputChainSpec spec)"
proof -
  obtain v4 v6 where v: "(case ParseCIDRList (is_InboundCIDRs spec) of Inl _ \<Rightarrow> ([], []) | Inr vs \<Rightarrow> vs) = (v4, v6)" by force
  show ?thesis
    by (simp add: RenderSandboxInputChainSpec_def Let_def v own_statement_def list.pred_map comp_def list.pred_True)
qed

lemma own_no_rules:
  "list_all (own_statement k m tap) doc \<Longrightarrow> k \<noteq> k' \<Longrightarrow> doc_appends k' doc = []"
proof (induction doc)
  case (Cons s doc)
  then show ?case by (cases s) (auto simp: own_statement_def)
qed simp

lemma own_frame:
  assumes "list_all (own_statement k m tap) doc" "k \<noteq> k'"
  shows "n_rules (apply_doc doc n) k' = n_rules n k'"
  using assms unfolding list_all_iff own_statement_def by (intro apply_doc_frame) (metis option.distinct(1) option.inject)

lemma own_jump_frame:
  assumes "list_all (own_statement k m tap) doc" "j \<noteq> (Inet, SharedTableName, m, tap)"
  shows "n_jumps (apply_doc doc n) j = n_jumps n j"
  using assms unfolding list_all_iff own_statement_def by (intro apply_doc_jump_frame) (metis option.distinct(1) option.inject)

lemma own_no_reset:
  "list_all (own_statement k m tap) doc \<Longrightarrow> s \<in> set doc \<Longrightarrow> \<not> stmt_resets k' s"
  unfolding list_all_iff own_statement_def by blast

lemma shared_frame:
  "n_rules (apply_doc RenderSharedTable n) (Inet, SharedTableName, c) =
     (if c = BaseChainName then Some [([], IifnameVmap DispatchMapName)] else n_rules n (Inet, SharedTableName, c))"
  "n_rules (apply_doc RenderSharedInputTable n) (Inet, SharedTableName, c) =
     (if c = InputBaseChainName then Some [([], IifnameVmap InputDispatchMapName)] else n_rules n (Inet, SharedTableName, c))"
  "n_rules (apply_doc (RenderMasquerade g) n) (Inet, t, c) = n_rules n (Inet, t, c)"
  "n_jumps (apply_doc RenderSharedTable n) = n_jumps n"
  "n_jumps (apply_doc RenderSharedInputTable n) = n_jumps n"
  "n_jumps (apply_doc (RenderMasquerade g) n) = n_jumps n"
  by (simp_all add: shared_documents)

lemma names_distinct [simp]:
  "SandboxChainName tap \<noteq> SandboxInputChainName tap'" "SandboxInputChainName tap' \<noteq> SandboxChainName tap"
  "SandboxChainName tap \<noteq> BaseChainName" "SandboxChainName tap \<noteq> InputBaseChainName"
  "SandboxInputChainName tap \<noteq> BaseChainName" "SandboxInputChainName tap \<noteq> InputBaseChainName"
  "SandboxChainName tap = SandboxChainName tap' \<longleftrightarrow> tap = tap'"
  "SandboxInputChainName tap = SandboxInputChainName tap' \<longleftrightarrow> tap = tap'"
  "DispatchMapName \<noteq> InputDispatchMapName" "InputDispatchMapName \<noteq> DispatchMapName"
  by (simp_all add: object_names)

lemma render_chain_head: "RenderSandboxChainSpec spec =
    AddChain Inet SharedTableName (SandboxChainName (cs_Tap spec)) # tl (RenderSandboxChainSpec spec)"
  by (simp add: RenderSandboxChainSpec_def Let_def split: prod.split)

text \<open>A rendered chain is appended to what the chain already holds.\<close>

lemma apply_sandbox_chain:
  "n_rules (apply_doc (RenderSandboxChainSpec spec) n) (egress_key (cs_Tap spec)) =
     Some ((case n_rules n (egress_key (cs_Tap spec)) of None \<Rightarrow> [] | Some rs \<Rightarrow> rs) @ egress_rules spec)"
proof -
  let ?k = "egress_key (cs_Tap spec)" and ?rest = "tl (RenderSandboxChainSpec spec)"
  let ?n = "apply_stmt (AddChain Inet SharedTableName (SandboxChainName (cs_Tap spec))) n"
  let ?old = "case n_rules n ?k of None \<Rightarrow> [] | Some rs \<Rightarrow> rs"
  have "n_rules ?n ?k = Some ?old" by (auto split: option.splits)
  moreover have "\<not> stmt_resets ?k s" if "s \<in> set ?rest" for s
    using own_no_reset [OF sandbox_chain_statements] that by (metis list.set_sel(2) render_chain_head list.discI)
  ultimately have "n_rules (apply_doc ?rest ?n) ?k = Some (?old @ doc_appends ?k ?rest)"
    by (rule apply_doc_appends)
  moreover have "doc_appends ?k ?rest = doc_appends ?k (RenderSandboxChainSpec spec)"
    by (subst (2) render_chain_head) simp
  ultimately show ?thesis
    by (subst render_chain_head) (simp add: doc_appends_chain_rules chain_rules_egress)
qed

lemma apply_sandbox_element:
  "n_jumps (apply_doc (RenderSandboxChainSpec spec) n) (Inet, SharedTableName, DispatchMapName, cs_Tap spec) =
     Some (SandboxChainName (cs_Tap spec))"
proof -
  have "\<exists>doc. RenderSandboxChainSpec spec =
      doc @ [AddElement Inet SharedTableName DispatchMapName (cs_Tap spec) (SandboxChainName (cs_Tap spec))]"
    by (simp add: RenderSandboxChainSpec_def Let_def split: prod.split)
  then show ?thesis by auto
qed

lemma policy_document_rules:
  "n_rules (apply_doc (policy_document cfg hps v4 v6) n) (egress_key (nc_Tap cfg)) =
     Some ((case n_rules n (egress_key (nc_Tap cfg)) of None \<Rightarrow> [] | Some rs \<Rightarrow> rs) @ egress_rules (policy_chain cfg hps v4 v6))"
  using apply_sandbox_chain [of "policy_chain cfg hps v4 v6"]
  by (simp add: policy_document_def shared_frame own_frame [OF input_chain_statements] policy_chain_def)

lemma policy_document_jump:
  "n_jumps (apply_doc (policy_document cfg hps v4 v6) n) (Inet, SharedTableName, DispatchMapName, nc_Tap cfg) =
     Some (SandboxChainName (nc_Tap cfg))"
  using apply_sandbox_element [of "policy_chain cfg hps v4 v6"]
  by (simp add: policy_document_def shared_frame own_jump_frame [OF input_chain_statements] policy_chain_def)

text \<open>Nothing of another sandbox is touched.\<close>

definition same_sandbox :: "nft_state \<Rightarrow> nft_state \<Rightarrow> string \<Rightarrow> bool" where
  "same_sandbox n n' tap \<longleftrightarrow>
     n_rules n' (egress_key tap) = n_rules n (egress_key tap) \<and>
     n_rules n' (input_key tap) = n_rules n (input_key tap) \<and>
     n_jumps n' (Inet, SharedTableName, DispatchMapName, tap) = n_jumps n (Inet, SharedTableName, DispatchMapName, tap) \<and>
     n_jumps n' (Inet, SharedTableName, InputDispatchMapName, tap) = n_jumps n (Inet, SharedTableName, InputDispatchMapName, tap)"

lemma policy_document_other:
  assumes "tap \<noteq> nc_Tap cfg"
  shows "same_sandbox n (apply_doc (policy_document cfg hps v4 v6) n) tap"
  using assms
  by (simp add: same_sandbox_def policy_document_def shared_frame own_frame [OF input_chain_statements]
      own_frame [OF sandbox_chain_statements] own_jump_frame [OF input_chain_statements]
      own_jump_frame [OF sandbox_chain_statements] policy_chain_def policy_input_def)

text \<open>The source NAT holds the rule of the last sandbox only.\<close>

lemma policy_document_masquerade:
  "n_rules (apply_doc (policy_document cfg hps v4 v6) n) (Ip, NatTableName, ''postrouting'') =
     Some [([IpSaddr (OIP (nc_GuestIP cfg))], Masquerade)]"
proof -
  have masq: "n_rules (apply_doc (RenderMasquerade g) m) (Ip, NatTableName, ''postrouting'') = Some [([IpSaddr (OIP g)], Masquerade)]" for g m
    by (simp add: RenderMasquerade_def)
  have "n_rules (apply_doc RenderSharedInputTable m) (Ip, NatTableName, c) = n_rules m (Ip, NatTableName, c)" for m c
    by (simp add: RenderSharedInputTable_def)
  then show ?thesis
    by (simp add: policy_document_def own_frame [OF input_chain_statements] masq)
qed
section \<open>The multi-VM pod\<close>

record NotifyForkedNetwork =
  nf_GuestIP :: string
  nf_GatewayIP :: string
  nf_PrefixLen :: int
  nf_GuestMAC :: string
  nf_ResolverIP :: string
  nf_ProxyEndpoint :: string
  nf_ResetUpstreams :: bool

definition defaultVMID :: string where
  "defaultVMID = ''default''"

definition deriveVMNetwork :: "sha256_fun \<Rightarrow> string \<Rightarrow> NotifyForkedNetwork option \<Rightarrow> NotifyForkedNetwork option" where
  "deriveVMNetwork sha vm base =
     (case base of
        None \<Rightarrow> None
      | Some b \<Rightarrow>
          let n = b\<lparr>nf_ResolverIP := []\<rparr>
          in if vm = defaultVMID then Some n
             else let (guest, gateway, mac) = DeriveInPodSecondaryLink sha vm
                  in Some (n\<lparr>nf_GuestIP := ip_String (Some guest), nf_GatewayIP := ip_String (Some gateway),
                             nf_GuestMAC := mac, nf_PrefixLen := 30\<rparr>))"

record EgressStub =
  es_prepareEgressLink :: bool
  es_multiVM :: bool
  es_inPodGuestIP :: string
  es_inPodGatewayIP :: string

record vmEgress =
  ve_activeTap :: string
  ve_preparedLinkTap :: string

definition dormant_config :: "sha256_fun \<Rightarrow> EgressStub \<Rightarrow> NetfilterConfig" where
  "dormant_config sha s =
     \<lparr>nc_Tap = DeriveTapName sha (es_inPodGuestIP s), nc_GuestIP = ParseIP (es_inPodGuestIP s),
      nc_HostIP = ParseIP (es_inPodGatewayIP s), nc_Egress = EgressDeny, nc_Allow = [], nc_BlockNetwork = False,
      nc_AllowCIDRs = [], nc_Inbound = [], nc_InboundCIDRs = [], nc_ResolverIP = None\<rparr>"

definition prepareEgressLinkFor ::
  "(string \<Rightarrow> string) \<Rightarrow> sha256_fun \<Rightarrow> 'w runner option \<Rightarrow> 'w forwardEnabler option \<Rightarrow> EgressStub \<Rightarrow> string \<Rightarrow> vmEgress \<Rightarrow> 'w
    \<Rightarrow> filter_error option \<times> vmEgress \<times> 'w" where
  "prepareEgressLinkFor quote sha netRunner fwd s vm inst w =
     (case netRunner of
        None \<Rightarrow> (None, inst, w)
      | Some run \<Rightarrow>
          if \<not> es_prepareEgressLink s \<or> \<not> es_multiVM s \<or> vm \<noteq> defaultVMID \<or> es_inPodGuestIP s = [] then (None, inst, w)
          else let cfg = dormant_config sha s
               in case ensureEgressLink quote run fwd cfg w of
                    (Some e, w1) \<Rightarrow> (Some e, inst, w1)
                  | (None, w1) \<Rightarrow>
                      (case applyEgressPolicy quote run cfg w1 of
                         (Some e, w2) \<Rightarrow> (Some e, inst, w2)
                       | (None, w2) \<Rightarrow> (None, inst\<lparr>ve_activeTap := nc_Tap cfg, ve_preparedLinkTap := nc_Tap cfg\<rparr>, w2)))"

text \<open>The egress step of the activation of one VM.\<close>

definition activate_config :: "sha256_fun \<Rightarrow> NotifyForkedNetwork \<Rightarrow> NetfilterConfig \<Rightarrow> NetfilterConfig" where
  "activate_config sha perNet policy =
     policy\<lparr>nc_Tap := DeriveTapName sha (nf_GuestIP perNet), nc_GuestIP := ParseIP (nf_GuestIP perNet),
            nc_HostIP := ParseIP (nf_GatewayIP perNet)\<rparr>"

definition activate_egress ::
  "(string \<Rightarrow> string) \<Rightarrow> sha256_fun \<Rightarrow> 'w runner option \<Rightarrow> 'w forwardEnabler option \<Rightarrow> NotifyForkedNetwork option \<Rightarrow> NetfilterConfig
    \<Rightarrow> vmEgress \<Rightarrow> 'w \<Rightarrow> filter_error option \<times> vmEgress \<times> 'w" where
  "activate_egress quote sha netRunner fwd perNet policy inst w =
     (case (netRunner, perNet) of
        (Some run, Some net) \<Rightarrow>
          let cfg = activate_config sha net policy;
              prepared = (ve_preparedLinkTap inst \<noteq> [] \<and> ve_preparedLinkTap inst = nc_Tap cfg);
              inst1 = inst\<lparr>ve_preparedLinkTap := []\<rparr>
          in (case (if prepared then applyEgressPolicy quote run cfg w else applyEgressFilter quote run fwd cfg w) of
                (Some e, w') \<Rightarrow> (Some e, inst1\<lparr>ve_activeTap := []\<rparr>, w')
              | (None, w') \<Rightarrow> (None, inst1\<lparr>ve_activeTap := nc_Tap cfg\<rparr>, w'))
      | _ \<Rightarrow> (None, inst, w))"

section \<open>What the host ends up with\<close>

definition keeps_filter :: "('w \<Rightarrow> nft_state) \<Rightarrow> 'w forwardEnabler option \<Rightarrow> bool" where
  "keeps_filter view fwd \<longleftrightarrow> (case fwd of None \<Rightarrow> True | Some enable \<Rightarrow> \<forall>w. view (snd (enable w)) = view w)"

lemma host_document:
  assumes "nft_host quote run view" "run NftApplyArgs (NftDoc doc) w = (r, w')"
  shows "view w' = (if r = None then apply_doc doc (view w) else view w)"
proof -
  have "command_effect run view NftApplyArgs (NftDoc doc) (apply_doc doc)"
    using assms(1) unfolding nft_host_def by blast
  from this [unfolded command_effect_def, rule_format, of w] show ?thesis using assms(2) by simp
qed

lemma host_ip:
  assumes "nft_host quote run view" "hd argv \<noteq> ''nft''"
  shows "view (snd (run argv input w)) = view w"
proof -
  have "command_effect run view argv input id"
    using assms unfolding nft_host_def by blast
  from this [unfolded command_effect_def, rule_format, of w] show ?thesis by (simp split: if_splits)
qed

lemma ensure_link_view:
  assumes host: "nft_host quote run view" and fwd: "keeps_filter view fwd"
    and ok: "ensureEgressLink quote run fwd cfg w = (None, w')"
  shows "view w' = view w"
proof -
  have "view (snd (case fwd of None \<Rightarrow> (None, w) | Some enable \<Rightarrow> enable w)) = view w"
    using fwd by (auto simp: keeps_filter_def split: option.splits)
  moreover have "view (snd (run (LinkDelArgs t) NoInput v)) = view v" "view (snd (run IPBatchArgs b v)) = view v" for t b v
    using host_ip [OF host] by (simp_all add: LinkDelArgs_def IPBatchArgs_def)
  ultimately show ?thesis
    using ok unfolding ensureEgressLink_def Let_def
    by (auto split: prod.splits option.splits) (metis snd_conv)+
qed

lemma policy_applied:
  assumes host: "nft_host quote run view" and ok: "applyEgressPolicy quote run cfg w = (None, w')"
  obtains hps names v4 v6 where "SplitAllowList (nc_Allow cfg) = Inr (hps, names)"
    "ParseCIDRList (nc_AllowCIDRs cfg) = Inr (v4, v6)" "view w' = apply_doc (policy_document cfg hps v4 v6) (view w)"
proof -
  obtain hps names v4 v6 where p: "SplitAllowList (nc_Allow cfg) = Inr (hps, names)" "ParseCIDRList (nc_AllowCIDRs cfg) = Inr (v4, v6)"
    "run NftApplyArgs (NftDoc (policy_document cfg hps v4 v6)) w = (None, w')"
    using ok unfolding applyEgressPolicy_def by (auto split: sum.splits prod.splits option.splits)
  then show ?thesis using that host_document [OF host p(3)] by simp
qed


text \<open>
  The policy of an activated VM is meant to replace the default-deny policy of its dormant link,
  but the document only appends to the chain: every packet of the guest is decided as before.
\<close>

lemma appended_policy_inert:
  assumes host: "nft_host quote run view"
    and held: "n_rules (view w) (egress_key (nc_Tap cfg)) = Some (egress_rules spec)"
    and ok: "applyEgressPolicy quote run cfg w = (None, w')"
  obtains rs where "n_rules (view w') (egress_key (nc_Tap cfg)) = Some rs"
    "\<And>pins p. guest_packet spec p \<or> packet_v6 p \<Longrightarrow> chain_verdict pins rs p = chain_verdict pins (egress_rules spec) p"
proof -
  obtain hps names v4 v6 where "view w' = apply_doc (policy_document cfg hps v4 v6) (view w)"
    using policy_applied [OF host ok] by metis
  then have "n_rules (view w') (egress_key (nc_Tap cfg)) = Some (egress_rules spec @ egress_rules (policy_chain cfg hps v4 v6))"
    using held by (simp add: policy_document_rules)
  moreover have "chain_verdict pins (egress_rules spec @ rs) p = chain_verdict pins (egress_rules spec) p"
    if "guest_packet spec p \<or> packet_v6 p" for pins rs p
    using that by (simp add: chain_verdict_append egress_rules_verdict)
  ultimately show ?thesis using that by metis
qed

text \<open>The tenant policy of a VM whose link was prepared while dormant has no effect on the traffic of
  its guest: whatever its allowlist, after activation a packet of the guest is admitted only if it
  belongs to a known flow or its destination is pinned, as under the dormant default-deny policy.\<close>

theorem prepared_policy_not_replaced:
  assumes host: "nft_host quote run view" and fwd: "keeps_filter view fwd" and eval: "evaluates_rules eval"
    and fresh: "n_rules (view w) (egress_key (DeriveTapName sha (es_inPodGuestIP s))) = None"
    and opted: "es_prepareEgressLink s" "es_multiVM s" "es_inPodGuestIP s \<noteq> []"
    and prep: "prepareEgressLinkFor quote sha (Some run) fwd s defaultVMID inst w = (None, inst1, w1)"
    and same: "nf_GuestIP perNet = es_inPodGuestIP s"
    and act: "activate_egress quote sha (Some run) fwd (Some perNet) policy inst1 w1 = (None, inst2, w2)"
  shows "\<exists>rs. n_rules (view w2) (egress_key (ve_activeTap inst2)) = Some rs \<and>
     (\<forall>pins p. packet_v4 p \<and> ParseIP (es_inPodGuestIP s) = Some (p_src p) \<longrightarrow>
        eval pins rs p =
          Some (if \<not> is_metadata (p_dst p) \<and>
                   (p_known p \<or> p_proto p = Tcp \<and> (p_dst p, p_dport p) \<in> pins (SandboxAllowSetName (ve_activeTap inst2)))
                then Accepted else Dropped))"
proof -
  let ?dormant = "dormant_config sha s" and ?cfg = "activate_config sha perNet policy"
  let ?spec = "policy_chain ?dormant [] [] []"
  have tap: "DeriveTapName sha x \<noteq> []" for x by (simp add: DeriveTapName_def maxIfaceName_def Let_def)
  have taps: "nc_Tap ?dormant = DeriveTapName sha (es_inPodGuestIP s)" "nc_Tap ?cfg = nc_Tap ?dormant"
    by (simp_all add: dormant_config_def activate_config_def same)
  obtain wl where link: "ensureEgressLink quote run fwd ?dormant w = (None, wl)" and deny: "applyEgressPolicy quote run ?dormant wl = (None, w1)"
    and marked: "ve_preparedLinkTap inst1 = nc_Tap ?dormant"
    using prep opted unfolding prepareEgressLinkFor_def Let_def by (auto split: prod.splits option.splits)
  have "n_rules (view wl) (egress_key (nc_Tap ?dormant)) = None"
    using fresh ensure_link_view [OF host fwd link] by (simp add: taps)
  moreover have "view w1 = apply_doc (policy_document ?dormant [] [] []) (view wl)"
    using policy_applied [OF host deny] by (auto simp: dormant_config_def SplitAllowList_def ParseCIDRList_def)
  ultimately have held: "n_rules (view w1) (egress_key (nc_Tap ?cfg)) = Some (egress_rules ?spec)"
    using policy_document_rules [of ?dormant] unfolding taps(2) by simp
  have pol: "applyEgressPolicy quote run ?cfg w1 = (None, w2)" "ve_activeTap inst2 = nc_Tap ?cfg"
    using act marked tap [of "es_inPodGuestIP s"] unfolding activate_egress_def Let_def
    by (auto simp: taps split: if_splits prod.splits option.splits)
  obtain rs where rs: "n_rules (view w2) (egress_key (nc_Tap ?cfg)) = Some rs"
    "\<And>pins p. guest_packet ?spec p \<or> packet_v6 p \<Longrightarrow> chain_verdict pins rs p = chain_verdict pins (egress_rules ?spec) p"
    using appended_policy_inert [OF host held pol(1)] by metis
  have "eval pins rs p = Some (if \<not> is_metadata (p_dst p) \<and>
      (p_known p \<or> p_proto p = Tcp \<and> (p_dst p, p_dport p) \<in> pins (SandboxAllowSetName (ve_activeTap inst2))) then Accepted else Dropped)"
    if "packet_v4 p" "ParseIP (es_inPodGuestIP s) = Some (p_src p)" for pins p
  proof -
    have "guest_packet ?spec p"
      using that by (simp add: guest_packet_def policy_chain_def dormant_config_def)
    then show ?thesis
      using that(1) by (simp add: evaluates_rules_unique [OF eval] rs egress_rules_verdict egress_admits_def allowed_v4_def
          spec_cidrs_def policy_chain_def dormant_config_def EgressDeny_def EgressAllow_def pol(2) activate_config_def same)
  qed
  then show ?thesis using rs(1) pol(2) by auto
qed

section \<open>A host\<close>

text \<open>A host that is its filter state, to evaluate the theorems on.\<close>

definition host_quote :: "string \<Rightarrow> string" where
  "host_quote k = CHR 0x22 # k @ [CHR 0x22]"

definition text_family :: "string \<Rightarrow> nft_family" where
  "text_family t = (if t = ''inet'' then Inet else Ip)"

definition mem_run :: "nft_state runner" where
  "mem_run argv input n =
     (None,
      if argv = [] \<or> hd argv \<noteq> ''nft'' then n
      else if argv = NftApplyArgs then (case input of NftDoc doc \<Rightarrow> apply_doc doc n | _ \<Rightarrow> n)
      else case argv of
        [cmd, verb, kind, f, t, x] \<Rightarrow>
          if cmd \<noteq> ''nft'' \<or> verb \<noteq> ''delete'' then n
          else if kind = ''chain'' then n\<lparr>n_rules := (n_rules n)((text_family f, t, x) := None)\<rparr>
          else if kind = ''set'' then n\<lparr>n_sets := n_sets n - {(text_family f, t, x)}\<rparr>
          else if kind = ''counter'' then n\<lparr>n_counters := n_counters n - {(text_family f, t, x)}\<rparr>
          else n
      | [cmd, verb, kind, f, t, m, e] \<Rightarrow>
          if cmd \<noteq> ''nft'' \<or> verb \<noteq> ''delete'' \<or> kind \<noteq> ''element'' then n
          else n\<lparr>n_jumps := (n_jumps n)((text_family f, t, m, take (length e - 6) (drop 3 e)) := None)\<rparr>
      | _ \<Rightarrow> n)"

definition empty_nft :: nft_state where
  "empty_nft = \<lparr>n_rules = Map.empty, n_jumps = Map.empty, n_sets = {}, n_counters = {}\<rparr>"

lemma text_family_text [simp]: "text_family (family_text f) = f"
  by (cases f) (simp_all add: text_family_def)

lemma mem_run_host: "nft_host host_quote mem_run (\<lambda>n. n)"
  unfolding nft_host_def command_effect_def
  by (intro conjI allI impI) (simp_all add: mem_run_def NftApplyArgs_def host_quote_def)

definition pod_policy :: NetfilterConfig where
  "pod_policy = (netfilterPolicyConfig [] [''1.1.1.1:443''] False [] [] [])
     \<lparr>nc_Tap := ''sbt0'', nc_GuestIP := Some (IPv4 0x0A000002), nc_HostIP := Some (IPv4 0x0A000001)\<rparr>"

lemma pod_allowlist: "SplitAllowList [''1.1.1.1:443''] = Inr ([\<lparr>hp_IP = Some (IPv4 0x01010101), hp_Port = 443\<rparr>], [])"
proof -
  have "SplitHostPort ''1.1.1.1:443'' = Some (''1.1.1.1'', ''443'')" by code_simp
  moreover have "ParseInt64 ''443'' = Some 443" by code_simp
  moreover have "ParseIP ''1.1.1.1'' = Some (IPv4 0x01010101)" by (simp add: address_eval)
  ultimately show ?thesis
    by (simp add: SplitAllowList_def ParseAllowEntry_def split_entry_def)
qed

lemma mem_run_ok: "\<exists>n'. mem_run argv input n = (None, n')"
  by (simp add: mem_run_def)

lemma mem_policy_ok:
  assumes "is_ok (SplitAllowList (nc_Allow cfg))" "is_ok (ParseCIDRList (nc_AllowCIDRs cfg))"
  shows "\<exists>n'. applyEgressPolicy host_quote mem_run cfg n = (None, n')"
proof -
  obtain a b where "SplitAllowList (nc_Allow cfg) = Inr a" "ParseCIDRList (nc_AllowCIDRs cfg) = Inr b"
    using assms by (metis sum.collapse(2))
  moreover obtain n' where "mem_run NftApplyArgs (NftDoc (policy_document cfg (fst a) (fst b) (snd b))) n = (None, n')"
    using mem_run_ok by blast
  ultimately show ?thesis by (cases a; cases b) (simp add: applyEgressPolicy_def)
qed

lemma mem_link_ok: "\<exists>n'. ensureEgressLink host_quote mem_run None cfg n = (None, n')"
proof -
  obtain n' where "mem_run IPBatchArgs (BatchText (RenderIPBatch (nc_Tap cfg) (nc_HostIP cfg) (nc_ResolverIP cfg)))
      (snd (mem_run (LinkDelArgs (nc_Tap cfg)) NoInput n)) = (None, n')"
    using mem_run_ok by blast
  then show ?thesis by (simp add: ensureEgressLink_def)
qed

lemma pod_parses:
  "nc_Allow pod_policy = [''1.1.1.1:443'']" "nc_AllowCIDRs pod_policy = []" "ParseCIDRList [] = Inr ([], [])" "SplitAllowList [] = Inr ([], [])"
  by (simp_all add: pod_policy_def netfilterPolicyConfig_def ParseCIDRList_def SplitAllowList_def)

lemma pod_applied: "\<exists>n. applyEgressFilter host_quote mem_run None pod_policy empty_nft = (None, n)"
proof -
  obtain n1 where "ensureEgressLink host_quote mem_run None pod_policy empty_nft = (None, n1)" using mem_link_ok by blast
  moreover obtain n2 where "applyEgressPolicy host_quote mem_run pod_policy n1 = (None, n2)"
    using mem_policy_ok [of pod_policy n1] by (auto simp: pod_parses pod_allowlist)
  ultimately show ?thesis by (simp add: applyEgressFilter_def pod_parses pod_allowlist)
qed


definition pod_stub :: EgressStub where
  "pod_stub = \<lparr>es_prepareEgressLink = True, es_multiVM = True, es_inPodGuestIP = ''10.0.0.2'', es_inPodGatewayIP = ''10.0.0.1''\<rparr>"

definition pod_net :: NotifyForkedNetwork where
  "pod_net = \<lparr>nf_GuestIP = ''10.0.0.2'', nf_GatewayIP = ''10.0.0.1'', nf_PrefixLen = 30, nf_GuestMAC = [], nf_ResolverIP = [], nf_ProxyEndpoint = [],
     nf_ResetUpstreams = False\<rparr>"

definition pod_inst :: vmEgress where
  "pod_inst = \<lparr>ve_activeTap = [], ve_preparedLinkTap = []\<rparr>"

lemma pod_prepared:
  "\<exists>inst n. prepareEgressLinkFor host_quote sha (Some mem_run) None pod_stub defaultVMID pod_inst empty_nft = (None, inst, n)"
proof -
  let ?cfg = "dormant_config sha pod_stub"
  obtain n1 where "ensureEgressLink host_quote mem_run None ?cfg empty_nft = (None, n1)" using mem_link_ok by blast
  moreover obtain n2 where "applyEgressPolicy host_quote mem_run ?cfg n1 = (None, n2)"
    using mem_policy_ok [of ?cfg n1] by (auto simp: dormant_config_def pod_parses)
  ultimately show ?thesis by (simp add: prepareEgressLinkFor_def pod_stub_def Let_def)
qed

lemma pod_activated:
  "\<exists>inst' n'. activate_egress host_quote sha (Some mem_run) None (Some pod_net) pod_policy inst n = (None, inst', n')"
proof -
  let ?cfg = "activate_config sha pod_net pod_policy"
  have c: "nc_Allow ?cfg = [''1.1.1.1:443'']" "nc_AllowCIDRs ?cfg = []" by (simp_all add: activate_config_def pod_parses)
  have pol: "\<exists>n2. applyEgressPolicy host_quote mem_run ?cfg m = (None, n2)" for m
    using mem_policy_ok [of ?cfg m] by (auto simp: c pod_parses pod_allowlist)
  obtain n1 where "ensureEgressLink host_quote mem_run None ?cfg n = (None, n1)" using mem_link_ok by blast
  then have "\<exists>n2. applyEgressFilter host_quote mem_run None ?cfg n = (None, n2)"
    using pol [of n1] by (auto simp: applyEgressFilter_def c pod_parses pod_allowlist)
  then show ?thesis using pol [of n] unfolding activate_egress_def Let_def by auto
qed

theorem prepared_policy_not_replaced_witness:
  "\<exists>inst1 n1 inst2 n2 rs.
     prepareEgressLinkFor host_quote (\<lambda>_. replicate 32 0) (Some mem_run) None pod_stub defaultVMID pod_inst empty_nft = (None, inst1, n1) \<and>
     activate_egress host_quote (\<lambda>_. replicate 32 0) (Some mem_run) None (Some pod_net) pod_policy inst1 n1 = (None, inst2, n2) \<and>
     n_rules n2 (egress_key (ve_activeTap inst2)) = Some rs \<and>
     (\<forall>pins p. packet_v4 p \<and> ParseIP (es_inPodGuestIP pod_stub) = Some (p_src p) \<longrightarrow>
        chain_verdict pins rs p =
          Some (if \<not> is_metadata (p_dst p) \<and>
                   (p_known p \<or> p_proto p = Tcp \<and> (p_dst p, p_dport p) \<in> pins (SandboxAllowSetName (ve_activeTap inst2)))
                then Accepted else Dropped))"
proof -
  obtain inst1 n1 inst2 n2 where
    p: "prepareEgressLinkFor host_quote (\<lambda>_. replicate 32 0) (Some mem_run) None pod_stub defaultVMID pod_inst empty_nft = (None, inst1, n1)"
    and a: "activate_egress host_quote (\<lambda>_. replicate 32 0) (Some mem_run) None (Some pod_net) pod_policy inst1 n1 = (None, inst2, n2)"
    using pod_prepared [of "\<lambda>_. replicate 32 0"] pod_activated [of "\<lambda>_. replicate 32 0"] by metis
  have k: "keeps_filter (\<lambda>n. n) (None :: nft_state forwardEnabler option)" by (simp add: keeps_filter_def)
  have e: "n_rules empty_nft k = None" for k by (simp add: empty_nft_def)
  have s: "es_prepareEgressLink pod_stub" "es_multiVM pod_stub" "es_inPodGuestIP pod_stub \<noteq> []"
    "nf_GuestIP pod_net = es_inPodGuestIP pod_stub"
    by (simp_all add: pod_stub_def pod_net_def)
  show ?thesis
    using prepared_policy_not_replaced [OF mem_run_host k chain_verdict_evaluates e s(1-3) p s(4) a] p a by blast
qed

section \<open>Teardown\<close>

lemma attempt_all_error: "fst (attempt_all run cmds (Some e) w) = Some e"
  by (induction cmds arbitrary: w) (auto split: prod.splits option.splits)

lemma attempt_all_ok: "attempt_all run cmds None w = (None, w') \<Longrightarrow> run_all run cmds w = (None, w')"
proof (induction cmds arbitrary: w)
  case (Cons c cmds)
  obtain what argv input where c: "c = (what, argv, input)" by (cases c)
  obtain r v where r: "run argv input w = (r, v)" by force
  show ?case
  proof (cases r)
    case None
    then show ?thesis using Cons c r by simp
  next
    case (Some e)
    then show ?thesis using Cons.prems c r attempt_all_error [of run cmds "StepError what e" v] by simp
  qed
qed simp

lemma run_all_Cons:
  "run_all run ((what, argv, input) # cmds) w = (None, w') \<longleftrightarrow>
     (\<exists>v. run argv input w = (None, v) \<and> run_all run cmds v = (None, w'))"
  by (auto split: prod.splits option.splits)

lemma command_effect_ok:
  "command_effect run view argv input eff \<Longrightarrow> run argv input w = (None, v) \<Longrightarrow> view v = eff (view w)"
  unfolding command_effect_def by (metis fst_conv snd_conv)

lemma host_deletes:
  assumes "nft_host quote run view"
  shows "command_effect run view [''nft'', ''delete'', ''chain'', family_text f, t, c] NoInput
      (\<lambda>n. n\<lparr>n_rules := (n_rules n)((f, t, c) := None)\<rparr>)"
    and "command_effect run view [''nft'', ''delete'', ''element'', family_text f, t, m, ''{ '' @ quote k @ '' }''] NoInput
      (\<lambda>n. n\<lparr>n_jumps := (n_jumps n)((f, t, m, k) := None)\<rparr>)"
    and "command_effect run view [''nft'', ''delete'', ''set'', family_text f, t, s] NoInput
      (\<lambda>n. n\<lparr>n_sets := n_sets n - {(f, t, s)}\<rparr>)"
    and "command_effect run view [''nft'', ''delete'', ''counter'', family_text f, t, c] NoInput
      (\<lambda>n. n\<lparr>n_counters := n_counters n - {(f, t, c)}\<rparr>)"
  using assms unfolding nft_host_def by blast+

lemmas host_delete = host_deletes [THEN command_effect_ok]

text \<open>
  A teardown that reports no error has removed the chains, elements, counter and IPv4 set of the
  tap. The IPv6 set is not among the objects it deletes, and the NAT table goes for every sandbox
  of the pod.
\<close>

lemma teardown_removes:
  assumes host: "nft_host quote run view" and ok: "teardownEgressFilter quote run tap w = (None, w')"
  shows "n_rules (view w') (egress_key tap) = None" "n_rules (view w') (input_key tap) = None"
    "n_jumps (view w') (Inet, SharedTableName, DispatchMapName, tap) = None"
    "n_jumps (view w') (Inet, SharedTableName, InputDispatchMapName, tap) = None"
    "(Inet, SharedTableName, SandboxAllowSetName tap) \<notin> n_sets (view w')"
    "(Inet, SharedTableName, SandboxEgressCounterName tap) \<notin> n_counters (view w')"
    "n_rules (view w') (Ip, NatTableName, ''postrouting'') = None"
    "(Inet, SharedTableName, SandboxAllowSet6Name tap) \<in> n_sets (view w') \<longleftrightarrow>
       (Inet, SharedTableName, SandboxAllowSet6Name tap) \<in> n_sets (view w)"
proof -
  have dyn: "SandboxAllowSet6Name tap \<noteq> SandboxAllowSetName tap"
    by (simp add: SandboxAllowSetName_def SandboxAllowSet6Name_def)
  obtain v1 v2 v3 v4 v5 v6 v7 where
    s1: "run (LinkDelArgs tap) NoInput w = (None, v1)" and
    s2: "run (NftDeleteDispatchElementArgs quote tap) NoInput v1 = (None, v2)" and
    s3: "run (NftDeleteSandboxChainArgs tap) NoInput v2 = (None, v3)" and
    s4: "run (NftDeleteSandboxAllowSetArgs tap) NoInput v3 = (None, v4)" and
    s5: "run (NftDeleteSandboxEgressCounterArgs tap) NoInput v4 = (None, v5)" and
    s6: "run (NftDeleteInputDispatchElementArgs quote tap) NoInput v5 = (None, v6)" and
    s7: "run (NftDeleteSandboxInputChainArgs tap) NoInput v6 = (None, v7)" and
    s8: "run NftApplyArgs (NftDoc RenderMasqueradeDelete) v7 = (None, w')"
    using attempt_all_ok [OF ok [unfolded teardownEgressFilter_def]] unfolding run_all_Cons by auto
  have "view v1 = view w" using host_ip [OF host, of "LinkDelArgs tap" NoInput w] s1 by (simp add: LinkDelArgs_def)
  moreover have "view v2 = (view v1)\<lparr>n_jumps := (n_jumps (view v1))((Inet, SharedTableName, DispatchMapName, tap) := None)\<rparr>"
    using host_delete(2) [OF host, of Inet] s2 by (simp add: NftDeleteDispatchElementArgs_def)
  moreover have "view v3 = (view v2)\<lparr>n_rules := (n_rules (view v2))(egress_key tap := None)\<rparr>"
    using host_delete(1) [OF host, of Inet] s3 by (simp add: NftDeleteSandboxChainArgs_def)
  moreover have "view v4 = (view v3)\<lparr>n_sets := n_sets (view v3) - {(Inet, SharedTableName, SandboxAllowSetName tap)}\<rparr>"
    using host_delete(3) [OF host, of Inet] s4 by (simp add: NftDeleteSandboxAllowSetArgs_def)
  moreover have "view v5 = (view v4)\<lparr>n_counters := n_counters (view v4) - {(Inet, SharedTableName, SandboxEgressCounterName tap)}\<rparr>"
    using host_delete(4) [OF host, of Inet] s5 by (simp add: NftDeleteSandboxEgressCounterArgs_def)
  moreover have "view v6 = (view v5)\<lparr>n_jumps := (n_jumps (view v5))((Inet, SharedTableName, InputDispatchMapName, tap) := None)\<rparr>"
    using host_delete(2) [OF host, of Inet] s6 by (simp add: NftDeleteInputDispatchElementArgs_def)
  moreover have "view v7 = (view v6)\<lparr>n_rules := (n_rules (view v6))(input_key tap := None)\<rparr>"
    using host_delete(1) [OF host, of Inet] s7 by (simp add: NftDeleteSandboxInputChainArgs_def)
  moreover have "view w' = apply_doc RenderMasqueradeDelete (view v7)"
    using host_document [OF host s8] by simp
  ultimately show "n_rules (view w') (egress_key tap) = None" "n_rules (view w') (input_key tap) = None"
    "n_jumps (view w') (Inet, SharedTableName, DispatchMapName, tap) = None"
    "n_jumps (view w') (Inet, SharedTableName, InputDispatchMapName, tap) = None"
    "(Inet, SharedTableName, SandboxAllowSetName tap) \<notin> n_sets (view w')"
    "(Inet, SharedTableName, SandboxEgressCounterName tap) \<notin> n_counters (view w')"
    "n_rules (view w') (Ip, NatTableName, ''postrouting'') = None"
    "(Inet, SharedTableName, SandboxAllowSet6Name tap) \<in> n_sets (view w') \<longleftrightarrow>
       (Inet, SharedTableName, SandboxAllowSet6Name tap) \<in> n_sets (view w)"
    using dyn by (simp_all add: RenderMasqueradeDelete_def)
qed

text \<open>A setup over a chain that a lost teardown left behind appends to it: the old policy decides.\<close>

lemma setup_over_leftover:
  "n_rules n (egress_key (cs_Tap spec)) = Some (egress_rules old) \<Longrightarrow> cs_GuestIP old = cs_GuestIP spec \<Longrightarrow>
   guest_packet spec p \<Longrightarrow>
   \<exists>rs. n_rules (apply_doc (RenderSandboxChainSpec spec) n) (egress_key (cs_Tap spec)) = Some rs \<and>
     chain_verdict pins rs p = Some (if egress_admits pins old p then Accepted else Dropped)"
  using apply_sandbox_chain [of spec n]
  by (auto simp: chain_verdict_append egress_rules_verdict guest_packet_def)

end
