(* ===== verification/Egress_Typing.thy ===== *)
theory Egress_Typing
  imports Egress_Filter
begin

text \<open>
  The documents of the egress filter are well typed: what the parsers of the allowlists accept is
  what the renderer may write, apart from inbound allowlists with IPv6 blocks.
\<close>

section \<open>What the parsers accept\<close>

definition hostport_ok :: "HostPort \<Rightarrow> bool" where
  "hostport_ok hp \<longleftrightarrow> operand_v4 (OIP (hp_IP hp)) \<and> port_ok (hp_Port hp)"

lemma ParseAllowEntry_ok: "ParseAllowEntry s = Inr (hp, False) \<Longrightarrow> hostport_ok hp"
  by (auto simp: ParseAllowEntry_def split_entry_def hostport_ok_def port_ok_def split: sum.splits option.splits prod.splits if_splits)

lemma split_allow_ok:
  "split_allow es hps names = Inr (hps', names') \<Longrightarrow> list_all hostport_ok hps \<Longrightarrow> list_all hostport_ok hps'"
proof (induction es arbitrary: hps names)
  case (Cons e es)
  then obtain hp isName where e: "ParseAllowEntry e = Inr (hp, isName)"
    by (auto split: sum.splits)
  show ?case
  proof (cases isName)
    case True
    then show ?thesis using Cons e by simp
  next
    case False
    then show ?thesis using Cons.prems e ParseAllowEntry_ok [of e hp] Cons.IH [of "hps @ [hp]" names] by simp
  qed
qed simp

lemma SplitAllowList_ok: "SplitAllowList es = Inr (hps, names) \<Longrightarrow> list_all hostport_ok hps"
  using split_allow_ok [of es "[]" "[]"] by (simp add: SplitAllowList_def)

lemma To4_is_v4: "To4 (Some ip) \<noteq> None \<longleftrightarrow> is_v4 ip"
  by (cases ip) (simp_all add: is_v4_def)

lemma parse_cidrs_ok:
  "parse_cidrs es v4 v6 = Inr (v4', v6') \<Longrightarrow> list_all (\<lambda>c. is_v4 (net_IP c)) v4 \<Longrightarrow> list_all (\<lambda>c. \<not> is_v4 (net_IP c)) v6 \<Longrightarrow>
   list_all (\<lambda>c. is_v4 (net_IP c)) v4' \<and> list_all (\<lambda>c. \<not> is_v4 (net_IP c)) v6'"
proof (induction es arbitrary: v4 v6)
  case (Cons e es)
  then obtain c where c: "ParseCIDR (TrimSpace e) = Some c" by (auto split: option.splits)
  show ?case
  proof (cases "is_v4 (net_IP c)")
    case True
    then show ?thesis using Cons.prems c To4_is_v4 [of "net_IP c"] Cons.IH [of "v4 @ [c]" v6] by simp
  next
    case False
    then show ?thesis using Cons.prems c To4_is_v4 [of "net_IP c"] Cons.IH [of v4 "v6 @ [c]"] by simp
  qed
qed simp

lemma ParseCIDRList_ok:
  "ParseCIDRList es = Inr (v4, v6) \<Longrightarrow> list_all (\<lambda>c. is_v4 (net_IP c)) v4 \<and> list_all (\<lambda>c. \<not> is_v4 (net_IP c)) v6"
  using parse_cidrs_ok [of es "[]" "[]"] by (simp add: ParseCIDRList_def)

section \<open>The blocks of a document\<close>

lemma metadata_typed:
  "operand_v4 (OText metadataV4Addr)" "operand_v4 (OText metadataV4Net)" "operand_v6 (OText metadataV6Addr)"
  by (simp_all add: metadata_parses is_v4_def)

text \<open>A block of rules for one declared chain is typed rule by rule.\<close>

definition rule_typed :: "decls \<Rightarrow> nft_rule \<Rightarrow> bool" where
  "rule_typed d r \<longleftrightarrow> list_all (match_typed d Inet SharedTableName) (fst r) \<and> action_typed d Inet SharedTableName (snd r)"

definition sandbox_decls :: "ChainSpec \<Rightarrow> decls \<Rightarrow> decls" where
  "sandbox_decls spec d =
     d\<lparr>d_chains := insert (egress_key (cs_Tap spec)) (d_chains d),
       d_counters := (if cs_Counter spec then insert (Inet, SharedTableName, SandboxEgressCounterName (cs_Tap spec)) (d_counters d)
                      else d_counters d),
       d_sets := (if cs_BlockNetwork spec then d_sets d
                  else (d_sets d)((Inet, SharedTableName, SandboxAllowSetName (cs_Tap spec)) \<mapsto> ''ipv4_addr'',
                                  (Inet, SharedTableName, SandboxAllowSet6Name (cs_Tap spec)) \<mapsto> ''ipv6_addr''))\<rparr>"

definition spec_ok :: "ChainSpec \<Rightarrow> bool" where
  "spec_ok spec \<longleftrightarrow>
     operand_v4 (OIP (cs_GuestIP spec)) \<and> list_all hostport_ok (cs_Allow spec) \<and>
     list_all (\<lambda>c. is_v4 (net_IP c)) (fst (spec_cidrs spec)) \<and> list_all (\<lambda>c. \<not> is_v4 (net_IP c)) (snd (spec_cidrs spec)) \<and>
     (cs_ResolverIP spec \<noteq> None \<longrightarrow> operand_v4 (OIP (cs_ResolverIP spec))) \<and>
     (cs_ProxyGatewayIP spec \<noteq> None \<longrightarrow> operand_v4 (OIP (cs_ProxyGatewayIP spec)) \<and> port_ok (cs_ProxyPort spec))"

definition table_ready :: "string \<Rightarrow> string \<Rightarrow> decls \<Rightarrow> bool" where
  "table_ready m tap d \<longleftrightarrow> (Inet, SharedTableName) \<in> d_tables d \<and> (Inet, SharedTableName, m) \<in> d_maps d \<and>
     d_sets d (Inet, SharedTableName, SandboxAllowSetName tap) \<in> {None, Some ''ipv4_addr''} \<and>
     d_sets d (Inet, SharedTableName, SandboxAllowSet6Name tap) \<in> {None, Some ''ipv6_addr''}"

lemma set_names_distinct [simp]: "SandboxAllowSetName tap \<noteq> SandboxAllowSet6Name tap'"
proof
  assume "SandboxAllowSetName tap = SandboxAllowSet6Name tap'"
  then have "last (SandboxAllowSetName tap) = last (SandboxAllowSet6Name tap')" by simp
  then show False by (simp add: SandboxAllowSetName_def SandboxAllowSet6Name_def)
qed

lemma sandbox_chain_typed:
  assumes "spec_ok spec" "table_ready DispatchMapName (cs_Tap spec) d"
  shows "check_doc d (RenderSandboxChainSpec spec) = Some (sandbox_decls spec d)"
proof -
  obtain v4 v6 where v: "spec_cidrs spec = (v4, v6)" by force
  have rules: "\<forall>x \<in> set (cs_Allow spec). operand_v4 (OIP (hp_IP x)) \<and> port_ok (hp_Port x)"
    "\<forall>c \<in> set v4. operand_v4 (ONet c)" "\<forall>c \<in> set v6. operand_v6 (ONet c)" "operand_v4 (OIP (cs_GuestIP spec))"
    using assms(1) by (auto simp: spec_ok_def v hostport_ok_def list_all_iff)
  have ready: "(Inet, SharedTableName) \<in> d_tables d" "(Inet, SharedTableName, DispatchMapName) \<in> d_maps d"
    "d_sets d (Inet, SharedTableName, SandboxAllowSetName (cs_Tap spec)) \<in> {None, Some ''ipv4_addr''}"
    "d_sets d (Inet, SharedTableName, SandboxAllowSet6Name (cs_Tap spec)) \<in> {None, Some ''ipv6_addr''}"
    using assms(2) by (auto simp: table_ready_def)
  have optional: "cs_ResolverIP spec = Some r \<Longrightarrow> operand_v4 (OIP (Some r))"
    "cs_ProxyGatewayIP spec = Some g \<Longrightarrow> operand_v4 (OIP (Some g)) \<and> port_ok (cs_ProxyPort spec)" for r g
    using assms(1) by (auto simp: spec_ok_def)
  have port: "port_ok 53" by (simp add: port_ok_def)
  show ?thesis
    using rules ready optional
    by (cases "cs_BlockNetwork spec"; cases "cs_Counter spec"; cases "cs_ProxyGatewayIP spec"; cases "cs_ResolverIP spec")
      (simp_all add: RenderSandboxChainSpec_def Let_def v RenderMetadataBlock_def RenderProxyAccept_def check_doc_append
        check_doc_rules metadata_typed sandbox_decls_def port set_names_distinct [symmetric] del: operand_v4.simps operand_v6.simps)
qed

text \<open>The input chain is typed exactly when it has no IPv6 block to admit the guest's IPv4 address from.\<close>

lemma input_chain_typed:
  assumes "operand_v4 (OIP (is_GuestIP spec))" "is_ResolverIP spec \<noteq> None \<longrightarrow> operand_v4 (OIP (is_ResolverIP spec))"
    and "table_ready InputDispatchMapName tap d"
  shows "check_doc d (RenderSandboxInputChainSpec spec) =
     (if is_Inbound spec = InboundAllow \<and> snd (inbound_cidrs spec) \<noteq> [] then None
      else Some (d\<lparr>d_chains := insert (input_key (is_Tap spec)) (d_chains d)\<rparr>))"
proof -
  obtain v4 v6 where v: "inbound_cidrs spec = (v4, v6)" by force
  obtain g where g: "is_GuestIP spec = Some (IPv4 g)" using assms(1) by (auto split: option.splits net_ip.splits)
  have cidrs: "(case ParseCIDRList (is_InboundCIDRs spec) of Inl _ \<Rightarrow> ([], []) | Inr vs \<Rightarrow> vs) = (v4, v6)"
    using v by (simp add: inbound_cidrs_def)
  have fam: "\<forall>c \<in> set v4. is_v4 (net_IP c)"
    using v ParseCIDRList_ok [of "is_InboundCIDRs spec" v4 v6] by (auto simp: inbound_cidrs_def list_all_iff split: sum.splits)
  have empty: "is_InboundCIDRs spec = [] \<Longrightarrow> v6 = []" using v by (simp add: inbound_cidrs_def ParseCIDRList_def)
  have ready: "(Inet, SharedTableName) \<in> d_tables d" "(Inet, SharedTableName, InputDispatchMapName) \<in> d_maps d"
    using assms(3) by (auto simp: table_ready_def)
  show ?thesis
    using assms(2) fam ready empty
    by (cases "is_ResolverIP spec"; cases v6)
      (auto simp: RenderSandboxInputChainSpec_def Let_def cidrs v g check_doc_append check_doc_rules port_ok_def)
qed

lemma shared_typed:
  "check_doc d RenderSharedTable = Some (d\<lparr>d_tables := insert (Inet, SharedTableName) (d_tables d),
     d_chains := insert (Inet, SharedTableName, BaseChainName) (d_chains d), d_maps := insert (Inet, SharedTableName, DispatchMapName) (d_maps d)\<rparr>)"
  "check_doc d RenderSharedInputTable = Some (d\<lparr>d_tables := insert (Inet, SharedTableName) (d_tables d),
     d_chains := insert (Inet, SharedTableName, InputBaseChainName) (d_chains d), d_maps := insert (Inet, SharedTableName, InputDispatchMapName) (d_maps d)\<rparr>)"
  "check_doc d (RenderMasquerade (Some (IPv4 g))) = Some (d\<lparr>d_tables := insert (Ip, NatTableName) (d_tables d),
     d_chains := insert (Ip, NatTableName, ''postrouting'') (d_chains d)\<rparr>)"
  by (simp_all add: shared_documents)

text \<open>C39: The document of a sandbox with an IPv4 guest and parsed allowlists is well typed over any declarations
  that agree on its two dynamic sets, unless the sandbox admits inbound traffic from an IPv6
  block: then a rule compares the guest's IPv4 address with \<^verbatim>\<open>ip6 daddr\<close> and the document is
  ill typed.\<close>

theorem policy_document_typed:
  assumes "SplitAllowList (nc_Allow cfg) = Inr (hps, names)" "ParseCIDRList (nc_AllowCIDRs cfg) = Inr (v4, v6)"
    and "nc_GuestIP cfg = Some (IPv4 g)" "nc_ResolverIP cfg \<in> {None, Some (IPv4 r)}"
    and "d_sets d (Inet, SharedTableName, SandboxAllowSetName (nc_Tap cfg)) \<in> {None, Some ''ipv4_addr''}"
    and "d_sets d (Inet, SharedTableName, SandboxAllowSet6Name (nc_Tap cfg)) \<in> {None, Some ''ipv6_addr''}"
  shows "check_doc d (policy_document cfg hps v4 v6) \<noteq> None \<longleftrightarrow>
     \<not> (nc_Inbound cfg = InboundAllow \<and> snd (inbound_cidrs (policy_input cfg)) \<noteq> [])"
proof -
  let ?spec = "policy_chain cfg hps v4 v6"
  let ?tap = "nc_Tap cfg"
  have spec: "spec_ok ?spec"
    using SplitAllowList_ok [OF assms(1)] ParseCIDRList_ok [OF assms(2)] assms(3,4)
    by (auto simp: spec_ok_def policy_chain_def spec_cidrs_def)
  obtain d1 where d1: "check_doc d RenderSharedTable = Some d1" "table_ready DispatchMapName ?tap d1"
    using assms(5,6) by (simp add: shared_typed table_ready_def)
  have chain: "check_doc d1 (RenderSandboxChainSpec ?spec) = Some (sandbox_decls ?spec d1)"
    using sandbox_chain_typed [OF spec] d1(2) by (simp add: policy_chain_def)
  obtain d3 d2 where d2: "check_doc (sandbox_decls ?spec d1) (RenderMasquerade (nc_GuestIP cfg)) = Some d3"
    "check_doc d3 RenderSharedInputTable = Some d2" "table_ready InputDispatchMapName ?tap d2"
    using d1(2) by (auto simp: assms(3) check_doc_append shared_typed table_ready_def sandbox_decls_def policy_chain_def)
  have sel: "is_Inbound (policy_input cfg) = nc_Inbound cfg" by (simp add: policy_input_def)
  have input: "operand_v4 (OIP (is_GuestIP (policy_input cfg)))"
    "is_ResolverIP (policy_input cfg) \<noteq> None \<longrightarrow> operand_v4 (OIP (is_ResolverIP (policy_input cfg)))"
    using assms(3,4) by (auto simp: policy_input_def)
  have "check_doc d2 (RenderSandboxInputChainSpec (policy_input cfg)) \<noteq> None \<longleftrightarrow>
      \<not> (nc_Inbound cfg = InboundAllow \<and> snd (inbound_cidrs (policy_input cfg)) \<noteq> [])"
    using input_chain_typed [OF input d2(3)] by (simp add: sel)
  then show ?thesis
    using d1(1) chain d2(1,2) by (simp add: policy_document_def check_doc_append)
qed

definition no_decls :: decls where
  "no_decls = \<lparr>d_tables = {}, d_chains = {}, d_maps = {}, d_sets = Map.empty, d_counters = {}\<rparr>"

definition inbound_policy :: NetfilterConfig where
  "inbound_policy = pod_policy\<lparr>nc_Inbound := InboundAllow, nc_InboundCIDRs := [''fd01::/64'']\<rparr>"

lemma inbound_policy_v6: "snd (inbound_cidrs (policy_input inbound_policy)) \<noteq> []"
proof -
  have trim: "TrimSpace ''fd01::/64'' = ''fd01::/64''" by code_simp
  obtain c where "ParseCIDR ''fd01::/64'' = Some c" "To4 (Some (net_IP c)) = None"
    by (simp add: address_eval)
  then show ?thesis
    by (simp add: inbound_cidrs_def policy_input_def inbound_policy_def ParseCIDRList_def trim)
qed

theorem policy_document_typed_witness:
  "check_doc no_decls (policy_document pod_policy [\<lparr>hp_IP = Some (IPv4 0x01010101), hp_Port = 443\<rparr>] [] []) \<noteq> None \<and>
   check_doc no_decls (policy_document inbound_policy [\<lparr>hp_IP = Some (IPv4 0x01010101), hp_Port = 443\<rparr>] [] []) = None"
proof -
  have sel: "nc_Allow inbound_policy = nc_Allow pod_policy" "nc_AllowCIDRs inbound_policy = nc_AllowCIDRs pod_policy"
    "nc_Inbound inbound_policy = InboundAllow" "nc_GuestIP pod_policy = Some (IPv4 0x0A000002)" "nc_ResolverIP pod_policy = None"
    "nc_GuestIP inbound_policy = Some (IPv4 0x0A000002)" "nc_ResolverIP inbound_policy = None" "nc_Inbound pod_policy \<noteq> InboundAllow"
    by (simp_all add: inbound_policy_def pod_policy_def netfilterPolicyConfig_def InboundAllow_def)
  have "d_sets no_decls k = None" for k by (simp add: no_decls_def)
  then show ?thesis
    using policy_document_typed [of pod_policy "[\<lparr>hp_IP = Some (IPv4 0x01010101), hp_Port = 443\<rparr>]" "[]" "[]" "[]" "0x0A000002" 0 no_decls]
      policy_document_typed [of inbound_policy "[\<lparr>hp_IP = Some (IPv4 0x01010101), hp_Port = 443\<rparr>]" "[]" "[]" "[]" "0x0A000002" 0 no_decls]
    by (simp add: sel pod_parses pod_allowlist inbound_policy_v6)
qed

end
