(* ===== verification/Dns_Proxy.thy ===== *)
theory Dns_Proxy
  imports Egress_Filter "HOL-Library.AList"
begin

text \<open>
  The controlled resolver of sandbox egress (\<^verbatim>\<open>internal/dnsproxy\<close>): the registry of allowed names,
  the screening of resolved addresses, the pinner, and the handling of a query. The upstream
  resolvers and the runner of \<^verbatim>\<open>nft\<close> are arguments; the iteration order of a Go map is an argument
  where a result depends on it.
\<close>

section \<open>Registry\<close>

text \<open>An allowlist maps a canonical name to its ports; it is kept as a list of its entries.\<close>

type_synonym Allowlist = "(string \<times> int set) list"
type_synonym DnsRegistry = "string \<rightharpoonup> Allowlist"

definition canonicalName :: "(string \<Rightarrow> string) \<Rightarrow> string \<Rightarrow> string" where
  "canonicalName unicode name = TrimSuffix (ToLower unicode name) ''.''"

definition NewDnsRegistry :: DnsRegistry where
  "NewDnsRegistry = Map.empty"

definition dns_Register ::
  "(string \<Rightarrow> string) \<Rightarrow> net_ip option \<Rightarrow> (string \<times> int list) list \<Rightarrow> DnsRegistry \<Rightarrow> DnsRegistry" where
  "dns_Register unicode guestIP names r =
     r(ip_String guestIP \<mapsto> fold (\<lambda>(name, ports) al. AList.update (canonicalName unicode name) (set ports) al) names [])"

definition dns_Deregister :: "net_ip option \<Rightarrow> DnsRegistry \<Rightarrow> DnsRegistry" where
  "dns_Deregister guestIP r = r(ip_String guestIP := None)"

definition nameMatchesEntry :: "string \<Rightarrow> string \<Rightarrow> bool" where
  "nameMatchesEntry query entry \<longleftrightarrow>
     (if \<not> HasPrefix entry ''*.'' then query = entry
      else let dotSuffix = ''.'' @ TrimPrefix entry ''*.''
           in HasSuffix query dotSuffix \<and> TrimSuffix query dotSuffix \<noteq> [])"

definition dns_Lookup :: "(string \<Rightarrow> string) \<Rightarrow> DnsRegistry \<Rightarrow> net_ip option \<Rightarrow> string \<Rightarrow> int set option" where
  "dns_Lookup unicode r guestIP name =
     (let key = canonicalName unicode name
      in if key = [] then None
         else case r (ip_String guestIP) of
                None \<Rightarrow> None
              | Some al \<Rightarrow>
                  (let matched = filter (\<lambda>(entry, ports). nameMatchesEntry key entry) al
                   in if matched = [] then None else Some (\<Union> (set (map snd matched)))))"

section \<open>Screening of resolved addresses\<close>

definition IsUnspecified :: "net_ip \<Rightarrow> bool" where
  "IsUnspecified ip \<longleftrightarrow> ip = IPv4 0 \<or> ip = IPv6 0"

definition IsLoopback :: "net_ip \<Rightarrow> bool" where
  "IsLoopback ip \<longleftrightarrow> (case ip of IPv4 x \<Rightarrow> drop_bit 24 x = 127 | IPv6 w \<Rightarrow> w = 1)"

definition IsLinkLocalUnicast :: "net_ip \<Rightarrow> bool" where
  "IsLinkLocalUnicast ip \<longleftrightarrow> (case ip of IPv4 x \<Rightarrow> drop_bit 16 x = 0xA9FE | IPv6 w \<Rightarrow> drop_bit 118 w = 0x3FA)"

definition IsLinkLocalMulticast :: "net_ip \<Rightarrow> bool" where
  "IsLinkLocalMulticast ip \<longleftrightarrow>
     (case ip of IPv4 x \<Rightarrow> drop_bit 8 x = 0xE00000 | IPv6 w \<Rightarrow> drop_bit 120 w = 0xFF \<and> drop_bit 112 w AND 0xF = 2)"

definition IsMulticast :: "net_ip \<Rightarrow> bool" where
  "IsMulticast ip \<longleftrightarrow> (case ip of IPv4 x \<Rightarrow> drop_bit 28 x = 0xE | IPv6 w \<Rightarrow> drop_bit 120 w = 0xFF)"

definition IsPrivate :: "net_ip \<Rightarrow> bool" where
  "IsPrivate ip \<longleftrightarrow>
     (case ip of
        IPv4 x \<Rightarrow> drop_bit 24 x = 10 \<or> drop_bit 20 x = 0xAC1 \<or> drop_bit 16 x = 0xC0A8
      | IPv6 w \<Rightarrow> drop_bit 121 w = 0x7E)"

text \<open>\<^verbatim>\<open>IPNet.Contains\<close>: an address of the other family is outside.\<close>

definition net_Contains :: "IPNet \<Rightarrow> net_ip \<Rightarrow> bool" where
  "net_Contains c ip \<longleftrightarrow> is_v4 (net_IP c) = is_v4 ip \<and> in_block ip c"

definition cgnatNet :: IPNet where
  "cgnatNet = \<lparr>net_IP = IPv4 0x64400000, net_ones = 10, net_bits = 32\<rparr>"

definition nat64WellKnown :: IPNet where
  "nat64WellKnown = \<lparr>net_IP = the (ParseIP ''64:ff9b::''), net_ones = 96, net_bits = 128\<rparr>"

definition sixToFourNet :: IPNet where
  "sixToFourNet = \<lparr>net_IP = the (ParseIP ''2002::''), net_ones = 16, net_bits = 128\<rparr>"

definition siteLocalNet :: IPNet where
  "siteLocalNet = \<lparr>net_IP = the (ParseIP ''fec0::''), net_ones = 10, net_bits = 128\<rparr>"

definition embeddedIPv4 :: "net_ip \<Rightarrow> net_ip option" where
  "embeddedIPv4 ip =
     (if net_Contains nat64WellKnown ip then Some (IPv4 (ucast (as16 ip)))
      else if net_Contains sixToFourNet ip then Some (IPv4 (ucast (drop_bit 80 (as16 ip))))
      else None)"

definition blocked_class :: "net_ip \<Rightarrow> bool" where
  "blocked_class ip \<longleftrightarrow>
     IsUnspecified ip \<or> IsLoopback ip \<or> IsLinkLocalUnicast ip \<or> IsLinkLocalMulticast ip \<or> IsMulticast ip \<or> IsPrivate ip"

text \<open>The recursion of the source is at most one deep: an embedded address is IPv4 and embeds none.\<close>

definition isBlockedPinAddr :: "net_ip option \<Rightarrow> bool" where
  "isBlockedPinAddr addr \<longleftrightarrow>
     (case addr of
        None \<Rightarrow> True
      | Some ip \<Rightarrow>
          blocked_class ip \<or>
          (case To4 (Some ip) of
             Some x \<Rightarrow> net_Contains cgnatNet (IPv4 x)
           | None \<Rightarrow>
               net_Contains siteLocalNet ip \<or>
               (case embeddedIPv4 ip of
                  None \<Rightarrow> False
                | Some e \<Rightarrow> blocked_class e \<or> net_Contains cgnatNet e)))"

section \<open>Pinner\<close>

record PinRequest =
  pr_guest :: "net_ip option"
  pr_tap :: string
  pr_ip :: "net_ip option"
  pr_port :: int
  pr_ttl :: duration

definition pin_seconds :: "duration \<Rightarrow> int" where
  "pin_seconds ttl =
     (let secs = quot ttl 1000000000; secs1 = (if ttl - secs * 1000000000 \<noteq> 0 then secs + 1 else secs)
      in if secs1 < 1 then 1 else secs1)"

definition pin_argv :: "PinRequest \<Rightarrow> string list" where
  "pin_argv q =
     (let nm = (if To4 (pr_ip q) = None then SandboxAllowSet6Name (pr_tap q) else SandboxAllowSetName (pr_tap q))
      in [''nft'', ''add'', ''element'', ''inet'', SharedTableName, nm,
          ''{ '' @ ip_String (pr_ip q) @ '' . '' @ dec_int (pr_port q) @ '' timeout '' @ dec_int (pin_seconds (pr_ttl q)) @ ''s }''])"

definition Pin :: "(string list \<Rightarrow> 'w \<Rightarrow> string option \<times> 'w) \<Rightarrow> PinRequest \<Rightarrow> 'w \<Rightarrow> string option \<times> 'w" where
  "Pin runner q w = runner (pin_argv q) w"

section \<open>Server\<close>

datatype remote_addr = UDPAddr "net_ip option" | TCPAddr "net_ip option" | OtherAddr string

definition clientIPOf :: "remote_addr \<Rightarrow> net_ip option" where
  "clientIPOf addr =
     (case addr of
        UDPAddr ip \<Rightarrow> ip
      | TCPAddr ip \<Rightarrow> ip
      | OtherAddr s \<Rightarrow> (case SplitHostPort s of None \<Rightarrow> None | Some (host, port) \<Rightarrow> ParseIP host))"

datatype dns_rr = RR_A "net_ip option" uint32 | RR_AAAA "net_ip option" uint32 | RR_Other string

definition TypeA :: nat where "TypeA = 1"
definition TypeAAAA :: nat where "TypeAAAA = 28"

record dns_question =
  dq_Name :: string
  dq_Qtype :: nat

datatype dns_reply = Refused | ServerFailure | Answer "dns_rr list"

record DnsServer =
  ds_registry :: DnsRegistry
  ds_upstreams :: "string list"
  ds_ttlFloor :: duration

definition ParseUpstreams :: "string \<Rightarrow> string list" where
  "ParseUpstreams csv = filter (\<lambda>p. p \<noteq> []) (map TrimSpace (Split csv (CHR '','')))"

text \<open>The first upstream that answers.\<close>

fun exchange_first :: "(string \<Rightarrow> dns_question list \<Rightarrow> dns_rr list option) \<Rightarrow> dns_question list \<Rightarrow> string list \<Rightarrow> dns_rr list option" where
  "exchange_first exchange r [] = None"
| "exchange_first exchange r (up # ups) =
     (case exchange up r of Some ans \<Rightarrow> Some ans | None \<Rightarrow> exchange_first exchange r ups)"

text \<open>The pins of one resolved address, and the records that stay in the answer with all pins.\<close>

definition address_pins :: "duration \<Rightarrow> net_ip option \<Rightarrow> string \<Rightarrow> int list \<Rightarrow> net_ip option \<Rightarrow> uint32 \<Rightarrow> PinRequest list" where
  "address_pins ttlFloor client tap ports addr ttl =
     (let t = uint ttl * 1000000000; t1 = (if t < ttlFloor then ttlFloor else t)
      in map (\<lambda>port. \<lparr>pr_guest = client, pr_tap = tap, pr_ip = addr, pr_port = port, pr_ttl = t1\<rparr>) ports)"

fun rr_address :: "dns_rr \<Rightarrow> (net_ip option \<times> uint32) option" where
  "rr_address (RR_A a ttl) = Some (a, ttl)"
| "rr_address (RR_AAAA a ttl) = Some (a, ttl)"
| "rr_address (RR_Other _) = None"

fun screen_answers :: "duration \<Rightarrow> net_ip option \<Rightarrow> string \<Rightarrow> int list \<Rightarrow> dns_rr list \<Rightarrow> dns_rr list \<times> PinRequest list" where
  "screen_answers ttlFloor client tap ports [] = ([], [])"
| "screen_answers ttlFloor client tap ports (rr # rrs) =
     (let (kept, pins) = screen_answers ttlFloor client tap ports rrs
      in case rr_address rr of
           None \<Rightarrow> (rr # kept, pins)
         | Some (addr, ttl) \<Rightarrow>
             if isBlockedPinAddr addr then (kept, pins)
             else (rr # kept, address_pins ttlFloor client tap ports addr ttl @ pins))"

text \<open>
  The decision of \<^verbatim>\<open>ServeDNS\<close>: the reply and the pins to make before it. \<open>enum\<close> lists the ports of
  an entry in the order the map is walked.
\<close>

definition dns_decision ::
  "(string \<Rightarrow> string) \<Rightarrow> (int set \<Rightarrow> int list) \<Rightarrow> (string \<Rightarrow> dns_question list \<Rightarrow> dns_rr list option) \<Rightarrow> (net_ip option \<Rightarrow> string)
    \<Rightarrow> DnsServer \<Rightarrow> remote_addr \<Rightarrow> dns_question list \<Rightarrow> dns_reply \<times> PinRequest list" where
  "dns_decision unicode enum exchange tapFor s remote r =
     (case r of
        [] \<Rightarrow> (Refused, [])
      | q # _ \<Rightarrow>
          (let client = clientIPOf remote
           in if client = None then (Refused, [])
              else if dq_Qtype q \<noteq> TypeA \<and> dq_Qtype q \<noteq> TypeAAAA then (Refused, [])
              else case dns_Lookup unicode (ds_registry s) client (dq_Name q) of
                     None \<Rightarrow> (Refused, [])
                   | Some ports \<Rightarrow>
                       if tapFor client = [] then (Refused, [])
                       else case exchange_first exchange r (ds_upstreams s) of
                              None \<Rightarrow> (ServerFailure, [])
                            | Some ans \<Rightarrow>
                                let (kept, pins) = screen_answers (ds_ttlFloor s) client (tapFor client) (enum ports) ans
                                in (Answer kept, pins)))"

text \<open>A failed pin is logged and the answer is sent all the same.\<close>

definition ServeDNS ::
  "(string \<Rightarrow> string) \<Rightarrow> (int set \<Rightarrow> int list) \<Rightarrow> (string \<Rightarrow> dns_question list \<Rightarrow> dns_rr list option) \<Rightarrow> (net_ip option \<Rightarrow> string)
    \<Rightarrow> (string list \<Rightarrow> 'w \<Rightarrow> string option \<times> 'w) \<Rightarrow> DnsServer \<Rightarrow> remote_addr \<Rightarrow> dns_question list \<Rightarrow> 'w \<Rightarrow> dns_reply \<times> 'w" where
  "ServeDNS unicode enum exchange tapFor runner s remote r w =
     (let (reply, pins) = dns_decision unicode enum exchange tapFor s remote r
      in (reply, fold (\<lambda>q w. snd (Pin runner q w)) pins w))"

section \<open>The resolver of a husk pod\<close>

definition buildEgressDNSRegistry ::
  "(string \<Rightarrow> string) \<Rightarrow> ((string \<rightharpoonup> int list) \<Rightarrow> (string \<times> int list) list) \<Rightarrow> string \<Rightarrow> string list
    \<Rightarrow> (filter_error, DnsRegistry \<times> (string \<rightharpoonup> int list)) result" where
  "buildEgressDNSRegistry unicode entries guestIP allow =
     (case ParseNameAllowList unicode allow of
        Inl e \<Rightarrow> Inl (AllowlistError e)
      | Inr names \<Rightarrow>
          (case ParseIP guestIP of
             None \<Rightarrow> Inl (StepError ''invalid guest ip'' guestIP)
           | Some ip \<Rightarrow> Inr (dns_Register unicode (Some ip) (entries names) NewDnsRegistry, names)))"

definition dnsProxyTTLFloor :: duration where
  "dnsProxyTTLFloor = 30 * 1000000000"

definition newEgressDNSProxy :: "DnsRegistry \<Rightarrow> string \<Rightarrow> string list \<Rightarrow> DnsServer \<times> (net_ip option \<Rightarrow> string)" where
  "newEgressDNSProxy reg tap upstreams =
     (\<lparr>ds_registry = reg, ds_upstreams = upstreams, ds_ttlFloor = dnsProxyTTLFloor\<rparr>, \<lambda>_. tap)"

section \<open>Matching\<close>

lemma TrimSuffix_append: "TrimSuffix (s @ p) p = s"
  by (simp add: TrimSuffix_def HasSuffix_def)

lemma HasSuffix_append: "HasSuffix (s @ p) p"
  by (simp add: HasSuffix_def)

lemma HasSuffixD: "HasSuffix s p \<Longrightarrow> \<exists>t. s = t @ p"
  unfolding HasSuffix_def by (metis HasPrefixD rev_append rev_rev_ident)

text \<open>A wildcard matches exactly the names with a non-empty part before the anchored domain.\<close>

lemma nameMatchesEntry_wildcard:
  "nameMatchesEntry query (''*.'' @ D) \<longleftrightarrow> (\<exists>label. label \<noteq> [] \<and> query = label @ ''.'' @ D)"
proof -
  have pre: "HasPrefix (''*.'' @ D) ''*.''" "TrimPrefix (''*.'' @ D) ''*.'' = D"
    by (rule HasPrefix_append, rule TrimPrefix_append)
  have "HasSuffix query (''.'' @ D) \<and> TrimSuffix query (''.'' @ D) \<noteq> [] \<longleftrightarrow> (\<exists>label. label \<noteq> [] \<and> query = label @ ''.'' @ D)"
    using HasSuffixD [of query "''.'' @ D"] TrimSuffix_append [of _ "''.'' @ D"] HasSuffix_append [of _ "''.'' @ D"] by metis
  then show ?thesis using pre unfolding nameMatchesEntry_def Let_def by simp
qed

lemma dns_Lookup_Some:
  assumes "dns_Lookup unicode r guestIP name = Some ports"
  shows "\<exists>al. r (ip_String guestIP) = Some al \<and>
    (\<forall>p \<in> ports. \<exists>(entry, ps) \<in> set al. nameMatchesEntry (canonicalName unicode name) entry \<and> p \<in> ps)"
  using assms by (fastforce simp: dns_Lookup_def Let_def split: if_splits option.splits)

section \<open>Registered names come from the allowlist\<close>

definition names_entry :: "string list \<Rightarrow> string \<Rightarrow> int \<Rightarrow> string \<Rightarrow> bool" where
  "names_entry allow e port host \<longleftrightarrow>
     e \<in> set allow \<and> split_entry e = Inr (host, port) \<and> ParseIP host = None \<and> validateNameAllowEntry host = None"

lemma parse_names_from:
  assumes "parse_names unicode es names = Inr names'" "names' k = Some ps" "p \<in> set ps"
  shows "(\<exists>ps0. names k = Some ps0 \<and> p \<in> set ps0) \<or>
    (\<exists>e host. names_entry es e p host \<and> k = ToLower unicode (TrimSuffix host ''.''))"
  using assms
proof (induction es arbitrary: names)
  case (Cons e es)
  obtain host port where se: "split_entry e = Inr (host, port)" using Cons.prems(1) by (auto split: sum.splits)
  show ?case
  proof (cases "ParseIP host = None")
    case False
    then show ?thesis using Cons se by (fastforce simp: names_entry_def)
  next
    case True
    then have val: "validateNameAllowEntry host = None" using Cons.prems(1) se by (auto split: option.splits)
    define key where "key = ToLower unicode (TrimSuffix host ''.'')"
    define ports where "ports = (case names key of None \<Rightarrow> [] | Some qs \<Rightarrow> qs)"
    define new where "new = (if port \<in> set ports then names else names(key \<mapsto> ports @ [port]))"
    have "parse_names unicode es new = Inr names'"
      using Cons.prems(1) se True val unfolding key_def ports_def new_def by (auto simp: Let_def split: if_splits)
    from Cons.IH [OF this Cons.prems(2,3)] show ?thesis
    proof
      assume "\<exists>ps0. new k = Some ps0 \<and> p \<in> set ps0"
      then consider "\<exists>ps0. names k = Some ps0 \<and> p \<in> set ps0" | "k = key" "p = port"
        by (cases "names key") (auto simp: new_def ports_def split: if_splits)
      then show ?thesis
        using se True val by cases (auto simp: names_entry_def key_def)
    next
      assume "\<exists>e host. names_entry es e p host \<and> k = ToLower unicode (TrimSuffix host ''.'')"
      then show ?thesis by (auto simp: names_entry_def)
    qed
  qed
qed auto

lemma ParseNameAllowList_from:
  assumes "ParseNameAllowList unicode allow = Inr names" "names k = Some ps" "p \<in> set ps"
  shows "\<exists>e host. names_entry allow e p host \<and> k = ToLower unicode (TrimSuffix host ''.'')"
proof -
  obtain names0 where n: "parse_names unicode allow Map.empty = Inr names0" "names = (\<lambda>k. map_option sort (names0 k))"
    using assms(1) by (auto simp: ParseNameAllowList_def split: sum.splits)
  then obtain ps0 where "names0 k = Some ps0" "p \<in> set ps0" using assms(2,3) by auto
  from parse_names_from [OF n(1) this] show ?thesis by simp
qed

lemma registered_entries:
  "(entry, ports) \<in> set (fold (\<lambda>(name, ps) al. AList.update (f name) (set ps) al) names al) \<Longrightarrow>
   (entry, ports) \<in> set al \<or> (\<exists>(name, ps) \<in> set names. entry = f name \<and> ports = set ps)"
proof (induction names arbitrary: al)
  case (Cons n names)
  obtain name ps where n: "n = (name, ps)" by (cases n)
  have upd: "(entry, ports) \<in> set (AList.update k v al) \<Longrightarrow> (entry, ports) \<in> set al \<or> entry = k \<and> ports = v" for k v
    by (induction al) (auto split: if_splits)
  have "(entry, ports) \<in> set (fold (\<lambda>(name, ps) al. AList.update (f name) (set ps) al) names (AList.update (f name) (set ps) al))"
    using Cons.prems n by simp
  from Cons.IH [OF this] show ?case using upd [of "f name" "set ps"] n by auto
qed simp

section \<open>Canonical names\<close>

lemma label_ascii: "is_label_char c \<Longrightarrow> (of_char c :: nat) < 128"
  by (auto simp: is_label_char_def less_eq_char_def)

lemma lower_label_ascii: "(of_char c :: nat) < 128 \<Longrightarrow> (of_char (lower_char c) :: nat) < 128"
  by (auto simp: lower_char_def less_eq_char_def)

lemma lower_char_idem: "lower_char (lower_char c) = lower_char c"
  by (auto simp: lower_char_def less_eq_char_def)

lemma lower_char_dot: "lower_char c = CHR ''.'' \<longleftrightarrow> c = CHR ''.''"
proof (cases "CHR ''A'' \<le> c \<and> c \<le> CHR ''Z''")
  case True
  then have "(of_char (lower_char c) :: nat) \<noteq> of_char (CHR ''.'')" "(of_char c :: nat) \<noteq> of_char (CHR ''.'')"
    by (auto simp: lower_char_def less_eq_char_def)
  then show ?thesis by metis
qed (auto simp: lower_char_def)

lemma domain_chars:
  assumes "isValidDomain s"
  shows "\<forall>c \<in> set s. is_label_char c \<or> c = CHR ''.''" "s \<noteq> []" "last s \<noteq> CHR ''.''"
proof -
  let ?ls = "Split s (CHR ''.'')"
  have valid: "list_all isValidLabel ?ls" "s \<noteq> []" using assms by (auto simp: isValidDomain_def Let_def)
  have join: "s = Join ?ls ''.''" by (simp add: Join_Split)
  have chars: "\<forall>c \<in> set (Join ls ''.''). is_label_char c \<or> c = CHR ''.''" if "list_all isValidLabel ls" for ls
    using that by (induction ls "''.''" rule: Join.induct) (auto simp: isValidLabel_def list_all_iff)
  have ends: "last (Join ls ''.'') \<noteq> CHR ''.'' \<and> Join ls ''.'' \<noteq> []" if "list_all isValidLabel ls" "ls \<noteq> []" for ls
    using that
  proof (induction ls "''.''" rule: Join.induct)
    case (2 x)
    then have "is_label_char (last x)" "x \<noteq> []" by (auto simp: isValidLabel_def list_all_iff)
    then show ?case by (auto simp: is_label_char_def)
  qed auto
  show "\<forall>c \<in> set s. is_label_char c \<or> c = CHR ''.''" using chars [OF valid(1)] join by simp
  show "s \<noteq> []" by (rule valid(2))
  show "last s \<noteq> CHR ''.''" using ends [OF valid(1)] join by simp
qed

text \<open>The key of a valid name is its lower case spelling, and is canonical.\<close>

lemma valid_name_chars:
  assumes "validateNameAllowEntry host = None"
  shows "\<forall>c \<in> set (TrimSuffix host ''.''). (of_char c :: nat) < 128" "TrimSuffix host ''.'' \<noteq> []"
    "last (TrimSuffix host ''.'') \<noteq> CHR ''.''"
proof -
  let ?n = "TrimSuffix host ''.''"
  have ne: "?n \<noteq> []" using assms by (auto simp: validateNameAllowEntry_def Let_def)
  have "(\<forall>c \<in> set ?n. (of_char c :: nat) < 128) \<and> last ?n \<noteq> CHR ''.''"
  proof (cases "HasPrefix ?n ''*.''")
    case True
    then obtain D where D: "?n = ''*.'' @ D" using HasPrefixD by blast
    then have "isValidDomain D"
      using assms True TrimPrefix_append [of "''*.''" D] by (auto simp: validateNameAllowEntry_def Let_def split: if_splits)
    then show ?thesis using domain_chars [of D] D by (auto dest: label_ascii)
  next
    case False
    then have "isValidDomain ?n"
      using assms ne by (auto simp: validateNameAllowEntry_def Let_def split: if_splits)
    then show ?thesis using domain_chars [of ?n] by (auto dest: label_ascii)
  qed
  then show "\<forall>c \<in> set ?n. (of_char c :: nat) < 128" "last ?n \<noteq> CHR ''.''" by auto
  show "?n \<noteq> []" by (rule ne)
qed

lemma TrimSuffix_keep: "last s \<noteq> c \<Longrightarrow> s \<noteq> [] \<Longrightarrow> TrimSuffix s [c] = s"
  using HasSuffixD [of s "[c]"] by (auto simp: TrimSuffix_def)

lemma valid_name_key:
  assumes "validateNameAllowEntry host = None"
  shows "ToLower unicode (TrimSuffix host ''.'') = map lower_char (TrimSuffix host ''.'')"
    "canonicalName unicode (map lower_char (TrimSuffix host ''.'')) = map lower_char (TrimSuffix host ''.'')"
proof -
  note v = valid_name_chars [OF assms]
  let ?n = "TrimSuffix host ''.''"
  show "ToLower unicode ?n = map lower_char ?n" using v(1) by (simp add: ToLower_def list_all_iff)
  have "ToLower unicode (map lower_char ?n) = map lower_char ?n"
    using v(1) by (simp add: ToLower_def list_all_iff lower_label_ascii lower_char_idem)
  moreover have "last (map lower_char ?n) \<noteq> CHR ''.''" using v(2,3) by (simp add: last_map lower_char_dot)
  ultimately show "canonicalName unicode (map lower_char ?n) = map lower_char ?n"
    using v(2) TrimSuffix_keep [of "map lower_char ?n"] by (simp add: canonicalName_def)
qed

section \<open>What the resolver pins\<close>

lemma screen_answers_spec:
  assumes "screen_answers ttlFloor client tap ports rrs = (kept, pins)"
  shows "\<forall>q \<in> set pins. pr_guest q = client \<and> pr_tap q = tap \<and> \<not> isBlockedPinAddr (pr_ip q) \<and> ttlFloor \<le> pr_ttl q \<and> pr_port q \<in> set ports"
    and "\<forall>rr \<in> set kept. \<forall>a ttl. rr_address rr = Some (a, ttl) \<longrightarrow>
      \<not> isBlockedPinAddr a \<and> (\<forall>p \<in> set ports. \<exists>q \<in> set pins. pr_ip q = a \<and> pr_port q = p)"
  using assms
proof (induction rrs arbitrary: kept pins)
  case (Cons rr rrs)
  obtain kept' pins' where r: "screen_answers ttlFloor client tap ports rrs = (kept', pins')" by force
  { case 1 then show ?case using Cons.IH(1) [OF r] r
      by (auto simp: address_pins_def Let_def split: option.splits if_splits) }
  { case 2
    note IH = Cons.IH(2) [OF r]
    have own: "\<exists>q \<in> set (address_pins ttlFloor client tap ports a ttl). pr_ip q = a \<and> pr_port q = p" if "p \<in> set ports" for a ttl p
      using that by (auto simp: address_pins_def Let_def)
    show ?case
    proof (cases "rr_address rr")
      case None
      then have "kept = rr # kept'" "pins = pins'" using 2 r by simp_all
      then show ?thesis using IH None by simp
    next
      case (Some x)
      obtain a ttl where x: "x = (a, ttl)" by (cases x)
      show ?thesis
      proof (cases "isBlockedPinAddr a")
        case True
        then have "kept = kept'" "pins = pins'" using 2 r Some x by simp_all
        then show ?thesis using IH by simp
      next
        case False
        then have "kept = rr # kept'" "pins = address_pins ttlFloor client tap ports a ttl @ pins'" using 2 r Some x by simp_all
        then show ?thesis using IH own False Some x by (metis Un_iff set_append set_ConsD option.inject prod.inject)
      qed
    qed }
qed simp_all

definition name_allowed :: "(string \<Rightarrow> string) \<Rightarrow> string list \<Rightarrow> string \<Rightarrow> int \<Rightarrow> bool" where
  "name_allowed unicode allow qname port \<longleftrightarrow>
     (\<exists>e host. names_entry allow e port host \<and>
        nameMatchesEntry (canonicalName unicode qname) (map lower_char (TrimSuffix host ''.'')))"

lemma built_registry:
  assumes build: "buildEgressDNSRegistry unicode entries guest allow = Inr (reg, names)"
    and ents: "\<And>m. set (entries m) \<subseteq> {(k, ps). m k = Some ps}"
    and look: "dns_Lookup unicode reg client qname = Some ports" and p: "p \<in> ports"
  shows "name_allowed unicode allow qname p \<and> ip_String client = ip_String (ParseIP guest)"
proof -
  obtain ip where names: "ParseNameAllowList unicode allow = Inr names" and ip: "ParseIP guest = Some ip"
    and reg: "reg = dns_Register unicode (Some ip) (entries names) NewDnsRegistry"
    using build by (auto simp: buildEgressDNSRegistry_def split: sum.splits option.splits)
  obtain al entry ps where al: "reg (ip_String client) = Some al" "(entry, ps) \<in> set al"
    "nameMatchesEntry (canonicalName unicode qname) entry" "p \<in> ps"
    using dns_Lookup_Some [OF look] p by fastforce
  have same: "ip_String client = ip_String (Some ip)"
    using al(1) by (auto simp: reg dns_Register_def NewDnsRegistry_def split: if_splits)
  then have "(entry, ps) \<in> set (fold (\<lambda>(name, ps) al. AList.update (canonicalName unicode name) (set ps) al) (entries names) [])"
    using al(1,2) by (simp add: reg dns_Register_def)
  then obtain name qs where q: "(name, qs) \<in> set (entries names)" "entry = canonicalName unicode name" "ps = set qs"
    using registered_entries by fastforce
  then obtain e host where e: "names_entry allow e p host" "name = ToLower unicode (TrimSuffix host ''.'')"
    using ParseNameAllowList_from [OF names, of name qs p] ents al(4) by auto
  have "entry = map lower_char (TrimSuffix host ''.'')"
    using e valid_name_key [of host unicode] q(2) by (simp add: names_entry_def)
  then show ?thesis using e(1) al(3) same ip by (auto simp: name_allowed_def)
qed

text \<open>Reserved ranges the screening lets pass: this network, benchmarking, class E with the broadcast address.\<close>

lemma reserved_ranges_pass:
  "\<not> isBlockedPinAddr (Some (IPv4 0x00000001))" "\<not> isBlockedPinAddr (Some (IPv4 0xC6120001))"
  "\<not> isBlockedPinAddr (Some (IPv4 0xF0000001))" "\<not> isBlockedPinAddr (Some (IPv4 0xFFFFFFFF))"
  by (simp_all add: isBlockedPinAddr_def blocked_class_def IsUnspecified_def IsLoopback_def IsLinkLocalUnicast_def
      IsLinkLocalMulticast_def IsMulticast_def IsPrivate_def net_Contains_def cgnatNet_def in_block_v4)


section \<open>A query\<close>

definition demo_entries :: "(string \<rightharpoonup> int list) \<Rightarrow> (string \<times> int list) list" where
  "demo_entries m = (case m ''a.com'' of None \<Rightarrow> [] | Some ps \<Rightarrow> [(''a.com'', ps)])"

definition demo_exchange :: "string \<Rightarrow> dns_question list \<Rightarrow> dns_rr list option" where
  "demo_exchange up r = Some [RR_A (Some (IPv4 0x01010101)) 60, RR_A (Some (IPv4 0x0A000001)) 60]"

definition demo_query :: "dns_question list" where
  "demo_query = [\<lparr>dq_Name = ''A.com.'', dq_Qtype = TypeA\<rparr>]"

definition demo_registry :: DnsRegistry where
  "demo_registry = [''10.0.0.2'' \<mapsto> [(''a.com'', {443})]]"

lemma resolver_guest: "ParseIP ''10.0.0.2'' = Some (IPv4 0x0A000002)" "ip_String (Some (IPv4 0x0A000002)) = ''10.0.0.2''"
  by (simp add: address_eval, code_simp)

lemma resolver_names: "ParseNameAllowList (\<lambda>s. s) [''a.com:443''] = Inr [''a.com'' \<mapsto> [443]]"
proof -
  have "split_entry ''a.com:443'' = Inr (''a.com'', 443)" "validateNameAllowEntry ''a.com'' = None"
    "ToLower (\<lambda>s. s) (TrimSuffix ''a.com'' ''.'') = ''a.com''"
    by code_simp+
  moreover have "ParseIP ''a.com'' = None" by (simp add: address_eval)
  ultimately show ?thesis by (auto simp: ParseNameAllowList_def)
qed

lemma resolver_build: "buildEgressDNSRegistry (\<lambda>s. s) demo_entries ''10.0.0.2'' [''a.com:443''] = Inr (demo_registry, [''a.com'' \<mapsto> [443]])"
proof -
  have "canonicalName (\<lambda>s. s) ''a.com'' = ''a.com''" by code_simp
  then show ?thesis
    by (simp add: buildEgressDNSRegistry_def resolver_names resolver_guest demo_entries_def dns_Register_def NewDnsRegistry_def demo_registry_def)
qed

lemma resolver_decision:
  "dns_decision (\<lambda>s. s) sorted_list_of_set demo_exchange (snd (newEgressDNSProxy demo_registry ''sbt0'' [''up'']))
     (fst (newEgressDNSProxy demo_registry ''sbt0'' [''up''])) (UDPAddr (Some (IPv4 0x0A000002))) demo_query =
   (Answer [RR_A (Some (IPv4 0x01010101)) 60],
    [\<lparr>pr_guest = Some (IPv4 0x0A000002), pr_tap = ''sbt0'', pr_ip = Some (IPv4 0x01010101), pr_port = 443, pr_ttl = 60000000000\<rparr>])"
proof -
  have "canonicalName (\<lambda>s. s) ''A.com.'' = ''a.com''" "nameMatchesEntry ''a.com'' ''a.com''" by code_simp+
  then have look: "dns_Lookup (\<lambda>s. s) demo_registry (Some (IPv4 0x0A000002)) ''A.com.'' = Some {443}"
    by (simp add: dns_Lookup_def demo_registry_def resolver_guest)
  have "isBlockedPinAddr (Some (IPv4 0x0A000001))" by (simp add: isBlockedPinAddr_def blocked_class_def IsPrivate_def)
  moreover have "\<not> isBlockedPinAddr (Some (IPv4 0x01010101))"
    by (simp add: isBlockedPinAddr_def blocked_class_def IsUnspecified_def IsLoopback_def IsLinkLocalUnicast_def
        IsLinkLocalMulticast_def IsMulticast_def IsPrivate_def net_Contains_def cgnatNet_def in_block_v4)
  ultimately show ?thesis
    by (simp add: dns_decision_def demo_query_def clientIPOf_def TypeA_def newEgressDNSProxy_def look demo_exchange_def
        address_pins_def dnsProxyTTLFloor_def)
qed


end
