(* ===== verification/Address_Text.thy ===== *)
theory Address_Text
  imports Net_Address
begin

text \<open>Printing an address and parsing it gives the address back, and so do joining and splitting a host and port.\<close>

section \<open>Numbers\<close>

lemma from_hex_digit' [simp]: "n < 16 \<Longrightarrow> from_hex (hex_digit n) = Some n"
  using from_hex_digit [of n] by simp

lemma hex_value_append: "hex_value (s @ [c]) = 16 * hex_value s + the (from_hex c)"
  by (simp add: hex_value_def)

lemma hex_nat_digits: "list_all (\<lambda>c. from_hex c \<noteq> None) (hex_nat n)" "hex_nat n \<noteq> []" "hex_value (hex_nat n) = n"
proof (induction n rule: hex_nat.induct)
  case (1 n)
  have d: "from_hex (hex_digit n) = Some (n mod 16)" by (rule from_hex_digit)
  { case 1 show ?case using "1.IH" d by (subst hex_nat.simps) auto }
  { case 2 show ?case by (subst hex_nat.simps) auto }
  { case 3 show ?case using "1.IH"(3) d by (subst hex_nat.simps) (auto simp: hex_value_append hex_value_def) }
qed

lemma hex_nat_length: "n < 16 ^ k \<Longrightarrow> 0 < k \<Longrightarrow> length (hex_nat n) \<le> k"
proof (induction n arbitrary: k rule: hex_nat.induct)
  case (1 n)
  show ?case
  proof (cases "n < 16")
    case True
    then show ?thesis using 1 by (subst hex_nat.simps) simp
  next
    case False
    then obtain j where k: "k = Suc j" "0 < j" using 1(2,3) by (cases k; cases "k - 1") auto
    then have "n div 16 < 16 ^ j" using 1(2) by (simp add: less_mult_imp_div_less mult.commute)
    then show ?thesis using 1(1) [OF False, of j] k False by (subst hex_nat.simps) simp
  qed
qed

lemma digits_all: "list_all is_digit (dec_nat n)" "digits_value (dec_nat n) = n" "dec_nat n \<noteq> []"
  using digits_dec_nat by simp_all

lemma dec_nat_head: "0 < n \<Longrightarrow> hd (dec_nat n) \<noteq> CHR ''0''"
proof (induction n rule: dec_nat.induct)
  case (1 n)
  show ?case
  proof (cases "n < 10")
    case True
    have "(of_char (dec_digit n) :: nat) \<noteq> of_char (CHR ''0'')"
      using True 1(2) by (simp add: of_char_dec_digit)
    then show ?thesis using True by (subst dec_nat.simps) auto
  next
    case False
    then show ?thesis using 1(1) [OF False] digits_all(3) by (subst dec_nat.simps) simp
  qed
qed

lemma parse_octet_dec: "n \<le> 255 \<Longrightarrow> parse_octet (dec_nat n) = Some n"
proof -
  assume n: "n \<le> 255"
  have "length (dec_nat n) > 1 \<Longrightarrow> hd (dec_nat n) \<noteq> CHR ''0''"
    using dec_nat_head [of n] by (cases "n = 0") (simp_all add: dec_nat.simps [of 0])
  then show ?thesis using n digits_all [of n] by (auto simp: parse_octet_def)
qed

text \<open>The digits of a number in a radix, most significant first.\<close>

definition radix_digits :: "nat \<Rightarrow> nat \<Rightarrow> nat \<Rightarrow> nat list" where
  "radix_digits r m n = map (\<lambda>i. n div r ^ (m - 1 - i) mod r) [0..<m]"

lemma radix_digits_Suc: "radix_digits r (Suc m) n = radix_digits r m (n div r) @ [n mod r]"
proof -
  have "n div r ^ (m - i) mod r = n div r div r ^ (m - 1 - i) mod r" if "i < m" for i
    using that by (simp add: div_mult2_eq [symmetric] power_Suc [symmetric] Suc_diff_Suc del: power_Suc)
  then show ?thesis by (simp add: radix_digits_def)
qed

lemma radix_value: "foldl (\<lambda>a d. a * r + d) 0 (radix_digits r m n) = n mod r ^ m"
proof (induction m arbitrary: n)
  case (Suc m)
  then show ?case by (simp add: radix_digits_Suc mod_mult2_eq mult.commute)
qed (simp add: radix_digits_def)

lemma join_word_nat: "join_word (word_of_nat r) ds = word_of_nat (foldl (\<lambda>a d. a * r + d) 0 ds)"
proof (induction ds rule: rev_induct)
  case (snoc d ds)
  then show ?case by (simp add: join_word_def)
qed (simp add: join_word_def)

lemma word_digits:
  "unat (take_bit k (drop_bit j w)) = unat w div 2 ^ j mod 2 ^ k" for w :: "'a::len word"
  unfolding unsigned_take_bit_eq unat_drop_bit_eq by (simp add: drop_bit_eq_div take_bit_eq_mod)

lemma word_groups_digits: "word_groups w = radix_digits 65536 8 (unat w)"
proof -
  have "(2::nat) ^ (112 - 16 * i) = 65536 ^ (7 - i)" if "i < 8" for i
  proof -
    have "112 - 16 * i = 16 * (7 - i)" using that by simp
    then show ?thesis by (simp add: power_mult)
  qed
  then show ?thesis by (simp add: word_groups_def radix_digits_def word_digits)
qed

lemma join_word_groups: "join_word 65536 (word_groups w) = w"
proof -
  have "unat w < 65536 ^ 8" using unsigned_less [of w] by simp
  then have "foldl (\<lambda>a d. a * 65536 + d) 0 (word_groups w) = unat w"
    by (simp add: word_groups_digits radix_value)
  then show ?thesis using join_word_nat [where 'a = 128, of 65536 "word_groups w"] by simp
qed

definition v4_octets :: "uint32 \<Rightarrow> nat list" where
  "v4_octets x = map (\<lambda>i. unat (take_bit 8 (drop_bit (24 - 8 * i) x))) [0..<4]"

lemma v4_octets_digits: "v4_octets x = radix_digits 256 4 (unat x)"
proof -
  have "(2::nat) ^ (24 - 8 * i) = 256 ^ (3 - i)" if "i < 4" for i
  proof -
    have "24 - 8 * i = 8 * (3 - i)" using that by simp
    then show ?thesis by (simp add: power_mult)
  qed
  then show ?thesis by (simp add: v4_octets_def radix_digits_def word_digits)
qed

lemma join_v4_octets: "join_word 256 (v4_octets x) = x"
proof -
  have "unat x < 256 ^ 4" using unsigned_less [of x] by simp
  then have "foldl (\<lambda>a d. a * 256 + d) 0 (v4_octets x) = unat x"
    by (simp add: v4_octets_digits radix_value)
  then show ?thesis using join_word_nat [where 'a = 32, of 256 "v4_octets x"] by simp
qed

section \<open>IPv4\<close>

lemma norm_ip_mapped: "norm_ip (mapped_v4 x) = IPv4 x"
proof -
  have "drop_bit 32 (mapped_v4 x) = mask 16"
    unfolding word_bits_eq bit_drop_bit_eq bit_mask_iff by (auto simp: bit_mapped_v4)
  moreover have "(ucast (mapped_v4 x) :: uint32) = x"
    unfolding word_bits_eq bit_ucast_iff by (auto simp: bit_mapped_v4 dest: bit_imp_le_length)
  ultimately show ?thesis by (simp add: norm_ip_def mask_numeral)
qed

lemma find_separator:
  "CHR '':'' \<notin> set s \<Longrightarrow> CHR ''.'' \<in> set s \<Longrightarrow> find (\<lambda>c. c = CHR ''.'' \<or> c = CHR '':'') s = Some (CHR ''.'')"
  "CHR ''.'' \<notin> set s \<Longrightarrow> CHR '':'' \<in> set s \<Longrightarrow> find (\<lambda>c. c = CHR ''.'' \<or> c = CHR '':'') s = Some (CHR '':'')"
  by (induction s) auto

lemma set_Join: "set (Join ps sep) \<subseteq> \<Union> (set ` set ps) \<union> set sep"
  by (induction ps sep rule: Join.induct) auto

lemma digit_chars: "c \<in> set (dec_nat n) \<Longrightarrow> is_digit c"
  using digits_all(1) [of n] by (simp add: list_all_iff)

lemma not_digit_seps: "\<not> is_digit (CHR ''.'')" "\<not> is_digit (CHR '':'')" "\<not> is_digit (CHR ''%'')" "\<not> is_digit (CHR '']'')" "\<not> is_digit (CHR ''['')"
  by code_simp+

lemma v4_string_octets: "v4_string x = Join (map dec_nat (v4_octets x)) ''.''"
  by (simp add: v4_string_def v4_octets_def comp_def)

lemma v4_string_chars: "c \<in> set (v4_string x) \<Longrightarrow> is_digit c \<or> c = CHR ''.''"
  using set_Join [of "map dec_nat (v4_octets x)" "''.''"] digit_chars by (fastforce simp: v4_string_octets)

lemma v4_octets_four: "\<exists>a b c d. v4_octets x = [a, b, c, d] \<and> a \<le> 255 \<and> b \<le> 255 \<and> c \<le> 255 \<and> d \<le> 255"
proof -
  have four: "[0..<4] = [0, 1, 2, 3 :: nat]" by (simp add: upt_rec)
  have "unat (take_bit 8 (y :: uint32)) \<le> 255" for y
    using word_digits [of 8 0 y] by simp
  then show ?thesis by (simp add: v4_octets_def four)
qed

lemma ParseAddr_v4: "ParseAddr (v4_string x) = Some (32, mapped_v4 x)"
proof -
  obtain a b c d where o: "v4_octets x = [a, b, c, d]" "a \<le> 255" "b \<le> 255" "c \<le> 255" "d \<le> 255"
    using v4_octets_four by blast
  have "Split (v4_string x) (CHR ''.'') = map dec_nat (v4_octets x)"
    unfolding v4_string_octets using digit_chars not_digit_seps(1) by (intro Split_Join) (auto simp: o)
  then have "parse_v4_fields (v4_string x) = Some (v4_octets x)"
    by (simp add: parse_v4_fields_def o parse_octet_dec)
  moreover have "CHR ''.'' \<in> set (v4_string x)" by (simp add: v4_string_octets o)
  moreover have "CHR '':'' \<notin> set (v4_string x)" "CHR ''%'' \<notin> set (v4_string x)"
    using v4_string_chars not_digit_seps by auto
  ultimately show ?thesis
    by (simp add: ParseAddr_def find_separator(1) join_v4_octets)
qed

section \<open>IPv6\<close>

lemma not_hex_seps: "from_hex (CHR '':'') = None" "from_hex (CHR ''.'') = None" "from_hex (CHR ''%'') = None"
    "from_hex (CHR '']'') = None" "from_hex (CHR ''['') = None"
  by code_simp+

lemma hex_chars: "c \<in> set (hex_nat n) \<Longrightarrow> from_hex c \<noteq> None"
  using hex_nat_digits(1) [of n] by (simp add: list_all_iff)

lemma take_hex:
  assumes "t = [] \<or> from_hex (hd t) = None"
  shows "takeWhile (\<lambda>c. from_hex c \<noteq> None) (hex_nat n @ t) = hex_nat n"
  using assms hex_chars [of _ n] by (subst takeWhile_append2) (auto simp: takeWhile_eq_Nil_iff)

abbreviation hex_groups :: "nat list \<Rightarrow> string" where
  "hex_groups gs \<equiv> Join (map hex_nat gs) '':''"

lemma Join_more: "Join (x # y # ys) sep = x @ sep @ Join (y # ys) sep"
  by simp

lemma hex_groups_start:
  assumes "gs \<noteq> []"
  shows "\<exists>c t. hex_groups gs = c # t \<and> from_hex c \<noteq> None"
proof -
  obtain g gs' where g: "gs = g # gs'" using assms by (cases gs) auto
  obtain c t where c: "hex_nat g = c # t" using hex_nat_digits(2) by (cases "hex_nat g") auto
  have "from_hex c \<noteq> None" using hex_chars [of c g] c by simp
  then show ?thesis using c g by (cases gs') auto
qed

lemma hex_group_ok: "g < 65536 \<Longrightarrow> hex_nat g \<noteq> [] \<and> \<not> length (hex_nat g) > 4 \<and> hex_value (hex_nat g) = g"
  using hex_nat_digits [of g] hex_nat_length [of g 4] by simp

text \<open>One turn of the parser's loop, on a group that ends the text or is followed by a colon.\<close>

lemma v6_groups_last:
  assumes "length gs < 8" "g < 65536"
  shows "v6_groups gs el (hex_nat g) = Some (gs @ [g], el, [])"
  using assms hex_group_ok [of g]
  by (subst v6_groups.simps) (simp add: Let_def take_hex [of "[]" g, simplified append_Nil2, OF disjI1 [OF refl]] del: not_None_eq)

lemma v6_groups_colon:
  assumes "length gs < 8" "g < 65536" "t \<noteq> []" "hd t \<noteq> CHR '':''"
  shows "v6_groups gs el (hex_nat g @ '':'' @ t) = v6_groups (gs @ [g]) el t"
proof -
  obtain c t' where t: "t = c # t'" using assms(3) by (cases t) auto
  then show ?thesis
    using assms hex_group_ok [of g]
    by (subst v6_groups.simps) (simp add: Let_def take_hex not_hex_seps del: not_None_eq)
qed

lemma v6_groups_ellipsis:
  assumes "length gs < 8" "g < 65536"
  shows "v6_groups gs None (hex_nat g @ ''::'' @ t) =
    (if t = [] then Some (gs @ [g], Some (length gs + 1), []) else v6_groups (gs @ [g]) (Some (length gs + 1)) t)"
  using assms hex_group_ok [of g]
  by (subst v6_groups.simps) (simp add: Let_def take_hex not_hex_seps del: not_None_eq)

lemma v6_groups_print:
  assumes "hs \<noteq> []" "length gs + length hs \<le> 8" "\<forall>h \<in> set hs. h < 65536"
  shows "v6_groups gs el (hex_groups hs) = Some (gs @ hs, el, [])"
  using assms
proof (induction hs arbitrary: gs rule: list_nonempty_induct)
  case (single h)
  then show ?case using v6_groups_last [of gs h el] by simp
next
  case (cons h hs)
  obtain c t where c: "hex_groups hs = c # t" "from_hex c \<noteq> None" using hex_groups_start [OF cons.hyps(1)] by blast
  have "c \<noteq> CHR '':''" using c(2) not_hex_seps(1) by auto
  then have "v6_groups gs el (hex_nat h @ '':'' @ hex_groups hs) = v6_groups (gs @ [h]) el (hex_groups hs)"
    using v6_groups_colon [of gs h "hex_groups hs" el] cons.prems c by simp
  moreover have "hex_groups (h # hs) = hex_nat h @ '':'' @ hex_groups hs" using cons.hyps(1) by (cases hs) auto
  ultimately show ?case using cons.IH [of "gs @ [h]"] cons.prems by simp
qed

lemma v6_groups_print_ellipsis:
  assumes "hs \<noteq> []" "length gs + length hs \<le> 8" "\<forall>h \<in> set hs. h < 65536"
  shows "v6_groups gs None (hex_groups hs @ ''::'' @ t) =
    (if t = [] then Some (gs @ hs, Some (length gs + length hs), []) else v6_groups (gs @ hs) (Some (length gs + length hs)) t)"
  using assms
proof (induction hs arbitrary: gs rule: list_nonempty_induct)
  case (single h)
  then show ?case using v6_groups_ellipsis [of gs h t] by simp
next
  case (cons h hs)
  obtain c u where c: "hex_groups hs = c # u" "from_hex c \<noteq> None" using hex_groups_start [OF cons.hyps(1)] by blast
  have "c \<noteq> CHR '':''" using c(2) not_hex_seps(1) by auto
  then have "v6_groups gs None (hex_nat h @ '':'' @ hex_groups hs @ ''::'' @ t) = v6_groups (gs @ [h]) None (hex_groups hs @ ''::'' @ t)"
    using v6_groups_colon [of gs h "hex_groups hs @ ''::'' @ t" None] cons.prems c by simp
  moreover have "hex_groups (h # hs) = hex_nat h @ '':'' @ hex_groups hs" using cons.hyps(1) by (cases hs) auto
  ultimately show ?case using cons.IH [of "gs @ [h]"] cons.prems by simp
qed

lemma ellipsis_at_Some:
  assumes "ellipsis_at gs = Some (i, l)"
  shows "2 \<le> l \<and> l = zero_run gs i"
proof -
  have "foldl (\<lambda>best i. let l = zero_run gs i in if l \<ge> 2 \<and> (case best of None \<Rightarrow> True | Some (j, m) \<Rightarrow> l > m) then Some (i, l) else best) b is
      = Some (i, l) \<Longrightarrow> (\<forall>j m. b = Some (j, m) \<longrightarrow> 2 \<le> m \<and> m = zero_run gs j) \<Longrightarrow> 2 \<le> l \<and> l = zero_run gs i" for b "is"
  proof (induction "is" arbitrary: b)
    case (Cons k ks)
    show ?case by (rule Cons.IH [OF Cons.prems(1) [unfolded foldl_Cons]]) (use Cons.prems(2) in \<open>auto simp: Let_def split: if_splits\<close>)
  qed simp
  from this [OF assms [unfolded ellipsis_at_def]] show ?thesis by simp
qed

lemma zero_run_split:
  assumes "l = zero_run gs i" "0 < l"
  shows "gs = take i gs @ replicate l 0 @ drop (i + l) gs" "i + l \<le> length gs"
proof -
  let ?z = "takeWhile (\<lambda>g. g = 0) (drop i gs)"
  have "?z = replicate l 0" using assms(1) set_takeWhileD [of _ _ "drop i gs"]
    by (auto simp: zero_run_def intro!: replicate_eqI)
  moreover have "drop i gs = ?z @ drop (length ?z) (drop i gs)" by (metis append_take_drop_id takeWhile_eq_take)
  ultimately have d: "drop i gs = replicate l 0 @ drop (i + l) gs" by (simp add: add.commute)
  then show "gs = take i gs @ replicate l 0 @ drop (i + l) gs" by (metis append_take_drop_id)
  have "length (drop i gs) \<ge> l" by (subst d) simp
  then show "i + l \<le> length gs" using assms(2) by simp
qed

lemma word_groups_ok: "length (word_groups w) = 8" "\<forall>g \<in> set (word_groups w). g < 65536"
proof -
  show "length (word_groups w) = 8" by (simp add: word_groups_def)
  have "unat (take_bit 16 (y :: 128 word)) < 65536" for y using word_digits [of 16 0 y] by simp
  then show "\<forall>g \<in> set (word_groups w). g < 65536" by (auto simp: word_groups_def)
qed

lemma groups_no_lead: "gs \<noteq> [] \<Longrightarrow> \<not> HasPrefix (hex_groups gs @ t) ''::''"
  using hex_groups_start [of gs] not_hex_seps(1) by (auto simp: HasPrefix_def)

lemma parse_v6_print: "parse_v6 (v6_string w) = Some (word_groups w)"
proof (cases "ellipsis_at (word_groups w)")
  case None
  let ?gs = "word_groups w"
  have ne: "?gs \<noteq> []" using word_groups_ok(1) [of w] by auto
  then have "v6_groups [] None (hex_groups ?gs) = Some (?gs, None, [])"
    using v6_groups_print [of ?gs "[]" None] word_groups_ok [of w] by simp
  then show ?thesis
    using None groups_no_lead [OF ne, of "[]"] word_groups_ok(1) [of w] by (simp add: v6_string_def parse_v6_def)
next
  case (Some p)
  obtain i l where p: "p = (i, l)" by (cases p)
  let ?gs = "word_groups w" and ?a = "take i (word_groups w)" and ?b = "drop (i + l) (word_groups w)"
  have l: "2 \<le> l" "?gs = ?a @ replicate l 0 @ ?b" "i + l \<le> 8"
    using ellipsis_at_Some [of ?gs i l] Some p zero_run_split [of l ?gs i] word_groups_ok(1) [of w] by auto
  have small: "\<forall>g \<in> set ?a. g < 65536" "\<forall>g \<in> set ?b. g < 65536"
    using word_groups_ok(2) [of w] by (auto dest: in_set_takeD in_set_dropD)
  have len: "length ?a = i" "length ?b = 8 - (i + l)" using l word_groups_ok(1) [of w] by auto
  have tail: "hex_groups gs = [] \<longleftrightarrow> gs = []" for gs using hex_groups_start [of gs] by (cases "gs = []") auto
  have print: "v6_string w = hex_groups ?a @ ''::'' @ hex_groups ?b" using Some p by (simp add: v6_string_def Let_def)
  have sum: "8 - (i + (8 - (i + l))) = l" using l(3) by simp
  have b: "v6_groups gs el (hex_groups ?b) = Some (gs @ ?b, el, [])" if "?b \<noteq> []" "length gs \<le> i" for gs el
    using v6_groups_print [of ?b gs el] that small(2) len l by simp
  show ?thesis
  proof (cases "i = 0")
    case True
    then show ?thesis
      using l(2,3) len b [of "[]" "Some 0"] l(1) unfolding print parse_v6_def
      by (cases "?b = []") (auto simp: HasPrefix_def tail Let_def)
  next
    case False
    then have ne: "?a \<noteq> []" using len(1) by auto
    have "v6_groups [] None (v6_string w) = Some (?a @ ?b, Some i, [])"
      using v6_groups_print_ellipsis [OF ne, of "[]" "hex_groups ?b"] b [of ?a "Some i"] small(1) len l(3) tail
      unfolding print by auto
    then show ?thesis
      using groups_no_lead [OF ne, of "''::'' @ hex_groups ?b"] l(1,2) len sum unfolding parse_v6_def print by (simp add: Let_def)
  qed
qed

lemma v6_string_chars: "c \<in> set (v6_string w) \<Longrightarrow> from_hex c \<noteq> None \<or> c = CHR '':''"
proof -
  have "c \<in> set (hex_groups gs) \<Longrightarrow> from_hex c \<noteq> None \<or> c = CHR '':''" for gs
    using set_Join [of "map hex_nat gs" "'':''"] hex_chars by fastforce
  then show "c \<in> set (v6_string w) \<Longrightarrow> from_hex c \<noteq> None \<or> c = CHR '':''"
    by (fastforce simp: v6_string_def Let_def split: option.splits)
qed

lemma v6_string_colon: "CHR '':'' \<in> set (v6_string w)"
proof -
  obtain a b gs where "word_groups w = a # b # gs"
    using word_groups_ok(1) [of w] by (cases "word_groups w"; cases "tl (word_groups w)") auto
  then show ?thesis by (auto simp: v6_string_def Let_def split: option.splits)
qed

section \<open>Addresses\<close>

text \<open>An address in the representation of the model: the IPv4 addresses are written as such.\<close>

definition normal_ip :: "net_ip \<Rightarrow> bool" where
  "normal_ip ip \<longleftrightarrow> norm_ip (as16 ip) = ip"

lemma ParseAddr_v6: "ParseAddr (v6_string w) = Some (128, w)"
proof -
  have "CHR ''%'' \<notin> set (v6_string w)" "CHR ''.'' \<notin> set (v6_string w)"
    using v6_string_chars [of "CHR ''%''" w] v6_string_chars [of "CHR ''.''" w] not_hex_seps by auto
  then show ?thesis
    by (simp add: ParseAddr_def find_separator(2) v6_string_colon parse_v6_print join_word_groups)
qed

lemma ParseIP_String:
  assumes "normal_ip ip"
  shows "ParseIP (ip_String (Some ip)) = Some ip"
proof (cases ip)
  case (IPv4 x)
  then show ?thesis by (simp add: ip_String_def ParseIP_def ParseAddr_v4 norm_ip_mapped)
next
  case (IPv6 w)
  then show ?thesis using assms by (simp add: ip_String_def ParseIP_def ParseAddr_v6 normal_ip_def as16_def)
qed

lemma normal_norm_ip: "normal_ip (norm_ip w)"
proof (cases "drop_bit 32 w = 0xFFFF")
  case True
  then have "norm_ip w = IPv4 (ucast w)" by (simp add: norm_ip_def)
  then show ?thesis by (simp add: normal_ip_def as16_def norm_ip_mapped)
next
  case False
  then have "norm_ip w = IPv6 w" by (simp add: norm_ip_def)
  then show ?thesis by (simp add: normal_ip_def as16_def)
qed

lemma ParseIP_normal: "ParseIP s = Some ip \<Longrightarrow> normal_ip ip"
  by (auto simp: ParseIP_def normal_norm_ip)

lemma ip_String_inj: "normal_ip a \<Longrightarrow> normal_ip b \<Longrightarrow> ip_String (Some a) = ip_String (Some b) \<Longrightarrow> a = b"
  using ParseIP_String by (metis option.inject)

section \<open>Host and port\<close>

definition JoinHostPort :: "string \<Rightarrow> string \<Rightarrow> string" where
  "JoinHostPort host port =
     (if CHR '':'' \<in> set host then ''['' @ host @ '']:'' @ port else host @ '':'' @ port)"

text \<open>The characters that separate a host from a port do not occur in a port that was split off.\<close>

definition plain_port :: "string \<Rightarrow> bool" where
  "plain_port port \<longleftrightarrow> CHR '':'' \<notin> set port \<and> CHR ''['' \<notin> set port \<and> CHR '']'' \<notin> set port"

lemma takeWhile_upto: "c \<notin> set t \<Longrightarrow> takeWhile (\<lambda>x. x \<noteq> c) (t @ c # s) = t"
  by (induction t) auto

lemma last_index_append: "c \<notin> set t \<Longrightarrow> last_index c (s @ c # t) = Some (length s)"
  using takeWhile_upto [of c "rev t" "rev s"] by (simp add: last_index_def)

lemma last_index_Some:
  assumes "last_index c s = Some i"
  shows "i < length s" "s ! i = c" "c \<notin> set (drop (i + 1) s)"
proof -
  obtain a b where s: "s = a @ c # b" "c \<notin> set b"
    using assms split_list_last [of c s] by (auto simp: last_index_def split: if_splits)
  then have "i = length a" using assms last_index_append [of c b a] by simp
  then show "i < length s" "s ! i = c" "c \<notin> set (drop (i + 1) s)" using s by simp_all
qed

lemma SplitHostPort_port:
  assumes "SplitHostPort s = Some (host, port)"
  shows "plain_port port"
proof -
  obtain i where i: "last_index (CHR '':'') s = Some i" using assms by (auto simp: SplitHostPort_def split: option.splits)
  have keep: "x \<notin> set (drop (Suc i) s)" if "x \<notin> set (drop j s)" "j \<le> Suc i" for j x
    using that set_drop_subset_set_drop [of j "Suc i" s] by auto
  have "port = drop (i + 1) s \<and> CHR ''['' \<notin> set (drop (i + 1) s) \<and> CHR '']'' \<notin> set (drop (i + 1) s)"
    using assms i keep [of _ 0] keep [of _ 1] keep [of _ i] by (auto simp: SplitHostPort_def split: option.splits if_splits)
  then show ?thesis using last_index_Some(3) [OF i] by (auto simp: plain_port_def)
qed

lemma SplitHostPort_JoinHostPort:
  assumes "plain_port port" "CHR ''['' \<notin> set host" "CHR '']'' \<notin> set host"
  shows "SplitHostPort (JoinHostPort host port) = Some (host, port)"
proof (cases "CHR '':'' \<in> set host")
  case True
  have i: "last_index (CHR '':'') (''['' @ host @ '']'' @ CHR '':'' # port) = Some (length host + 2)"
    using last_index_append [of "CHR '':''" port "''['' @ host @ '']''"] assms(1) by (simp add: plain_port_def)
  have e: "first_index (CHR '']'') (''['' @ host @ '']'' @ CHR '':'' # port) = Some (length host + 1)"
    using takeWhile_upto [of "CHR '']''" "''['' @ host" "CHR '':'' # port"] assms(3) by (simp add: first_index_def)
  show ?thesis
    using True assms i e by (simp add: JoinHostPort_def SplitHostPort_def plain_port_def)
next
  case False
  have i: "last_index (CHR '':'') (host @ CHR '':'' # port) = Some (length host)"
    using last_index_append [of "CHR '':''" port host] assms(1) by (simp add: plain_port_def)
  have "hd (host @ CHR '':'' # port) \<noteq> CHR ''[''" using assms(2) by (cases host) auto
  then show ?thesis using False assms i by (simp add: JoinHostPort_def SplitHostPort_def plain_port_def)
qed

lemma ip_String_plain: "CHR ''['' \<notin> set (ip_String (Some ip))" "CHR '']'' \<notin> set (ip_String (Some ip))"
proof -
  have "c \<notin> set (ip_String (Some ip))" if "c = CHR ''['' \<or> c = CHR '']''" for c
    using that v4_string_chars [of c] v6_string_chars [of c] not_digit_seps not_hex_seps by (cases ip) (auto simp: ip_String_def)
  then show "CHR ''['' \<notin> set (ip_String (Some ip))" "CHR '']'' \<notin> set (ip_String (Some ip))" by auto
qed

end
