(* ===== verification/Egress_Proxy.thy ===== *)
theory Egress_Proxy
  imports Dns_Proxy Address_Text
begin

text \<open>
  The two proxies that dial on behalf of a guest from the host: the HTTP forward proxy
  (\<^verbatim>\<open>internal/egressproxy\<close>) and the TLS proxy that reads the server name (\<^verbatim>\<open>internal/sniproxy\<close>). The
  resolver, the dialer, the URL parser and the TLS parser are arguments. A client connection is the
  bytes it sends before the read deadline and those after it; how many bytes two concurrent copies
  move before one side closes is an argument as well.
\<close>

section \<open>Attribution\<close>

type_synonym SandboxRegistry = "string \<rightharpoonup> string"

definition NewSandboxRegistry :: SandboxRegistry where
  "NewSandboxRegistry = Map.empty"

definition eg_Register :: "net_ip option \<Rightarrow> string \<Rightarrow> SandboxRegistry \<Rightarrow> SandboxRegistry" where
  "eg_Register guestIP sandboxID r = r(ip_String guestIP \<mapsto> sandboxID)"

definition eg_Deregister :: "net_ip option \<Rightarrow> SandboxRegistry \<Rightarrow> SandboxRegistry" where
  "eg_Deregister guestIP r = r(ip_String guestIP := None)"

definition eg_Lookup :: "SandboxRegistry \<Rightarrow> net_ip option \<Rightarrow> string option" where
  "eg_Lookup r srcIP = r (ip_String srcIP)"

section \<open>The destination denylist\<close>

definition deniedCIDRs :: "string list" where
  "deniedCIDRs =
     [''169.254.0.0/16'', ''127.0.0.0/8'', ''::1/128'', ''fe80::/10'', ''fd00:ec2::254/128'', ''64:ff9b::/96'', ''::/96'']"

definition deniedNets :: "IPNet list" where
  "deniedNets = map (\<lambda>c. the (ParseCIDR c)) deniedCIDRs"

definition deniedIP :: "net_ip option \<Rightarrow> bool" where
  "deniedIP addr \<longleftrightarrow>
     (case addr of
        None \<Rightarrow> True
      | Some ip \<Rightarrow>
          IsUnspecified ip \<or> IsLoopback ip \<or> IsLinkLocalUnicast ip \<or> IsLinkLocalMulticast ip \<or>
          list_ex (\<lambda>n. net_Contains n ip) deniedNets)"

datatype screen_error = ErrDestinationDenied | SplitError string | ResolveError string | NoAddresses

definition screenDestination :: "(string \<Rightarrow> net_ip option list option) \<Rightarrow> string \<Rightarrow> (screen_error, string) result" where
  "screenDestination lookupIP hostport =
     (case SplitHostPort hostport of
        None \<Rightarrow> Inl (SplitError hostport)
      | Some (host, port) \<Rightarrow>
          (case ParseIP host of
             Some ip \<Rightarrow> if deniedIP (Some ip) then Inl ErrDestinationDenied else Inr hostport
           | None \<Rightarrow>
               (case lookupIP host of
                  None \<Rightarrow> Inl (ResolveError host)
                | Some ips \<Rightarrow>
                    if ips = [] then Inl NoAddresses
                    else if list_ex deniedIP ips then Inl ErrDestinationDenied
                    else Inr (JoinHostPort (ip_String (hd ips)) port))))"

text \<open>
  What a connection meets: the addresses of a name, the bytes an upstream answers with (\<open>None\<close> when
  the dial fails), whether the proxy's first write succeeds, how many bytes each copy moves, and
  how many bytes of the client the buffered reader holds when the headers end.
\<close>

record proxy_env =
  pe_LookupIP :: "string \<Rightarrow> net_ip option list option"
  pe_Dial :: "string \<Rightarrow> string option"
  pe_write_ok :: bool
  pe_copied :: "nat \<times> nat"
  pe_held :: nat

datatype dial_error = Screened screen_error | DialFailed string

definition dialUpstream :: "proxy_env \<Rightarrow> string \<Rightarrow> (dial_error, string) result \<times> string list" where
  "dialUpstream env hostport =
     (case screenDestination (pe_LookupIP env) hostport of
        Inl e \<Rightarrow> (Inl (Screened e), [])
      | Inr target \<Rightarrow>
          (case pe_Dial env target of
             None \<Rightarrow> (Inl (DialFailed target), [target])
           | Some response \<Rightarrow> (Inr response, [target])))"

section \<open>Reading the request\<close>

abbreviation LF :: char where "LF \<equiv> CHR 0x0A"
abbreviation CR :: char where "CR \<equiv> CHR 0x0D"

definition trim_crlf :: "string \<Rightarrow> string" where
  "trim_crlf s = rev (dropWhile (\<lambda>c. c = CR \<or> c = LF) (rev s))"

text \<open>\<^verbatim>\<open>bufio.Reader.ReadString\<close>: a line with its newline and what follows; \<open>None\<close> when the input ends before.\<close>

definition read_line :: "string \<Rightarrow> (string \<times> string) option" where
  "read_line s =
     (let l = takeWhile (\<lambda>c. c \<noteq> LF) s
      in if length l = length s then None else Some (l @ [LF], drop (length l + 1) s))"

text \<open>\<^verbatim>\<open>strings.Fields\<close>, with the field read so far.\<close>

function split_fields :: "string \<Rightarrow> string \<Rightarrow> string list" where
  "split_fields cur [] = (if cur = [] then [] else [cur])"
| "split_fields cur (c # s) =
     (case find (\<lambda>r. r \<noteq> [] \<and> HasPrefix (c # s) r) space_runes of
        Some r \<Rightarrow> (if cur = [] then [] else [cur]) @ split_fields [] (drop (length r) (c # s))
      | None \<Rightarrow> split_fields (cur @ [c]) s)"
  by pat_completeness auto
termination
proof (relation "measure (length \<circ> snd)")
  fix cur c s r
  assume "find (\<lambda>r. r \<noteq> [] \<and> HasPrefix (c # s) r) space_runes = Some r"
  then have "r \<noteq> []" by (auto dest: find_SomeD)
  then show "(([], drop (length r) (c # s)), cur, c # s) \<in> measure (length \<circ> snd)" by (cases r) auto
qed simp_all

text \<open>A printable ASCII character belongs to a field, a blank ends one.\<close>

definition is_graph :: "char \<Rightarrow> bool" where
  "is_graph c \<longleftrightarrow> CHR ''!'' \<le> c \<and> c \<le> CHR ''~''"

lemma split_fields_graph: "is_graph c \<Longrightarrow> split_fields cur (c # s) = split_fields (cur @ [c]) s"
proof -
  assume c: "is_graph c"
  have "list_all (\<lambda>r. r = [] \<or> \<not> is_graph (hd r)) space_runes" by code_simp
  then have "find (\<lambda>r. r \<noteq> [] \<and> HasPrefix (c # s) r) space_runes = None"
    using c by (auto simp: find_None_iff list_all_iff HasPrefix_def take_Cons split: nat.splits)
  then show ?thesis by simp
qed

lemma split_fields_word: "list_all is_graph w \<Longrightarrow> split_fields cur (w @ s) = split_fields (cur @ w) s"
proof (induction w arbitrary: cur)
  case (Cons c w)
  then show ?case using split_fields_graph [of c cur "w @ s"] by (simp del: split_fields.simps)
qed simp

lemma split_fields_blank: "split_fields cur (CHR '' '' # s) = (if cur = [] then [] else [cur]) @ split_fields [] s"
proof -
  have "find (\<lambda>r. r \<noteq> [] \<and> HasPrefix (CHR '' '' # s) r) space_runes = Some '' ''"
    by (simp add: space_runes_def HasPrefix_def)
  then show ?thesis by simp
qed

definition Fields :: "string \<Rightarrow> string list" where
  "Fields s = split_fields [] s"

definition upper_char :: "char \<Rightarrow> char" where
  "upper_char c = (if CHR ''a'' \<le> c \<and> c \<le> CHR ''z'' then char_of (of_char c - 32 :: nat) else c)"

text \<open>The case mappings of text that is not ASCII.\<close>

record unicode_tables =
  uni_lower :: "string \<Rightarrow> string"
  uni_upper :: "string \<Rightarrow> string"

definition ToUpper :: "(string \<Rightarrow> string) \<Rightarrow> string \<Rightarrow> string" where
  "ToUpper unicode s = (if list_all (\<lambda>c. (of_char c :: nat) < 128) s then map upper_char s else unicode s)"

text \<open>The parts of a URL the proxy asks for: scheme, host name, port.\<close>

type_synonym url_parser = "string \<Rightarrow> (string \<times> string \<times> string) option"

definition parseRequestTarget :: "unicode_tables \<Rightarrow> url_parser \<Rightarrow> string \<Rightarrow> (string \<times> string \<times> bool) option" where
  "parseRequestTarget uni url line =
     (case Fields line of
        meth # target # _ \<Rightarrow>
          if ToUpper (uni_upper uni) meth = ''CONNECT'' then Some (meth, target, True)
          else (case url target of
                  None \<Rightarrow> None
                | Some (scheme, host, port) \<Rightarrow>
                    let port1 = (if port \<noteq> [] then port
                                 else if ToLower (uni_lower uni) scheme = ''https'' then ''443'' else ''80'')
                    in Some (meth, JoinHostPort host port1, False))
      | _ \<Rightarrow> None)"

function collectHeaders :: "string \<Rightarrow> string list \<times> string" where
  "collectHeaders s =
     (case read_line s of
        None \<Rightarrow> ([], [])
      | Some (h, rest) \<Rightarrow>
          if trim_crlf h = [] then ([h], rest)
          else let (hs, r) = collectHeaders rest in (h # hs, r))"
  by pat_completeness auto
termination
  by (relation "measure length") (auto simp: read_line_def Let_def split: if_splits dest: le_neq_implies_less [OF length_takeWhile_le])

declare collectHeaders.simps [simp del]

function drainHeaders :: "string \<Rightarrow> string" where
  "drainHeaders s =
     (case read_line s of
        None \<Rightarrow> []
      | Some (h, rest) \<Rightarrow> if trim_crlf h = [] then rest else drainHeaders rest)"
  by pat_completeness auto
termination
  by (relation "measure length") (auto simp: read_line_def Let_def split: if_splits dest: le_neq_implies_less [OF length_takeWhile_le])

declare drainHeaders.simps [simp del]

section \<open>The forward proxy\<close>

record client_conn =
  cc_early :: string
  cc_late :: string

datatype proxy_log = Egress string string int int | Deny string string

text \<open>What the client reads, the targets that were dialed, what the upstream reads, and the log.\<close>

record serve_outcome =
  so_reply :: string
  so_dialed :: "string list"
  so_upstream :: string
  so_log :: "proxy_log list"

definition maxPreambleBytes :: nat where
  "maxPreambleBytes = 64 * 1024"

abbreviation CRLF :: string where "CRLF \<equiv> [CR, LF]"

definition status_line :: "string \<Rightarrow> string" where
  "status_line s = ''HTTP/1.1 '' @ s @ CRLF @ CRLF"

definition serve_refusal :: "string \<Rightarrow> string \<Rightarrow> string list \<Rightarrow> dial_error \<Rightarrow> serve_outcome" where
  "serve_refusal sandboxID hostport dialed e =
     (if e = Screened ErrDestinationDenied
      then \<lparr>so_reply = status_line ''403 Forbidden'', so_dialed = dialed, so_upstream = [], so_log = [Deny sandboxID hostport]\<rparr>
      else \<lparr>so_reply = status_line ''502 Bad Gateway'', so_dialed = dialed, so_upstream = [], so_log = []\<rparr>)"

text \<open>The tunnel copies from the connection itself: what the reader holds stays behind.\<close>

definition serveConnect :: "proxy_env \<Rightarrow> string \<Rightarrow> string \<Rightarrow> string \<Rightarrow> serve_outcome" where
  "serveConnect env sandboxID hostport stream =
     (case dialUpstream env hostport of
        (Inl e, dialed) \<Rightarrow> serve_refusal sandboxID hostport dialed e
      | (Inr response, dialed) \<Rightarrow>
          if \<not> pe_write_ok env then \<lparr>so_reply = [], so_dialed = dialed, so_upstream = [], so_log = []\<rparr>
          else let up = take (fst (pe_copied env)) (drop (pe_held env) stream);
                   down = take (snd (pe_copied env)) response
               in \<lparr>so_reply = status_line ''200 Connection Established'' @ down, so_dialed = dialed, so_upstream = up,
                   so_log = [Egress sandboxID hostport (int (length up)) (int (length down))]\<rparr>)"

definition forwards_header :: "unicode_tables \<Rightarrow> string \<Rightarrow> bool" where
  "forwards_header uni h \<longleftrightarrow>
     (let t = trim_crlf h; lt = ToLower (uni_lower uni) t
      in t \<noteq> [] \<and> \<not> HasPrefix lt ''connection:'' \<and> \<not> HasPrefix lt ''proxy-connection:'')"

definition servePlain :: "unicode_tables \<Rightarrow> proxy_env \<Rightarrow> string \<Rightarrow> string \<Rightarrow> string \<Rightarrow> string \<Rightarrow> string list \<Rightarrow> serve_outcome" where
  "servePlain uni env body sandboxID hostport firstLine headers =
     (case dialUpstream env hostport of
        (Inl e, dialed) \<Rightarrow> serve_refusal sandboxID hostport dialed e
      | (Inr response, dialed) \<Rightarrow>
          let request = firstLine @ CRLF @ concat (filter (forwards_header uni) headers) @ ''Connection: close'' @ CRLF @ CRLF;
              up = take (fst (pe_copied env)) body;
              down = take (snd (pe_copied env)) response
          in \<lparr>so_reply = down, so_dialed = dialed, so_upstream = request @ up,
              so_log = [Egress sandboxID hostport (int (length request) + int (length up)) (int (length down))]\<rparr>)"

text \<open>The preamble is read through a limit; an end of input, by the limit, the deadline or the client, ends it.\<close>

definition Serve :: "unicode_tables \<Rightarrow> url_parser \<Rightarrow> proxy_env \<Rightarrow> SandboxRegistry \<Rightarrow> client_conn \<Rightarrow> net_ip option \<Rightarrow> serve_outcome" where
  "Serve uni url env reg client srcIP =
     (let preamble = take maxPreambleBytes (cc_early client);
          rest = drop maxPreambleBytes (cc_early client) @ cc_late client;
          none = \<lparr>so_reply = [], so_dialed = [], so_upstream = [], so_log = []\<rparr>
      in case read_line preamble of
           None \<Rightarrow> none
         | Some (l, after) \<Rightarrow>
             (let line = trim_crlf l
              in case parseRequestTarget uni url line of
                   None \<Rightarrow> none\<lparr>so_reply := status_line ''400 Bad Request''\<rparr>
                 | Some (meth, hostport, isConnect) \<Rightarrow>
                     (case eg_Lookup reg srcIP of
                        None \<Rightarrow> none\<lparr>so_reply := status_line ''403 Forbidden''\<rparr>
                      | Some sandboxID \<Rightarrow>
                          if isConnect then serveConnect env sandboxID hostport (drainHeaders after @ rest)
                          else let (headers, left) = collectHeaders after
                               in servePlain uni env (left @ rest) sandboxID hostport line headers)))"

section \<open>The server name proxy\<close>

definition RegistryAllowlist_Allowed :: "(string \<Rightarrow> string) \<Rightarrow> DnsRegistry option \<Rightarrow> net_ip option \<Rightarrow> string \<Rightarrow> int \<Rightarrow> bool" where
  "RegistryAllowlist_Allowed unicode reg srcIP serverName port \<longleftrightarrow>
     (case reg of
        None \<Rightarrow> False
      | Some r \<Rightarrow>
          serverName \<noteq> [] \<and>
          (case dns_Lookup unicode r srcIP serverName of None \<Rightarrow> False | Some ports \<Rightarrow> port \<in> ports))"

datatype sni_log = SniAllow string string int int int | SniDeny string string int string

record sni_outcome =
  sn_dialed :: "string list"
  sn_upstream :: string
  sn_client :: string
  sn_log :: "sni_log list"

text \<open>The server name of a hello, the bytes that were read to find it, and the bytes that were not.\<close>

type_synonym hello_parser = "string \<Rightarrow> (string \<times> string \<times> string) option"

definition sni_splice :: "proxy_env \<Rightarrow> string \<Rightarrow> string \<Rightarrow> string \<Rightarrow> string \<Rightarrow> int \<Rightarrow> string \<Rightarrow> string \<Rightarrow> sni_outcome" where
  "sni_splice env target response sandboxID serverName port peeked stream =
     (if \<not> pe_write_ok env then \<lparr>sn_dialed = [target], sn_upstream = [], sn_client = [], sn_log = []\<rparr>
      else let up = take (fst (pe_copied env)) stream; down = take (snd (pe_copied env)) response
           in \<lparr>sn_dialed = [target], sn_upstream = peeked @ up, sn_client = down,
               sn_log = [SniAllow sandboxID serverName port (int (length peeked) + int (length up)) (int (length down))]\<rparr>)"

definition sni_Serve ::
  "(string \<Rightarrow> string) \<Rightarrow> hello_parser \<Rightarrow> proxy_env \<Rightarrow> SandboxRegistry \<Rightarrow> DnsRegistry option \<Rightarrow> string \<Rightarrow> net_ip option \<Rightarrow> net_ip option \<Rightarrow> int
    \<Rightarrow> sni_outcome" where
  "sni_Serve unicode peek env attrib allow client srcIP dstIP dstPort =
     (let deny = (\<lambda>sid name reason. \<lparr>sn_dialed = [], sn_upstream = [], sn_client = [], sn_log = [SniDeny sid name dstPort reason]\<rparr>)
      in case eg_Lookup attrib srcIP of
           None \<Rightarrow> deny [] [] ''unknown_sandbox''
         | Some sandboxID \<Rightarrow>
             (case peek client of
                None \<Rightarrow> deny sandboxID [] ''malformed_clienthello''
              | Some (serverName, peeked, stream) \<Rightarrow>
                  if serverName = [] then deny sandboxID [] ''missing_sni''
                  else if \<not> RegistryAllowlist_Allowed unicode allow srcIP serverName dstPort then deny sandboxID serverName ''not_allowlisted''
                  else if deniedIP dstIP then deny sandboxID serverName ''destination_denied''
                  else let target = JoinHostPort (ip_String dstIP) (dec_int dstPort)
                       in case pe_Dial env target of
                            None \<Rightarrow> \<lparr>sn_dialed = [target], sn_upstream = [], sn_client = [], sn_log = []\<rparr>
                          | Some response \<Rightarrow> sni_splice env target response sandboxID serverName dstPort peeked stream))"

text \<open>The original destination in the answer of the socket option: port and IPv4 address.\<close>

definition originalDst :: "uint8 list option \<Rightarrow> (string, net_ip option \<times> int) result" where
  "originalDst raw =
     (case raw of
        None \<Rightarrow> Inl ''SO_ORIGINAL_DST''
      | Some bs \<Rightarrow>
          (let port = uint (bs ! 2) * 256 + uint (bs ! 3)
           in if port = 0 then Inl ''no original destination recovered''
              else Inr (Some (IPv4 (join_word 256 (map unat (take 4 (drop 4 bs))))), port)))"

section \<open>Screening\<close>

lemma denied_nets_parse: "list_all (\<lambda>c. ParseCIDR c \<noteq> None) deniedCIDRs"
  by (simp add: deniedCIDRs_def address_eval)

text \<open>A target that passes the screening is an address, the one that was named or one the name resolved to.\<close>

definition resolves_to :: "(string \<Rightarrow> net_ip option list option) \<Rightarrow> string \<Rightarrow> net_ip \<Rightarrow> bool" where
  "resolves_to lookupIP host ip \<longleftrightarrow>
     (case ParseIP host of
        Some a \<Rightarrow> a = ip
      | None \<Rightarrow> (case lookupIP host of None \<Rightarrow> False | Some ips \<Rightarrow> Some ip \<in> set ips \<and> \<not> list_ex deniedIP ips))"

text \<open>The resolver answers in the representation of the model.\<close>

definition normal_answers :: "(string \<Rightarrow> net_ip option list option) \<Rightarrow> bool" where
  "normal_answers lookupIP \<longleftrightarrow> (\<forall>h ips ip. lookupIP h = Some ips \<longrightarrow> Some ip \<in> set ips \<longrightarrow> normal_ip ip)"

lemma screened_target:
  assumes screen: "screenDestination lookupIP hostport = Inr t"
    and normal: "normal_answers lookupIP"
  shows "\<exists>host port ip name. SplitHostPort t = Some (host, port) \<and> ParseIP host = Some ip \<and> \<not> deniedIP (Some ip) \<and>
    SplitHostPort hostport = Some (name, port) \<and> resolves_to lookupIP name ip"
proof -
  obtain name port where sp: "SplitHostPort hostport = Some (name, port)"
    using screen by (auto simp: screenDestination_def split: option.splits)
  show ?thesis
  proof (cases "ParseIP name")
    case (Some ip)
    then have "t = hostport" "\<not> deniedIP (Some ip)" using screen sp by (auto simp: screenDestination_def split: if_splits)
    then show ?thesis using sp Some by (auto simp: resolves_to_def)
  next
    case None
    then obtain ips where ips: "lookupIP name = Some ips" "ips \<noteq> []" "\<not> list_ex deniedIP ips" "t = JoinHostPort (ip_String (hd ips)) port"
      using screen sp by (auto simp: screenDestination_def split: option.splits if_splits)
    then have ok: "\<not> deniedIP (hd ips)" by (auto simp: list_ex_iff)
    then obtain ip where ip: "hd ips = Some ip" by (cases "hd ips") (auto simp: deniedIP_def)
    then have mem: "Some ip \<in> set ips" using ips(2) by (metis hd_in_set)
    have "SplitHostPort t = Some (ip_String (Some ip), port)"
      using SplitHostPort_JoinHostPort [OF SplitHostPort_port [OF sp] ip_String_plain(1) ip_String_plain(2)] ips(4) ip by simp
    moreover have "ParseIP (ip_String (Some ip)) = Some ip"
      using ParseIP_String normal ips(1) mem by (auto simp: normal_answers_def)
    ultimately show ?thesis using ok ip sp mem ips(1,3) None by (auto simp: resolves_to_def)
  qed
qed

text \<open>An address that is not denied is none of the host's own and no metadata endpoint.\<close>

lemma not_denied_v4:
  assumes "\<not> deniedIP (Some (IPv4 x))"
  shows "x \<noteq> 0" "drop_bit 24 x \<noteq> 127" "drop_bit 16 x \<noteq> 0xA9FE"
  using assms by (auto simp: deniedIP_def IsUnspecified_def IsLoopback_def IsLinkLocalUnicast_def)

section \<open>The forward proxy\<close>

fun log_entry :: "proxy_log \<Rightarrow> string \<times> string" where
  "log_entry (Egress sandboxID hostport up down) = (sandboxID, hostport)"
| "log_entry (Deny sandboxID hostport) = (sandboxID, hostport)"

definition request_target :: "unicode_tables \<Rightarrow> url_parser \<Rightarrow> client_conn \<Rightarrow> (string \<times> bool) option" where
  "request_target uni url client =
     (case read_line (take maxPreambleBytes (cc_early client)) of
        None \<Rightarrow> None
      | Some (l, after) \<Rightarrow> map_option snd (parseRequestTarget uni url (trim_crlf l)))"

definition dial_log :: "proxy_env \<Rightarrow> string \<Rightarrow> string \<Rightarrow> bool \<Rightarrow> (string \<times> string) list" where
  "dial_log env sandboxID hostport isConnect =
     (case fst (dialUpstream env hostport) of
        Inl e \<Rightarrow> if e = Screened ErrDestinationDenied then [(sandboxID, hostport)] else []
      | Inr response \<Rightarrow> if isConnect \<and> \<not> pe_write_ok env then [] else [(sandboxID, hostport)])"

lemma serveConnect_effects:
  "so_dialed (serveConnect env sandboxID hostport stream) = snd (dialUpstream env hostport)"
  "map log_entry (so_log (serveConnect env sandboxID hostport stream)) = dial_log env sandboxID hostport True"
  by (auto simp: serveConnect_def serve_refusal_def dial_log_def Let_def split: prod.splits sum.splits)

lemma servePlain_effects:
  "so_dialed (servePlain uni env body sandboxID hostport line hs) = snd (dialUpstream env hostport)"
  "map log_entry (so_log (servePlain uni env body sandboxID hostport line hs)) = dial_log env sandboxID hostport False"
  by (auto simp: servePlain_def serve_refusal_def dial_log_def Let_def split: prod.splits sum.splits)

text \<open>What a connection dials and logs is decided by the target of its request line and its source.\<close>

lemma Serve_effects:
  "so_dialed (Serve uni url env reg client srcIP) =
     (case (request_target uni url client, eg_Lookup reg srcIP) of
        (Some (hostport, isConnect), Some sandboxID) \<Rightarrow> snd (dialUpstream env hostport)
      | _ \<Rightarrow> [])"
  "map log_entry (so_log (Serve uni url env reg client srcIP)) =
     (case (request_target uni url client, eg_Lookup reg srcIP) of
        (Some (hostport, isConnect), Some sandboxID) \<Rightarrow> dial_log env sandboxID hostport isConnect
      | _ \<Rightarrow> [])"
  by (auto simp: Serve_def request_target_def Let_def serveConnect_effects servePlain_effects
      split: option.splits prod.splits)

lemma dialed_screened: "t \<in> set (snd (dialUpstream env hostport)) \<Longrightarrow> screenDestination (pe_LookupIP env) hostport = Inr t"
  by (auto simp: dialUpstream_def split: sum.splits option.splits)

text \<open>C9: The forward proxy dials only for a registered guest, and only an address literal that is outside
  the host's denylist: the address its request names, or an address the named host resolved to
  when none of the resolved addresses is denied. In particular it never dials the host itself or
  the link-local metadata service, whatever a name resolves to later. Every log line is
  attributed to the sandbox of the guest.\<close>

theorem proxy_dials_vetted:
  assumes dialed: "t \<in> set (so_dialed (Serve uni url env reg client srcIP))"
    and normal: "normal_answers (pe_LookupIP env)"
  shows "\<exists>sandboxID name host port ip. eg_Lookup reg srcIP = Some sandboxID \<and>
    SplitHostPort t = Some (host, port) \<and> ParseIP host = Some ip \<and> \<not> deniedIP (Some ip) \<and>
    (\<exists>hostport isConnect. request_target uni url client = Some (hostport, isConnect) \<and> SplitHostPort hostport = Some (name, port)) \<and>
    resolves_to (pe_LookupIP env) name ip \<and>
    (\<forall>x. ip = IPv4 x \<longrightarrow> x \<noteq> 0 \<and> drop_bit 24 x \<noteq> 127 \<and> drop_bit 16 x \<noteq> 0xA9FE) \<and>
    fst ` log_entry ` set (so_log (Serve uni url env reg client srcIP)) \<subseteq> {sandboxID}"
proof -
  obtain hostport isConnect sandboxID where req: "request_target uni url client = Some (hostport, isConnect)"
    and sid: "eg_Lookup reg srcIP = Some sandboxID" and t: "t \<in> set (snd (dialUpstream env hostport))"
    using dialed unfolding Serve_effects(1)
    by (cases "request_target uni url client"; cases "eg_Lookup reg srcIP") (auto split: prod.splits)
  obtain host port ip name where ip: "SplitHostPort t = Some (host, port)" "ParseIP host = Some ip" "\<not> deniedIP (Some ip)"
    "SplitHostPort hostport = Some (name, port)" "resolves_to (pe_LookupIP env) name ip"
    using screened_target [OF dialed_screened [OF t] normal] by blast
  have "fst ` set (map log_entry (so_log (Serve uni url env reg client srcIP))) \<subseteq> {sandboxID}"
    unfolding Serve_effects(2) using req sid by (auto simp: dial_log_def split: sum.splits if_splits)
  then have "fst ` log_entry ` set (so_log (Serve uni url env reg client srcIP)) \<subseteq> {sandboxID}" by simp
  then show ?thesis using ip not_denied_v4 req sid by blast
qed

definition tunnel_client :: "string \<Rightarrow> client_conn" where
  "tunnel_client headers = \<lparr>cc_early = ''connect a.com:443 HTTP/1.1'' @ CR # LF # headers, cc_late = []\<rparr>"

definition tunnel_env :: proxy_env where
  "tunnel_env = \<lparr>pe_LookupIP = (\<lambda>h. if h = ''a.com'' then Some [Some (IPv4 0x01010101)] else None), pe_Dial = (\<lambda>t. Some ''pong''),
     pe_write_ok = True, pe_copied = (4, 4), pe_held = 0\<rparr>"

definition plain_tables :: unicode_tables where
  "plain_tables = \<lparr>uni_lower = (\<lambda>s. s), uni_upper = (\<lambda>s. s)\<rparr>"

definition guest_registry :: SandboxRegistry where
  "guest_registry = eg_Register (Some (IPv4 0x0A000002)) ''sb-1'' NewSandboxRegistry"

lemma read_line_split: "LF \<notin> set l \<Longrightarrow> read_line (l @ LF # t) = Some (l @ [LF], t)"
  using takeWhile_upto [of LF l t] by (simp add: read_line_def Let_def)

lemma tunnel_target:
  assumes "length headers \<le> 1000"
  shows "request_target plain_tables (\<lambda>s. None) (tunnel_client headers) = Some (''a.com:443'', True)"
proof -
  let ?w = "[''connect'', ''a.com:443'', ''HTTP/1.1'']"
  have "length (cc_early (tunnel_client headers)) \<le> maxPreambleBytes" using assms by (simp add: tunnel_client_def maxPreambleBytes_def)
  then have "take maxPreambleBytes (cc_early (tunnel_client headers)) = (''connect a.com:443 HTTP/1.1'' @ [CR]) @ LF # headers"
    by (simp add: tunnel_client_def)
  moreover have "trim_crlf ((''connect a.com:443 HTTP/1.1'' @ [CR]) @ [LF]) = ''connect a.com:443 HTTP/1.1''" by code_simp
  moreover have "Fields ''connect a.com:443 HTTP/1.1'' = ?w"
  proof -
    have g: "list_all is_graph ''connect''" "list_all is_graph ''a.com:443''" "list_all is_graph ''HTTP/1.1''" by code_simp+
    have "Fields (''connect'' @ CHR '' '' # ''a.com:443'' @ CHR '' '' # ''HTTP/1.1'' @ []) = ?w"
      unfolding Fields_def split_fields_word [OF g(1)] split_fields_word [OF g(2)] split_fields_word [OF g(3)] split_fields_blank by simp
    then show ?thesis by simp
  qed
  moreover have "ToUpper (uni_upper plain_tables) ''connect'' = ''CONNECT''" by code_simp
  ultimately show ?thesis
    using read_line_split [of "''connect a.com:443 HTTP/1.1'' @ [CR]" headers] by (simp add: request_target_def parseRequestTarget_def)
qed

lemma public_not_denied: "\<not> deniedIP (Some (IPv4 0x01010101))"
  by (simp add: deniedIP_def IsUnspecified_def IsLoopback_def IsLinkLocalUnicast_def IsLinkLocalMulticast_def deniedNets_def
      deniedCIDRs_def address_eval net_Contains_def in_block_v4 is_v4_def)

lemma tunnel_screened: "screenDestination (pe_LookupIP tunnel_env) ''a.com:443'' = Inr ''1.1.1.1:443''"
proof -
  have "ParseIP ''a.com'' = None" "SplitHostPort ''a.com:443'' = Some (''a.com'', ''443'')" by code_simp+
  moreover have "ip_String (Some (IPv4 0x01010101)) = ''1.1.1.1''" by code_simp
  ultimately show ?thesis using public_not_denied by (simp add: screenDestination_def tunnel_env_def JoinHostPort_def)
qed

theorem proxy_dials_vetted_witness:
  "\<exists>sandboxID name host port ip. eg_Lookup guest_registry (Some (IPv4 0x0A000002)) = Some sandboxID \<and>
    SplitHostPort ''1.1.1.1:443'' = Some (host, port) \<and> ParseIP host = Some ip \<and> \<not> deniedIP (Some ip) \<and>
    resolves_to (pe_LookupIP tunnel_env) name ip \<and>
    fst ` log_entry ` set (so_log (Serve plain_tables (\<lambda>s. None) tunnel_env guest_registry (tunnel_client CRLF) (Some (IPv4 0x0A000002)))) \<subseteq> {sandboxID}"
proof -
  have "so_dialed (Serve plain_tables (\<lambda>s. None) tunnel_env guest_registry (tunnel_client CRLF) (Some (IPv4 0x0A000002))) = [''1.1.1.1:443'']"
    using tunnel_target [of CRLF] unfolding Serve_effects(1)
    by (simp add: dialUpstream_def tunnel_screened eg_Lookup_def eg_Register_def guest_registry_def) (simp add: tunnel_env_def)
  moreover have "normal_answers (pe_LookupIP tunnel_env)"
    by (auto simp: normal_answers_def tunnel_env_def normal_ip_def as16_def norm_ip_mapped split: if_splits)
  ultimately show ?thesis
    using proxy_dials_vetted [of "''1.1.1.1:443''" plain_tables "\<lambda>s. None" tunnel_env guest_registry "tunnel_client CRLF" "Some (IPv4 0x0A000002)"]
    by fastforce
qed



text \<open>
  A preamble that is cut before its headers end, by the limit or by the deadline, is not refused:
  the request goes out without the line that was cut, and what arrives later follows as its body.
\<close>

lemma cut_preamble_forwarded:
  assumes "read_line (take maxPreambleBytes (cc_early client)) = Some (l, after)" "LF \<notin> set after"
    and "parseRequestTarget uni url (trim_crlf l) = Some (meth, hostport, False)" "eg_Lookup reg srcIP = Some sandboxID"
    and "fst (dialUpstream env hostport) = Inr response"
  shows "so_upstream (Serve uni url env reg client srcIP) =
    trim_crlf l @ CRLF @ ''Connection: close'' @ CRLF @ CRLF @
    take (fst (pe_copied env)) (drop maxPreambleBytes (cc_early client) @ cc_late client)"
proof -
  have all: "takeWhile (\<lambda>c. c \<noteq> LF) after = after" using assms(2) by (auto simp: takeWhile_eq_all_conv)
  then have "read_line after = None" unfolding read_line_def all by simp
  then have "collectHeaders after = ([], [])" by (subst collectHeaders.simps) simp
  then show ?thesis
    using assms by (cases "dialUpstream env hostport") (simp add: Serve_def servePlain_def Let_def)
qed

text \<open>A header block that arrives whole is replayed without the hop-by-hop headers and with one of the proxy's own.\<close>

lemma plain_request_headers:
  assumes "so_upstream (servePlain uni env body sandboxID hostport line hs) \<noteq> []"
  shows "\<exists>up. so_upstream (servePlain uni env body sandboxID hostport line hs) =
      line @ CRLF @ concat (filter (forwards_header uni) hs) @ ''Connection: close'' @ CRLF @ CRLF @ up \<and> prefix up body"
  using assms by (auto simp: servePlain_def serve_refusal_def Let_def take_is_prefix split: prod.splits sum.splits if_splits)

section \<open>The server name proxy\<close>

text \<open>The parser hands over every byte it has read.\<close>

definition keeps_bytes :: "hello_parser \<Rightarrow> bool" where
  "keeps_bytes peek \<longleftrightarrow> (\<forall>s name peeked stream. peek s = Some (name, peeked, stream) \<longrightarrow> s = peeked @ stream)"

lemma dec_int_plain: "0 \<le> n \<Longrightarrow> plain_port (dec_int n)"
proof -
  assume n: "0 \<le> n"
  have "c \<notin> set (dec_nat (nat n))" if "\<not> is_digit c" for c using that digit_chars by blast
  then show ?thesis using n not_digit_seps by (simp add: dec_int_def plain_port_def)
qed


definition demo_peek :: hello_parser where
  "demo_peek s = (if s = ''hello body'' then Some (''a.com'', ''hello'', '' body'') else None)"


text \<open>The target of a CONNECT request is logged as it was sent, with whatever follows the port.\<close>

lemma connect_path_logged:
  assumes "request_target uni url client = Some (''127.0.0.1:80/a?token=x'', True)" "eg_Lookup reg srcIP = Some sandboxID"
  shows "map log_entry (so_log (Serve uni url env reg client srcIP)) = [(sandboxID, ''127.0.0.1:80/a?token=x'')]"
proof -
  have "SplitHostPort ''127.0.0.1:80/a?token=x'' = Some (''127.0.0.1'', ''80/a?token=x'')" by code_simp
  moreover have "ParseIP ''127.0.0.1'' = Some (IPv4 0x7F000001)" by (simp add: address_eval)
  moreover have "deniedIP (Some (IPv4 0x7F000001))" by (simp add: deniedIP_def IsLoopback_def)
  ultimately show ?thesis
    using assms by (simp add: Serve_effects dial_log_def dialUpstream_def screenDestination_def)
qed

end
