(* ===== verification/Uid_Allocator.thy ===== *)
theory Uid_Allocator
  imports Resource_Pool
begin

text \<open>
  The jailer uid allocator of \<^verbatim>\<open>internal/firecracker/jailer.go\<close>: every jailed VM runs under a
  uid of its own from an inclusive range. All arithmetic is on \<^verbatim>\<open>uint32\<close> and wraps.
\<close>

record UIDAllocator =
  u_low :: uint32
  u_high :: uint32
  u_next :: uint32
  u_inUse :: "uint32 \<Rightarrow> bool"

datatype uid_error = ErrUIDRangeExhausted uint32 uint32

definition NewUIDAllocator :: "uint32 \<Rightarrow> uint32 \<Rightarrow> UIDAllocator" where
  "NewUIDAllocator low high = \<lparr>u_low = low, u_high = high, u_next = 0, u_inUse = (\<lambda>_. False)\<rparr>"

definition uid_count :: "UIDAllocator \<Rightarrow> uint32" where
  "uid_count a = u_high a - u_low a + 1"

definition AcquireUID :: "UIDAllocator \<Rightarrow> (uid_error, uint32 \<times> uint32) result \<times> UIDAllocator" where
  "AcquireUID a =
     (let n = uid_count a in
      case find (\<lambda>i. \<not> u_inUse a (u_low a + (u_next a + i) mod n)) (u32_upto n) of
        None \<Rightarrow> (Inl (ErrUIDRangeExhausted (u_low a) (u_high a)), a)
      | Some i \<Rightarrow>
          let candidate = u_low a + (u_next a + i) mod n
          in (Inr (candidate, candidate),
              a\<lparr>u_inUse := (u_inUse a)(candidate := True), u_next := (u_next a + i + 1) mod n\<rparr>))"

definition MarkUIDInUse :: "UIDAllocator \<Rightarrow> uint32 \<Rightarrow> UIDAllocator" where
  "MarkUIDInUse a uid =
     (if uid < u_low a \<or> uid > u_high a then a else a\<lparr>u_inUse := (u_inUse a)(uid := True)\<rparr>)"

definition ReleaseUID :: "UIDAllocator \<Rightarrow> uint32 \<Rightarrow> UIDAllocator" where
  "ReleaseUID a uid = a\<lparr>u_inUse := (u_inUse a)(uid := False)\<rparr>"

section \<open>The invariant\<close>

definition uid_range :: "UIDAllocator \<Rightarrow> uint32 set" where
  "uid_range a = {u. u_low a \<le> u \<and> u \<le> u_high a}"

definition uid_taken :: "UIDAllocator \<Rightarrow> uint32 set" where
  "uid_taken a = {u. u_inUse a u}"

text \<open>
  The range is non-empty, at most half of the uid space (so that the cursor sum cannot wrap),
  the cursor is inside it, and only uids of the range are in use.
\<close>

definition uid_inv :: "UIDAllocator \<Rightarrow> bool" where
  "uid_inv a \<longleftrightarrow> u_low a \<le> u_high a \<and> unat (u_high a) - unat (u_low a) < 2 ^ 31 \<and>
     u_next a < uid_count a \<and> uid_taken a \<subseteq> uid_range a"

lemma unat_uid_count:
  assumes "u_low a \<le> u_high a" and "unat (u_high a) - unat (u_low a) < 2 ^ 31"
  shows "unat (uid_count a) = unat (u_high a) - unat (u_low a) + 1"
proof -
  have le: "unat (u_low a) \<le> unat (u_high a)" using assms(1) by (simp add: word_le_nat_alt)
  have s: "unat (u_high a - u_low a) = unat (u_high a) - unat (u_low a)"
    using assms(1) by (simp add: unat_sub)
  have "unat (u_high a - u_low a) + 1 < 2 ^ 32" using s assms(2) by simp
  then have "unat (u_high a - u_low a + 1) = unat (u_high a - u_low a) + 1"
    by (simp add: unat_word_ariths)
  with s show ?thesis by (simp add: uid_count_def)
qed

lemma uid_invD:
  assumes "uid_inv a"
  shows "u_low a \<le> u_high a" "unat (uid_count a) = unat (u_high a) - unat (u_low a) + 1"
    "unat (uid_count a) \<le> 2 ^ 31" "u_next a < uid_count a" "uid_taken a \<subseteq> uid_range a"
    "0 < uid_count a"
proof -
  show "u_low a \<le> u_high a" "u_next a < uid_count a" "uid_taken a \<subseteq> uid_range a"
    using assms by (simp_all add: uid_inv_def)
  show c: "unat (uid_count a) = unat (u_high a) - unat (u_low a) + 1"
    using assms unat_uid_count by (simp add: uid_inv_def)
  show "unat (uid_count a) \<le> 2 ^ 31" using assms c by (simp add: uid_inv_def)
  show "0 < uid_count a" using c by (simp add: word_less_nat_alt)
qed

text \<open>An offset below the count lands in the range, and every uid of the range has an offset.\<close>

lemma uid_offset:
  assumes inv: "uid_inv a" and k: "k < uid_count a"
  shows "unat (u_low a + k) = unat (u_low a) + unat k" and "u_low a + k \<in> uid_range a"
proof -
  note D = uid_invD [OF inv]
  have le: "unat (u_low a) \<le> unat (u_high a)" using D(1) by (simp add: word_le_nat_alt)
  have kk: "unat k < unat (uid_count a)" using k by (simp add: word_less_nat_alt)
  have "unat (u_low a) + unat k \<le> unat (u_high a)" using kk D(2) le by simp
  moreover have "unat (u_high a) < 2 ^ 32" by (rule unat_u32_less)
  ultimately show u: "unat (u_low a + k) = unat (u_low a) + unat k"
    by (simp add: unat_word_ariths)
  show "u_low a + k \<in> uid_range a"
    using u \<open>unat (u_low a) + unat k \<le> unat (u_high a)\<close>
    by (simp add: uid_range_def word_le_nat_alt)
qed

lemma uid_offset_surj:
  assumes inv: "uid_inv a" and u: "u \<in> uid_range a"
  shows "u - u_low a < uid_count a" and "u_low a + (u - u_low a) = u"
proof -
  have "unat (u - u_low a) = unat u - unat (u_low a)"
    using u by (simp add: uid_range_def unat_sub)
  then show "u - u_low a < uid_count a"
    using u uid_invD(2) [OF inv]
    by (simp add: uid_range_def word_less_nat_alt word_le_nat_alt less_Suc_eq_le diff_le_mono)
  show "u_low a + (u - u_low a) = u" by simp
qed

lemma AcquireUID_cases:
  assumes "AcquireUID a = (r, a')"
  obtains (exhausted) "r = Inl (ErrUIDRangeExhausted (u_low a) (u_high a))" "a' = a"
      "\<forall>i < uid_count a. u_inUse a (u_low a + (u_next a + i) mod uid_count a)"
    | (granted) i c where "i < uid_count a" "c = u_low a + (u_next a + i) mod uid_count a"
      "\<not> u_inUse a c" "r = Inr (c, c)"
      "a' = a\<lparr>u_inUse := (u_inUse a)(c := True), u_next := (u_next a + i + 1) mod uid_count a\<rparr>"
proof (cases "find (\<lambda>i. \<not> u_inUse a (u_low a + (u_next a + i) mod uid_count a)) (u32_upto (uid_count a))")
  case None
  then have "\<forall>i < uid_count a. u_inUse a (u_low a + (u_next a + i) mod uid_count a)"
    by (auto simp: find_None_iff set_u32_upto)
  with None assms show ?thesis by (intro exhausted) (auto simp: AcquireUID_def)
next
  case (Some i)
  then have "i < uid_count a" "\<not> u_inUse a (u_low a + (u_next a + i) mod uid_count a)"
    by (auto dest!: find_SomeD simp: set_u32_upto)
  with Some assms show ?thesis
    by (intro granted [of i]) (auto simp: AcquireUID_def Let_def)
qed

text \<open>\<open>AcquireUID\<close> as handing out a uid; the calls carry no key.\<close>

definition uid_acquire :: "UIDAllocator \<Rightarrow> 'k \<Rightarrow> (uint32 \<times> UIDAllocator) option" where
  "uid_acquire a k =
     (case AcquireUID a of
        (Inl e, a') \<Rightarrow> None
      | (Inr (uid, gid), a') \<Rightarrow> Some (uid, a'))"

lemma uid_acquire_Some:
  assumes inv: "uid_inv a" and acq: "uid_acquire a k = Some (u, a')"
  shows "uid_inv a' \<and> uid_range a' = uid_range a \<and> u \<in> uid_range a \<and> u \<notin> uid_taken a \<and>
    uid_taken a' = insert u (uid_taken a)"
proof -
  note D = uid_invD [OF inv]
  obtain g where A: "AcquireUID a = (Inr (u, g), a')"
    using acq by (auto simp: uid_acquire_def split: prod.splits sum.splits)
  then show ?thesis
  proof (cases rule: AcquireUID_cases)
    case (granted i c)
    have m: "(u_next a + i) mod uid_count a < uid_count a"
      "(u_next a + i + 1) mod uid_count a < uid_count a"
      using D(6) by (simp_all add: word_mod_less_divisor)
    have c: "c \<in> uid_range a" using uid_offset(2) [OF inv m(1)] granted(2) by simp
    have t: "uid_taken a' = insert u (uid_taken a)"
      using granted(4,5) by (auto simp: uid_taken_def)
    have r: "uid_range a' = uid_range a" "uid_count a' = uid_count a"
      using granted(5) by (simp_all add: uid_range_def uid_count_def)
    have "u = c" using granted(4) by simp
    moreover have "uid_inv a'"
      unfolding uid_inv_def r t using inv m(2) c \<open>u = c\<close> D(5) granted(5) by (simp add: uid_inv_def)
    ultimately show ?thesis using c granted(3) t r by (simp add: uid_taken_def)
  qed simp
qed

lemma uid_acquire_None:
  assumes inv: "uid_inv a" and acq: "uid_acquire a k = None"
  shows "uid_taken a = uid_range a"
proof -
  note D = uid_invD [OF inv]
  obtain r a' where A: "AcquireUID a = (r, a')" by fastforce
  then have full: "\<forall>i < uid_count a. u_inUse a (u_low a + (u_next a + i) mod uid_count a)"
  proof (cases rule: AcquireUID_cases)
    case (granted i c)
    then show ?thesis using acq A by (simp add: uid_acquire_def)
  qed simp
  have "u \<in> uid_taken a" if "u \<in> uid_range a" for u
  proof -
    note o = uid_offset_surj [OF inv that]
    obtain i where "i < uid_count a" "(u_next a + i) mod uid_count a = u - u_low a"
      using u32_rotate_surj [OF D(3) D(4) o(1)] by blast
    then have "u_inUse a (u_low a + (u - u_low a))" using full by auto
    then show ?thesis by (simp add: uid_taken_def)
  qed
  with D(5) show ?thesis by blast
qed

interpretation uid_pool: resource_pool uid_inv uid_range uid_taken "\<lambda>_ _. True" uid_acquire
proof unfold_locales
  fix s k r s'
  assume "uid_inv s"
  show "finite (uid_range s)" by simp
  show "uid_taken s \<subseteq> uid_range s" using \<open>uid_inv s\<close> by (rule uid_invD(5))
  show "uid_taken s = uid_range s" if "uid_acquire s k = None"
    using \<open>uid_inv s\<close> that by (rule uid_acquire_None)
  show "uid_inv s' \<and> uid_range s' = uid_range s \<and> r \<in> uid_range s \<and> r \<notin> uid_taken s \<and>
      uid_taken s' = insert r (uid_taken s)" if "uid_acquire s k = Some (r, s')"
    using \<open>uid_inv s\<close> that by (rule uid_acquire_Some)
qed simp

section \<open>The other operations\<close>

lemma NewUIDAllocator_inv [inv_intros]:
  assumes "low \<le> high" and "unat high - unat low < 2 ^ 31"
  shows "uid_inv (NewUIDAllocator low high)"
proof -
  let ?a = "NewUIDAllocator low high"
  have "unat (uid_count ?a) = unat high - unat low + 1"
    using unat_uid_count [of ?a] assms by (simp add: NewUIDAllocator_def)
  then have "0 < uid_count ?a" by (simp add: word_less_nat_alt)
  then show ?thesis using assms by (simp add: uid_inv_def NewUIDAllocator_def uid_taken_def)
qed

lemma MarkUIDInUse_inv [inv_intros]: "uid_inv a \<Longrightarrow> uid_inv (MarkUIDInUse a u)"
  by (auto simp: uid_inv_def MarkUIDInUse_def uid_count_def uid_taken_def uid_range_def)

lemma ReleaseUID_inv [inv_intros]: "uid_inv a \<Longrightarrow> uid_inv (ReleaseUID a u)"
  by (auto simp: uid_inv_def ReleaseUID_def uid_count_def uid_taken_def uid_range_def)

lemma MarkUIDInUse_taken:
  "uid_taken (MarkUIDInUse a u) = (if u \<in> uid_range a then insert u (uid_taken a) else uid_taken a)"
  by (auto simp: MarkUIDInUse_def uid_taken_def uid_range_def)

lemma ReleaseUID_taken: "uid_taken (ReleaseUID a u) = uid_taken a - {u}"
  by (auto simp: ReleaseUID_def uid_taken_def)

section \<open>Runs\<close>

text \<open>One atomic method call.\<close>

inductive uid_step :: "UIDAllocator \<Rightarrow> UIDAllocator \<Rightarrow> bool" where
  step_acquire_uid: "AcquireUID a = (r, a') \<Longrightarrow> uid_step a a'"
| step_mark_uid: "uid_step a (MarkUIDInUse a u)"
| step_release_uid: "uid_step a (ReleaseUID a u)"

lemma AcquireUID_inv:
  assumes "uid_inv a" and "AcquireUID a = (r, a')"
  shows "uid_inv a'"
proof (cases r)
  case (Inl e)
  from assms(2) show ?thesis using assms(1) Inl by (cases rule: AcquireUID_cases) auto
next
  case (Inr p)
  then have "uid_acquire a () = Some (fst p, a')"
    using assms(2) by (cases p) (simp add: uid_acquire_def)
  from uid_acquire_Some [OF assms(1) this] show ?thesis by simp
qed

lemma uid_step_inv: "uid_step a a' \<Longrightarrow> uid_inv a \<Longrightarrow> uid_inv a'"
  by (erule uid_step.cases) (metis AcquireUID_inv MarkUIDInUse_inv ReleaseUID_inv)+

lemma uid_steps_inv: "uid_step\<^sup>*\<^sup>* a a' \<Longrightarrow> uid_inv a \<Longrightarrow> uid_inv a'"
  by (induction rule: rtranclp_induct) (auto intro: uid_step_inv)

lemma uid_step_range: "uid_step a a' \<Longrightarrow> uid_range a' = uid_range a"
  by (auto simp: AcquireUID_def MarkUIDInUse_def ReleaseUID_def Let_def uid_range_def
      elim!: uid_step.cases split: option.splits if_splits)

lemma uid_steps_range: "uid_step\<^sup>*\<^sup>* a a' \<Longrightarrow> uid_range a' = uid_range a"
  by (induction rule: rtranclp_induct) (auto dest: uid_step_range)

text \<open>
  C22: In every state the jailer uid allocator can reach, an acquire returns a uid of the
  configured range that no live VM holds and records it as held, and it fails exactly when every
  uid of the range is held; the uid serves as the gid. The range may span at most half of the
  32 bit uid space.
\<close>

theorem uid_acquire_exclusive:
  assumes "low \<le> high" and "unat high - unat low < 2 ^ 31"
    and "uid_step\<^sup>*\<^sup>* (NewUIDAllocator low high) a"
  shows "if uid_taken a = {low..high} then AcquireUID a = (Inl (ErrUIDRangeExhausted (u_low a) (u_high a)), a)
    else \<exists>u a'. AcquireUID a = (Inr (u, u), a') \<and> u \<in> {low..high} - uid_taken a \<and>
      uid_taken a' = insert u (uid_taken a)"
proof -
  have inv: "uid_inv a" by (rule uid_steps_inv [OF assms(3) NewUIDAllocator_inv [OF assms(1,2)]])
  have r: "uid_range a = {low..high}"
    unfolding uid_steps_range [OF assms(3)]
    by (simp add: uid_range_def NewUIDAllocator_def atLeastAtMost_def atLeast_def atMost_def Int_def)
  obtain res a' where A: "AcquireUID a = (res, a')" by fastforce
  then show ?thesis
  proof (cases rule: AcquireUID_cases)
    case exhausted
    then have "uid_acquire a () = None" using A by (simp add: uid_acquire_def)
    from uid_acquire_None [OF inv this] show ?thesis using r A exhausted(1,2) by simp
  next
    case (granted i c)
    then have "uid_acquire a () = Some (c, a')" using A by (simp add: uid_acquire_def)
    note S = uid_acquire_Some [OF inv this]
    then have "uid_taken a \<noteq> {low..high}" unfolding r by blast
    then show ?thesis using S A granted(4) unfolding r by (simp only: if_False) blast
  qed
qed

theorem uid_acquire_exclusive_witness:
  "\<exists>u a'. AcquireUID (ReleaseUID (NewUIDAllocator 100000 100001) 5) = (Inr (u, u), a') \<and>
     u \<in> {100000..100001} \<and> uid_taken a' = {u}"
proof -
  let ?a = "ReleaseUID (NewUIDAllocator 100000 100001) 5"
  have t: "uid_taken ?a = {}" by (simp add: uid_taken_def ReleaseUID_def NewUIDAllocator_def)
  have "uid_step\<^sup>*\<^sup>* (NewUIDAllocator 100000 100001) ?a" by (rule r_into_rtranclp, rule step_release_uid)
  moreover have "uid_taken ?a \<noteq> {100000..100001}"
    unfolding t by (simp only: atLeastatMost_empty_iff eq_commute [of "{}"]) simp
  moreover have "(100000 :: uint32) \<le> 100001" "unat (100001 :: uint32) - unat (100000 :: uint32) < 2 ^ 31"
    by simp_all
  ultimately have "\<exists>u a'. AcquireUID ?a = (Inr (u, u), a') \<and> u \<in> {100000..100001} - uid_taken ?a \<and>
      uid_taken a' = insert u (uid_taken ?a)"
    using uid_acquire_exclusive [of 100000 100001 ?a] by (simp only: if_False)
  then show ?thesis unfolding t by blast
qed

end
