(* ===== verification/Fork_Engine.thy ===== *)
theory Fork_Engine
  imports Egress_Proxy Uid_Allocator
begin

text \<open>
  The fork engine of a node, \<^verbatim>\<open>internal/fork/engine.go\<close>: slot reservation, the network of a fork,
  the fork itself as the phases between which other forks run, and termination. The state keeps
  what the engine and the allocators remember and the directories that exist per VM; the network
  commands act on a host state through the runner. What Firecracker, the file system and the
  volume backend answer is an argument of each phase.
\<close>

section \<open>Types\<close>

record NetworkOpts =
  no_EgressPolicy :: string
  no_AllowList :: "string list"
  no_BlockNetwork :: bool
  no_AllowCIDRs :: "string list"
  no_Inbound :: string
  no_InboundCIDRs :: "string list"

record ForkOpts =
  fo_Network :: "NetworkOpts option"
  fo_LiveFork :: bool

text \<open>The Firecracker client: its process, and the uid it returns when killed if it is jailed.\<close>

record fc_client =
  vc_pid :: int
  vc_jailed :: bool
  vc_uid :: uint32
  vc_chrootDir :: string
  vc_jailerVMDir :: string

definition noIdentity :: Identity where
  "noIdentity = \<lparr>TapName = [], GuestMAC = [], HostIP = None, GuestIP = None\<rparr>"

record Sandbox =
  sb_ID :: string
  sb_TemplateID :: string
  sb_SnapshotID :: string
  sb_Endpoint :: string
  sb_Pid :: int
  sb_CreatedAt :: int
  sb_fcClient :: "fc_client option"
  sb_VsockPath :: string
  sb_rootfsPath :: string
  sb_rootfsClone :: string
  sb_netID :: Identity
  sb_netOpts :: "NetworkOpts option"
  sb_hasVolumes :: bool
  sb_chrootDir :: string
  sb_jailerVMDir :: string
  sb_jailedUID :: uint32
  sb_adopted :: bool
  sb_firecrackerBin :: string

text \<open>The journal record of a sandbox, with its addresses as text.\<close>

record networkIdentity =
  ni_TapName :: string
  ni_GuestMAC :: string
  ni_HostIP :: string
  ni_GuestIP :: string

record sandboxRecord =
  sr_ID :: string
  sr_TemplateID :: string
  sr_SnapshotID :: string
  sr_Endpoint :: string
  sr_Pid :: int
  sr_CreatedAt :: int
  sr_VsockPath :: string
  sr_RootfsPath :: string
  sr_ChrootDir :: string
  sr_JailerVMDir :: string
  sr_JailedUID :: uint32
  sr_Network :: networkIdentity
  sr_HasVolumes :: bool
  sr_FirecrackerBin :: string

text \<open>
  The engine. The allocators and registries are \<open>None\<close> when they are not configured. The
  directories are those of sandboxes and of jailed VMs; the journal maps a file name to its record.
\<close>

record 'w engine =
  e_sandboxes :: "string \<rightharpoonup> Sandbox"
  e_reserved :: int
  e_nextPort :: int
  e_netAlloc :: "Allocator option"
  e_dnsRegistry :: "DnsRegistry option"
  e_egressProxy :: "SandboxRegistry option"
  e_uids :: "UIDAllocator option"
  e_journal :: "string \<rightharpoonup> sandboxRecord"
  e_dirs :: "string set"
  e_host :: 'w

text \<open>What is fixed at construction, and the outside world as functions.\<close>

record 'w engine_env =
  en_maxSandboxes :: int
  en_firecrackerBin :: string
  en_chrootBase :: string
  en_jailed :: bool
  en_netMgr :: "applyOptions option"
  en_enableDNSEgress :: bool
  en_resolverIP :: "net_ip option"
  en_proxySentinel :: "net_ip option"
  en_proxyPort :: int
  en_sha :: sha256_fun
  en_run :: "'w runner"
  en_forward :: "'w forwardEnabler"
  en_quote :: "string \<Rightarrow> string"
  en_unicode :: "string \<Rightarrow> string"
  en_entries :: "(string \<rightharpoonup> int list) \<Rightarrow> (string \<times> int list) list"

datatype fork_error =
    InvalidID string
  | ErrAtCapacity int int
  | NotFound string
  | HostError string
  | UidError uid_error
  | IdentityError netconf_error
  | PolicyError policy_error
  | SetupError filter_error

section \<open>Sandbox ids and slots\<close>

text \<open>A class of a regular expression is a list of ranges.\<close>

definition char_class :: "(char \<times> char) list \<Rightarrow> char \<Rightarrow> bool" where
  "char_class ranges c \<longleftrightarrow> list_ex (\<lambda>(lo, hi). lo \<le> c \<and> c \<le> hi) ranges"

definition sandboxIDPattern :: "string \<Rightarrow> bool" where
  "sandboxIDPattern s =
     (let alnum = [(CHR ''a'', CHR ''z''), (CHR ''A'', CHR ''Z''), (CHR ''0'', CHR ''9'')];
          dashed = alnum @ [(CHR ''_'', CHR ''_''), (CHR ''-'', CHR ''-'')]
      in case s of [] \<Rightarrow> False | c # cs \<Rightarrow> char_class alnum c \<and> length cs \<le> 63 \<and> list_all (char_class dashed) cs)"

definition safeSandboxIDComponent :: "string \<Rightarrow> bool" where
  "safeSandboxIDComponent s = sandboxIDPattern s"

definition sandbox_count :: "'w engine \<Rightarrow> int" where
  "sandbox_count e = i32 (int (card (dom (e_sandboxes e))))"

definition admitFork :: "'w engine_env \<Rightarrow> 'w engine \<Rightarrow> (fork_error, unit) result \<times> 'w engine" where
  "admitFork en e =
     (if en_maxSandboxes en \<le> 0 then (Inr (), e)
      else let inFlight = i32 (sandbox_count e + e_reserved e)
           in if inFlight \<ge> en_maxSandboxes en then (Inl (ErrAtCapacity inFlight (en_maxSandboxes en)), e)
              else (Inr (), e\<lparr>e_reserved := i32 (e_reserved e + 1)\<rparr>))"

definition commitReservation :: "'w engine_env \<Rightarrow> string \<Rightarrow> Sandbox \<Rightarrow> 'w engine \<Rightarrow> 'w engine" where
  "commitReservation en sandboxID sb e =
     (let e1 = e\<lparr>e_sandboxes := (e_sandboxes e)(sandboxID \<mapsto> sb)\<rparr>
      in if en_maxSandboxes en > 0 \<and> e_reserved e1 > 0 then e1\<lparr>e_reserved := e_reserved e1 - 1\<rparr> else e1)"

definition releaseReservation :: "'w engine_env \<Rightarrow> 'w engine \<Rightarrow> 'w engine" where
  "releaseReservation en e =
     (if en_maxSandboxes en \<le> 0 then e
      else if e_reserved e > 0 then e\<lparr>e_reserved := e_reserved e - 1\<rparr> else e)"

section \<open>The network of a fork\<close>

definition networkEnabled :: "'w engine_env \<Rightarrow> 'w engine \<Rightarrow> bool" where
  "networkEnabled en e \<longleftrightarrow> en_netMgr en \<noteq> None \<and> e_netAlloc e \<noteq> None"

definition dnsEgressEnabled :: "'w engine_env \<Rightarrow> 'w engine \<Rightarrow> bool" where
  "dnsEgressEnabled en e \<longleftrightarrow>
     en_enableDNSEgress en \<and> e_dnsRegistry e \<noteq> None \<and> en_resolverIP en \<noteq> None \<and> networkEnabled en e"

definition egressProxyEnabled :: "'w engine_env \<Rightarrow> 'w engine \<Rightarrow> bool" where
  "egressProxyEnabled en e \<longleftrightarrow> e_egressProxy e \<noteq> None \<and> networkEnabled en e"

record forkNetwork =
  fn_identity :: Identity
  fn_overrides :: "(string \<times> string) list"
  fn_guestNet :: NotifyForkedNetwork

definition fork_policy :: "'w engine_env \<Rightarrow> 'w engine \<Rightarrow> NetworkOpts \<Rightarrow> HostPort list \<Rightarrow> SandboxPolicy" where
  "fork_policy en e no allow =
     (let p = \<lparr>sp_Egress = no_EgressPolicy no, sp_Allow = allow, sp_AllowCIDRs = no_AllowCIDRs no, sp_BlockNetwork = no_BlockNetwork no,
               sp_Inbound = no_Inbound no, sp_InboundCIDRs = no_InboundCIDRs no, sp_Counter = True, sp_ProxySentinel = None, sp_ProxyPort = 0\<rparr>
      in if egressProxyEnabled en e then p\<lparr>sp_ProxySentinel := en_proxySentinel en, sp_ProxyPort := en_proxyPort en\<rparr> else p)"

definition fork_network :: "'w engine_env \<Rightarrow> 'w engine \<Rightarrow> ForkOpts \<Rightarrow> Identity \<Rightarrow> forkNetwork" where
  "fork_network en e opts ident =
     \<lparr>fn_identity = ident, fn_overrides = [(''eth0'', TapName ident)],
      fn_guestNet = \<lparr>nf_GuestIP = ip_String (GuestIP ident), nf_GatewayIP = ip_String (HostIP ident), nf_PrefixLen = 30,
        nf_GuestMAC = GuestMAC ident, nf_ResolverIP = (if dnsEgressEnabled en e then ip_String (en_resolverIP en) else []),
        nf_ProxyEndpoint = (if egressProxyEnabled en e then JoinHostPort (ip_String (en_proxySentinel en)) (dec_int (en_proxyPort en)) else []),
        nf_ResetUpstreams = fo_LiveFork opts\<rparr>\<rparr>"

definition registered :: "'w engine_env \<Rightarrow> string \<Rightarrow> Identity \<Rightarrow> (string \<rightharpoonup> int list) \<Rightarrow> 'w engine \<Rightarrow> 'w engine" where
  "registered en sandboxID ident names e =
     e\<lparr>e_dnsRegistry := (if names = Map.empty then e_dnsRegistry e
                           else map_option (dns_Register (en_unicode en) (GuestIP ident) (en_entries en names)) (e_dnsRegistry e)),
       e_egressProxy := (if egressProxyEnabled en e then map_option (eg_Register (GuestIP ident) sandboxID) (e_egressProxy e)
                           else e_egressProxy e)\<rparr>"

definition prepareForkNetwork ::
  "'w engine_env \<Rightarrow> string \<Rightarrow> ForkOpts \<Rightarrow> 'w engine \<Rightarrow> (fork_error, forkNetwork option) result \<times> 'w engine" where
  "prepareForkNetwork en sandboxID opts e =
     (case (en_netMgr en, e_netAlloc e, fo_Network opts) of
        (Some mgr, Some a, Some no) \<Rightarrow>
          (case SplitAllowList (no_AllowList no) of
             Inl err \<Rightarrow> (Inl (PolicyError err), e)
           | Inr (allow, skipped) \<Rightarrow>
               (case Acquire (en_sha en) a sandboxID of
                  (Inl err, a1) \<Rightarrow> (Inl (IdentityError err), e\<lparr>e_netAlloc := Some a1\<rparr>)
                | (Inr ident, a1) \<Rightarrow>
                    (case network_setup (en_run en) (en_forward en) ident (fork_policy en e no allow) (en_resolverIP en) mgr (e_host e) of
                       (Some err, w) \<Rightarrow> (Inl (SetupError err), e\<lparr>e_netAlloc := Some (Release a1 sandboxID), e_host := w\<rparr>)
                     | (None, w) \<Rightarrow>
                         (case (if dnsEgressEnabled en e \<and> skipped \<noteq> [] then ParseNameAllowList (en_unicode en) (no_AllowList no) else Inr Map.empty) of
                            Inl err \<Rightarrow> (Inl (PolicyError err), e\<lparr>e_netAlloc := Some (Release a1 sandboxID), e_host := w\<rparr>)
                          | Inr names \<Rightarrow>
                              (Inr (Some (fork_network en e opts ident)),
                               registered en sandboxID ident names (e\<lparr>e_netAlloc := Some a1, e_host := w\<rparr>))))))
      | _ \<Rightarrow> (Inr None, e))"

definition teardownForkNetwork :: "'w engine_env \<Rightarrow> string \<Rightarrow> Identity \<Rightarrow> 'w engine \<Rightarrow> 'w engine" where
  "teardownForkNetwork en sandboxID ident e =
     (case (en_netMgr en, e_netAlloc e) of
        (Some mgr, Some a) \<Rightarrow>
          e\<lparr>e_dnsRegistry := (if en_enableDNSEgress en then map_option (dns_Deregister (GuestIP ident)) (e_dnsRegistry e) else e_dnsRegistry e),
            e_egressProxy := map_option (eg_Deregister (GuestIP ident)) (e_egressProxy e),
            e_host := snd (network_teardown (en_quote en) (en_run en) ident mgr (e_host e)),
            e_netAlloc := Some (Release a sandboxID)\<rparr>
      | _ \<Rightarrow> e)"

section \<open>The VM process\<close>

text \<open>How a launch ends: refused before anything is allocated, failed with or without the jail created, or running.\<close>

datatype launch = LaunchRefused string | LaunchFailed bool string | Launched int

definition jailerVMDir :: "string \<Rightarrow> string \<Rightarrow> string" where
  "jailerVMDir base vmID = base @ ''/firecracker/'' @ vmID"

definition startJailedVM :: "'w engine_env \<Rightarrow> string \<Rightarrow> launch \<Rightarrow> 'w engine \<Rightarrow> (fork_error, fc_client) result \<times> 'w engine" where
  "startJailedVM en vmID outcome e =
     (let vmDir = jailerVMDir (en_chrootBase en) vmID
      in case (outcome, e_uids e) of
           (LaunchRefused err, _) \<Rightarrow> (Inl (HostError err), e)
         | (_, None) \<Rightarrow> (Inl (HostError ''jailer launch requires a uid allocator''), e)
         | (_, Some a) \<Rightarrow>
             (case AcquireUID a of
                (Inl err, a1) \<Rightarrow> (Inl (UidError err), e\<lparr>e_uids := Some a1\<rparr>)
              | (Inr (uid, gid), a1) \<Rightarrow>
                  (case outcome of
                     Launched pid \<Rightarrow>
                       (Inr \<lparr>vc_pid = pid, vc_jailed = True, vc_uid = uid, vc_chrootDir = vmDir @ ''/root'', vc_jailerVMDir = vmDir\<rparr>,
                        e\<lparr>e_uids := Some a1, e_dirs := insert vmDir (e_dirs e)\<rparr>)
                   | LaunchFailed made err \<Rightarrow>
                       (Inl (HostError err),
                        e\<lparr>e_uids := Some (ReleaseUID a1 uid), e_dirs := (if made then insert vmDir (e_dirs e) else e_dirs e)\<rparr>)
                   | LaunchRefused err \<Rightarrow> (Inl (HostError err), e))))"

definition StartVM :: "'w engine_env \<Rightarrow> string \<Rightarrow> launch \<Rightarrow> 'w engine \<Rightarrow> (fork_error, fc_client) result \<times> 'w engine" where
  "StartVM en vmID outcome e =
     (if en_jailed en then startJailedVM en vmID outcome e
      else (case outcome of
              Launched pid \<Rightarrow> (Inr \<lparr>vc_pid = pid, vc_jailed = False, vc_uid = 0, vc_chrootDir = [], vc_jailerVMDir = []\<rparr>, e)
            | LaunchFailed _ err \<Rightarrow> (Inl (HostError err), e)
            | LaunchRefused err \<Rightarrow> (Inl (HostError err), e)))"

definition Kill :: "fc_client \<Rightarrow> 'w engine \<Rightarrow> 'w engine" where
  "Kill c e =
     e\<lparr>e_uids := (if vc_jailed c then map_option (\<lambda>a. ReleaseUID a (vc_uid c)) (e_uids e) else e_uids e),
       e_dirs := (if vc_jailerVMDir c \<noteq> [] then e_dirs e - {vc_jailerVMDir c} else e_dirs e)\<rparr>"

section \<open>The journal\<close>

definition networkIdentityFrom :: "Identity \<Rightarrow> networkIdentity" where
  "networkIdentityFrom ident =
     \<lparr>ni_TapName = TapName ident, ni_GuestMAC = GuestMAC ident,
      ni_HostIP = (if HostIP ident \<noteq> None then ip_String (HostIP ident) else []),
      ni_GuestIP = (if GuestIP ident \<noteq> None then ip_String (GuestIP ident) else [])\<rparr>"

text \<open>\<^verbatim>\<open>net.ParseIP(s).To4()\<close>.\<close>

definition parse_v4 :: "string \<Rightarrow> net_ip option" where
  "parse_v4 s = map_option IPv4 (To4 (ParseIP s))"

definition toIdentity :: "networkIdentity \<Rightarrow> Identity" where
  "toIdentity n =
     \<lparr>TapName = ni_TapName n, GuestMAC = ni_GuestMAC n,
      HostIP = (if ni_HostIP n \<noteq> [] then parse_v4 (ni_HostIP n) else None),
      GuestIP = (if ni_GuestIP n \<noteq> [] then parse_v4 (ni_GuestIP n) else None)\<rparr>"

definition sandbox_record :: "'w engine_env \<Rightarrow> Sandbox \<Rightarrow> sandboxRecord" where
  "sandbox_record en sb =
     \<lparr>sr_ID = sb_ID sb, sr_TemplateID = sb_TemplateID sb, sr_SnapshotID = sb_SnapshotID sb, sr_Endpoint = sb_Endpoint sb, sr_Pid = sb_Pid sb,
      sr_CreatedAt = sb_CreatedAt sb, sr_VsockPath = sb_VsockPath sb, sr_RootfsPath = sb_rootfsPath sb, sr_ChrootDir = sb_chrootDir sb,
      sr_JailerVMDir = sb_jailerVMDir sb, sr_JailedUID = sb_jailedUID sb, sr_Network = networkIdentityFrom (sb_netID sb),
      sr_HasVolumes = sb_hasVolumes sb, sr_FirecrackerBin = en_firecrackerBin en\<rparr>"

text \<open>A write or a removal that fails is logged and nothing else; \<open>ok\<close> tells whether it succeeds.\<close>

definition journalSandbox :: "'w engine_env \<Rightarrow> bool \<Rightarrow> Sandbox \<Rightarrow> 'w engine \<Rightarrow> 'w engine" where
  "journalSandbox en ok sb e =
     (if ok then e\<lparr>e_journal := (e_journal e)(sb_ID sb \<mapsto> sandbox_record en sb)\<rparr> else e)"

definition unjournalSandbox :: "bool \<Rightarrow> string \<Rightarrow> 'w engine \<Rightarrow> 'w engine" where
  "unjournalSandbox ok sandboxID e = (if ok then e\<lparr>e_journal := (e_journal e)(sandboxID := None)\<rparr> else e)"

section \<open>Fork\<close>

text \<open>The answers of the host to the steps of one fork.\<close>

record fork_host =
  fh_mem :: bool
  fh_mkdir :: bool
  fh_reflink :: bool
  fh_launch :: launch
  fh_volumes :: "nat option"
  fh_load :: bool
  fh_patchRootfs :: bool
  fh_patchVolumes :: bool
  fh_resume :: bool
  fh_vsockPath :: string
  fh_now :: int
  fh_journal :: bool

definition sandboxDir :: "string \<Rightarrow> string" where
  "sandboxDir sandboxID = ''sandboxes/'' @ sandboxID"

text \<open>The first phase: directory, root file system clone, process.\<close>

definition fork_launch ::
  "'w engine_env \<Rightarrow> fork_host \<Rightarrow> string \<Rightarrow> string \<Rightarrow> string \<Rightarrow> 'w engine \<Rightarrow> (fork_error, fc_client) result \<times> 'w engine" where
  "fork_launch en fh snapshotID sandboxID rootfsPath e =
     (if \<not> fh_mem fh then (Inl (NotFound snapshotID), e)
      else if \<not> fh_mkdir fh then (Inl (HostError ''create sandbox dir''), e)
      else let e1 = e\<lparr>e_dirs := insert (sandboxDir sandboxID) (e_dirs e)\<rparr>
           in if rootfsPath \<noteq> [] \<and> \<not> fh_reflink fh then (Inl (HostError ''clone per-fork rootfs''), e1)
              else StartVM en sandboxID (fh_launch fh) e1)"

text \<open>The second phase: network and volumes.\<close>

definition fork_attach ::
  "'w engine_env \<Rightarrow> fork_host \<Rightarrow> string \<Rightarrow> ForkOpts \<Rightarrow> fc_client \<Rightarrow> 'w engine \<Rightarrow> (fork_error, forkNetwork option) result \<times> 'w engine" where
  "fork_attach en fh sandboxID opts client e =
     (case prepareForkNetwork en sandboxID opts e of
        (Inl err, e1) \<Rightarrow> (Inl err, Kill client e1)
      | (Inr fnet, e1) \<Rightarrow>
          if fh_volumes fh = None
          then (Inl (HostError ''prepare volumes''),
                (case fnet of
                   None \<Rightarrow> Kill client e1
                 | Some n \<Rightarrow> teardownForkNetwork en sandboxID (fn_identity n) (Kill client e1)))
          else (Inr fnet, e1))"

definition cleanupFork :: "'w engine_env \<Rightarrow> string \<Rightarrow> fc_client \<Rightarrow> forkNetwork option \<Rightarrow> 'w engine \<Rightarrow> 'w engine" where
  "cleanupFork en sandboxID client fnet e =
     (let e1 = Kill client e;
          e2 = (case fnet of None \<Rightarrow> e1 | Some n \<Rightarrow> teardownForkNetwork en sandboxID (fn_identity n) e1)
      in e2\<lparr>e_dirs := e_dirs e2 - {sandboxDir sandboxID}\<rparr>)"

text \<open>The third phase: the snapshot is loaded paused, its drives are rebound, the VM is resumed.\<close>

definition fork_boot ::
  "'w engine_env \<Rightarrow> fork_host \<Rightarrow> string \<Rightarrow> string \<Rightarrow> fc_client \<Rightarrow> forkNetwork option \<Rightarrow> 'w engine \<Rightarrow> fork_error option \<times> 'w engine" where
  "fork_boot en fh sandboxID rootfsPath client fnet e =
     (let fail = (\<lambda>step. (Some (HostError step), cleanupFork en sandboxID client fnet e))
      in if \<not> fh_load fh then fail ''load snapshot''
         else if rootfsPath \<noteq> [] \<and> \<not> fh_patchRootfs fh then fail ''rebind rootfs drive''
         else if the (fh_volumes fh) \<noteq> 0 \<and> \<not> fh_patchVolumes fh then fail ''rebind volume drive''
         else if \<not> fh_resume fh then fail ''resume fork''
         else (None, e))"

record ForkResult =
  fr_SandboxID :: string
  fr_Endpoint :: string
  fr_VsockPath :: string
  fr_GuestNetwork :: "NotifyForkedNetwork option"

definition rootfs_clone :: "string \<Rightarrow> string \<Rightarrow> string" where
  "rootfs_clone sandboxID rootfsPath = (if rootfsPath = [] then [] else sandboxDir sandboxID @ ''/rootfs.ext4'')"

definition forked_sandbox :: "fork_host \<Rightarrow> string \<Rightarrow> string \<Rightarrow> string \<Rightarrow> ForkOpts \<Rightarrow> fc_client \<Rightarrow> forkNetwork option \<Rightarrow> int \<Rightarrow> Sandbox" where
  "forked_sandbox fh snapshotID sandboxID rootfsPath opts client fnet port =
     \<lparr>sb_ID = sandboxID, sb_TemplateID = snapshotID, sb_SnapshotID = snapshotID, sb_Endpoint = ''127.0.0.1:'' @ dec_int port,
      sb_Pid = vc_pid client, sb_CreatedAt = fh_now fh, sb_fcClient = Some client, sb_VsockPath = fh_vsockPath fh, sb_rootfsPath = rootfsPath,
      sb_rootfsClone = rootfs_clone sandboxID rootfsPath,
      sb_netID = (case fnet of None \<Rightarrow> noIdentity | Some n \<Rightarrow> fn_identity n),
      sb_netOpts = (case fnet of None \<Rightarrow> None | Some n \<Rightarrow> fo_Network opts), sb_hasVolumes = (the (fh_volumes fh) > 0),
      sb_chrootDir = vc_chrootDir client, sb_jailerVMDir = vc_jailerVMDir client, sb_jailedUID = vc_uid client,
      sb_adopted = False, sb_firecrackerBin = []\<rparr>"

text \<open>The last phase: the sandbox takes the place of its reservation and is journaled.\<close>

definition fork_commit ::
  "'w engine_env \<Rightarrow> fork_host \<Rightarrow> string \<Rightarrow> string \<Rightarrow> string \<Rightarrow> ForkOpts \<Rightarrow> fc_client \<Rightarrow> forkNetwork option \<Rightarrow> 'w engine \<Rightarrow> ForkResult \<times> 'w engine" where
  "fork_commit en fh snapshotID sandboxID rootfsPath opts client fnet e =
     (let port = e_nextPort e;
          sb = forked_sandbox fh snapshotID sandboxID rootfsPath opts client fnet port;
          e1 = commitReservation en sandboxID sb (e\<lparr>e_nextPort := i32 (port + 1)\<rparr>)
      in (\<lparr>fr_SandboxID = sandboxID, fr_Endpoint = sb_Endpoint sb, fr_VsockPath = fh_vsockPath fh, fr_GuestNetwork = map_option fn_guestNet fnet\<rparr>,
          journalSandbox en (fh_journal fh) sb e1))"

definition engine_fork ::
  "'w engine_env \<Rightarrow> fork_host \<Rightarrow> string \<Rightarrow> string \<Rightarrow> string \<Rightarrow> ForkOpts \<Rightarrow> bool \<Rightarrow> 'w engine \<Rightarrow> (fork_error, ForkResult) result \<times> 'w engine" where
  "engine_fork en fh snapshotID sandboxID rootfsPath opts reserved e =
     (if \<not> safeSandboxIDComponent sandboxID then (Inl (InvalidID sandboxID), e)
      else case (if reserved then (Inr (), e) else admitFork en e) of
             (Inl err, e1) \<Rightarrow> (Inl err, e1)
           | (Inr _, e1) \<Rightarrow>
               (case fork_launch en fh snapshotID sandboxID rootfsPath e1 of
                  (Inl err, e2) \<Rightarrow> (Inl err, releaseReservation en e2)
                | (Inr client, e2) \<Rightarrow>
                    (case fork_attach en fh sandboxID opts client e2 of
                       (Inl err, e3) \<Rightarrow> (Inl err, releaseReservation en e3)
                     | (Inr fnet, e3) \<Rightarrow>
                         (case fork_boot en fh sandboxID rootfsPath client fnet e3 of
                            (Some err, e4) \<Rightarrow> (Inl err, releaseReservation en e4)
                          | (None, e4) \<Rightarrow>
                              (case fork_commit en fh snapshotID sandboxID rootfsPath opts client fnet e4 of
                                 (res, e5) \<Rightarrow> (Inr res, e5))))))"

text \<open>\<open>gate\<close> is the refusal of the verification, compatibility and decryption gates, if any.\<close>

definition Fork ::
  "'w engine_env \<Rightarrow> fork_host \<Rightarrow> fork_error option \<Rightarrow> string \<Rightarrow> string \<Rightarrow> string \<Rightarrow> ForkOpts \<Rightarrow> 'w engine \<Rightarrow> (fork_error, ForkResult) result \<times> 'w engine" where
  "Fork en fh gate snapshotID sandboxID rootfsPath opts e =
     (if \<not> safeSandboxIDComponent snapshotID then (Inl (InvalidID snapshotID), e)
      else if \<not> safeSandboxIDComponent sandboxID then (Inl (InvalidID sandboxID), e)
      else case admitFork en e of
             (Inl err, e1) \<Rightarrow> (Inl err, e1)
           | (Inr _, e1) \<Rightarrow>
               (case gate of
                  Some err \<Rightarrow> (Inl err, releaseReservation en e1)
                | None \<Rightarrow> engine_fork en fh snapshotID sandboxID rootfsPath opts True e1))"

definition liveForkOpts :: "Sandbox \<Rightarrow> ForkOpts" where
  "liveForkOpts source = \<lparr>fo_Network = sb_netOpts source, fo_LiveFork = True\<rparr>"

definition liveForkRootfsBase :: "Sandbox \<Rightarrow> string" where
  "liveForkRootfsBase source = (if sb_rootfsClone source \<noteq> [] then sb_rootfsClone source else sb_rootfsPath source)"

text \<open>\<open>checkpoint\<close> is the failure of pausing, checkpointing and linking the source, if any.\<close>

definition ForkRunning ::
  "'w engine_env \<Rightarrow> fork_host \<Rightarrow> (string list \<Rightarrow> 'w \<Rightarrow> (string \<times> bool option) \<times> 'w) \<Rightarrow> fork_error option \<Rightarrow> string \<Rightarrow> string \<Rightarrow> 'w engine
    \<Rightarrow> (fork_error, ForkResult) result \<times> 'w engine" where
  "ForkRunning en fh flush checkpoint sourceID newID e =
     (case e_sandboxes e sourceID of
        None \<Rightarrow> (Inl (NotFound sourceID), e)
      | Some source \<Rightarrow>
          if networkEnabled en e \<and> \<not> egressProxyEnabled en e then (Inl (HostError ''live fork requires the egress proxy''), e)
          else (case checkpoint of
                  Some err \<Rightarrow> (Inl err, e)
                | None \<Rightarrow>
                    (case engine_fork en fh (sourceID @ ''-live'') newID (liveForkRootfsBase source) (liveForkOpts source) False e of
                       (Inl err, e1) \<Rightarrow> (Inl err, e1)
                     | (Inr res, e1) \<Rightarrow>
                         (case fr_GuestNetwork res of
                            None \<Rightarrow> (Inr res, e1)
                          | Some g \<Rightarrow>
                              (case ParseIP (nf_GuestIP g) of
                                 None \<Rightarrow> (Inr res, e1)
                               | Some ip \<Rightarrow> (Inr res, e1\<lparr>e_host := snd (FlushSource flush (en_unicode en) (Some ip) (e_host e1))\<rparr>))))))"

section \<open>Termination\<close>

text \<open>
  The reaping of a sandbox that was adopted after a restart: its process is signalled only if the
  recorded pid still runs the recorded binary. The first result is the pids that are signalled.
\<close>

definition release_uid :: "uint32 \<Rightarrow> 'w engine \<Rightarrow> 'w engine" where
  "release_uid uid e = (if uid \<noteq> 0 then e\<lparr>e_uids := map_option (\<lambda>a. ReleaseUID a uid) (e_uids e)\<rparr> else e)"

definition remove_dir :: "string \<Rightarrow> 'w engine \<Rightarrow> 'w engine" where
  "remove_dir dir e = (if dir \<noteq> [] then e\<lparr>e_dirs := e_dirs e - {dir}\<rparr> else e)"

definition reapAdopted :: "(int \<Rightarrow> string \<Rightarrow> bool) \<Rightarrow> Sandbox \<Rightarrow> 'w engine \<Rightarrow> int list \<times> 'w engine" where
  "reapAdopted verify sb e =
     (if sb_Pid sb > 0 \<and> verify (sb_Pid sb) (sb_firecrackerBin sb) then [sb_Pid sb] else [],
      release_uid (sb_jailedUID sb) (remove_dir (sb_jailerVMDir sb) e))"

definition Terminate ::
  "'w engine_env \<Rightarrow> (int \<Rightarrow> string \<Rightarrow> bool) \<Rightarrow> bool \<Rightarrow> string \<Rightarrow> 'w engine \<Rightarrow> (fork_error, int list) result \<times> 'w engine" where
  "Terminate en verify ok sandboxID e =
     (if \<not> safeSandboxIDComponent sandboxID then (Inl (InvalidID sandboxID), e)
      else case e_sandboxes e sandboxID of
             None \<Rightarrow> (Inl (NotFound sandboxID), e)
           | Some sb \<Rightarrow>
               (let e1 = e\<lparr>e_sandboxes := (e_sandboxes e)(sandboxID := None)\<rparr>;
                    (killed, e2) = (case sb_fcClient sb of
                                      Some c \<Rightarrow> ([vc_pid c], Kill c e1)
                                    | None \<Rightarrow> if sb_adopted sb then reapAdopted verify sb e1 else ([], e1));
                    e3 = (if TapName (sb_netID sb) \<noteq> [] then teardownForkNetwork en sandboxID (sb_netID sb) e2 else e2)
                in (Inr killed, unjournalSandbox ok sandboxID (remove_dir (sandboxDir sandboxID) e3))))"

section \<open>Recovery\<close>

text \<open>\<^verbatim>\<open>internal/fork/reconcile.go\<close>: what a restarted engine makes of the journal.\<close>

definition adopted_sandbox :: "sandboxRecord \<Rightarrow> Sandbox" where
  "adopted_sandbox rec =
     \<lparr>sb_ID = sr_ID rec, sb_TemplateID = sr_TemplateID rec, sb_SnapshotID = sr_SnapshotID rec, sb_Endpoint = sr_Endpoint rec, sb_Pid = sr_Pid rec,
      sb_CreatedAt = sr_CreatedAt rec, sb_fcClient = None, sb_VsockPath = sr_VsockPath rec, sb_rootfsPath = sr_RootfsPath rec,
      sb_rootfsClone = [], sb_netID = toIdentity (sr_Network rec), sb_netOpts = None, sb_hasVolumes = sr_HasVolumes rec,
      sb_chrootDir = sr_ChrootDir rec, sb_jailerVMDir = sr_JailerVMDir rec, sb_jailedUID = sr_JailedUID rec,
      sb_adopted = True, sb_firecrackerBin = sr_FirecrackerBin rec\<rparr>"

definition adoptSandbox :: "sandboxRecord \<Rightarrow> 'w engine \<Rightarrow> 'w engine" where
  "adoptSandbox rec e =
     (let sb = adopted_sandbox rec
      in e\<lparr>e_uids := (if sr_JailedUID rec \<noteq> 0 then map_option (\<lambda>a. MarkUIDInUse a (sr_JailedUID rec)) (e_uids e) else e_uids e),
           e_netAlloc := (if TapName (sb_netID sb) \<noteq> [] then map_option (\<lambda>a. snd (MarkInUse a (sr_ID rec) (sb_netID sb))) (e_netAlloc e)
                            else e_netAlloc e),
           e_sandboxes := (e_sandboxes e)(sr_ID rec \<mapsto> sb)\<rparr>)"

definition reapArtifacts :: "'w engine_env \<Rightarrow> sandboxRecord \<Rightarrow> 'w engine \<Rightarrow> 'w engine" where
  "reapArtifacts en rec e =
     (let e1 = remove_dir (sandboxDir (sr_ID rec)) (remove_dir (sr_JailerVMDir rec) e);
          e2 = (if ni_TapName (sr_Network rec) \<noteq> [] \<and> networkEnabled en e1
                then teardownForkNetwork en (sr_ID rec) (toIdentity (sr_Network rec)) e1 else e1)
      in release_uid (sr_JailedUID rec) e2)"

fun reconcile_records :: "'w engine_env \<Rightarrow> (int \<Rightarrow> string \<Rightarrow> bool) \<Rightarrow> sandboxRecord list \<Rightarrow> 'w engine \<Rightarrow> 'w engine" where
  "reconcile_records en verify [] e = e"
| "reconcile_records en verify (rec # recs) e =
     reconcile_records en verify recs
       (if verify (sr_Pid rec) (sr_FirecrackerBin rec) then adoptSandbox rec e
        else unjournalSandbox True (sr_ID rec) (reapArtifacts en rec e))"

text \<open>The records are read in the order of their file names; \<open>None\<close> is an unreadable directory.\<close>

definition reconcile :: "'w engine_env \<Rightarrow> (int \<Rightarrow> string \<Rightarrow> bool) \<Rightarrow> string list option \<Rightarrow> 'w engine \<Rightarrow> 'w engine" where
  "reconcile en verify names e =
     (case names of
        None \<Rightarrow> e
      | Some ns \<Rightarrow> reconcile_records en verify (List.map_filter (e_journal e) ns) e)"

text \<open>The state a new process starts from: journal, directories and host persist, memory does not.\<close>

definition restarted :: "int \<Rightarrow> Allocator \<Rightarrow> UIDAllocator \<Rightarrow> 'w engine \<Rightarrow> 'w engine" where
  "restarted port a u e =
     e\<lparr>e_sandboxes := Map.empty, e_reserved := 0, e_nextPort := port, e_netAlloc := Some a,
       e_dnsRegistry := map_option (\<lambda>_. NewDnsRegistry) (e_dnsRegistry e),
       e_egressProxy := map_option (\<lambda>_. NewSandboxRegistry) (e_egressProxy e), e_uids := Some u\<rparr>"

end
