(* ===== verification/Fork_Invariant.thy ===== *)
theory Fork_Invariant
  imports Fork_Engine
begin

text \<open>
  The invariant of the fork engine: the allocators and registries hold exactly what the sandboxes
  hold, live or in flight, and the journal has a record of every live one. A fork is seen between
  its phases as a flight, the local variables of its goroutine. Every phase of a fork and every
  termination keeps the invariant.
\<close>

section \<open>Allocators against the holders\<close>

text \<open>The allocator has given out exactly the uids that the holders have, one to each.\<close>

definition uids_hold :: "UIDAllocator \<Rightarrow> (string \<rightharpoonup> uint32) \<Rightarrow> bool" where
  "uids_hold u h \<longleftrightarrow> uid_inv u \<and> 0 \<notin> uid_range u \<and> uid_taken u = ran h \<and> inj_on h (dom h)"

lemma ReleaseUID_range: "uid_range (ReleaseUID u v) = uid_range u"
  by (simp add: uid_range_def ReleaseUID_def)

lemma uids_hold_acquire:
  assumes ok: "uids_hold u h" and x: "h x = None" and acq: "AcquireUID u = (Inr (v, g), u')"
  shows "uids_hold u' (h(x \<mapsto> v))" "v \<noteq> 0" "uids_hold (ReleaseUID u' v) h" "uid_range u' = uid_range u"
proof -
  have acq': "uid_acquire u () = Some (v, u')" using acq by (simp add: uid_acquire_def)
  have "uid_inv u" using ok by (simp add: uids_hold_def)
  from uid_acquire_Some [OF this acq']
  have a: "uid_inv u'" "uid_range u' = uid_range u" "v \<in> uid_range u" "v \<notin> uid_taken u" "uid_taken u' = insert v (uid_taken u)"
    by simp_all
  have v: "v \<notin> ran h" using a(4) ok by (simp add: uids_hold_def)
  then have "inj_on (h(x \<mapsto> v)) (dom (h(x \<mapsto> v)))" using ok by (intro inj_on_dom_upd) (auto simp: uids_hold_def ran_def)
  then show "uids_hold u' (h(x \<mapsto> v))" using a ok x by (simp add: uids_hold_def)
  show "v \<noteq> 0" using a(3) ok by (auto simp: uids_hold_def)
  show "uid_range u' = uid_range u" by (rule a(2))
  have "uid_taken (ReleaseUID u' v) = uid_taken u" using a(4,5) by (auto simp: ReleaseUID_taken)
  moreover have "uid_range (ReleaseUID u' v) = uid_range u" using a(2) by (simp add: uid_range_def ReleaseUID_def)
  ultimately show "uids_hold (ReleaseUID u' v) h" using ok a(1) ReleaseUID_inv by (auto simp: uids_hold_def)
qed

lemma uids_hold_refused: "uids_hold u h \<Longrightarrow> AcquireUID u = (Inl err, u') \<Longrightarrow> u' = u"
  by (auto elim: AcquireUID_cases)

lemma uids_hold_release:
  assumes ok: "uids_hold u h" and x: "h x = Some v"
  shows "uids_hold (ReleaseUID u v) (h(x := None))"
proof -
  have "ran (h(x := None)) = ran h - {v}" using ok x by (auto intro!: ran_del_inj simp: uids_hold_def)
  moreover have "inj_on (h(x := None)) (dom (h(x := None)))" using ok by (intro inj_on_dom_del) (simp add: uids_hold_def)
  moreover have "uid_range (ReleaseUID u v) = uid_range u" by (simp add: uid_range_def ReleaseUID_def)
  ultimately show ?thesis using ok ReleaseUID_inv by (auto simp: uids_hold_def ReleaseUID_taken)
qed

lemma uids_hold_release_other: "uids_hold u h \<Longrightarrow> v \<notin> ran h \<Longrightarrow> uids_hold (ReleaseUID u v) h"
  using ReleaseUID_inv [of u v] by (simp add: uids_hold_def ReleaseUID_taken ReleaseUID_range)

lemma uids_hold_mark:
  assumes ok: "uids_hold u h" and x: "h x = None" and v: "v \<notin> ran h" "v \<in> uid_range u"
  shows "uids_hold (MarkUIDInUse u v) (h(x \<mapsto> v))" "uid_range (MarkUIDInUse u v) = uid_range u"
proof -
  have "inj_on (h(x \<mapsto> v)) (dom (h(x \<mapsto> v)))" using ok v by (intro inj_on_dom_upd) (auto simp: uids_hold_def ran_def)
  moreover show r: "uid_range (MarkUIDInUse u v) = uid_range u" by (simp add: uid_range_def MarkUIDInUse_def)
  ultimately show "uids_hold (MarkUIDInUse u v) (h(x \<mapsto> v))"
    using ok v x MarkUIDInUse_inv by (auto simp: uids_hold_def MarkUIDInUse_taken)
qed

text \<open>The link allocator knows exactly the identities that the holders have.\<close>

definition wf_identity :: "Identity \<Rightarrow> bool" where
  "wf_identity ident \<longleftrightarrow> TapName ident \<noteq> [] \<and> (\<exists>h. HostIP ident = Some (IPv4 h)) \<and> (\<exists>g. GuestIP ident = Some (IPv4 g))"

definition nets_hold :: "Allocator \<Rightarrow> (string \<rightharpoonup> Identity) \<Rightarrow> bool" where
  "nets_hold a h \<longleftrightarrow> alloc_inv a \<and> a_prefix a \<noteq> [] \<and> a_byID a = h \<and> (\<forall>x ident. h x = Some ident \<longrightarrow> wf_identity ident)"

text \<open>The part of an allocator that never changes.\<close>

definition same_subnet :: "Allocator \<Rightarrow> Allocator \<Rightarrow> bool" where
  "same_subnet a b \<longleftrightarrow> a_base a = a_base b \<and> a_count a = a_count b \<and> a_prefix a = a_prefix b"

lemma wf_identityForBlock: "a_prefix a \<noteq> [] \<Longrightarrow> wf_identity (identityForBlock sha a x b)"
  by (simp add: wf_identity_def identityForBlock_def tapName_def Let_def)

lemma nets_hold_acquire:
  assumes ok: "nets_hold a h" and x: "h x = None" and acq: "Acquire sha a x = (Inr ident, a')"
  shows "nets_hold a' (h(x \<mapsto> ident))" "same_subnet a' a"
proof -
  have byID: "a_byID a x = None" using ok x by (simp add: nets_hold_def)
  from byID acq show "same_subnet a' a" by (cases rule: Acquire_cases) (auto simp: same_subnet_def)
  from byID acq show "nets_hold a' (h(x \<mapsto> ident))"
  proof (cases rule: Acquire_cases)
    case (granted i b ident')
    then show ?thesis
      using ok Acquire_inv [of a sha x _ a'] acq wf_identityForBlock [of a sha x b] by (auto simp: nets_hold_def)
  qed simp
qed

lemma nets_hold_refused: "nets_hold a h \<Longrightarrow> h x = None \<Longrightarrow> Acquire sha a x = (Inl err, a') \<Longrightarrow> a' = a"
  by (auto simp: nets_hold_def elim: Acquire_cases)

lemma nets_hold_release:
  assumes "nets_hold a h"
  shows "nets_hold (Release a x) (h(x := None))" "same_subnet (Release a x) a"
proof -
  have inv: "alloc_inv a" and h: "a_byID a = h" using assms by (simp_all add: nets_hold_def)
  have "a_byID (Release a x) = h(x := None)"
  proof (cases "a_idIndex a x")
    case None
    then have "a_byID a x = None" using alloc_invD(2) [OF inv] by blast
    then show ?thesis using None h by (auto simp: Release_def)
  next
    case (Some b)
    then show ?thesis using h by (simp add: Release_def)
  qed
  moreover have "a_prefix (Release a x) = a_prefix a" by (simp add: Release_def split: option.splits)
  ultimately show "nets_hold (Release a x) (h(x := None))"
    using assms Release_inv [OF inv] by (auto simp: nets_hold_def)
  show "same_subnet (Release a x) a" by (simp add: same_subnet_def Release_def split: option.splits)
qed

section \<open>Registries against the holders\<close>

text \<open>
  The proxy attributes an address only to the sandbox that holds it, and knows every holder that
  was not adopted after a restart; the resolver has allowlists only for addresses that are held.
\<close>

definition guest_text :: "Identity \<Rightarrow> string" where
  "guest_text ident = ip_String (GuestIP ident)"

definition proxy_holds :: "SandboxRegistry \<Rightarrow> (string \<rightharpoonup> Identity) \<Rightarrow> string set \<Rightarrow> bool" where
  "proxy_holds r h adopted \<longleftrightarrow>
     (\<forall>s x. r s = Some x \<longrightarrow> (\<exists>i. h x = Some i \<and> guest_text i = s)) \<and>
     (\<forall>x i. h x = Some i \<longrightarrow> x \<notin> adopted \<longrightarrow> r (guest_text i) = Some x)"

definition dns_holds :: "bool \<Rightarrow> DnsRegistry \<Rightarrow> (string \<rightharpoonup> Identity) \<Rightarrow> bool" where
  "dns_holds enabled d h \<longleftrightarrow>
     (\<forall>s. d s \<noteq> None \<longrightarrow> (\<exists>x i. h x = Some i \<and> guest_text i = s)) \<and> (\<not> enabled \<longrightarrow> d = Map.empty)"

lemma guest_text_inj:
  assumes ok: "nets_hold a h" and x: "h x = Some i" and y: "h y = Some j" and eq: "guest_text i = guest_text j"
  shows "x = y"
proof -
  obtain g g' where g: "GuestIP i = Some (IPv4 g)" "GuestIP j = Some (IPv4 g')"
    using ok x y by (fastforce simp: nets_hold_def wf_identity_def)
  have "normal_ip (IPv4 z)" for z by (simp add: normal_ip_def as16_def norm_ip_mapped)
  then have "GuestIP i = GuestIP j" using ip_String_inj eq g by (simp add: guest_text_def) blast
  then show ?thesis using guests_distinct ok x y by (auto simp: nets_hold_def)
qed

lemma proxy_holds_register:
  assumes ok: "nets_hold a (h(x \<mapsto> i))" and new: "h x = None" and r: "proxy_holds r h adopted"
  shows "proxy_holds (eg_Register (GuestIP i) x r) (h(x \<mapsto> i)) adopted"
proof -
  have ne: "guest_text j \<noteq> guest_text i" if "h y = Some j" for y j
    using guest_text_inj [OF ok, of y j x i] that new by (cases "y = x") auto
  have reg: "eg_Register (GuestIP i) x r = r(guest_text i \<mapsto> x)" by (simp add: eg_Register_def guest_text_def)
  show ?thesis
    using r ne new unfolding proxy_holds_def reg by (auto split: if_splits) fastforce
qed

lemma proxy_holds_deregister:
  assumes ok: "nets_hold a h" and x: "h x = Some i" and r: "proxy_holds r h adopted"
  shows "proxy_holds (eg_Deregister (GuestIP i) r) (h(x := None)) adopted"
proof -
  have ne: "guest_text j \<noteq> guest_text i" if "h y = Some j" "y \<noteq> x" for y j
    using guest_text_inj [OF ok that(1) x] that(2) by auto
  have own: "s = guest_text i" if "r s = Some x" for s using r that x by (fastforce simp: proxy_holds_def)
  have reg: "eg_Deregister (GuestIP i) r = r(guest_text i := None)" by (simp add: eg_Deregister_def guest_text_def)
  show ?thesis using r ne own unfolding proxy_holds_def reg by (auto split: if_splits)
qed

lemma dns_holds_more:
  assumes "dns_holds b d h" "h x = None"
  shows "dns_holds b d (h(x \<mapsto> i))"
proof -
  have "\<exists>y j. (h(x \<mapsto> i)) y = Some j \<and> guest_text j = s" if d: "d s \<noteq> None" for s
  proof -
    obtain y j where y: "h y = Some j" "guest_text j = s" using assms(1) d unfolding dns_holds_def by blast
    then have "y \<noteq> x" using assms(2) by auto
    then show ?thesis using y by (intro exI [of _ y] exI [of _ j]) simp
  qed
  then show ?thesis using assms(1) by (simp add: dns_holds_def)
qed

lemma dns_holds_register:
  assumes "dns_holds True d h" "h x = None"
  shows "dns_holds True (dns_Register unicode (GuestIP i) names d) (h(x \<mapsto> i))"
proof -
  have more: "dns_holds True d (h(x \<mapsto> i))" using assms by (rule dns_holds_more)
  have "\<exists>y j. (h(x \<mapsto> i)) y = Some j \<and> guest_text j = s" if "(dns_Register unicode (GuestIP i) names d) s \<noteq> None" for s
  proof (cases "s = guest_text i")
    case True
    then show ?thesis by (intro exI [of _ x] exI [of _ i]) simp
  next
    case False
    then have "d s \<noteq> None" using that by (simp add: dns_Register_def guest_text_def)
    then show ?thesis using more by (simp add: dns_holds_def)
  qed
  then show ?thesis by (simp add: dns_holds_def)
qed

lemma dns_holds_deregister:
  assumes ok: "nets_hold a h" and x: "h x = Some i" and d: "dns_holds b d h"
  shows "dns_holds b (if b then dns_Deregister (GuestIP i) d else d) (h(x := None))"
proof -
  have "\<exists>y j. (h(x := None)) y = Some j \<and> guest_text j = s" if ds: "d s \<noteq> None" "s \<noteq> guest_text i" for s
  proof -
    obtain y j where y: "h y = Some j" "guest_text j = s" using d ds(1) unfolding dns_holds_def by blast
    then have "y \<noteq> x" using x ds(2) by auto
    then show ?thesis using y by (intro exI [of _ y] exI [of _ j]) simp
  qed
  then show ?thesis using d by (auto simp: dns_holds_def dns_Deregister_def guest_text_def split: if_splits)
qed

text \<open>What the engine remembers of networks, against the holders.\<close>

definition net_state_ok :: "'w engine_env \<Rightarrow> Allocator \<Rightarrow> 'w engine \<Rightarrow> (string \<rightharpoonup> Identity) \<Rightarrow> string set \<Rightarrow> bool" where
  "net_state_ok en a0 e h adopted \<longleftrightarrow>
     (\<exists>a. e_netAlloc e = Some a \<and> nets_hold a h \<and> same_subnet a a0) \<and>
     (\<forall>r. e_egressProxy e = Some r \<longrightarrow> proxy_holds r h adopted) \<and>
     (\<forall>d. e_dnsRegistry e = Some d \<longrightarrow> dns_holds (en_enableDNSEgress en) d h)"

lemma same_subnet_trans: "same_subnet a b \<Longrightarrow> same_subnet b c \<Longrightarrow> same_subnet a c"
  by (simp add: same_subnet_def)

text \<open>The fields an operation on networks may change.\<close>

definition net_only :: "'w engine \<Rightarrow> 'w engine \<Rightarrow> bool" where
  "net_only e e' \<longleftrightarrow>
     e' = e\<lparr>e_netAlloc := e_netAlloc e', e_dnsRegistry := e_dnsRegistry e', e_egressProxy := e_egressProxy e', e_host := e_host e'\<rparr>"

lemma teardown_ok:
  assumes ok: "net_state_ok en a0 e h adopted" and x: "h x = Some ident" and mgr: "en_netMgr en \<noteq> None"
  shows "net_state_ok en a0 (teardownForkNetwork en x ident e) (h(x := None)) adopted" "net_only e (teardownForkNetwork en x ident e)"
proof -
  obtain a m where a: "e_netAlloc e = Some a" "nets_hold a h" "same_subnet a a0" "en_netMgr en = Some m"
    using ok mgr by (auto simp: net_state_ok_def)
  have "same_subnet (Release a x) a0" using nets_hold_release(2) [OF a(2)] a(3) same_subnet_trans by blast
  moreover have "dns_holds (en_enableDNSEgress en) (if en_enableDNSEgress en then dns_Deregister (GuestIP ident) d else d) (h(x := None))"
    if "e_dnsRegistry e = Some d" for d
    using dns_holds_deregister [OF a(2) x] ok that by (simp add: net_state_ok_def)
  ultimately show "net_state_ok en a0 (teardownForkNetwork en x ident e) (h(x := None)) adopted"
    using ok a nets_hold_release(1) [OF a(2)] proxy_holds_deregister [OF a(2) x]
    by (auto simp: net_state_ok_def teardownForkNetwork_def split: if_splits)
  show "net_only e (teardownForkNetwork en x ident e)" using a by (simp add: net_only_def teardownForkNetwork_def)
qed

lemma net_state_release:
  assumes ok: "nets_hold a1 (h(x \<mapsto> ident))" "same_subnet a1 a0" and x: "h x = None" and e: "net_state_ok en a0 e h adopted"
  shows "net_state_ok en a0 (e\<lparr>e_netAlloc := Some (Release a1 x), e_host := w\<rparr>) h adopted"
proof -
  have "h(x := None) = h" using x by auto
  then have "nets_hold (Release a1 x) h" using nets_hold_release(1) [OF ok(1), of x] by simp
  moreover have "same_subnet (Release a1 x) a0" using nets_hold_release(2) [OF ok(1)] ok(2) same_subnet_trans by blast
  ultimately show ?thesis using e by (simp add: net_state_ok_def)
qed

lemma registered_ok:
  assumes ok: "nets_hold a1 (h(x \<mapsto> ident))" "same_subnet a1 a0" and x: "h x = None" and e: "net_state_ok en a0 e h adopted"
    and mgr: "en_netMgr en \<noteq> None" and dns: "names \<noteq> Map.empty \<Longrightarrow> en_enableDNSEgress en"
  shows "net_state_ok en a0 (registered en x ident names (e\<lparr>e_netAlloc := Some a1, e_host := w\<rparr>)) (h(x \<mapsto> ident)) adopted"
proof -
  let ?e = "registered en x ident names (e\<lparr>e_netAlloc := Some a1, e_host := w\<rparr>)"
  have "proxy_holds r (h(x \<mapsto> ident)) adopted" if r: "e_egressProxy ?e = Some r" for r
  proof -
    obtain r0 where r0: "e_egressProxy e = Some r0" "r = eg_Register (GuestIP ident) x r0"
      using r mgr by (auto simp: registered_def egressProxyEnabled_def networkEnabled_def split: if_splits)
    then show ?thesis using proxy_holds_register [OF ok(1) x] e by (simp add: net_state_ok_def)
  qed
  moreover have "dns_holds (en_enableDNSEgress en) d (h(x \<mapsto> ident))" if d: "e_dnsRegistry ?e = Some d" for d
  proof (cases "names = Map.empty")
    case True
    then have "dns_holds (en_enableDNSEgress en) d h" using d e by (simp add: registered_def net_state_ok_def)
    then show ?thesis using x by (rule dns_holds_more)
  next
    case False
    then obtain d0 where d0: "e_dnsRegistry e = Some d0" "d = dns_Register (en_unicode en) (GuestIP ident) (en_entries en names) d0"
      using d by (auto simp: registered_def)
    have "dns_holds True d0 h" using e d0(1) dns [OF False] by (simp add: net_state_ok_def)
    from dns_holds_register [OF this x] show ?thesis using d0(2) dns [OF False] by simp
  qed
  ultimately show ?thesis using ok by (simp add: net_state_ok_def registered_def)
qed

text \<open>The ways a preparation ends: nothing changed, the identity given back, or everything registered.\<close>

lemma prepare_cases:
  assumes hold: "nets_hold a h" and x: "h x = None" and m: "en_netMgr en = Some m" "e_netAlloc e = Some a"
    and run: "prepareForkNetwork en x opts e = (r, e')"
  obtains (unchanged) "\<forall>n. r \<noteq> Inr (Some n)" "e' = e"
    | (undone) err a1 ident w where "r = Inl err" "Acquire (en_sha en) a x = (Inr ident, a1)" "e' = e\<lparr>e_netAlloc := Some (Release a1 x), e_host := w\<rparr>"
    | (ready) a1 ident w names where "r = Inr (Some (fork_network en e opts ident))" "Acquire (en_sha en) a x = (Inr ident, a1)"
      "e' = registered en x ident names (e\<lparr>e_netAlloc := Some a1, e_host := w\<rparr>)" "names \<noteq> Map.empty \<Longrightarrow> en_enableDNSEgress en"
proof (cases "fo_Network opts")
  case None
  then show ?thesis using run by (intro unchanged) (auto simp: prepareForkNetwork_def split: option.splits)
next
  case (Some no)
  show ?thesis
  proof (cases "SplitAllowList (no_AllowList no)")
    case (Inl err)
    then show ?thesis using run Some m by (intro unchanged) (auto simp: prepareForkNetwork_def)
  next
    case split: (Inr p)
    obtain allow skipped where p: "p = (allow, skipped)" by (cases p)
    obtain q a1 where acq: "Acquire (en_sha en) a x = (q, a1)" by fastforce
    show ?thesis
    proof (cases q)
      case (Inl err)
      then have "a1 = a" using nets_hold_refused [OF hold x] acq by simp
      then show ?thesis using run Some m split p acq Inl by (intro unchanged) (auto simp: prepareForkNetwork_def)
    next
      case (Inr ident)
      obtain se w where su: "network_setup (en_run en) (en_forward en) ident (fork_policy en e no allow) (en_resolverIP en) m (e_host e) = (se, w)"
        by fastforce
      define names where "names = (if dnsEgressEnabled en e \<and> skipped \<noteq> [] then ParseNameAllowList (en_unicode en) (no_AllowList no) else Inr Map.empty)"
      note facts = run Some m split p acq Inr su
      show ?thesis
      proof (cases "\<exists>ns. se = None \<and> names = Inr ns")
        case True
        then obtain ns where ns: "se = None" "names = Inr ns" by blast
        then have "ns \<noteq> Map.empty \<Longrightarrow> en_enableDNSEgress en" by (auto simp: names_def dnsEgressEnabled_def split: if_splits)
        then show ?thesis using facts ns by (intro ready [of ident a1 ns w]) (auto simp: prepareForkNetwork_def names_def)
      next
        case False
        then show ?thesis using facts by (cases se; cases names) (auto intro!: undone simp: prepareForkNetwork_def names_def)
      qed
    qed
  qed
qed

lemma prepare_ok:
  assumes e: "net_state_ok en a0 e h adopted" and x: "h x = None" and mgr: "en_netMgr en \<noteq> None"
    and run: "prepareForkNetwork en x opts e = (r, e')"
  shows "net_only e e' \<and> net_state_ok en a0 e' (case r of Inr (Some n) \<Rightarrow> h(x \<mapsto> fn_identity n) | _ \<Rightarrow> h) adopted"
proof -
  obtain m a where m: "en_netMgr en = Some m" "e_netAlloc e = Some a" "nets_hold a h" "same_subnet a a0"
    using e mgr by (auto simp: net_state_ok_def)
  have a1: "nets_hold a1 (h(x \<mapsto> ident))" "same_subnet a1 a0" if "Acquire (en_sha en) a x = (Inr ident, a1)" for ident a1
    using nets_hold_acquire [OF m(3) x that] m(4) same_subnet_trans by blast+
  from m(3) x m(1,2) run show ?thesis
  proof (cases rule: prepare_cases)
    case unchanged
    then show ?thesis using e by (auto simp: net_only_def split: sum.splits option.splits)
  next
    case (undone err a1' ident w)
    then show ?thesis using net_state_release [OF a1 [OF undone(2)] x e] by (simp add: net_only_def)
  next
    case (ready a1' ident w names)
    then show ?thesis
      using registered_ok [OF a1 [OF ready(2)] x e mgr, of names w] by (simp add: net_only_def fork_network_def registered_def)
  qed
qed

section \<open>Processes\<close>

definition uid_state_ok :: "uint32 set \<Rightarrow> 'w engine \<Rightarrow> (string \<rightharpoonup> uint32) \<Rightarrow> bool" where
  "uid_state_ok R e h \<longleftrightarrow> (\<exists>u. e_uids e = Some u \<and> uids_hold u h \<and> uid_range u = R)"

definition uid_only :: "'w engine \<Rightarrow> 'w engine \<Rightarrow> bool" where
  "uid_only e e' \<longleftrightarrow> e' = e\<lparr>e_uids := e_uids e', e_dirs := e_dirs e'\<rparr>"

lemma net_onlyD:
  assumes "net_only e e'"
  shows "e_sandboxes e' = e_sandboxes e" "e_reserved e' = e_reserved e" "e_nextPort e' = e_nextPort e" "e_uids e' = e_uids e"
    "e_journal e' = e_journal e" "e_dirs e' = e_dirs e"
  by (subst assms [unfolded net_only_def], simp)+

lemma uid_onlyD:
  assumes "uid_only e e'"
  shows "e_sandboxes e' = e_sandboxes e" "e_reserved e' = e_reserved e" "e_nextPort e' = e_nextPort e" "e_netAlloc e' = e_netAlloc e"
    "e_dnsRegistry e' = e_dnsRegistry e" "e_egressProxy e' = e_egressProxy e" "e_journal e' = e_journal e" "e_host e' = e_host e"
  by (subst assms [unfolded uid_only_def], simp)+

lemma uid_only_trans: "uid_only e e1 \<Longrightarrow> uid_only e1 e2 \<Longrightarrow> uid_only e e2"
  by (cases e; cases e1; cases e2) (simp add: uid_only_def)

definition client_wf :: "fc_client \<Rightarrow> bool" where
  "client_wf c \<longleftrightarrow> vc_jailed c = (vc_uid c \<noteq> 0)"

definition client_uid :: "fc_client \<Rightarrow> uint32 option" where
  "client_uid c = (if vc_uid c \<noteq> 0 then Some (vc_uid c) else None)"

lemma start_jailed_ok:
  assumes ok: "uid_state_ok R e h" and x: "h x = None" and run: "startJailedVM en x out e = (r, e')"
  shows "uid_only e e' \<and> (case r of Inl _ \<Rightarrow> uid_state_ok R e' h | Inr c \<Rightarrow> client_wf c \<and> uid_state_ok R e' (h(x := client_uid c)))"
proof (cases "\<exists>err. out = LaunchRefused err")
  case True
  then show ?thesis using run ok by (auto simp: startJailedVM_def uid_only_def Let_def)
next
  case False
  obtain u where u: "e_uids e = Some u" "uids_hold u h" "uid_range u = R" using ok by (auto simp: uid_state_ok_def)
  obtain q u1 where acq: "AcquireUID u = (q, u1)" by fastforce
  show ?thesis
  proof (cases q)
    case (Inl err)
    then have "u1 = u" using uids_hold_refused [OF u(2)] acq by simp
    then have "r = Inl (UidError err) \<and> e' = e\<lparr>e_uids := Some u\<rparr>"
      using False run u acq Inl by (cases out) (auto simp: startJailedVM_def Let_def)
    then show ?thesis using u by (simp add: uid_only_def uid_state_ok_def)
  next
    case (Inr p)
    obtain v g where p: "p = (v, g)" by (cases p)
    note A = uids_hold_acquire [OF u(2) x acq [unfolded Inr p]]
    show ?thesis
    proof (cases out)
      case (Launched pid)
      then show ?thesis
        using run u acq Inr p A
        by (auto simp: startJailedVM_def Let_def uid_only_def uid_state_ok_def client_wf_def client_uid_def)
    next
      case (LaunchFailed made err)
      then show ?thesis
        using run u acq Inr p A
        by (auto simp: startJailedVM_def Let_def uid_only_def uid_state_ok_def ReleaseUID_range)
    next
      case (LaunchRefused err)
      then show ?thesis using False by simp
    qed
  qed
qed

lemma StartVM_ok:
  assumes ok: "uid_state_ok R e h" and x: "h x = None" and run: "StartVM en x out e = (r, e')"
  shows "uid_only e e' \<and> (case r of Inl _ \<Rightarrow> uid_state_ok R e' h | Inr c \<Rightarrow> client_wf c \<and> uid_state_ok R e' (h(x := client_uid c)))"
proof (cases "en_jailed en")
  case True
  then show ?thesis using start_jailed_ok [OF ok x] run by (simp add: StartVM_def)
next
  case False
  have "h(x := None) = h" using x by auto
  then show ?thesis
    using False run ok by (cases out) (auto simp: StartVM_def uid_only_def client_wf_def client_uid_def)
qed

lemma launch_ok:
  assumes ok: "uid_state_ok R e h" and x: "h x = None" and run: "fork_launch en fh snap x rootfs e = (r, e')"
  shows "uid_only e e' \<and> (case r of Inl _ \<Rightarrow> uid_state_ok R e' h | Inr c \<Rightarrow> client_wf c \<and> uid_state_ok R e' (h(x := client_uid c)))"
proof -
  let ?e = "e\<lparr>e_dirs := insert (sandboxDir x) (e_dirs e)\<rparr>"
  have ok': "uid_state_ok R ?e h" and only: "uid_only e ?e" using ok by (simp_all add: uid_state_ok_def uid_only_def)
  consider "\<exists>err. r = Inl err \<and> (e' = e \<or> e' = ?e)" | "StartVM en x (fh_launch fh) ?e = (r, e')"
    using run by (auto simp: fork_launch_def Let_def split: if_splits)
  then show ?thesis
  proof cases
    case 1
    then show ?thesis using ok ok' only by (auto simp: uid_only_def)
  next
    case 2
    then show ?thesis using StartVM_ok [OF ok' x] uid_only_trans [OF only] by auto
  qed
qed

lemma Kill_ok:
  assumes ok: "uid_state_ok R e h" and c: "client_wf c" "h x = client_uid c"
  shows "uid_state_ok R (Kill c e) (h(x := None))" "uid_only e (Kill c e)"
proof -
  obtain u where u: "e_uids e = Some u" "uids_hold u h" "uid_range u = R" using ok by (auto simp: uid_state_ok_def)
  have "h(x := None) = h" if "vc_uid c = 0" using c that by (auto simp: client_uid_def)
  then show "uid_state_ok R (Kill c e) (h(x := None))"
    using u c uids_hold_release [OF u(2)] by (auto simp: uid_state_ok_def Kill_def client_wf_def client_uid_def ReleaseUID_range)
  show "uid_only e (Kill c e)" by (simp add: uid_only_def Kill_def)
qed

section \<open>Flights and the invariant\<close>

record flight =
  fl_client :: "fc_client option"
  fl_attached :: bool
  fl_net :: "forkNetwork option"

type_synonym flights = "string \<rightharpoonup> flight"

definition new_flight :: flight where
  "new_flight = \<lparr>fl_client = None, fl_attached = False, fl_net = None\<rparr>"

definition flight_uid :: "flight \<Rightarrow> uint32 option" where
  "flight_uid f = Option.bind (fl_client f) client_uid"

definition sandbox_uid :: "Sandbox \<Rightarrow> uint32 option" where
  "sandbox_uid sb = (if sb_jailedUID sb \<noteq> 0 then Some (sb_jailedUID sb) else None)"

definition sandbox_net :: "Sandbox \<Rightarrow> Identity option" where
  "sandbox_net sb = (if TapName (sb_netID sb) \<noteq> [] then Some (sb_netID sb) else None)"

text \<open>The uid and the identity a sandbox holds, whether it is live or in flight.\<close>

definition uid_held :: "'w engine \<Rightarrow> flights \<Rightarrow> string \<rightharpoonup> uint32" where
  "uid_held e F x = (case F x of Some f \<Rightarrow> flight_uid f | None \<Rightarrow> Option.bind (e_sandboxes e x) sandbox_uid)"

definition net_held :: "'w engine \<Rightarrow> flights \<Rightarrow> string \<rightharpoonup> Identity" where
  "net_held e F x = (case F x of Some f \<Rightarrow> map_option fn_identity (fl_net f) | None \<Rightarrow> Option.bind (e_sandboxes e x) sandbox_net)"

definition adopted_ids :: "'w engine \<Rightarrow> string set" where
  "adopted_ids e = {x. \<exists>sb. e_sandboxes e x = Some sb \<and> sb_adopted sb}"

definition flight_wf :: "flight \<Rightarrow> bool" where
  "flight_wf f \<longleftrightarrow> (\<forall>c. fl_client f = Some c \<longrightarrow> client_wf c) \<and> (fl_attached f \<longrightarrow> fl_client f \<noteq> None) \<and> (\<not> fl_attached f \<longrightarrow> fl_net f = None)"

definition sandbox_wf :: "string \<Rightarrow> Sandbox \<Rightarrow> bool" where
  "sandbox_wf x sb \<longleftrightarrow> sb_ID sb = x \<and>
     (case sb_fcClient sb of
        Some c \<Rightarrow> client_wf c \<and> sb_jailedUID sb = vc_uid c \<and> \<not> sb_adopted sb
      | None \<Rightarrow> sb_adopted sb)"

text \<open>The slots in use: with a ceiling, one reservation for every flight and no more than the ceiling in total.\<close>

definition slots_ok :: "'w engine_env \<Rightarrow> 'w engine \<Rightarrow> flights \<Rightarrow> bool" where
  "slots_ok en e F \<longleftrightarrow> finite (dom (e_sandboxes e)) \<and> finite (dom F) \<and> dom F \<inter> dom (e_sandboxes e) = {} \<and>
     (0 < en_maxSandboxes en \<longrightarrow>
        e_reserved e = int (card (dom F)) \<and> int (card (dom (e_sandboxes e))) + e_reserved e \<le> en_maxSandboxes en)"

text \<open>The journal has one record for each sandbox, with its uid and identity.\<close>

definition record_of :: "sandboxRecord \<Rightarrow> string \<Rightarrow> Sandbox \<Rightarrow> bool" where
  "record_of rec x sb \<longleftrightarrow> sr_ID rec = x \<and> sr_JailedUID rec = sb_jailedUID sb \<and> toIdentity (sr_Network rec) = sb_netID sb \<and>
     ni_TapName (sr_Network rec) = TapName (sb_netID sb)"

definition journal_holds :: "'w engine \<Rightarrow> bool" where
  "journal_holds e \<longleftrightarrow> (\<forall>x. rel_option (\<lambda>rec sb. record_of rec x sb) (e_journal e x) (e_sandboxes e x))"

definition engine_inv :: "'w engine_env \<Rightarrow> Allocator \<Rightarrow> uint32 set \<Rightarrow> 'w engine \<times> flights \<Rightarrow> bool" where
  "engine_inv en a0 R s \<longleftrightarrow> (case s of (e, F) \<Rightarrow>
     slots_ok en e F \<and> uid_state_ok R e (uid_held e F) \<and> net_state_ok en a0 e (net_held e F) (adopted_ids e) \<and>
     (\<forall>x f. F x = Some f \<longrightarrow> flight_wf f) \<and> (\<forall>x sb. e_sandboxes e x = Some sb \<longrightarrow> sandbox_wf x sb) \<and> journal_holds e)"

lemma engine_invD:
  assumes "engine_inv en a0 R (e, F)"
  shows "slots_ok en e F" "uid_state_ok R e (uid_held e F)" "net_state_ok en a0 e (net_held e F) (adopted_ids e)"
    "\<And>x f. F x = Some f \<Longrightarrow> flight_wf f" "\<And>x sb. e_sandboxes e x = Some sb \<Longrightarrow> sandbox_wf x sb" "journal_holds e"
  using assms by (auto simp: engine_inv_def)

text \<open>A journaled identity reads back as it was.\<close>

lemma identity_round_trip:
  assumes "wf_identity ident \<or> ident = noIdentity"
  shows "toIdentity (networkIdentityFrom ident) = ident"
proof -
  have v4: "parse_v4 (ip_String (Some (IPv4 z))) = Some (IPv4 z)" "ip_String (Some (IPv4 z)) \<noteq> []" for z
  proof -
    have "normal_ip (IPv4 z)" by (simp add: normal_ip_def as16_def norm_ip_mapped)
    then have p: "ParseIP (ip_String (Some (IPv4 z))) = Some (IPv4 z)" by (rule ParseIP_String)
    then show "parse_v4 (ip_String (Some (IPv4 z))) = Some (IPv4 z)" by (simp add: parse_v4_def)
    have "ParseIP [] = None" by (simp add: ParseIP_def ParseAddr_def)
    then show "ip_String (Some (IPv4 z)) \<noteq> []" using p by auto
  qed
  from assms show ?thesis
  proof
    assume "wf_identity ident"
    then obtain h g where "HostIP ident = Some (IPv4 h)" "GuestIP ident = Some (IPv4 g)" by (auto simp: wf_identity_def)
    then show ?thesis by (simp add: toIdentity_def networkIdentityFrom_def v4)
  next
    assume "ident = noIdentity"
    then show ?thesis by (simp add: toIdentity_def networkIdentityFrom_def noIdentity_def)
  qed
qed

section \<open>Slots\<close>

lemma slots_admit:
  assumes ok: "slots_ok en e F" and max: "en_maxSandboxes en < 2 ^ 31" and x: "F x = None" "e_sandboxes e x = None"
    and run: "admitFork en e = (Inr (), e')"
  shows "slots_ok en e' (F(x \<mapsto> f))" "e' = e\<lparr>e_reserved := e_reserved e'\<rparr>"
proof -
  let ?m = "en_maxSandboxes en" and ?n = "int (card (dom (e_sandboxes e)))"
  have "x \<notin> dom F" using x by auto
  then have cardF: "card (dom (F(x \<mapsto> f))) = Suc (card (dom F))" using ok by (simp add: slots_ok_def)
  show "e' = e\<lparr>e_reserved := e_reserved e'\<rparr>" using run by (auto simp: admitFork_def Let_def split: if_splits)
  have sb: "e_sandboxes e' = e_sandboxes e" using run by (auto simp: admitFork_def Let_def split: if_splits)
  have "e_reserved e' = e_reserved e + 1 \<and> ?n + e_reserved e + 1 \<le> ?m" if pos: "0 < ?m"
  proof -
    have b: "0 \<le> e_reserved e" "?n + e_reserved e \<le> ?m" using ok pos by (simp_all add: slots_ok_def)
    have "in_i32 ?n" "in_i32 (?n + e_reserved e)" using b max by (auto simp: in_i32_def)
    then have "i32 (sandbox_count e + e_reserved e) = ?n + e_reserved e" by (simp add: sandbox_count_def i32_id)
    then have lt: "?n + e_reserved e < ?m" and e': "e' = e\<lparr>e_reserved := i32 (e_reserved e + 1)\<rparr>"
      using run pos by (auto simp: admitFork_def Let_def split: if_splits)
    have "in_i32 (e_reserved e + 1)" using b lt max by (auto simp: in_i32_def)
    then show ?thesis using lt e' by (simp add: i32_id)
  qed
  then show "slots_ok en e' (F(x \<mapsto> f))" using ok x cardF by (auto simp: slots_ok_def sb)
qed

lemma slots_release:
  assumes ok: "slots_ok en e F" and x: "F x = Some f"
  shows "slots_ok en (releaseReservation en e) (F(x := None))"
proof -
  have "card (dom F) = Suc (card (dom F - {x}))" using ok x by (intro card.remove) (auto simp: slots_ok_def)
  then show ?thesis using ok by (auto simp: slots_ok_def releaseReservation_def)
qed

lemma slots_commit:
  assumes ok: "slots_ok en e F" and x: "F x = Some f"
  shows "slots_ok en (commitReservation en x sb e) (F(x := None))"
proof -
  have c: "card (dom F) = Suc (card (dom F - {x}))" using ok x by (intro card.remove) (auto simp: slots_ok_def)
  have "x \<notin> dom (e_sandboxes e)" using ok x by (auto simp: slots_ok_def)
  then have "card (insert x (dom (e_sandboxes e))) = Suc (card (dom (e_sandboxes e)))" using ok by (simp add: slots_ok_def)
  then show ?thesis using ok c by (auto simp: slots_ok_def commitReservation_def Let_def)
qed

section \<open>Every phase keeps the invariant\<close>

lemma uid_state_cong: "e_uids e' = e_uids e \<Longrightarrow> uid_state_ok R e' h = uid_state_ok R e h"
  by (simp add: uid_state_ok_def)

lemma net_state_cong:
  "e_netAlloc e' = e_netAlloc e \<Longrightarrow> e_egressProxy e' = e_egressProxy e \<Longrightarrow> e_dnsRegistry e' = e_dnsRegistry e \<Longrightarrow>
   net_state_ok en a0 e' h A = net_state_ok en a0 e h A"
  by (simp add: net_state_ok_def)

lemma release_fields [simp]:
  "e_sandboxes (releaseReservation en e) = e_sandboxes e" "e_uids (releaseReservation en e) = e_uids e"
  "e_netAlloc (releaseReservation en e) = e_netAlloc e" "e_egressProxy (releaseReservation en e) = e_egressProxy e"
  "e_dnsRegistry (releaseReservation en e) = e_dnsRegistry e" "e_journal (releaseReservation en e) = e_journal e"
  by (simp_all add: releaseReservation_def)

lemma held_flight:
  "e_sandboxes e' = e_sandboxes e \<Longrightarrow> uid_held e' (F(x \<mapsto> f)) = (uid_held e F)(x := flight_uid f)"
  "e_sandboxes e' = e_sandboxes e \<Longrightarrow> net_held e' (F(x \<mapsto> f)) = (net_held e F)(x := map_option fn_identity (fl_net f))"
  by (simp_all add: uid_held_def net_held_def fun_eq_iff split: option.split)

lemma held_landed:
  "e_sandboxes e' = e_sandboxes e \<Longrightarrow> e_sandboxes e x = None \<Longrightarrow> uid_held e' (F(x := None)) = (uid_held e F)(x := None)"
  "e_sandboxes e' = e_sandboxes e \<Longrightarrow> e_sandboxes e x = None \<Longrightarrow> net_held e' (F(x := None)) = (net_held e F)(x := None)"
  by (simp_all add: uid_held_def net_held_def fun_eq_iff split: option.split)

lemma slots_cong: "e_sandboxes e' = e_sandboxes e \<Longrightarrow> e_reserved e' = e_reserved e \<Longrightarrow> slots_ok en e' F = slots_ok en e F"
  by (simp only: slots_ok_def)

lemma flight_fresh: "slots_ok en e F \<Longrightarrow> F x = Some f \<Longrightarrow> e_sandboxes e x = None"
  by (auto simp: slots_ok_def)

text \<open>
  A flight that ends without a sandbox: what it held is given back, with the reservation; a flight
  that goes on holds what its phase acquired.
\<close>

lemma flight_ends:
  assumes inv: "engine_inv en a0 R (e, F)" and x: "F x = Some f"
    and same: "e_sandboxes e' = e_sandboxes e" "e_reserved e' = e_reserved e" "e_journal e' = e_journal e"
    and uid: "uid_state_ok R e' ((uid_held e F)(x := None))"
    and net: "net_state_ok en a0 e' ((net_held e F)(x := None)) (adopted_ids e)"
  shows "engine_inv en a0 R (releaseReservation en e', F(x := None))"
proof -
  note I = engine_invD [OF inv]
  have fresh: "e_sandboxes e x = None" using flight_fresh [OF I(1) x] .
  have "slots_ok en e' F" using I(1) slots_cong [OF same(1,2)] by simp
  then have slots: "slots_ok en (releaseReservation en e') (F(x := None))" using x by (rule slots_release)
  have ad: "adopted_ids (releaseReservation en e') = adopted_ids e" using same by (simp add: adopted_ids_def)
  have "uid_state_ok R (releaseReservation en e') (uid_held (releaseReservation en e') (F(x := None)))"
    using uid held_landed(1) [of "releaseReservation en e'" e x F] same fresh by (simp add: uid_state_ok_def)
  moreover have "net_state_ok en a0 (releaseReservation en e') (net_held (releaseReservation en e') (F(x := None))) (adopted_ids (releaseReservation en e'))"
    using net held_landed(2) [of "releaseReservation en e'" e x F] same fresh by (simp add: net_state_ok_def ad)
  ultimately show ?thesis using slots I(4,5,6) same by (auto simp: engine_inv_def journal_holds_def)
qed

lemma flight_goes_on:
  assumes inv: "engine_inv en a0 R (e, F)" and x: "F x = Some f" and wf: "flight_wf f'"
    and same: "e_sandboxes e' = e_sandboxes e" "e_reserved e' = e_reserved e" "e_journal e' = e_journal e"
    and uid: "uid_state_ok R e' ((uid_held e F)(x := flight_uid f'))"
    and net: "net_state_ok en a0 e' ((net_held e F)(x := map_option fn_identity (fl_net f'))) (adopted_ids e)"
  shows "engine_inv en a0 R (e', F(x \<mapsto> f'))"
proof -
  note I = engine_invD [OF inv]
  have "dom (F(x \<mapsto> f')) = dom F" using x by auto
  then have "slots_ok en e (F(x \<mapsto> f'))" using I(1) unfolding slots_ok_def by metis
  then have "slots_ok en e' (F(x \<mapsto> f'))" using slots_cong [OF same(1,2)] by simp
  moreover have "adopted_ids e' = adopted_ids e" using same by (simp add: adopted_ids_def)
  ultimately show ?thesis
    using uid net held_flight [of e' e F x f'] I(4,5,6) same wf by (auto simp: engine_inv_def journal_holds_def)
qed

lemma flight_held:
  assumes "F x = Some f"
  shows "uid_held e F x = flight_uid f" "net_held e F x = map_option fn_identity (fl_net f)"
  using assms by (simp_all add: uid_held_def net_held_def)

lemma launch_step:
  assumes inv: "engine_inv en a0 R (e, F)" and x: "F x = Some new_flight"
    and run: "fork_launch en fh snap x rootfs e = (r, e')"
  shows "case r of Inl _ \<Rightarrow> engine_inv en a0 R (releaseReservation en e', F(x := None))
    | Inr c \<Rightarrow> engine_inv en a0 R (e', F(x \<mapsto> new_flight\<lparr>fl_client := Some c\<rparr>))"
proof -
  note I = engine_invD [OF inv]
  have none: "uid_held e F x = None" "net_held e F x = None" using flight_held [of F x, OF x] by (simp_all add: new_flight_def flight_uid_def)
  then have keep: "(uid_held e F)(x := None) = uid_held e F" "(net_held e F)(x := None) = net_held e F" by auto
  note L = launch_ok [OF I(2) none(1) run]
  note D = uid_onlyD [OF conjunct1 [OF L]]
  have net: "net_state_ok en a0 e' (net_held e F) (adopted_ids e)" using I(3) D by (simp add: net_state_ok_def)
  show ?thesis
  proof (cases r)
    case (Inl err)
    then show ?thesis using flight_ends [OF inv x D(1,2,7)] L net keep by simp
  next
    case (Inr c)
    let ?f = "new_flight\<lparr>fl_client := Some c\<rparr>"
    have "flight_wf ?f" "flight_uid ?f = client_uid c" "fl_net ?f = None"
      using L Inr by (auto simp: flight_wf_def new_flight_def flight_uid_def)
    then show ?thesis using flight_goes_on [OF inv x _ D(1,2,7), of ?f] L net keep Inr by simp
  qed
qed

text \<open>A killed client and a torn down network leave nothing held.\<close>

definition gives_up :: "'w engine_env \<Rightarrow> string \<Rightarrow> fc_client \<Rightarrow> forkNetwork option \<Rightarrow> 'w engine \<Rightarrow> 'w engine" where
  "gives_up en x c fnet e = (case fnet of None \<Rightarrow> Kill c e | Some n \<Rightarrow> teardownForkNetwork en x (fn_identity n) (Kill c e))"

lemma gives_up_ok:
  assumes uid: "uid_state_ok R e hu" and c: "client_wf c" "hu x = client_uid c"
    and net: "net_state_ok en a0 e hn adopted" and n: "hn x = map_option fn_identity fnet" and mgr: "en_netMgr en \<noteq> None"
  shows "uid_state_ok R (gives_up en x c fnet e) (hu(x := None))" "net_state_ok en a0 (gives_up en x c fnet e) (hn(x := None)) adopted"
    "e_sandboxes (gives_up en x c fnet e) = e_sandboxes e" "e_reserved (gives_up en x c fnet e) = e_reserved e"
    "e_journal (gives_up en x c fnet e) = e_journal e"
proof -
  note K = Kill_ok [OF uid c]
  note D = uid_onlyD [OF K(2)]
  have net': "net_state_ok en a0 (Kill c e) hn adopted" using net net_state_cong [OF D(4,6,5)] by simp
  have "uid_state_ok R (gives_up en x c fnet e) (hu(x := None)) \<and> net_state_ok en a0 (gives_up en x c fnet e) (hn(x := None)) adopted \<and>
    e_sandboxes (gives_up en x c fnet e) = e_sandboxes e \<and> e_reserved (gives_up en x c fnet e) = e_reserved e \<and>
    e_journal (gives_up en x c fnet e) = e_journal e"
  proof (cases fnet)
    case None
    then have "hn(x := None) = hn" using n by auto
    then show ?thesis using None K(1) D net' by (simp add: gives_up_def)
  next
    case (Some m)
    then have m: "hn x = Some (fn_identity m)" using n by simp
    note T = teardown_ok [OF net' m mgr]
    note E = net_onlyD [OF T(2)]
    show ?thesis using Some K(1) D T(1) E uid_state_cong [OF E(4)] by (simp add: gives_up_def)
  qed
  then show "uid_state_ok R (gives_up en x c fnet e) (hu(x := None))" "net_state_ok en a0 (gives_up en x c fnet e) (hn(x := None)) adopted"
    "e_sandboxes (gives_up en x c fnet e) = e_sandboxes e" "e_reserved (gives_up en x c fnet e) = e_reserved e"
    "e_journal (gives_up en x c fnet e) = e_journal e" by simp_all
qed

lemma attach_step:
  assumes inv: "engine_inv en a0 R (e, F)" and mgr: "en_netMgr en \<noteq> None"
    and x: "F x = Some f" and f: "fl_client f = Some c" "\<not> fl_attached f"
    and run: "fork_attach en fh x opts c e = (r, e')"
  shows "case r of Inl _ \<Rightarrow> engine_inv en a0 R (releaseReservation en e', F(x := None))
    | Inr fnet \<Rightarrow> engine_inv en a0 R (e', F(x \<mapsto> f\<lparr>fl_attached := True, fl_net := fnet\<rparr>))"
proof -
  note I = engine_invD [OF inv]
  have wf: "client_wf c" "fl_net f = None" using I(4) [OF x] f by (auto simp: flight_wf_def)
  have held: "uid_held e F x = client_uid c" "net_held e F x = None"
    using flight_held [of F x, OF x] f wf by (simp_all add: flight_uid_def)
  then have keep: "(uid_held e F)(x := client_uid c) = uid_held e F" "(net_held e F)(x := None) = net_held e F" by auto
  obtain p e1 where p: "prepareForkNetwork en x opts e = (p, e1)" by fastforce
  note P = prepare_ok [OF I(3) held(2) mgr p]
  note D = net_onlyD [OF conjunct1 [OF P]]
  have uid1: "uid_state_ok R e1 (uid_held e F)" using I(2) uid_state_cong [OF D(4)] by simp
  define fnet where "fnet = (case p of Inr n \<Rightarrow> n | Inl _ \<Rightarrow> None)"
  have net1: "net_state_ok en a0 e1 ((net_held e F)(x := map_option fn_identity fnet)) (adopted_ids e)"
    using P keep by (auto simp: fnet_def split: sum.splits option.splits)
  note G = gives_up_ok [OF uid1 wf(1) held(1) net1 _ mgr, of fnet, simplified]
  consider (failed) err where "r = Inl err" "e' = gives_up en x c fnet e1" | (attached) "r = Inr fnet" "e' = e1"
    using run p by (cases p) (auto simp: fork_attach_def gives_up_def fnet_def split: if_splits option.splits)
  then show ?thesis
  proof cases
    case failed
    then show ?thesis using flight_ends [OF inv x, of e'] G D keep by simp
  next
    case attached
    let ?f = "f\<lparr>fl_attached := True, fl_net := fnet\<rparr>"
    have "flight_wf ?f" "flight_uid ?f = client_uid c" using f wf by (simp_all add: flight_wf_def flight_uid_def)
    then show ?thesis using flight_goes_on [OF inv x _ D(1,2,5), of ?f] attached uid1 net1 keep by simp
  qed
qed

lemma boot_step:
  assumes inv: "engine_inv en a0 R (e, F)" and mgr: "en_netMgr en \<noteq> None"
    and x: "F x = Some f" and f: "fl_client f = Some c"
    and run: "fork_boot en fh x rootfs c (fl_net f) e = (Some err, e')"
  shows "engine_inv en a0 R (releaseReservation en e', F(x := None))"
proof -
  note I = engine_invD [OF inv]
  have wf: "client_wf c" using I(4) [OF x] f by (simp add: flight_wf_def)
  have held: "uid_held e F x = client_uid c" "net_held e F x = map_option fn_identity (fl_net f)"
    using flight_held [of F x, OF x] f by (simp_all add: flight_uid_def)
  note G = gives_up_ok [OF I(2) wf held(1) I(3) held(2) mgr]
  have e': "e' = (gives_up en x c (fl_net f) e)\<lparr>e_dirs := e_dirs e'\<rparr>"
    using run by (auto simp: fork_boot_def Let_def cleanupFork_def gives_up_def split: if_splits)
  have "e_sandboxes e' = e_sandboxes e" "e_reserved e' = e_reserved e" "e_journal e' = e_journal e"
    "uid_state_ok R e' ((uid_held e F)(x := None))" "net_state_ok en a0 e' ((net_held e F)(x := None)) (adopted_ids e)"
    by (subst e', simp add: G uid_state_ok_def net_state_ok_def G(1) [unfolded uid_state_ok_def] G(2) [unfolded net_state_ok_def])+
  then show ?thesis by (rule flight_ends [OF inv x])
qed

text \<open>The commit moves what the flight held to the sandbox, and the journal gets its record.\<close>

lemma commit_step:
  assumes inv: "engine_inv en a0 R (e, F)" and x: "F x = Some f" and f: "fl_client f = Some c"
    and j: "fh_journal fh"
    and run: "fork_commit en fh snap x rootfs opts c (fl_net f) e = (res, e')"
  shows "engine_inv en a0 R (e', F(x := None))"
proof -
  note I = engine_invD [OF inv]
  define sb where "sb = forked_sandbox fh snap x rootfs opts c (fl_net f) (e_nextPort e)"
  have wf: "client_wf c" using I(4) [OF x] f by (simp add: flight_wf_def)
  have fresh: "e_sandboxes e x = None" using flight_fresh [OF I(1) x] .
  obtain a where a: "nets_hold a (net_held e F)" using I(3) by (auto simp: net_state_ok_def)
  have net: "sb_netID sb = (case fl_net f of None \<Rightarrow> noIdentity | Some n \<Rightarrow> fn_identity n)" by (simp add: sb_def forked_sandbox_def)
  have ident: "wf_identity (fn_identity n)" if "fl_net f = Some n" for n
    using a flight_held(2) [of F x f e, OF x] that unfolding nets_hold_def by auto
  have ok: "wf_identity (sb_netID sb) \<or> sb_netID sb = noIdentity" using net ident by (simp split: option.splits)
  have wfsb: "sandbox_wf x sb" "\<not> sb_adopted sb"
    using wf ok by (auto simp: sandbox_wf_def wf_identity_def sb_def forked_sandbox_def)
  have held: "sandbox_uid sb = flight_uid f" "sandbox_net sb = map_option fn_identity (fl_net f)"
    using f ident net by (auto simp: sandbox_uid_def sandbox_net_def flight_uid_def client_uid_def noIdentity_def wf_identity_def
        sb_def forked_sandbox_def split: option.splits)
  have id: "sb_ID sb = x" using wfsb by (simp add: sandbox_wf_def)
  define e1 where "e1 = commitReservation en x sb (e\<lparr>e_nextPort := i32 (e_nextPort e + 1)\<rparr>)"
  have e': "e' = e1\<lparr>e_journal := (e_journal e)(x \<mapsto> sandbox_record en sb)\<rparr>"
    using run j id by (auto simp: fork_commit_def Let_def journalSandbox_def e1_def sb_def commitReservation_def)
  have e1: "e_sandboxes e' = (e_sandboxes e)(x \<mapsto> sb)" "e_uids e' = e_uids e" "e_netAlloc e' = e_netAlloc e"
    "e_egressProxy e' = e_egressProxy e" "e_dnsRegistry e' = e_dnsRegistry e" "e_journal e' = (e_journal e)(x \<mapsto> sandbox_record en sb)"
    unfolding e' e1_def by (simp_all add: commitReservation_def Let_def)
  have "slots_ok en (e\<lparr>e_nextPort := i32 (e_nextPort e + 1)\<rparr>) F" using I(1) by (subst slots_cong [of _ e]) simp_all
  from slots_commit [OF this x, of sb] have "slots_ok en e1 (F(x := None))" by (simp add: e1_def)
  then have slots: "slots_ok en e' (F(x := None))" unfolding e' by (subst slots_cong [of _ e1]) simp_all
  have hu: "uid_held e' (F(x := None)) = uid_held e F"
    by (rule ext) (simp add: uid_held_def e1 held x split: option.split)
  have hn: "net_held e' (F(x := None)) = net_held e F"
    by (rule ext) (simp add: net_held_def e1 held x split: option.split)
  have ad: "adopted_ids e' = adopted_ids e" using wfsb fresh by (auto simp: adopted_ids_def e1)
  have "record_of (sandbox_record en sb) x sb"
    using identity_round_trip [OF ok] id by (simp add: record_of_def sandbox_record_def) (simp add: networkIdentityFrom_def)
  then have "journal_holds e'" using I(6) by (auto simp: journal_holds_def e1)
  then show ?thesis
    using slots I wfsb by (auto simp: engine_inv_def hu hn ad uid_state_cong [OF e1(2)] net_state_cong [OF e1(3,4,5)] e1(1))
qed

text \<open>A termination gives back what the sandbox held, adopted or not.\<close>

lemma net_state_forget: "net_state_ok en a0 e (h(x := None)) A \<Longrightarrow> net_state_ok en a0 e (h(x := None)) (A - {x})"
  by (auto simp: net_state_ok_def proxy_holds_def)

lemma release_uid_ok:
  assumes ok: "uid_state_ok R e h" and x: "h x = (if v \<noteq> 0 then Some v else None)"
  shows "uid_state_ok R (release_uid v e) (h(x := None))" "uid_only e (release_uid v e)"
proof -
  obtain u where u: "e_uids e = Some u" "uids_hold u h" "uid_range u = R" using ok by (auto simp: uid_state_ok_def)
  show "uid_state_ok R (release_uid v e) (h(x := None))"
  proof (cases "v = 0")
    case True
    then have "h(x := None) = h" using x by auto
    then show ?thesis using ok True by (simp add: release_uid_def)
  next
    case False
    then show ?thesis using u x uids_hold_release [OF u(2)] by (simp add: uid_state_ok_def release_uid_def ReleaseUID_range)
  qed
  show "uid_only e (release_uid v e)" by (simp add: uid_only_def release_uid_def)
qed

lemma remove_dir_only: "uid_only e (remove_dir d e)" "e_uids (remove_dir d e) = e_uids e"
  by (simp_all add: uid_only_def remove_dir_def)

lemma sandbox_given_up:
  assumes uid: "uid_state_ok R e hu" "hu x = sandbox_uid sb" and wf: "sandbox_wf x sb"
    and run: "(case sb_fcClient sb of Some c \<Rightarrow> ([vc_pid c], Kill c e) | None \<Rightarrow> if sb_adopted sb then reapAdopted verify sb e else ([], e)) = (ps, e')"
  shows "uid_state_ok R e' (hu(x := None))" "uid_only e e'"
proof -
  have "uid_state_ok R e' (hu(x := None)) \<and> uid_only e e'"
  proof (cases "sb_fcClient sb")
    case (Some c)
    then have "client_wf c" "hu x = client_uid c" using wf uid(2) by (auto simp: sandbox_wf_def sandbox_uid_def client_uid_def)
    from Kill_ok [OF uid(1) this] show ?thesis using run Some by simp
  next
    case None
    then have e': "e' = release_uid (sb_jailedUID sb) (remove_dir (sb_jailerVMDir sb) e)"
      using wf run by (auto simp: sandbox_wf_def reapAdopted_def)
    have "uid_state_ok R (remove_dir (sb_jailerVMDir sb) e) hu" using uid(1) uid_state_cong remove_dir_only(2) by blast
    from release_uid_ok [OF this, of x] show ?thesis
      using uid(2) uid_only_trans [OF remove_dir_only(1)] unfolding e' sandbox_uid_def by blast
  qed
  then show "uid_state_ok R e' (hu(x := None))" "uid_only e e'" by simp_all
qed

lemma terminate_step:
  assumes inv: "engine_inv en a0 R (e, F)" and mgr: "en_netMgr en \<noteq> None"
    and run: "Terminate en verify True x e = (Inr ps, e')"
  shows "engine_inv en a0 R (e', F)"
proof -
  note I = engine_invD [OF inv]
  obtain sb where sb: "e_sandboxes e x = Some sb" using run by (auto simp: Terminate_def split: if_splits option.splits)
  have noF: "F x = None" using I(1) sb by (auto simp: slots_ok_def)
  have held: "uid_held e F x = sandbox_uid sb" "net_held e F x = sandbox_net sb" by (simp_all add: uid_held_def net_held_def noF sb)
  define e1 where "e1 = e\<lparr>e_sandboxes := (e_sandboxes e)(x := None)\<rparr>"
  obtain ps' e2 where e2: "(case sb_fcClient sb of Some c \<Rightarrow> ([vc_pid c], Kill c e1) | None \<Rightarrow> if sb_adopted sb then reapAdopted verify sb e1 else ([], e1)) = (ps', e2)"
    by fastforce
  define e3 where "e3 = (if TapName (sb_netID sb) \<noteq> [] then teardownForkNetwork en x (sb_netID sb) e2 else e2)"
  have e': "e' = unjournalSandbox True x (remove_dir (sandboxDir x) e3)"
    using run by (simp add: Terminate_def sb Let_def e1_def [symmetric] e2 e3_def split: if_splits)
  have "uid_state_ok R e1 (uid_held e F)" using I(2) by (simp add: uid_state_ok_def e1_def)
  note U = sandbox_given_up [OF this held(1) I(5) [OF sb] e2]
  note D = uid_onlyD [OF U(2)]
  have net2: "net_state_ok en a0 e2 (net_held e F) (adopted_ids e)"
    using I(3) net_state_cong [OF D(4,6,5)] by (simp add: e1_def net_state_ok_def)
  have "net_state_ok en a0 e3 ((net_held e F)(x := None)) (adopted_ids e) \<and> net_only e2 e3"
  proof (cases "TapName (sb_netID sb) = []")
    case True
    then have "(net_held e F)(x := None) = net_held e F" using held(2) by (auto simp: sandbox_net_def)
    then show ?thesis using True net2 by (simp add: e3_def net_only_def)
  next
    case False
    then show ?thesis using teardown_ok [OF net2 _ mgr, of x "sb_netID sb"] held(2) by (simp add: e3_def sandbox_net_def)
  qed
  then have N: "net_state_ok en a0 e3 ((net_held e F)(x := None)) (adopted_ids e - {x})" "net_only e2 e3" using net_state_forget by auto
  note E = net_onlyD [OF N(2)]
  have same: "e_uids e' = e_uids e2" "e_sandboxes e' = (e_sandboxes e)(x := None)" "e_reserved e' = e_reserved e"
    "e_netAlloc e' = e_netAlloc e3" "e_egressProxy e' = e_egressProxy e3" "e_dnsRegistry e' = e_dnsRegistry e3" "e_journal e' = (e_journal e)(x := None)"
    unfolding e' using D E by (simp_all add: unjournalSandbox_def remove_dir_def e1_def)
  have hu: "uid_held e' F = (uid_held e F)(x := None)" "net_held e' F = (net_held e F)(x := None)"
    by (auto simp: uid_held_def net_held_def same(2) noF fun_eq_iff split: option.split)
  have "adopted_ids e' = adopted_ids e - {x}" by (auto simp: adopted_ids_def same(2))
  moreover have "slots_ok en e' F"
    using I(1) card_Diff1_le [of "dom (e_sandboxes e)" x] by (auto simp: slots_ok_def same(2,3))
  moreover have "journal_holds e'" using I(6) by (auto simp: journal_holds_def same(2,7))
  ultimately show ?thesis
    using U(1) N(1) I(4,5) by (auto simp: engine_inv_def hu uid_state_cong [OF same(1)] net_state_cong [OF same(4,5,6)] same(2))
qed

lemma begin_step:
  assumes inv: "engine_inv en a0 R (e, F)" and max: "en_maxSandboxes en < 2 ^ 31" and x: "F x = None" "e_sandboxes e x = None"
    and run: "admitFork en e = (Inr (), e')"
  shows "engine_inv en a0 R (e', F(x \<mapsto> new_flight))"
proof -
  note I = engine_invD [OF inv]
  note S = slots_admit [OF I(1) max x run]
  have same: "e_sandboxes e' = e_sandboxes e" "e_uids e' = e_uids e" "e_netAlloc e' = e_netAlloc e" "e_egressProxy e' = e_egressProxy e"
    "e_dnsRegistry e' = e_dnsRegistry e" "e_journal e' = e_journal e" by (subst S(2), simp)+
  have none: "uid_held e F x = None" "net_held e F x = None" using x by (simp_all add: uid_held_def net_held_def)
  have hu: "uid_held e' (F(x \<mapsto> new_flight)) = uid_held e F" "net_held e' (F(x \<mapsto> new_flight)) = net_held e F"
    unfolding held_flight [OF same(1)] using none by (auto simp: new_flight_def flight_uid_def)
  have "adopted_ids e' = adopted_ids e" by (simp add: adopted_ids_def same)
  moreover have "flight_wf new_flight" by (simp add: flight_wf_def new_flight_def)
  ultimately show ?thesis
    using S(1) I by (auto simp: engine_inv_def hu uid_state_cong [OF same(2)] net_state_cong [OF same(3,4,5)] same(1) journal_holds_def same(6))
qed

end
