(* ===== verification/Fork_Recovery.thy ===== *)
theory Fork_Recovery
  imports Fork_Invariant
begin

text \<open>
  Restarts and runs of the fork engine: a restarted engine rebuilds its allocators from the
  journal, and forks in flight, terminations and restarts interleave.
\<close>

section \<open>Recovery\<close>

text \<open>Marking the block of a recorded identity succeeds in an allocator of the same subnet.\<close>

lemma MarkInUse_block:
  assumes geo: "geometry_ok a" and b: "b < a_count a" and g: "GuestIP ident = Some (IPv4 (block_guest a b))" and x: "a_byID a x = None"
  shows "MarkInUse a x ident = (Inr (), a\<lparr>a_inUse := (a_inUse a)(b := True), a_byID := (a_byID a)(x \<mapsto> ident), a_idIndex := (a_idIndex a)(x \<mapsto> b)\<rparr>)"
proof -
  have bn: "unat b < unat (a_count a)" using b by (simp add: word_less_nat_alt)
  have lim: "unat (a_base a) + 4 * unat (a_count a) \<le> 2 ^ 32" using geo by (simp add: geometry_ok_def)
  have four: "unat (4 * b) = 4 * unat b" using bn lim by (simp add: unat_word_ariths)
  have "unat (4 * b div 4) = unat b" "unat (4 * b mod 4) = 0" by (simp_all add: unat_div unat_mod four)
  then have q: "4 * b div 4 = b" "4 * b mod 4 = 0" by (simp_all add: word_unat_eq_iff)
  have "unat (a_base a + 2) = unat (a_base a) + 2" using bn lim by (simp add: unat_word_ariths)
  then have "\<not> block_guest a b < a_base a + 2" using unat_block_guest [OF geo b] by (simp add: word_less_nat_alt)
  moreover have "block_guest a b - a_base a - 2 = 4 * b" by (simp add: block_guest_def)
  ultimately show ?thesis using g b x q by (simp add: MarkInUse_def Let_def not_le)
qed

definition in_subnet :: "Allocator \<Rightarrow> Identity \<Rightarrow> bool" where
  "in_subnet a ident \<longleftrightarrow> (\<exists>b < a_count a. GuestIP ident = Some (IPv4 (block_guest a b)))"

lemma nets_hold_in_subnet:
  assumes "nets_hold a h" "same_subnet a a0" "h x = Some ident"
  shows "in_subnet a0 ident"
proof -
  have inv: "alloc_inv a" and byID: "a_byID a x = Some ident" using assms by (simp_all add: nets_hold_def)
  then obtain b where b: "a_idIndex a x = Some b" using alloc_invD(2) [OF inv] by blast
  then have "b < a_count a" using alloc_invD(4) [OF inv] by (auto intro: ranI)
  moreover have "GuestIP ident = Some (IPv4 (block_guest a b))" using alloc_invD(6) [OF inv b] byID by simp
  ultimately show ?thesis using assms(2) by (auto simp: in_subnet_def same_subnet_def block_guest_def)
qed

lemma nets_hold_mark:
  assumes ok: "nets_hold a h" and sub: "same_subnet a a0" and x: "h x = None" and ident: "wf_identity ident" "in_subnet a0 ident"
    and free: "\<And>y j. h y = Some j \<Longrightarrow> GuestIP j \<noteq> GuestIP ident"
  shows "nets_hold (snd (MarkInUse a x ident)) (h(x \<mapsto> ident))" "same_subnet (snd (MarkInUse a x ident)) a0"
proof -
  have inv: "alloc_inv a" and h: "a_byID a = h" using ok by (simp_all add: nets_hold_def)
  obtain b where b: "b < a_count a" "GuestIP ident = Some (IPv4 (block_guest a b))"
    using ident(2) sub by (auto simp: in_subnet_def same_subnet_def block_guest_def)
  note M = MarkInUse_block [OF alloc_invD(1) [OF inv] b, of x]
  have "alloc_inv (snd (MarkInUse a x ident))"
    using MarkInUse_inv [OF inv, of x ident "fst (MarkInUse a x ident)" "snd (MarkInUse a x ident)"] free h by auto
  then show "nets_hold (snd (MarkInUse a x ident)) (h(x \<mapsto> ident))" using ok M x h ident(1) by (auto simp: nets_hold_def)
  show "same_subnet (snd (MarkInUse a x ident)) a0" using M x h sub by (simp add: same_subnet_def)
qed

text \<open>What the records of a journal hold, and when a journal has no conflict.\<close>

definition record_uid :: "sandboxRecord \<Rightarrow> uint32 option" where
  "record_uid rec = (if sr_JailedUID rec \<noteq> 0 then Some (sr_JailedUID rec) else None)"

definition record_net :: "sandboxRecord \<Rightarrow> Identity option" where
  "record_net rec = (if ni_TapName (sr_Network rec) \<noteq> [] then Some (toIdentity (sr_Network rec)) else None)"

definition journal_ok :: "Allocator \<Rightarrow> uint32 set \<Rightarrow> (string \<rightharpoonup> sandboxRecord) \<Rightarrow> bool" where
  "journal_ok a0 R J \<longleftrightarrow>
     (\<forall>x rec. J x = Some rec \<longrightarrow> sr_ID rec = x \<and> set_option (record_uid rec) \<subseteq> R \<and>
        (\<forall>i \<in> set_option (record_net rec). wf_identity i \<and> in_subnet a0 i)) \<and>
     (\<forall>x y rec rec' v. J x = Some rec \<longrightarrow> J y = Some rec' \<longrightarrow> record_uid rec = Some v \<longrightarrow> record_uid rec' = Some v \<longrightarrow> x = y) \<and>
     (\<forall>x y rec rec' i j. J x = Some rec \<longrightarrow> J y = Some rec' \<longrightarrow> record_net rec = Some i \<longrightarrow> record_net rec' = Some j \<longrightarrow>
        GuestIP i = GuestIP j \<longrightarrow> x = y)"

lemma journal_okD:
  assumes "journal_ok a0 R J"
  shows "\<And>x rec. J x = Some rec \<Longrightarrow> sr_ID rec = x"
    "\<And>x rec v. J x = Some rec \<Longrightarrow> record_uid rec = Some v \<Longrightarrow> v \<in> R"
    "\<And>x rec i. J x = Some rec \<Longrightarrow> record_net rec = Some i \<Longrightarrow> wf_identity i \<and> in_subnet a0 i"
    "\<And>x y rec rec' v. J x = Some rec \<Longrightarrow> J y = Some rec' \<Longrightarrow> record_uid rec = Some v \<Longrightarrow> record_uid rec' = Some v \<Longrightarrow> x = y"
    "\<And>x y rec rec' i j. J x = Some rec \<Longrightarrow> J y = Some rec' \<Longrightarrow> record_net rec = Some i \<Longrightarrow> record_net rec' = Some j \<Longrightarrow>
        GuestIP i = GuestIP j \<Longrightarrow> x = y"
proof -
  note D = assms [unfolded journal_ok_def]
  show "\<And>x rec. J x = Some rec \<Longrightarrow> sr_ID rec = x" using D by blast
  show "\<And>x rec v. J x = Some rec \<Longrightarrow> record_uid rec = Some v \<Longrightarrow> v \<in> R" using D by fastforce
  show "\<And>x rec i. J x = Some rec \<Longrightarrow> record_net rec = Some i \<Longrightarrow> wf_identity i \<and> in_subnet a0 i" using D by fastforce
  show "\<And>x y rec rec' v. J x = Some rec \<Longrightarrow> J y = Some rec' \<Longrightarrow> record_uid rec = Some v \<Longrightarrow> record_uid rec' = Some v \<Longrightarrow> x = y" using D by blast
  show "\<And>x y rec rec' i j. J x = Some rec \<Longrightarrow> J y = Some rec' \<Longrightarrow> record_net rec = Some i \<Longrightarrow> record_net rec' = Some j \<Longrightarrow>
        GuestIP i = GuestIP j \<Longrightarrow> x = y" using D by blast
qed

lemma adopted_holds: "sandbox_uid (adopted_sandbox rec) = record_uid rec" "sandbox_net (adopted_sandbox rec) = record_net rec"
  by (simp_all add: sandbox_uid_def sandbox_net_def record_uid_def record_net_def adopted_sandbox_def toIdentity_def)

lemma record_of_holds: "record_of rec x sb \<Longrightarrow> record_uid rec = sandbox_uid sb \<and> record_net rec = sandbox_net sb"
  by (auto simp: record_of_def record_uid_def record_net_def sandbox_uid_def sandbox_net_def)

lemma inv_journal_ok:
  assumes inv: "engine_inv en a0 R (e, F)"
  shows "journal_ok a0 R (e_journal e)" "dom (e_journal e) = dom (e_sandboxes e)"
proof -
  note I = engine_invD [OF inv]
  obtain u where u: "uids_hold u (uid_held e F)" "uid_range u = R" using I(2) by (auto simp: uid_state_ok_def)
  obtain a where a: "nets_hold a (net_held e F)" "same_subnet a a0" using I(3) by (auto simp: net_state_ok_def)
  have rel: "rel_option (\<lambda>rec sb. record_of rec x sb) (e_journal e x) (e_sandboxes e x)" for x using I(6) by (simp add: journal_holds_def)
  have held: "uid_held e F x = record_uid rec" "net_held e F x = record_net rec" "sr_ID rec = x" if r: "e_journal e x = Some rec" for x rec
  proof -
    obtain sb where sb: "e_sandboxes e x = Some sb" "record_of rec x sb" using rel [of x] r by (cases "e_sandboxes e x") auto
    then have "F x = None" using I(1) by (auto simp: slots_ok_def)
    then show "uid_held e F x = record_uid rec" "net_held e F x = record_net rec" "sr_ID rec = x"
      using sb record_of_holds [OF sb(2)] by (auto simp: uid_held_def net_held_def record_of_def)
  qed
  have uR: "v \<in> R" if "uid_held e F x = Some v" for x v using u that by (auto simp: uids_hold_def uid_inv_def intro: ranI)
  have inj: "x = y" if "uid_held e F x = Some v" "uid_held e F y = Some v" for x y v
    using u(1) that unfolding uids_hold_def by (metis domI inj_onD)
  have wf: "wf_identity i" "in_subnet a0 i" if "net_held e F x = Some i" for x i
    using a that nets_hold_in_subnet [OF a that] unfolding nets_hold_def by auto
  have ginj: "x = y" if "net_held e F x = Some i" "net_held e F y = Some j" "GuestIP i = GuestIP j" for x y i j
    using a(1) that guests_distinct [of a] unfolding nets_hold_def by metis
  show "journal_ok a0 R (e_journal e)"
    unfolding journal_ok_def
  proof (intro conjI allI impI)
    fix x rec
    assume r: "e_journal e x = Some rec"
    show "sr_ID rec = x" by (rule held(3) [OF r])
    show "set_option (record_uid rec) \<subseteq> R" using uR [of x] held(1) [OF r] by auto
    show "\<forall>i\<in>set_option (record_net rec). wf_identity i \<and> in_subnet a0 i" using wf [of x] held(2) [OF r] by auto
  qed (metis inj held(1), metis ginj held(2))
  show "dom (e_journal e) = dom (e_sandboxes e)"
  proof (rule set_eqI)
    fix x show "x \<in> dom (e_journal e) \<longleftrightarrow> x \<in> dom (e_sandboxes e)" using rel [of x] by (cases "e_journal e x"; cases "e_sandboxes e x") auto
  qed
qed

text \<open>
  The state of a recovery with the names \<open>N\<close> still to come: a sandbox for every record passed
  whose process was recognised, and no record for the others.
\<close>

definition alive :: "(int \<Rightarrow> string \<Rightarrow> bool) \<Rightarrow> sandboxRecord \<Rightarrow> bool" where
  "alive verify rec = verify (sr_Pid rec) (sr_FirecrackerBin rec)"

definition survivors :: "(int \<Rightarrow> string \<Rightarrow> bool) \<Rightarrow> (string \<rightharpoonup> sandboxRecord) \<Rightarrow> string \<rightharpoonup> sandboxRecord" where
  "survivors verify J x = (case J x of Some rec \<Rightarrow> if alive verify rec then Some rec else None | None \<Rightarrow> None)"

definition recovering ::
  "Allocator \<Rightarrow> uint32 set \<Rightarrow> (int \<Rightarrow> string \<Rightarrow> bool) \<Rightarrow> (string \<rightharpoonup> sandboxRecord) \<Rightarrow> string set \<Rightarrow> 'w engine \<Rightarrow> bool" where
  "recovering a0 R verify J N e \<longleftrightarrow>
     (let K = (\<lambda>x. if x \<in> N then None else survivors verify J x)
      in e_reserved e = 0 \<and> e_sandboxes e = (\<lambda>x. map_option adopted_sandbox (K x)) \<and>
         e_journal e = (\<lambda>x. if x \<in> N then J x else survivors verify J x) \<and>
         uid_state_ok R e (\<lambda>x. Option.bind (K x) record_uid) \<and>
         (\<exists>a. e_netAlloc e = Some a \<and> nets_hold a (\<lambda>x. Option.bind (K x) record_net) \<and> same_subnet a a0) \<and>
         (\<forall>r. e_egressProxy e = Some r \<longrightarrow> r = Map.empty) \<and> (\<forall>d. e_dnsRegistry e = Some d \<longrightarrow> d = Map.empty))"

lemma adopt_recovers:
  assumes J: "journal_ok a0 R J" and x: "J x = Some rec" "x \<in> N" and live: "alive verify rec"
    and e: "recovering a0 R verify J N e"
  shows "recovering a0 R verify J (N - {x}) (adoptSandbox rec e)"
proof -
  define K where "K = (\<lambda>y. if y \<in> N then None else survivors verify J y)"
  have KJ: "J y = Some rec'" if "K y = Some rec'" for y rec' using that by (auto simp: K_def survivors_def split: if_splits option.splits)
  have Kx: "K x = None" using x by (simp add: K_def)
  have id: "sr_ID rec = x" using J x by (simp add: journal_ok_def)
  have K': "(\<lambda>y. if y \<in> N - {x} then None else survivors verify J y) = K(x \<mapsto> rec)"
    using x live by (auto simp: K_def survivors_def fun_eq_iff)
  obtain u where u: "e_uids e = Some u" "uids_hold u (\<lambda>y. Option.bind (K y) record_uid)" "uid_range u = R"
    using e by (auto simp: recovering_def Let_def uid_state_ok_def K_def)
  obtain a where a: "e_netAlloc e = Some a" "nets_hold a (\<lambda>y. Option.bind (K y) record_net)" "same_subnet a a0"
    using e by (auto simp: recovering_def Let_def K_def)
  have hu: "(\<lambda>y. Option.bind ((K(x \<mapsto> rec)) y) record_uid) = (\<lambda>y. Option.bind (K y) record_uid)(x := record_uid rec)" by auto
  have hn: "(\<lambda>y. Option.bind ((K(x \<mapsto> rec)) y) record_net) = (\<lambda>y. Option.bind (K y) record_net)(x := record_net rec)" by auto
  have uid: "uid_state_ok R (adoptSandbox rec e) (\<lambda>y. Option.bind ((K(x \<mapsto> rec)) y) record_uid)"
  proof (cases "record_uid rec")
    case None
    have "(\<lambda>y. Option.bind (K y) record_uid)(x := None) = (\<lambda>y. Option.bind (K y) record_uid)" using Kx by auto
    then show ?thesis using None u hu by (simp add: uid_state_ok_def adoptSandbox_def Let_def record_uid_def split: if_splits)
  next
    case (Some v)
    have "v \<notin> ran (\<lambda>y. Option.bind (K y) record_uid)"
    proof
      assume "v \<in> ran (\<lambda>y. Option.bind (K y) record_uid)"
      then obtain y rec' where "K y = Some rec'" "record_uid rec' = Some v" by (auto simp: ran_def bind_eq_Some_conv)
      then show False using journal_okD(4) [OF J x(1) KJ Some, of y rec'] Kx by auto
    qed
    moreover have "v \<in> uid_range u" using J x(1) Some u(3) by (auto simp: journal_ok_def)
    ultimately show ?thesis
      using uids_hold_mark [OF u(2), of x v] Kx Some u hu
      by (simp add: uid_state_ok_def adoptSandbox_def Let_def record_uid_def split: if_splits)
  qed
  have net: "\<exists>a. e_netAlloc (adoptSandbox rec e) = Some a \<and> nets_hold a (\<lambda>y. Option.bind ((K(x \<mapsto> rec)) y) record_net) \<and> same_subnet a a0"
  proof (cases "record_net rec")
    case None
    have "(\<lambda>y. Option.bind (K y) record_net)(x := None) = (\<lambda>y. Option.bind (K y) record_net)" using Kx by auto
    then show ?thesis using None a hn by (simp add: adoptSandbox_def Let_def adopted_sandbox_def toIdentity_def record_net_def split: if_splits)
  next
    case (Some i)
    have i: "TapName (sb_netID (adopted_sandbox rec)) \<noteq> []" "sb_netID (adopted_sandbox rec) = i"
      using Some by (auto simp: adopted_sandbox_def toIdentity_def record_net_def split: if_splits)
    have "GuestIP j \<noteq> GuestIP i" if "Option.bind (K y) record_net = Some j" for y j
    proof -
      obtain rec' where "K y = Some rec'" "record_net rec' = Some j" using \<open>Option.bind (K y) record_net = Some j\<close> by (auto simp: bind_eq_Some_conv)
      then show ?thesis using journal_okD(5) [OF J x(1) KJ Some, of y rec' j] Kx by auto
    qed
    moreover have "wf_identity i" "in_subnet a0 i" using J x(1) Some by (auto simp: journal_ok_def)
    ultimately show ?thesis
      using nets_hold_mark [OF a(2,3), of x i] Kx Some a hn i id by (simp add: adoptSandbox_def Let_def)
  qed
  have E: "e_reserved e = 0" "e_sandboxes e = (\<lambda>x. map_option adopted_sandbox (K x))" "e_journal e = (\<lambda>x. if x \<in> N then J x else survivors verify J x)"
    "\<forall>r. e_egressProxy e = Some r \<longrightarrow> r = Map.empty" "\<forall>d. e_dnsRegistry e = Some d \<longrightarrow> d = Map.empty"
    using e by (simp_all add: recovering_def Let_def K_def)
  have sb: "e_sandboxes (adoptSandbox rec e) = (\<lambda>y. map_option adopted_sandbox ((K(x \<mapsto> rec)) y))"
    using E(2) id by (auto simp: adoptSandbox_def Let_def)
  have jn: "e_journal (adoptSandbox rec e) = (\<lambda>y. if y \<in> N - {x} then J y else survivors verify J y)"
    using E(3) x live by (auto simp: adoptSandbox_def Let_def survivors_def fun_eq_iff)
  have same: "e_reserved (adoptSandbox rec e) = e_reserved e" "e_egressProxy (adoptSandbox rec e) = e_egressProxy e"
    "e_dnsRegistry (adoptSandbox rec e) = e_dnsRegistry e" by (simp_all add: adoptSandbox_def Let_def)
  show ?thesis unfolding recovering_def K' Let_def same by (intro conjI uid net sb jn E(1,4,5))
qed

text \<open>A record whose process is gone: nothing that a survivor holds is given away.\<close>

lemma reap_recovers:
  assumes J: "journal_ok a0 R J" and x: "J x = Some rec" "x \<in> N" and dead: "\<not> alive verify rec"
    and e: "recovering a0 R verify J N e"
  shows "recovering a0 R verify J (N - {x}) (unjournalSandbox True (sr_ID rec) (reapArtifacts en rec e))"
proof -
  define K where "K = (\<lambda>y. if y \<in> N then None else survivors verify J y)"
  have KJ: "J y = Some rec'" if "K y = Some rec'" for y rec' using that by (auto simp: K_def survivors_def split: if_splits option.splits)
  have Kx: "K x = None" using x by (simp add: K_def)
  have id: "sr_ID rec = x" by (rule journal_okD(1) [OF J x(1)])
  have K': "(\<lambda>y. if y \<in> N - {x} then None else survivors verify J y) = K"
    using x dead by (auto simp: K_def survivors_def fun_eq_iff)
  have E: "e_reserved e = 0" "e_sandboxes e = (\<lambda>x. map_option adopted_sandbox (K x))" "e_journal e = (\<lambda>x. if x \<in> N then J x else survivors verify J x)"
    "\<forall>r. e_egressProxy e = Some r \<longrightarrow> r = Map.empty" "\<forall>d. e_dnsRegistry e = Some d \<longrightarrow> d = Map.empty"
    "uid_state_ok R e (\<lambda>y. Option.bind (K y) record_uid)"
    using e by (simp_all add: recovering_def Let_def K_def)
  obtain u where u: "e_uids e = Some u" "uids_hold u (\<lambda>y. Option.bind (K y) record_uid)" "uid_range u = R"
    using E(6) by (auto simp: uid_state_ok_def)
  obtain a where a: "e_netAlloc e = Some a" "nets_hold a (\<lambda>y. Option.bind (K y) record_net)" "same_subnet a a0"
    using e by (auto simp: recovering_def Let_def K_def)
  let ?e = "unjournalSandbox True (sr_ID rec) (reapArtifacts en rec e)"
  have "a_byID a x = None" using a(2) Kx by (simp add: nets_hold_def)
  then have "a_idIndex a x = None" using alloc_invD(2) [of a] a(2) unfolding nets_hold_def by blast
  then have rel: "Release a x = a" by (simp add: Release_def)
  have none: "dns_Deregister g Map.empty = Map.empty" "eg_Deregister g Map.empty = Map.empty" for g
    by (simp_all add: dns_Deregister_def eg_Deregister_def)
  have same: "e_reserved ?e = e_reserved e" "e_sandboxes ?e = e_sandboxes e" "e_journal ?e = (e_journal e)(x := None)" "e_netAlloc ?e = e_netAlloc e"
    using a(1) rel id by (auto simp: unjournalSandbox_def reapArtifacts_def Let_def release_uid_def remove_dir_def teardownForkNetwork_def split: option.splits)
  have reg: "\<forall>r. e_egressProxy ?e = Some r \<longrightarrow> r = Map.empty" "\<forall>d. e_dnsRegistry ?e = Some d \<longrightarrow> d = Map.empty"
    using E(4,5) none by (auto simp: unjournalSandbox_def reapArtifacts_def Let_def release_uid_def remove_dir_def teardownForkNetwork_def split: option.splits if_splits)
  have uids: "e_uids ?e = Some (if sr_JailedUID rec \<noteq> 0 then ReleaseUID u (sr_JailedUID rec) else u)"
    using u(1) by (auto simp: unjournalSandbox_def reapArtifacts_def Let_def release_uid_def remove_dir_def teardownForkNetwork_def split: option.splits)
  have "sr_JailedUID rec \<notin> ran (\<lambda>y. Option.bind (K y) record_uid)" if "sr_JailedUID rec \<noteq> 0"
  proof
    assume "sr_JailedUID rec \<in> ran (\<lambda>y. Option.bind (K y) record_uid)"
    then obtain y rec' where "K y = Some rec'" "record_uid rec' = Some (sr_JailedUID rec)" by (auto simp: ran_def bind_eq_Some_conv)
    moreover have "record_uid rec = Some (sr_JailedUID rec)" using \<open>sr_JailedUID rec \<noteq> 0\<close> by (simp add: record_uid_def)
    ultimately show False using journal_okD(4) [OF J x(1) KJ, of y rec' "sr_JailedUID rec"] Kx by auto
  qed
  then have uid: "uid_state_ok R ?e (\<lambda>y. Option.bind (K y) record_uid)"
    using u uids_hold_release_other [OF u(2)] by (auto simp: uid_state_ok_def uids ReleaseUID_range)
  have jn: "(e_journal e)(x := None) = (\<lambda>y. if y \<in> N - {x} then J y else survivors verify J y)"
    using E(3) x dead by (auto simp: survivors_def fun_eq_iff)
  have net: "\<exists>a. e_netAlloc e = Some a \<and> nets_hold a (\<lambda>y. Option.bind (K y) record_net) \<and> same_subnet a a0" using a by blast
  show ?thesis unfolding recovering_def K' Let_def same by (intro conjI uid net E(1,2) jn reg)
qed

lemma recover_all:
  assumes J: "journal_ok a0 R J" and e: "recovering a0 R verify J (set ns) e" and ns: "distinct ns" "set ns \<subseteq> dom J"
  shows "recovering a0 R verify J {} (reconcile_records en verify (List.map_filter J ns) e)"
  using e ns
proof (induction ns arbitrary: e)
  case Nil
  then show ?case by (simp add: List.map_filter_def)
next
  case (Cons x ns)
  then obtain rec where x: "J x = Some rec" by auto
  have N: "set (x # ns) - {x} = set ns" using Cons.prems(2) by auto
  let ?e = "if verify (sr_Pid rec) (sr_FirecrackerBin rec) then adoptSandbox rec e else unjournalSandbox True (sr_ID rec) (reapArtifacts en rec e)"
  have "recovering a0 R verify J (set ns) ?e"
    using adopt_recovers [OF J x _ _ Cons.prems(1), unfolded N] reap_recovers [OF J x _ _ Cons.prems(1), unfolded N] by (auto simp: alive_def)
  then show ?case using Cons x by (simp add: List.map_filter_def)
qed

lemma recovered_inv:
  assumes J: "journal_ok a0 R J" and fin: "finite (dom J)" and max: "0 < en_maxSandboxes en \<longrightarrow> int (card (dom J)) \<le> en_maxSandboxes en"
    and e: "recovering a0 R verify J {} e"
  shows "engine_inv en a0 R (e, Map.empty)"
proof -
  let ?K = "survivors verify J"
  have E: "e_reserved e = 0" "e_sandboxes e = (\<lambda>x. map_option adopted_sandbox (?K x))" "e_journal e = ?K"
    "\<forall>r. e_egressProxy e = Some r \<longrightarrow> r = Map.empty" "\<forall>d. e_dnsRegistry e = Some d \<longrightarrow> d = Map.empty"
    "uid_state_ok R e (\<lambda>y. Option.bind (?K y) record_uid)"
    "\<exists>a. e_netAlloc e = Some a \<and> nets_hold a (\<lambda>y. Option.bind (?K y) record_net) \<and> same_subnet a a0"
    using e by (simp_all add: recovering_def Let_def)
  have KJ: "J x = Some rec" if "?K x = Some rec" for x rec using that by (auto simp: survivors_def split: if_splits option.splits)
  have sub: "dom (e_sandboxes e) \<subseteq> dom J" using KJ by (auto simp: E(2))
  have held: "uid_held e Map.empty = (\<lambda>y. Option.bind (?K y) record_uid)" "net_held e Map.empty = (\<lambda>y. Option.bind (?K y) record_net)"
    by (auto simp: uid_held_def net_held_def E(2) adopted_holds fun_eq_iff split: option.splits Option.bind_splits)
  have ad: "x \<in> adopted_ids e" if "Option.bind (?K x) record_net = Some i" for x i
    using that by (cases "?K x") (auto simp: adopted_ids_def E(2) adopted_sandbox_def)
  have slots: "slots_ok en e Map.empty"
    using card_mono [OF fin sub] finite_subset [OF sub fin] max E(1) by (auto simp: slots_ok_def)
  have net: "net_state_ok en a0 e (\<lambda>y. Option.bind (?K y) record_net) (adopted_ids e)"
    using E(4,5,7) ad by (auto simp: net_state_ok_def proxy_holds_def dns_holds_def)
  have wf: "sandbox_wf x (adopted_sandbox rec)" "record_of rec x (adopted_sandbox rec)" if "?K x = Some rec" for x rec
  proof -
    have J': "J x = Some rec" by (rule KJ [OF that])
    show "sandbox_wf x (adopted_sandbox rec)" "record_of rec x (adopted_sandbox rec)"
      using journal_okD(1) [OF J J'] by (auto simp: sandbox_wf_def record_of_def adopted_sandbox_def toIdentity_def)
  qed
  have "journal_holds e" using wf(2) by (auto simp: journal_holds_def E(2,3) option.rel_map rel_option_iff split: option.split)
  then show ?thesis using slots net E(6) wf(1) by (auto simp: engine_inv_def held E(2))
qed

section \<open>Runs\<close>

text \<open>
  A step is one phase of one fork, the termination of a sandbox, a change of the host, or a
  restart. The controller does not name two forks alike, and journal writes succeed. A restart
  ends every flight.
\<close>

definition engine_restart :: "'w engine_env \<Rightarrow> (int \<Rightarrow> string \<Rightarrow> bool) \<Rightarrow> string list \<Rightarrow> int \<Rightarrow> Allocator \<Rightarrow> UIDAllocator \<Rightarrow> 'w engine \<Rightarrow> 'w engine" where
  "engine_restart en verify ns port a u e = reconcile en verify (Some ns) (restarted port a u e)"

inductive engine_step ::
  "'w engine_env \<Rightarrow> Allocator \<Rightarrow> uint32 \<Rightarrow> uint32 \<Rightarrow> 'w engine \<times> flights \<Rightarrow> 'w engine \<times> flights \<Rightarrow> bool"
  for en a0 low high where
  step_begin: "F x = None \<Longrightarrow> e_sandboxes e x = None \<Longrightarrow> admitFork en e = (Inr (), e') \<Longrightarrow>
    engine_step en a0 low high (e, F) (e', F(x \<mapsto> new_flight))"
| step_gate: "F x = Some new_flight \<Longrightarrow>
    engine_step en a0 low high (e, F) (releaseReservation en e, F(x := None))"
| step_launched: "F x = Some new_flight \<Longrightarrow> fork_launch en fh snap x rootfs e = (Inr c, e') \<Longrightarrow>
    engine_step en a0 low high (e, F) (e', F(x \<mapsto> new_flight\<lparr>fl_client := Some c\<rparr>))"
| step_launch_failed: "F x = Some new_flight \<Longrightarrow> fork_launch en fh snap x rootfs e = (Inl err, e') \<Longrightarrow>
    engine_step en a0 low high (e, F) (releaseReservation en e', F(x := None))"
| step_attached: "F x = Some f \<Longrightarrow> fl_client f = Some c \<Longrightarrow> \<not> fl_attached f \<Longrightarrow> fork_attach en fh x opts c e = (Inr fnet, e') \<Longrightarrow>
    engine_step en a0 low high (e, F) (e', F(x \<mapsto> f\<lparr>fl_attached := True, fl_net := fnet\<rparr>))"
| step_attach_failed: "F x = Some f \<Longrightarrow> fl_client f = Some c \<Longrightarrow> \<not> fl_attached f \<Longrightarrow> fork_attach en fh x opts c e = (Inl err, e') \<Longrightarrow>
    engine_step en a0 low high (e, F) (releaseReservation en e', F(x := None))"
| step_boot_failed: "F x = Some f \<Longrightarrow> fl_client f = Some c \<Longrightarrow> fl_attached f \<Longrightarrow> fork_boot en fh x rootfs c (fl_net f) e = (Some err, e') \<Longrightarrow>
    engine_step en a0 low high (e, F) (releaseReservation en e', F(x := None))"
| step_committed: "F x = Some f \<Longrightarrow> fl_client f = Some c \<Longrightarrow> fl_attached f \<Longrightarrow> fork_boot en fh x rootfs c (fl_net f) e = (None, e1) \<Longrightarrow>
    fork_commit en fh snap x rootfs opts c (fl_net f) e1 = (res, e') \<Longrightarrow> fh_journal fh \<Longrightarrow>
    engine_step en a0 low high (e, F) (e', F(x := None))"
| step_terminated: "Terminate en verify True x e = (Inr ps, e') \<Longrightarrow> engine_step en a0 low high (e, F) (e', F)"
| step_host: "engine_step en a0 low high (e, F) (e\<lparr>e_host := w\<rparr>, F)"
| step_restarted: "distinct ns \<Longrightarrow> set ns = dom (e_journal e) \<Longrightarrow>
    engine_step en a0 low high (e, F) (engine_restart en verify ns port a0 (NewUIDAllocator low high) e, Map.empty)"

text \<open>What a node is configured with: a network manager, a fresh allocator and a valid uid range.\<close>

definition node_setup :: "'w engine_env \<Rightarrow> Allocator \<Rightarrow> uint32 \<Rightarrow> uint32 \<Rightarrow> bool" where
  "node_setup en a0 low high \<longleftrightarrow> en_netMgr en \<noteq> None \<and> en_maxSandboxes en < 2 ^ 31 \<and> alloc_inv a0 \<and> a_byID a0 = Map.empty \<and> a_prefix a0 \<noteq> [] \<and>
     0 < low \<and> low \<le> high \<and> unat high - unat low < 2 ^ 31"

text \<open>The engine of a node that never ran a sandbox.\<close>

definition first_engine :: "Allocator \<Rightarrow> uint32 \<Rightarrow> uint32 \<Rightarrow> bool \<Rightarrow> bool \<Rightarrow> 'w \<Rightarrow> 'w engine" where
  "first_engine a0 low high dns proxy w =
     \<lparr>e_sandboxes = Map.empty, e_reserved = 0, e_nextPort = 10000, e_netAlloc = Some a0,
      e_dnsRegistry = (if dns then Some NewDnsRegistry else None), e_egressProxy = (if proxy then Some NewSandboxRegistry else None),
      e_uids = Some (NewUIDAllocator low high), e_journal = Map.empty, e_dirs = {}, e_host = w\<rparr>"

lemma setup_allocators:
  assumes "node_setup en a0 low high"
  shows "nets_hold a0 Map.empty" "uids_hold (NewUIDAllocator low high) Map.empty" "uid_range (NewUIDAllocator low high) = {low..high}"
proof -
  show r: "uid_range (NewUIDAllocator low high) = {low..high}" by (auto simp: uid_range_def NewUIDAllocator_def)
  show "nets_hold a0 Map.empty" using assms by (simp add: node_setup_def nets_hold_def)
  have "uid_taken (NewUIDAllocator low high) = {}" by (simp add: uid_taken_def NewUIDAllocator_def)
  then show "uids_hold (NewUIDAllocator low high) Map.empty"
    using assms NewUIDAllocator_inv [of low high] by (auto simp: node_setup_def uids_hold_def r)
qed

lemma restart_recovering:
  assumes cfg: "node_setup en a0 low high"
  shows "recovering a0 {low..high} verify (e_journal e) (dom (e_journal e)) (restarted port a0 (NewUIDAllocator low high) e)"
proof -
  have "(\<lambda>x. if x \<in> dom (e_journal e) then None else survivors verify (e_journal e) x) = Map.empty"
    by (auto simp: survivors_def fun_eq_iff split: option.splits)
  moreover have "(\<lambda>x. if x \<in> dom (e_journal e) then e_journal e x else survivors verify (e_journal e) x) = e_journal e"
    by (auto simp: survivors_def fun_eq_iff split: option.splits)
  ultimately show ?thesis
    using setup_allocators [OF cfg]
    by (auto simp: recovering_def Let_def restarted_def uid_state_ok_def same_subnet_def NewDnsRegistry_def NewSandboxRegistry_def)
qed

lemma restart_recovers:
  assumes cfg: "node_setup en a0 low high" and inv: "engine_inv en a0 {low..high} (e, F)" and ns: "distinct ns" "set ns = dom (e_journal e)"
  shows "recovering a0 {low..high} verify (e_journal e) {} (engine_restart en verify ns port a0 (NewUIDAllocator low high) e)"
proof -
  have "e_journal (restarted port a0 (NewUIDAllocator low high) e) = e_journal e" by (simp add: restarted_def)
  then show ?thesis
    using recover_all [OF inv_journal_ok(1) [OF inv], of verify ns "restarted port a0 (NewUIDAllocator low high) e" en]
      restart_recovering [OF cfg, of verify e port] ns
    by (simp add: engine_restart_def reconcile_def)
qed

lemma first_inv:
  assumes "node_setup en a0 low high"
  shows "engine_inv en a0 {low..high} (first_engine a0 low high dns proxy w, Map.empty)"
proof -
  let ?e = "first_engine a0 low high dns proxy w"
  have "uid_held ?e Map.empty = Map.empty" "net_held ?e Map.empty = Map.empty" by (auto simp: uid_held_def net_held_def first_engine_def)
  then show ?thesis
    using setup_allocators [OF assms]
    by (auto simp: engine_inv_def slots_ok_def uid_state_ok_def net_state_ok_def proxy_holds_def dns_holds_def journal_holds_def
        first_engine_def same_subnet_def NewDnsRegistry_def NewSandboxRegistry_def split: if_splits)
qed

lemma engine_step_inv:
  assumes step: "engine_step en a0 low high s s'" and cfg: "node_setup en a0 low high" and inv: "engine_inv en a0 {low..high} s"
  shows "engine_inv en a0 {low..high} s'"
proof -
  have mgr: "en_netMgr en \<noteq> None" and max: "en_maxSandboxes en < 2 ^ 31" using cfg by (simp_all add: node_setup_def)
  from step inv show ?thesis
  proof (cases rule: engine_step.cases)
    case (step_begin F x e e')
    then show ?thesis using begin_step [of en a0 "{low..high}" e F x e'] max inv by simp
  next
    case (step_gate F x e)
    have held: "(uid_held e F)(x := None) = uid_held e F" "(net_held e F)(x := None) = net_held e F"
      using step_gate(3) by (auto simp: uid_held_def net_held_def new_flight_def flight_uid_def)
    note I = engine_invD [of en a0 "{low..high}" e F]
    show ?thesis using flight_ends [of en a0 "{low..high}" e F x new_flight e] inv step_gate I held by simp
  next
    case (step_launched F x fh snap rootfs e c e')
    then show ?thesis using launch_step [of en a0 "{low..high}" e F x fh snap rootfs "Inr c" e'] inv by simp
  next
    case (step_launch_failed F x fh snap rootfs e err e')
    then show ?thesis using launch_step [of en a0 "{low..high}" e F x fh snap rootfs "Inl err" e'] inv by simp
  next
    case (step_attached F x f c fh opts e fnet e')
    then show ?thesis using attach_step [of en a0 "{low..high}" e F x f c fh opts "Inr fnet" e'] inv mgr by simp
  next
    case (step_attach_failed F x f c fh opts e err e')
    then show ?thesis using attach_step [of en a0 "{low..high}" e F x f c fh opts "Inl err" e'] inv mgr by simp
  next
    case (step_boot_failed F x f c fh rootfs e err e')
    then show ?thesis using boot_step [of en a0 "{low..high}" e F x f c fh rootfs err e'] inv mgr by simp
  next
    case (step_committed F x f c fh rootfs e e1 snap opts res e')
    then have "e1 = e" by (auto simp: fork_boot_def Let_def split: if_splits)
    then show ?thesis using commit_step [of en a0 "{low..high}" e F x f c fh snap rootfs opts res e'] inv step_committed by simp
  next
    case (step_terminated verify x e ps e' F)
    then show ?thesis using terminate_step [of en a0 "{low..high}" e F verify x ps e'] inv mgr by simp
  next
    case (step_host e F w)
    have "uid_held (e\<lparr>e_host := w\<rparr>) F = uid_held e F" "net_held (e\<lparr>e_host := w\<rparr>) F = net_held e F"
      by (simp_all add: uid_held_def net_held_def fun_eq_iff split: option.split)
    moreover have "slots_ok en (e\<lparr>e_host := w\<rparr>) F = slots_ok en e F" by (rule slots_cong) simp_all
    ultimately show ?thesis
      using inv step_host by (simp add: engine_inv_def uid_state_ok_def net_state_ok_def adopted_ids_def journal_holds_def)
  next
    case (step_restarted ns e F verify port)
    have e: "engine_inv en a0 {low..high} (e, F)" using inv step_restarted by simp
    note S = engine_invD(1) [OF e]
    have "finite (dom (e_journal e))" "0 < en_maxSandboxes en \<longrightarrow> int (card (dom (e_journal e))) \<le> en_maxSandboxes en"
      using S by (auto simp: slots_ok_def inv_journal_ok(2) [OF e])
    from recovered_inv [OF inv_journal_ok(1) [OF e] this restart_recovers [OF cfg e step_restarted(3,4)]]
    show ?thesis using step_restarted by simp
  qed
qed

lemma engine_run_inv:
  assumes cfg: "node_setup en a0 low high" and run: "(engine_step en a0 low high)\<^sup>*\<^sup>* (first_engine a0 low high dns proxy w, Map.empty) s"
  shows "engine_inv en a0 {low..high} s"
  using run by (induction rule: rtranclp_induct) (auto intro: first_inv [OF cfg] engine_step_inv [OF _ cfg])

end
