(* ===== verification/Fork_Runs.thy ===== *)
theory Fork_Runs
  imports Fork_Recovery
begin

text \<open>
  What a run of the fork engine guarantees. The calls \<open>Fork\<close> and \<open>ForkRunning\<close> are runs of the
  step relation; from its invariant follow exclusive ownership, the ceiling on sandboxes, the
  clean failure of a fork and the exactness of a recovery.
\<close>

section \<open>Calls as runs\<close>

lemma engine_fork_run:
  assumes x: "F x = None" and safe: "safeSandboxIDComponent x" and j: "\<And>res. r = Inr res \<Longrightarrow> fh_journal fh"
    and run: "engine_fork en fh snap x rootfs opts True e = (r, e')"
  shows "(engine_step en a0 low high)\<^sup>*\<^sup>* (e, F(x \<mapsto> new_flight)) (e', F)"
proof -
  let ?R = "(engine_step en a0 low high)\<^sup>*\<^sup>*" and ?F = "F(x \<mapsto> new_flight)"
  have gone: "(F(x \<mapsto> g))(x := None) = F" for g using x by auto
  obtain l e2 where l: "fork_launch en fh snap x rootfs e = (l, e2)" by fastforce
  show ?thesis
  proof (cases l)
    case (Inl err)
    then have "e' = releaseReservation en e2" using run l safe by (simp add: engine_fork_def)
    then show ?thesis
      using step_launch_failed [of ?F x en fh snap rootfs e err e2 a0 low high] l Inl gone [of new_flight] by (intro r_into_rtranclp) simp
  next
    case c: (Inr c)
    let ?f = "new_flight\<lparr>fl_client := Some c\<rparr>"
    have s1: "?R (e, ?F) (e2, F(x \<mapsto> ?f))"
      using step_launched [of ?F x en fh snap rootfs e c e2 a0 low high] l c by (intro r_into_rtranclp) simp
    obtain p e3 where p: "fork_attach en fh x opts c e2 = (p, e3)" by fastforce
    have f: "fl_client ?f = Some c" "\<not> fl_attached ?f" by (simp_all add: new_flight_def)
    show ?thesis
    proof (cases p)
      case (Inl err)
      then have "e' = releaseReservation en e3" using run l c p safe by (simp add: engine_fork_def)
      then have "engine_step en a0 low high (e2, F(x \<mapsto> ?f)) (e', F)"
        using step_attach_failed [of "F(x \<mapsto> ?f)" x ?f c en fh opts e2 err e3 a0 low high] f p Inl gone [of ?f] by simp
      then show ?thesis using s1 by (rule rtranclp.rtrancl_into_rtrancl [rotated])
    next
      case n: (Inr fnet)
      let ?g = "?f\<lparr>fl_attached := True, fl_net := fnet\<rparr>"
      have "engine_step en a0 low high (e2, F(x \<mapsto> ?f)) (e3, F(x \<mapsto> ?g))"
        using step_attached [of "F(x \<mapsto> ?f)" x ?f c en fh opts e2 fnet e3 a0 low high] f p n by simp
      with s1 have s2: "?R (e, ?F) (e3, F(x \<mapsto> ?g))" by (rule rtranclp.rtrancl_into_rtrancl)
      obtain b e4 where b: "fork_boot en fh x rootfs c fnet e3 = (b, e4)" by fastforce
      have "engine_step en a0 low high (e3, F(x \<mapsto> ?g)) (e', F)"
      proof (cases b)
        case (Some err)
        then have "e' = releaseReservation en e4" using run l c p n b safe by (simp add: engine_fork_def)
        then show ?thesis
          using step_boot_failed [of "F(x \<mapsto> ?g)" x ?g c en fh rootfs e3 err e4 a0 low high] b Some gone [of ?g] by simp
      next
        case None
        obtain res e5 where k: "fork_commit en fh snap x rootfs opts c fnet e4 = (res, e5)" by fastforce
        then have "e' = e5" "r = Inr res" using run l c p n b None safe by (simp_all add: engine_fork_def)
        then show ?thesis
          using step_committed [of "F(x \<mapsto> ?g)" x ?g c en fh rootfs e3 e4 snap opts res e5 a0 low high] b None k j gone [of ?g] by simp
      qed
      with s2 show ?thesis by (rule rtranclp.rtrancl_into_rtrancl)
    qed
  qed
qed

lemma admit_run:
  assumes "F x = None" "e_sandboxes e x = None" "admitFork en e = (Inr u, e1)"
  shows "engine_step en a0 low high (e, F) (e1, F(x \<mapsto> new_flight))"
  using step_begin [of F x e en e1 a0 low high] assms by simp

lemma admit_refused: "admitFork en e = (Inl err, e1) \<Longrightarrow> e1 = e"
  by (auto simp: admitFork_def Let_def split: if_splits)

lemma Fork_run:
  assumes x: "F x = None" "e_sandboxes e x = None" and j: "\<And>res. r = Inr res \<Longrightarrow> fh_journal fh"
    and run: "Fork en fh gate snap x rootfs opts e = (r, e')"
  shows "(engine_step en a0 low high)\<^sup>*\<^sup>* (e, F) (e', F)"
proof (cases "safeSandboxIDComponent snap \<and> safeSandboxIDComponent x")
  case False
  then show ?thesis using run by (auto simp: Fork_def split: if_splits)
next
  case safe: True
  obtain p e1 where p: "admitFork en e = (p, e1)" by fastforce
  show ?thesis
  proof (cases p)
    case (Inl err)
    then have "e' = e" using run safe p admit_refused [of en e err e1] by (simp add: Fork_def)
    then show ?thesis by simp
  next
    case (Inr u)
    have s: "engine_step en a0 low high (e, F) (e1, F(x \<mapsto> new_flight))" using admit_run x p Inr by blast
    show ?thesis
    proof (cases gate)
      case None
      then have "engine_fork en fh snap x rootfs opts True e1 = (r, e')" using run safe p Inr by (simp add: Fork_def)
      from engine_fork_run [of F x, OF x(1) conjunct2 [OF safe] j this] s show ?thesis by (meson converse_rtranclp_into_rtranclp)
    next
      case (Some err)
      have "(F(x \<mapsto> new_flight))(x := None) = F" using x by auto
      then have "engine_step en a0 low high (e1, F(x \<mapsto> new_flight)) (e', F)"
        using run safe p Inr Some step_gate [of "F(x \<mapsto> new_flight)" x en a0 low high e1] by (simp add: Fork_def)
      then show ?thesis using s by (meson converse_rtranclp_into_rtranclp r_into_rtranclp)
    qed
  qed
qed

text \<open>A live fork goes through the same phases; flushing the source's connections changes the host only.\<close>

lemma ForkRunning_run:
  assumes x: "F x = None" "e_sandboxes e x = None" and j: "fh_journal fh"
    and run: "ForkRunning en fh flush checkpoint src x e = (r, e')"
  shows "(engine_step en a0 low high)\<^sup>*\<^sup>* (e, F) (e', F)"
proof -
  let ?R = "(engine_step en a0 low high)\<^sup>*\<^sup>*"
  have fork: "?R (e, F) (e1, F)" if f: "engine_fork en fh snap x rootfs opts False e = (q, e1)" for snap rootfs opts q e1
  proof (cases "safeSandboxIDComponent x")
    case False
    then show ?thesis using f by (simp add: engine_fork_def)
  next
    case safe: True
    obtain p e0 where p: "admitFork en e = (p, e0)" by fastforce
    show ?thesis
    proof (cases p)
      case (Inl err)
      then show ?thesis using f safe p admit_refused [of en e err e0] by (simp add: engine_fork_def)
    next
      case (Inr u)
      then have "engine_fork en fh snap x rootfs opts True e0 = (q, e1)" using f safe p by (simp add: engine_fork_def)
      from engine_fork_run [of F x, OF x(1) safe j this] admit_run [of F x e en u e0, OF x p [unfolded Inr]]
      show ?thesis by (meson converse_rtranclp_into_rtranclp)
    qed
  qed
  have host: "?R (e1, F) (e1\<lparr>e_host := w\<rparr>, F)" for e1 w by (rule r_into_rtranclp) (rule step_host)
  show ?thesis
  proof (cases "e' = e")
    case False
    then obtain source q e1 where f: "engine_fork en fh (src @ ''-live'') x (liveForkRootfsBase source) (liveForkOpts source) False e = (q, e1)"
      and "e' = e1 \<or> (\<exists>w. e' = e1\<lparr>e_host := w\<rparr>)"
      using run by (auto simp: ForkRunning_def split: option.splits if_splits prod.splits sum.splits)
    then show ?thesis using fork [OF f] host by (metis rtranclp_trans)
  qed simp
qed

section \<open>What a failed fork leaves\<close>

definition same_ledger :: "'w engine \<Rightarrow> 'w engine \<Rightarrow> bool" where
  "same_ledger e e' \<longleftrightarrow> e_sandboxes e' = e_sandboxes e \<and> e_reserved e' = e_reserved e \<and> e_journal e' = e_journal e"

lemma teardown_ledger: "same_ledger e (teardownForkNetwork en x i e)" "same_ledger e (Kill c e)"
  by (auto simp: same_ledger_def teardownForkNetwork_def Kill_def split: option.splits)

lemma same_ledger_trans: "same_ledger e e1 \<Longrightarrow> same_ledger e1 e2 \<Longrightarrow> same_ledger e e2"
  by (simp add: same_ledger_def)

lemma launch_ledger:
  assumes "fork_launch en fh snap x rootfs e = (r, e')"
  shows "same_ledger e e'"
proof -
  have "same_ledger e0 e1" if "StartVM en x out e0 = (q, e1)" for out e0 q and e1 :: "'a engine"
    using that by (auto simp: same_ledger_def StartVM_def startJailedVM_def Let_def split: if_splits launch.splits option.splits prod.splits sum.splits)
  then show ?thesis
    using assms by (fastforce simp: fork_launch_def Let_def same_ledger_def split: if_splits)
qed

lemma attach_ledger:
  assumes "fork_attach en fh x opts c e = (r, e')"
  shows "same_ledger e e'"
proof -
  obtain p e1 where p: "prepareForkNetwork en x opts e = (p, e1)" by fastforce
  then have "same_ledger e e1"
    by (auto simp: same_ledger_def prepareForkNetwork_def registered_def split: option.splits prod.splits sum.splits if_splits)
  moreover have "same_ledger e1 e'"
    using assms p by (auto simp: fork_attach_def same_ledger_def teardownForkNetwork_def Kill_def split: sum.splits if_splits option.splits)
  ultimately show ?thesis by (rule same_ledger_trans)
qed

lemma boot_ledger:
  assumes "fork_boot en fh x rootfs c fnet e = (r, e')"
  shows "same_ledger e e'"
proof -
  have "same_ledger e (cleanupFork en x c fnet e)"
    by (auto simp: cleanupFork_def Let_def same_ledger_def teardownForkNetwork_def Kill_def split: option.splits)
  then show ?thesis using assms by (auto simp: fork_boot_def Let_def same_ledger_def split: if_splits)
qed

lemma engine_fork_failed_ledger:
  assumes "engine_fork en fh snap x rootfs opts True e = (Inl err, e')" "safeSandboxIDComponent x"
  shows "e_sandboxes e' = e_sandboxes e \<and> e_journal e' = e_journal e \<and> (en_maxSandboxes en \<le> 0 \<longrightarrow> e_reserved e' = e_reserved e)"
proof -
  obtain l e2 where l: "fork_launch en fh snap x rootfs e = (l, e2)" by fastforce
  note L = launch_ledger [OF l]
  show ?thesis
  proof (cases l)
    case (Inl err')
    then show ?thesis using assms l L by (auto simp: engine_fork_def same_ledger_def releaseReservation_def)
  next
    case c: (Inr c)
    obtain p e3 where p: "fork_attach en fh x opts c e2 = (p, e3)" by fastforce
    note A = same_ledger_trans [OF L attach_ledger [OF p]]
    show ?thesis
    proof (cases p)
      case (Inl err')
      then show ?thesis using assms l c p A by (auto simp: engine_fork_def same_ledger_def releaseReservation_def)
    next
      case n: (Inr fnet)
      obtain b e4 where b: "fork_boot en fh x rootfs c fnet e3 = (b, e4)" by fastforce
      note B = same_ledger_trans [OF A boot_ledger [OF b]]
      show ?thesis using assms l c p n b B by (auto simp: engine_fork_def same_ledger_def releaseReservation_def split: option.splits prod.splits)
    qed
  qed
qed

lemma Fork_failed_ledger:
  assumes "Fork en fh gate snap x rootfs opts e = (Inl err, e')"
  shows "e_sandboxes e' = e_sandboxes e \<and> e_journal e' = e_journal e \<and> (en_maxSandboxes en \<le> 0 \<longrightarrow> e_reserved e' = e_reserved e)"
proof -
  obtain p e1 where p: "admitFork en e = (p, e1)" by fastforce
  then have "e_sandboxes e1 = e_sandboxes e \<and> e_journal e1 = e_journal e \<and> (en_maxSandboxes en \<le> 0 \<longrightarrow> e_reserved e1 = e_reserved e)" by (auto simp: admitFork_def Let_def split: if_splits)
  then show ?thesis
    using assms p engine_fork_failed_ledger [of en fh snap x rootfs opts e1 err e']
    by (auto simp: Fork_def releaseReservation_def split: if_splits sum.splits option.splits)
qed

section \<open>Properties\<close>


text \<open>
  C11: with a ceiling configured, live sandboxes and forks in flight together never exceed it,
  and the admission of a fork is exact: it reserves a slot when one is free and otherwise reports
  that the ceiling is reached. The 32-bit counters do not wrap.
\<close>

theorem engine_capacity:
  assumes "node_setup en a0 low high" and "0 < en_maxSandboxes en"
    and "(engine_step en a0 low high)\<^sup>*\<^sup>* (first_engine a0 low high dns proxy w, Map.empty) (e, F)"
  shows "int (card (dom (e_sandboxes e))) + int (card (dom F)) \<le> en_maxSandboxes en \<and>
    admitFork en e =
      (if int (card (dom (e_sandboxes e))) + int (card (dom F)) < en_maxSandboxes en then (Inr (), e\<lparr>e_reserved := e_reserved e + 1\<rparr>)
       else (Inl (ErrAtCapacity (en_maxSandboxes en) (en_maxSandboxes en)), e))"
proof -
  let ?n = "int (card (dom (e_sandboxes e)))" and ?m = "en_maxSandboxes en"
  have m: "?m < 2 ^ 31" using assms(1) by (simp add: node_setup_def)
  have s: "e_reserved e = int (card (dom F))" "?n + e_reserved e \<le> ?m"
    using engine_invD(1) [OF engine_run_inv [OF assms(1,3)]] assms(2) by (simp_all add: slots_ok_def)
  have "in_i32 ?n" "in_i32 (?n + e_reserved e)" using s m by (auto simp: in_i32_def)
  then have c: "i32 (sandbox_count e + e_reserved e) = ?n + e_reserved e" by (simp add: sandbox_count_def i32_id)
  have r: "i32 (e_reserved e + 1) = e_reserved e + 1" if "?n + e_reserved e < ?m"
    by (rule i32_id) (use s m that in \<open>auto simp: in_i32_def\<close>)
  have "admitFork en e = (if ?n + e_reserved e < ?m then (Inr (), e\<lparr>e_reserved := e_reserved e + 1\<rparr>) else (Inl (ErrAtCapacity ?m ?m), e))"
    using c r s(2) assms(2) by (auto simp: admitFork_def Let_def)
  then show ?thesis using s by simp
qed

text \<open>
  C12: a fork that fails, at whichever phase, gives back its slot, its uid, its network identity
  and its registrations: the sandboxes, the reservations, the journal, the uids given out and the
  identities given out are what they were before the call.
\<close>

theorem failed_fork_releases:
  assumes "node_setup en a0 low high"
    and "(engine_step en a0 low high)\<^sup>*\<^sup>* (first_engine a0 low high dns proxy w, Map.empty) (e, F)"
    and "F x = None" and "e_sandboxes e x = None"
    and "Fork en fh gate snap x rootfs opts e = (Inl err, e')"
  shows "e_sandboxes e' = e_sandboxes e \<and> e_journal e' = e_journal e \<and> e_reserved e' = e_reserved e \<and>
    map_option uid_taken (e_uids e') = map_option uid_taken (e_uids e) \<and> map_option a_byID (e_netAlloc e') = map_option a_byID (e_netAlloc e)"
proof -
  have "(engine_step en a0 low high)\<^sup>*\<^sup>* (e, F) (e', F)" using Fork_run [of F x, OF assms(3,4) _ assms(5)] by simp
  then have "(engine_step en a0 low high)\<^sup>*\<^sup>* (first_engine a0 low high dns proxy w, Map.empty) (e', F)" using assms(2) by simp
  note I' = engine_invD [OF engine_run_inv [OF assms(1) this]] and I = engine_invD [OF engine_run_inv [OF assms(1,2)]]
  note same = Fork_failed_ledger [OF assms(5)]
  have held: "uid_held e' F = uid_held e F" "net_held e' F = net_held e F"
    using same by (simp_all add: uid_held_def net_held_def fun_eq_iff split: option.split)
  have "e_reserved e' = e_reserved e" using I(1) I'(1) same by (cases "0 < en_maxSandboxes en") (simp_all add: slots_ok_def)
  then show ?thesis
    using I(2,3) I'(2,3) same by (auto simp: uid_state_ok_def net_state_ok_def uids_hold_def nets_hold_def held)
qed


section \<open>A concrete node\<close>

definition sample_node :: "unit engine_env" where
  "sample_node =
     \<lparr>en_maxSandboxes = 1, en_firecrackerBin = ''/usr/bin/firecracker'', en_chrootBase = ''/srv/jailer'', en_jailed = True,
      en_netMgr = Some \<lparr>o_subnetCIDR = ''10.200.0.0/16'', o_uplink = ''eth0'', o_enableForwarding = False, o_proxyEnabled = True\<rparr>,
      en_enableDNSEgress = False, en_resolverIP = None, en_proxySentinel = None, en_proxyPort = 3128, en_sha = (\<lambda>_. []),
      en_run = (\<lambda>_ _ w. (None, w)), en_forward = (\<lambda>w. (None, w)), en_quote = (\<lambda>s. s), en_unicode = (\<lambda>s. s), en_entries = (\<lambda>_. [])\<rparr>"

definition sample_links :: Allocator where
  "sample_links = \<lparr>a_cidr = ''10.200.0.0/16'', a_base = 0x0AC80000, a_count = 16384, a_prefix = ''sbtap'', a_next = 0,
     a_byID = Map.empty, a_inUse = (\<lambda>_. False), a_idIndex = Map.empty\<rparr>"

definition sample_host :: "launch \<Rightarrow> fork_host" where
  "sample_host out =
     \<lparr>fh_mem = True, fh_mkdir = True, fh_reflink = True, fh_launch = out, fh_volumes = Some 0, fh_load = True, fh_patchRootfs = True,
      fh_patchVolumes = True, fh_resume = True, fh_vsockPath = ''vsock'', fh_now = 0, fh_journal = True\<rparr>"

definition sample_opts :: ForkOpts where
  "sample_opts = \<lparr>fo_Network = None, fo_LiveFork = False\<rparr>"

definition sample_first :: "unit engine" where
  "sample_first = first_engine sample_links 100000 100001 False True ()"

definition sample_fork :: "launch \<Rightarrow> (fork_error, ForkResult) result \<times> unit engine" where
  "sample_fork out = Fork sample_node (sample_host out) None ''tpl'' ''a'' [] sample_opts sample_first"

lemma sample_setup: "node_setup sample_node sample_links 100000 100001"
  by (simp add: node_setup_def sample_node_def sample_links_def alloc_inv_def geometry_ok_def)

lemma sample_uid: "AcquireUID (NewUIDAllocator 100000 100001) =
    (Inr (100000, 100000), \<lparr>u_low = 100000, u_high = 100001, u_next = 1, u_inUse = (\<lambda>_. False)(100000 := True)\<rparr>)"
proof -
  have "u32_upto 2 = [0, 1]" by code_simp
  then show ?thesis by (simp add: AcquireUID_def NewUIDAllocator_def uid_count_def Let_def)
qed

lemma sample_ids: "safeSandboxIDComponent ''tpl''" "safeSandboxIDComponent ''a''" by code_simp+

lemmas sample_defs = sample_node_def sample_host_def sample_opts_def sample_first_def first_engine_def sample_links_def

lemma sample_admit: "admitFork sample_node sample_first = (Inr (), sample_first\<lparr>e_reserved := 1\<rparr>)"
  by (simp add: admitFork_def sample_node_def sample_first_def first_engine_def sandbox_count_def i32_id in_i32_def)

lemma sample_fork_admitted: "sample_fork out = engine_fork sample_node (sample_host out) ''tpl'' ''a'' [] sample_opts True (sample_first\<lparr>e_reserved := 1\<rparr>)"
  by (simp add: sample_fork_def Fork_def sample_ids sample_admit)

definition sample_sandbox :: Sandbox where
  "sample_sandbox = forked_sandbox (sample_host (Launched 42)) ''tpl'' ''a'' [] sample_opts
     \<lparr>vc_pid = 42, vc_jailed = True, vc_uid = 100000, vc_chrootDir = jailerVMDir ''/srv/jailer'' ''a'' @ ''/root'',
      vc_jailerVMDir = jailerVMDir ''/srv/jailer'' ''a''\<rparr> None 10000"

definition sample_running :: "unit engine" where
  "sample_running = snd (sample_fork (Launched 42))"

lemma sample_fork_ok:
  "\<exists>res. fst (sample_fork (Launched 42)) = Inr res" "e_sandboxes sample_running = [''a'' \<mapsto> sample_sandbox]"
  "e_journal sample_running = [''a'' \<mapsto> sandbox_record sample_node sample_sandbox]"
  unfolding sample_running_def sample_fork_admitted
  by (simp_all add: sample_ids engine_fork_def fork_launch_def StartVM_def startJailedVM_def Let_def sample_uid fork_attach_def
      prepareForkNetwork_def fork_boot_def fork_commit_def sample_sandbox_def forked_sandbox_def commitReservation_def journalSandbox_def sample_defs)

lemma sample_fork_failed: "\<exists>e. sample_fork (LaunchFailed True ''no kvm'') = (Inl (HostError ''no kvm''), e)"
  unfolding sample_fork_admitted
  by (simp add: sample_ids engine_fork_def fork_launch_def StartVM_def startJailedVM_def Let_def sample_uid sample_defs)

lemma sample_sandbox_holds: "sandbox_uid sample_sandbox = Some 100000" "sandbox_net sample_sandbox = None" "sb_Pid sample_sandbox = 42"
  by (simp_all add: sample_sandbox_def forked_sandbox_def sandbox_uid_def sandbox_net_def noIdentity_def)

lemma sample_held: "uid_held sample_running Map.empty = [''a'' \<mapsto> 100000]"
  by (auto simp: uid_held_def sample_fork_ok sample_sandbox_holds)

lemma sample_run:
  "(engine_step sample_node sample_links 100000 100001)\<^sup>*\<^sup>* (first_engine sample_links 100000 100001 False True (), Map.empty) (sample_running, Map.empty)"
proof -
  have "Fork sample_node (sample_host (Launched 42)) None ''tpl'' ''a'' [] sample_opts sample_first = (fst (sample_fork (Launched 42)), sample_running)"
    by (simp add: sample_running_def sample_fork_def)
  from Fork_run [of Map.empty "''a''", OF _ _ _ this] show ?thesis
    by (simp add: sample_first_def first_engine_def sample_host_def)
qed

lemma sample_first_run:
  "(engine_step sample_node sample_links 100000 100001)\<^sup>*\<^sup>* (first_engine sample_links 100000 100001 False True (), Map.empty) (sample_first, Map.empty)"
  by (simp add: sample_first_def)


theorem engine_capacity_witness:
  "card (dom (e_sandboxes sample_running)) = 1 \<and> admitFork sample_node sample_running = (Inl (ErrAtCapacity 1 1), sample_running)"
  using engine_capacity [OF sample_setup _ sample_run] by (simp add: sample_fork_ok sample_node_def)

theorem failed_fork_releases_witness:
  "\<exists>e'. sample_fork (LaunchFailed True ''no kvm'') = (Inl (HostError ''no kvm''), e') \<and> e_reserved e' = 0 \<and> map_option uid_taken (e_uids e') = Some {}"
proof -
  obtain e' where e': "sample_fork (LaunchFailed True ''no kvm'') = (Inl (HostError ''no kvm''), e')" using sample_fork_failed by blast
  have "uid_taken (NewUIDAllocator 100000 100001) = {}" by (simp add: uid_taken_def NewUIDAllocator_def)
  then show ?thesis
    using failed_fork_releases [OF sample_setup sample_first_run _ _ e' [unfolded sample_fork_def]] e' by (simp add: sample_first_def first_engine_def)
qed


end
