(* ===== verification/Base64_Url.thy ===== *)
theory Base64_Url
  imports Mitos_Prelude
begin

text \<open>
  The unpadded URL-safe base64 codec (\<^verbatim>\<open>base64.RawURLEncoding\<close>) that the token package of
  \<^verbatim>\<open>internal/captoken\<close> uses for its wire form. As in the Go library the decoder skips
  carriage returns and line feeds and does not insist on zero trailing bits.
\<close>

definition b64_alphabet :: string where
  "b64_alphabet = ''ABCDEFGHIJKLMNOPQRSTUVWXYZabcdefghijklmnopqrstuvwxyz0123456789-_''"

definition b64_digit :: "nat \<Rightarrow> char" where
  "b64_digit n = b64_alphabet ! (n mod 64)"

definition b64_value :: "char \<Rightarrow> nat option" where
  "b64_value c = find (\<lambda>n. b64_alphabet ! n = c) [0..<64]"

fun b64_encode :: "bytes \<Rightarrow> string" where
  "b64_encode (a # b # c # rest) =
     (let v = of_char a * 65536 + of_char b * 256 + of_char c
      in b64_digit (v div 262144) # b64_digit (v div 4096) # b64_digit (v div 64) # b64_digit v #
         b64_encode rest)"
| "b64_encode [a, b] =
     (let v = of_char a * 65536 + of_char b * 256
      in [b64_digit (v div 262144), b64_digit (v div 4096), b64_digit (v div 64)])"
| "b64_encode [a] =
     (let v = of_char a * 65536 in [b64_digit (v div 262144), b64_digit (v div 4096)])"
| "b64_encode [] = []"

fun b64_quads :: "nat list \<Rightarrow> bytes option" where
  "b64_quads (p # q # r # s # rest) =
     (let v = p * 262144 + q * 4096 + r * 64 + s
      in map_option (\<lambda>t. char_of (v div 65536) # char_of (v div 256) # char_of v # t) (b64_quads rest))"
| "b64_quads [p, q, r] =
     (let v = p * 262144 + q * 4096 + r * 64 in Some [char_of (v div 65536), char_of (v div 256)])"
| "b64_quads [p, q] = (let v = p * 262144 + q * 4096 in Some [char_of (v div 65536)])"
| "b64_quads [p] = None"
| "b64_quads [] = Some []"

definition b64_decode :: "string \<Rightarrow> bytes option" where
  "b64_decode s =
     (let vs = map b64_value (filter (\<lambda>c. c \<noteq> CHR 0x0D \<and> c \<noteq> CHR 0x0A) s)
      in if None \<in> set vs then None else b64_quads (map the vs))"

section \<open>Round trip\<close>

lemma b64_alphabet_table:
  "list_all (\<lambda>n. b64_value (b64_alphabet ! n) = Some n \<and>
     b64_alphabet ! n \<noteq> CHR 0x0D \<and> b64_alphabet ! n \<noteq> CHR 0x0A) [0..<64]"
  by code_simp

lemma b64_digit_ok [simp]:
  "b64_value (b64_digit n) = Some (n mod 64)" "b64_digit n \<noteq> CHR 0x0D" "b64_digit n \<noteq> CHR 0x0A"
proof -
  have "n mod 64 \<in> set [0..<64]" by simp
  with b64_alphabet_table
  have "b64_value (b64_alphabet ! (n mod 64)) = Some (n mod 64) \<and>
      b64_alphabet ! (n mod 64) \<noteq> CHR 0x0D \<and> b64_alphabet ! (n mod 64) \<noteq> CHR 0x0A"
    unfolding list_all_iff by blast
  then show "b64_value (b64_digit n) = Some (n mod 64)" "b64_digit n \<noteq> CHR 0x0D" "b64_digit n \<noteq> CHR 0x0A"
    by (simp_all add: b64_digit_def)
qed

text \<open>The six-bit digits of a 24-bit group put the group together again.\<close>

lemma b64_regroup:
  assumes "v < 16777216"
  shows "(v div 262144) mod 64 * 262144 + (v div 4096) mod 64 * 4096 + (v div 64) mod 64 * 64 + v mod 64 = (v :: nat)"
proof -
  have "v = v div 64 * 64 + v mod 64" by simp
  moreover have "v div 64 = v div 4096 * 64 + (v div 64) mod 64"
    using div_mult_mod_eq [of "v div 64" 64] by (simp add: div_mult2_eq [symmetric])
  moreover have "v div 4096 = v div 262144 * 64 + (v div 4096) mod 64"
    using div_mult_mod_eq [of "v div 4096" 64] by (simp add: div_mult2_eq [symmetric])
  moreover have "(v div 262144) mod 64 = v div 262144" using assms by simp
  ultimately show ?thesis by linarith
qed

lemma of_char_less [simp]: "of_char c < (256 :: nat)"
  by (metis of_char_mod_256 mod_less_divisor zero_less_numeral)

lemma b64_byte_div:
  assumes "(y :: nat) < 256" and "z < 256"
  shows "(x * 65536 + y * 256 + z) div 65536 = x" and "(x * 65536 + y * 256 + z) div 256 = x * 256 + y"
proof -
  show "(x * 65536 + y * 256 + z) div 65536 = x"
    by (rule div_nat_eqI) (use assms in auto)
  show "(x * 65536 + y * 256 + z) div 256 = x * 256 + y"
    by (rule div_nat_eqI) (use assms in auto)
qed

lemma char_of_low_byte: "char_of (x * 256 + of_char c :: nat) = c"
  by (metis char_of_mod_256 char_of_char mod_mult_self3)

lemma b64_bytes:
  "char_of ((of_char a * 65536 + of_char b * 256 + of_char c) div 65536 :: nat) = a"
  "char_of ((of_char a * 65536 + of_char b * 256 + of_char c) div 256 :: nat) = b"
  "char_of (of_char a * 65536 + of_char b * 256 + of_char c :: nat) = c"
proof -
  note d = b64_byte_div [OF of_char_less of_char_less, of "of_char a" b c]
  show "char_of ((of_char a * 65536 + of_char b * 256 + of_char c) div 65536 :: nat) = a"
    unfolding d by simp
  show "char_of ((of_char a * 65536 + of_char b * 256 + of_char c) div 256 :: nat) = b"
    unfolding d by (rule char_of_low_byte)
  have "of_char a * 65536 + of_char b * 256 + of_char c = ((of_char a * 256 + of_char b) * 256 + of_char c :: nat)"
    by simp
  then show "char_of (of_char a * 65536 + of_char b * 256 + of_char c :: nat) = c"
    by (simp only: char_of_low_byte)
qed

lemma b64_group_less: "of_char a * 65536 + of_char b * 256 + of_char c < (16777216 :: nat)"
proof -
  have "of_char a < (256 :: nat)" "of_char b < (256 :: nat)" "of_char c < (256 :: nat)" by simp_all
  then show ?thesis by linarith
qed

lemma char_of_zero: "of_char (CHR 0x00) = (0 :: nat)"
  by simp

text \<open>A group without its last bytes is the group with zero bytes in their place.\<close>

lemma b64_tail_zero:
  "(of_char a * 65536 + of_char b * 256) mod 64 = (0 :: nat)"
  "(of_char a * 65536) mod 64 = (0 :: nat)" "(of_char a * 65536) div 64 mod 64 = (0 :: nat)"
proof -
  have e: "of_char a * 65536 + of_char b * 256 = 64 * (of_char a * 1024 + of_char b * 4 :: nat)"
    "of_char a * 65536 = 64 * (64 * (of_char a * 16) :: nat)" by simp_all
  show "(of_char a * 65536 + of_char b * 256) mod 64 = (0 :: nat)" unfolding e(1) by simp
  show "(of_char a * 65536) mod 64 = (0 :: nat)" "(of_char a * 65536) div 64 mod 64 = (0 :: nat)"
    unfolding e(2) by simp_all
qed

fun b64_values :: "bytes \<Rightarrow> nat list" where
  "b64_values (a # b # c # rest) =
     (let v = of_char a * 65536 + of_char b * 256 + of_char c
      in v div 262144 mod 64 # v div 4096 mod 64 # v div 64 mod 64 # v mod 64 # b64_values rest)"
| "b64_values [a, b] =
     (let v = of_char a * 65536 + of_char b * 256
      in [v div 262144 mod 64, v div 4096 mod 64, v div 64 mod 64])"
| "b64_values [a] = (let v = of_char a * 65536 in [v div 262144 mod 64, v div 4096 mod 64])"
| "b64_values [] = []"

lemma b64_encode_values:
  "map b64_value (b64_encode bs) = map Some (b64_values bs)"
  "filter (\<lambda>c. c \<noteq> CHR 0x0D \<and> c \<noteq> CHR 0x0A) (b64_encode bs) = b64_encode bs"
  by (induction bs rule: b64_encode.induct) (simp_all add: Let_def)

lemma b64_quads_group:
  assumes "v < 16777216"
  shows "b64_quads (v div 262144 mod 64 # v div 4096 mod 64 # v div 64 mod 64 # v mod 64 # rest) =
      map_option (\<lambda>t. char_of (v div 65536) # char_of (v div 256) # char_of v # t) (b64_quads rest)"
    and "v mod 64 = 0 \<Longrightarrow> b64_quads [v div 262144 mod 64, v div 4096 mod 64, v div 64 mod 64] =
      Some [char_of (v div 65536), char_of (v div 256)]"
    and "v mod 64 = 0 \<Longrightarrow> v div 64 mod 64 = 0 \<Longrightarrow> b64_quads [v div 262144 mod 64, v div 4096 mod 64] =
      Some [char_of (v div 65536)]"
  using b64_regroup [OF assms] by (simp_all only: b64_quads.simps Let_def mult_zero_left add_0_right)

lemma b64_quads_values: "b64_quads (b64_values bs) = Some bs"
proof (induction bs rule: b64_values.induct)
  case (1 a b c rest)
  then show ?case
    by (simp only: b64_values.simps Let_def b64_quads_group [OF b64_group_less] b64_bytes option.map)
next
  case (2 a b)
  note z = b64_group_less [of a b "CHR 0x00"] b64_bytes [of a b "CHR 0x00"]
  show ?case using z
    by (simp only: b64_values.simps Let_def b64_quads_group b64_tail_zero char_of_zero add_0_right)
next
  case (3 a)
  note z = b64_group_less [of a "CHR 0x00" "CHR 0x00"] b64_bytes [of a "CHR 0x00" "CHR 0x00"]
  show ?case using z
    by (simp only: b64_values.simps Let_def b64_quads_group b64_tail_zero char_of_zero add_0_right mult_zero_left)
qed simp

lemma b64_decode_encode [simp]: "b64_decode (b64_encode bs) = Some bs"
proof -
  have "map b64_value (filter (\<lambda>c. c \<noteq> CHR 0x0D \<and> c \<noteq> CHR 0x0A) (b64_encode bs)) = map Some (b64_values bs)"
    by (simp only: b64_encode_values)
  moreover have "None \<notin> set (map Some (b64_values bs))" by auto
  moreover have "map the (map Some (b64_values bs)) = b64_values bs" by (simp add: comp_def)
  ultimately show ?thesis by (simp only: b64_decode_def Let_def if_False b64_quads_values)
qed

end
