(* ===== verification/Cap_Token.thy ===== *)
theory Cap_Token
  imports Base64_Url
begin

text \<open>
  The attenuated capability tokens of \<^verbatim>\<open>internal/captoken/captoken.go\<close>: budgets, scopes, the
  HMAC caveat chain, minting, attenuation, verification, resealing and the wire form. The keyed
  hash and the JSON codec are arguments of the definitions, so every theorem holds for whatever
  they compute; none of the never-widen results depends on the secrecy of a key.
\<close>

section \<open>Budgets and scopes\<close>

type_synonym Scope = string

record Budget =
  MaxForks :: int
  MaxCheckpoints :: int
  MaxCpuSeconds :: int
  MaxLifetimeExtension :: int
  MaxEgressBytes :: int

record BudgetSpend =
  SpentForks :: int
  SpentCheckpoints :: int
  SpentCpuSeconds :: int
  SpentLifetimeExtension :: int
  SpentEgressBytes :: int

definition subFloor :: "int \<Rightarrow> int \<Rightarrow> int" where
  "subFloor a b = (if b \<ge> a then 0 else i64 (a - b))"

definition min64 :: "int \<Rightarrow> int \<Rightarrow> int" where
  "min64 a b = (if a < b then a else b)"

definition Remaining :: "Budget \<Rightarrow> BudgetSpend \<Rightarrow> Budget" where
  "Remaining b spend =
     \<lparr>MaxForks = subFloor (MaxForks b) (SpentForks spend),
      MaxCheckpoints = subFloor (MaxCheckpoints b) (SpentCheckpoints spend),
      MaxCpuSeconds = subFloor (MaxCpuSeconds b) (SpentCpuSeconds spend),
      MaxLifetimeExtension = subFloor (MaxLifetimeExtension b) (SpentLifetimeExtension spend),
      MaxEgressBytes = subFloor (MaxEgressBytes b) (SpentEgressBytes spend)\<rparr>"

definition Intersect :: "Budget \<Rightarrow> Budget \<Rightarrow> Budget" where
  "Intersect b other =
     \<lparr>MaxForks = min64 (MaxForks b) (MaxForks other),
      MaxCheckpoints = min64 (MaxCheckpoints b) (MaxCheckpoints other),
      MaxCpuSeconds = min64 (MaxCpuSeconds b) (MaxCpuSeconds other),
      MaxLifetimeExtension = min64 (MaxLifetimeExtension b) (MaxLifetimeExtension other),
      MaxEgressBytes = min64 (MaxEgressBytes b) (MaxEgressBytes other)\<rparr>"

definition fitsWithin :: "Budget \<Rightarrow> Budget \<Rightarrow> bool" where
  "fitsWithin b parent \<longleftrightarrow>
     MaxForks b \<le> MaxForks parent \<and>
     MaxCheckpoints b \<le> MaxCheckpoints parent \<and>
     MaxCpuSeconds b \<le> MaxCpuSeconds parent \<and>
     MaxLifetimeExtension b \<le> MaxLifetimeExtension parent \<and>
     MaxEgressBytes b \<le> MaxEgressBytes parent"

text \<open>
  The first occurrences of the scopes, sorted. The sort is on distinct strings, so an unstable
  sort gives the same list.
\<close>

fun first_occurrences :: "Scope set \<Rightarrow> Scope list \<Rightarrow> Scope list" where
  "first_occurrences seen [] = []"
| "first_occurrences seen (s # ss) =
     (if s \<in> seen then first_occurrences seen ss else s # first_occurrences (insert s seen) ss)"

definition canonicalize :: "Scope list \<Rightarrow> Scope list" where
  "canonicalize scopes = sort (first_occurrences {} scopes)"

definition intersectScopes :: "Scope list \<Rightarrow> Scope list \<Rightarrow> Scope list" where
  "intersectScopes parent requested = canonicalize (filter (\<lambda>s. s \<in> set requested) parent)"

section \<open>Tokens\<close>

record claims =
  cl_SandboxID :: string
  cl_Budget :: Budget
  cl_Scopes :: "Scope list"

definition hasScope :: "claims \<Rightarrow> Scope \<Rightarrow> bool" where
  "hasScope c sc \<longleftrightarrow> list_ex (\<lambda>s. s = sc) (cl_Scopes c)"

record Token =
  links :: "claims list"
  tags :: "bytes list"

definition zero_budget :: Budget where
  "zero_budget = \<lparr>MaxForks = 0, MaxCheckpoints = 0, MaxCpuSeconds = 0, MaxLifetimeExtension = 0, MaxEgressBytes = 0\<rparr>"

definition SandboxID :: "Token \<Rightarrow> string" where
  "SandboxID t = (if links t = [] then [] else cl_SandboxID (last (links t)))"

definition TokenBudget :: "Token \<Rightarrow> Budget" where
  "TokenBudget t = (if links t = [] then zero_budget else cl_Budget (last (links t)))"

definition Scopes :: "Token \<Rightarrow> Scope list" where
  "Scopes t = (if links t = [] then [] else cl_Scopes (last (links t)))"

definition HasScope :: "Token \<Rightarrow> Scope \<Rightarrow> bool" where
  "HasScope t sc = (if links t = [] then False else hasScope (last (links t)) sc)"

definition Depth :: "Token \<Rightarrow> nat" where
  "Depth t = length (links t)"

section \<open>The signer\<close>

record Signer =
  signer_key :: bytes

datatype cap_error =
    KeyTooShort
  | EncodeClaims
  | NilSigner
  | EmptySandboxID
  | ParentUnsealed
  | MalformedToken
  | RootTagMismatch
  | LinkTagMismatch nat
  | WidensBudget nat
  | WidensScope nat Scope
  | ReparentsSandbox nat
  | Unsealed
  | CannotSerialize
  | SerializeFailed
  | NotBase64
  | NotJSON
  | ChainMalformed
  | TagNotBase64

definition minKeyLen :: nat where
  "minKeyLen = 16"

definition NewSigner :: "bytes \<Rightarrow> (cap_error, Signer) result" where
  "NewSigner key = (if length key < minKeyLen then Inl KeyTooShort else Inr \<lparr>signer_key = key\<rparr>)"

text \<open>HMAC-SHA256 of a key and a message, and \<^verbatim>\<open>json.Marshal\<close> of one link's claims.\<close>

type_synonym hmac_fun = "bytes \<Rightarrow> bytes \<Rightarrow> bytes"
type_synonym claims_marshal = "claims \<Rightarrow> bytes option"

definition encodeClaims :: "claims_marshal \<Rightarrow> claims \<Rightarrow> (cap_error, bytes) result" where
  "encodeClaims mj c =
     (case mj (c\<lparr>cl_Scopes := canonicalize (cl_Scopes c)\<rparr>) of
        None \<Rightarrow> Inl EncodeClaims
      | Some b \<Rightarrow> Inr b)"

definition root_label :: bytes where
  "root_label = ''captoken-root-v1'' @ [CHR 0x00]"

definition link_label :: bytes where
  "link_label = ''captoken-link-v1'' @ [CHR 0x00]"

definition rootTag :: "hmac_fun \<Rightarrow> claims_marshal \<Rightarrow> Signer \<Rightarrow> claims \<Rightarrow> (cap_error, bytes) result" where
  "rootTag hm mj s c =
     (case encodeClaims mj c of
        Inl e \<Rightarrow> Inl e
      | Inr enc \<Rightarrow> Inr (hm (signer_key s) (root_label @ enc)))"

definition linkTag :: "hmac_fun \<Rightarrow> claims_marshal \<Rightarrow> bytes \<Rightarrow> claims \<Rightarrow> (cap_error, bytes) result" where
  "linkTag hm mj parentTag c =
     (case encodeClaims mj c of
        Inl e \<Rightarrow> Inl e
      | Inr enc \<Rightarrow> Inr (hm parentTag (link_label @ enc)))"

section \<open>Minting and attenuating\<close>

definition Mint ::
  "hmac_fun \<Rightarrow> claims_marshal \<Rightarrow> Signer option \<Rightarrow> string \<Rightarrow> Budget \<Rightarrow> Scope list \<Rightarrow> (cap_error, Token) result" where
  "Mint hm mj s sandboxID budget scopes =
     (case s of
        None \<Rightarrow> Inl NilSigner
      | Some sg \<Rightarrow>
          if sandboxID = [] then Inl EmptySandboxID
          else
            let root = \<lparr>cl_SandboxID = sandboxID, cl_Budget = budget, cl_Scopes = canonicalize scopes\<rparr>
            in case rootTag hm mj sg root of
                 Inl e \<Rightarrow> Inl e
               | Inr tag \<Rightarrow> Inr \<lparr>links = [root], tags = [tag]\<rparr>)"

definition child_claims :: "claims \<Rightarrow> Budget \<Rightarrow> Scope list \<Rightarrow> claims" where
  "child_claims p requested requestedScopes =
     \<lparr>cl_SandboxID = cl_SandboxID p,
      cl_Budget = Intersect (cl_Budget p) requested,
      cl_Scopes = intersectScopes (cl_Scopes p) requestedScopes\<rparr>"

definition Attenuate ::
  "hmac_fun \<Rightarrow> claims_marshal \<Rightarrow> Signer option \<Rightarrow> Token \<Rightarrow> Budget \<Rightarrow> Scope list \<Rightarrow> (cap_error, Token) result" where
  "Attenuate hm mj s parent requested requestedScopes =
     (case s of
        None \<Rightarrow> Inl NilSigner
      | Some sg \<Rightarrow>
          if tags parent = [] \<or> links parent = [] then Inl ParentUnsealed
          else
            let child = child_claims (last (links parent)) requested requestedScopes
            in case linkTag hm mj (last (tags parent)) child of
                 Inl e \<Rightarrow> Inl e
               | Inr tag \<Rightarrow> Inr \<lparr>links = links parent @ [child], tags = tags parent @ [tag]\<rparr>)"

section \<open>Verification\<close>

text \<open>One iteration of the walk, at index \<open>i\<close>, over adjacent links and their tags.\<close>

definition verify_link ::
  "hmac_fun \<Rightarrow> claims_marshal \<Rightarrow> nat \<Rightarrow> claims \<Rightarrow> bytes \<Rightarrow> claims \<Rightarrow> bytes \<Rightarrow> (cap_error, unit) result" where
  "verify_link hm mj i parent parentTag child tag =
     (case linkTag hm mj parentTag child of
        Inl e \<Rightarrow> Inl e
      | Inr wantTag \<Rightarrow>
          if tag \<noteq> wantTag then Inl (LinkTagMismatch i)
          else if \<not> fitsWithin (cl_Budget child) (cl_Budget parent) then Inl (WidensBudget i)
          else
            (case find (\<lambda>sc. \<not> hasScope parent sc) (cl_Scopes child) of
               Some sc \<Rightarrow> Inl (WidensScope i sc)
             | None \<Rightarrow>
                 if cl_SandboxID child \<noteq> cl_SandboxID parent then Inl (ReparentsSandbox i) else Inr ()))"

fun verify_links ::
  "hmac_fun \<Rightarrow> claims_marshal \<Rightarrow> nat \<Rightarrow> claims list \<Rightarrow> bytes list \<Rightarrow> (cap_error, unit) result" where
  "verify_links hm mj i (p # c # cs) (tp # tc # ts) =
     (case verify_link hm mj i p tp c tc of
        Inl e \<Rightarrow> Inl e
      | Inr _ \<Rightarrow> verify_links hm mj (Suc i) (c # cs) (tc # ts))"
| "verify_links hm mj i _ _ = Inr ()"

definition Verify :: "hmac_fun \<Rightarrow> claims_marshal \<Rightarrow> Signer option \<Rightarrow> Token \<Rightarrow> (cap_error, unit) result" where
  "Verify hm mj s t =
     (case s of
        None \<Rightarrow> Inl NilSigner
      | Some sg \<Rightarrow>
          if links t = [] \<or> length (tags t) \<noteq> length (links t) then Inl MalformedToken
          else
            (case rootTag hm mj sg (hd (links t)) of
               Inl e \<Rightarrow> Inl e
             | Inr tag \<Rightarrow>
                 if hd (tags t) \<noteq> tag then Inl RootTagMismatch
                 else verify_links hm mj 1 (links t) (tags t)))"

fun seal_links :: "hmac_fun \<Rightarrow> claims_marshal \<Rightarrow> bytes \<Rightarrow> claims list \<Rightarrow> (cap_error, bytes list) result" where
  "seal_links hm mj tag [] = Inr []"
| "seal_links hm mj tag (c # cs) =
     (case linkTag hm mj tag c of
        Inl e \<Rightarrow> Inl e
      | Inr tag' \<Rightarrow>
          (case seal_links hm mj tag' cs of
             Inl e \<Rightarrow> Inl e
           | Inr ts \<Rightarrow> Inr (tag' # ts)))"

definition canonical_claims :: "claims \<Rightarrow> claims" where
  "canonical_claims c = c\<lparr>cl_Scopes := canonicalize (cl_Scopes c)\<rparr>"

definition reseal :: "hmac_fun \<Rightarrow> claims_marshal \<Rightarrow> Signer \<Rightarrow> Token \<Rightarrow> (cap_error, Token) result" where
  "reseal hm mj s t =
     (case map canonical_claims (links t) of
        [] \<Rightarrow> Inl Unsealed
      | c # cs \<Rightarrow>
          (case rootTag hm mj s c of
             Inl e \<Rightarrow> Inl e
           | Inr tag \<Rightarrow>
               (case seal_links hm mj tag cs of
                  Inl e \<Rightarrow> Inl e
                | Inr ts \<Rightarrow> Inr \<lparr>links = c # cs, tags = tag # ts\<rparr>)))"

section \<open>Wire form\<close>

record wireToken =
  w_Links :: "claims list"
  w_Tags :: "string list"

definition wire_of :: "Token \<Rightarrow> wireToken" where
  "wire_of t = \<lparr>w_Links = links t, w_Tags = map b64_encode (tags t)\<rparr>"

definition Serialize :: "(wireToken \<Rightarrow> bytes option) \<Rightarrow> Token \<Rightarrow> (cap_error, string) result" where
  "Serialize wire_marshal t =
     (if links t = [] \<or> length (tags t) \<noteq> length (links t) then Inl CannotSerialize
      else
        (case wire_marshal (wire_of t) of
           None \<Rightarrow> Inl SerializeFailed
         | Some b \<Rightarrow> Inr (b64_encode b)))"

definition Parse :: "(bytes \<Rightarrow> wireToken option) \<Rightarrow> string \<Rightarrow> (cap_error, Token) result" where
  "Parse wire_unmarshal encoded =
     (case b64_decode encoded of
        None \<Rightarrow> Inl NotBase64
      | Some raw \<Rightarrow>
          (case wire_unmarshal raw of
             None \<Rightarrow> Inl NotJSON
           | Some w \<Rightarrow>
               if w_Links w = [] \<or> length (w_Tags w) \<noteq> length (w_Links w) then Inl ChainMalformed
               else
                 let ts = map b64_decode (w_Tags w)
                 in if None \<in> set ts then Inl TagNotBase64
                    else Inr \<lparr>links = map canonical_claims (w_Links w), tags = map the ts\<rparr>))"

section \<open>Budgets and scopes: the attenuation order\<close>

lemma fitsWithin_refl [simp]: "fitsWithin b b"
  by (simp add: fitsWithin_def)

lemma fitsWithin_trans: "fitsWithin a b \<Longrightarrow> fitsWithin b c \<Longrightarrow> fitsWithin a c"
  by (simp add: fitsWithin_def)

lemma Intersect_greatest: "fitsWithin b (Intersect x y) \<longleftrightarrow> fitsWithin b x \<and> fitsWithin b y"
  by (auto simp: fitsWithin_def Intersect_def min64_def)

lemma Intersect_fits [simp]: "fitsWithin (Intersect x y) x" "fitsWithin (Intersect x y) y"
  using Intersect_greatest [of "Intersect x y" x y] by simp_all

lemma set_first_occurrences [simp]: "set (first_occurrences seen ss) = set ss - seen"
  by (induction seen ss rule: first_occurrences.induct) auto

lemma distinct_first_occurrences [simp]: "distinct (first_occurrences seen ss)"
  by (induction seen ss rule: first_occurrences.induct) auto

lemma set_canonicalize [simp]: "set (canonicalize ss) = set ss"
  by (simp add: canonicalize_def)

lemma canonicalize_sorted [simp]: "sorted (canonicalize ss)" "distinct (canonicalize ss)"
  by (simp_all add: canonicalize_def)

lemma canonicalize_eq_iff: "canonicalize xs = canonicalize ys \<longleftrightarrow> set xs = set ys"
  by (metis canonicalize_sorted set_canonicalize sorted_distinct_set_unique)

lemma canonicalize_idem [simp]: "canonicalize (canonicalize ss) = canonicalize ss"
  by (simp add: canonicalize_eq_iff)

lemma set_intersectScopes [simp]: "set (intersectScopes p r) = set p \<inter> set r"
  by (auto simp: intersectScopes_def)

lemma hasScope_iff: "hasScope c sc \<longleftrightarrow> sc \<in> set (cl_Scopes c)"
  by (auto simp: hasScope_def list_ex_iff)

text \<open>The never-widen relation between a link and its parent.\<close>

definition narrows :: "claims \<Rightarrow> claims \<Rightarrow> bool" where
  "narrows child parent \<longleftrightarrow> fitsWithin (cl_Budget child) (cl_Budget parent) \<and>
     set (cl_Scopes child) \<subseteq> set (cl_Scopes parent) \<and> cl_SandboxID child = cl_SandboxID parent"

definition never_widens :: "claims list \<Rightarrow> bool" where
  "never_widens cs \<longleftrightarrow> successively (\<lambda>p c. narrows c p) cs"

lemma narrows_refl [simp]: "narrows c c"
  by (simp add: narrows_def)

lemma narrows_trans: "narrows c b \<Longrightarrow> narrows b a \<Longrightarrow> narrows c a"
  by (auto simp: narrows_def intro: fitsWithin_trans)

lemma never_widens_sorted: "never_widens cs \<longleftrightarrow> sorted_wrt (\<lambda>p c. narrows c p) cs"
  unfolding never_widens_def
  by (rule successively_iff_sorted_wrt_strong) (rule narrows_trans)

lemma never_widens_nth:
  assumes "never_widens cs" and "i \<le> j" and "j < length cs"
  shows "narrows (cs ! j) (cs ! i)"
  using assms sorted_wrt_nth_less [of "\<lambda>p c. narrows c p" cs i j]
  by (cases "i = j") (auto simp: never_widens_sorted)

lemma narrows_canonical [simp]: "narrows (canonical_claims c) (canonical_claims p) \<longleftrightarrow> narrows c p"
  by (simp add: narrows_def canonical_claims_def)

lemma never_widens_canonical [simp]: "never_widens (map canonical_claims cs) \<longleftrightarrow> never_widens cs"
  by (simp add: never_widens_def successively_map)

lemma never_widens_snoc:
  "never_widens (cs @ [c]) \<longleftrightarrow> never_widens cs \<and> (cs = [] \<or> narrows c (last cs))"
  by (auto simp: never_widens_def successively_append_iff)

lemma child_claims_narrows [simp]: "narrows (child_claims p b ss) p"
  by (simp add: narrows_def child_claims_def)

section \<open>What verification checks\<close>

lemma verify_link_ok:
  "verify_link hm mj i p tp c tc = Inr () \<longleftrightarrow> linkTag hm mj tp c = Inr tc \<and> narrows c p"
  by (auto simp: verify_link_def narrows_def hasScope_iff find_None_iff
      split: sum.splits option.splits dest!: find_SomeD)

lemma verify_links_ok:
  assumes "length ts = length cs"
  shows "verify_links hm mj i (p # cs) (tp # ts) = Inr () \<longleftrightarrow>
    seal_links hm mj tp cs = Inr ts \<and> never_widens (p # cs)"
  using assms
proof (induction cs ts arbitrary: i p tp rule: list_induct2')
  case (4 c cs t ts)
  have "verify_links hm mj i (p # c # cs) (tp # t # ts) = Inr () \<longleftrightarrow>
      linkTag hm mj tp c = Inr t \<and> narrows c p \<and> seal_links hm mj t cs = Inr ts \<and> never_widens (c # cs)"
    using 4 verify_link_ok [of hm mj i p tp c t] by (auto split: sum.splits)
  then show ?case by (auto simp: never_widens_def split: sum.splits)
qed (simp_all add: never_widens_def)

lemma Verify_iff:
  "Verify hm mj (Some s) t = Inr () \<longleftrightarrow>
    (\<exists>c cs tag ts. links t = c # cs \<and> tags t = tag # ts \<and> rootTag hm mj s c = Inr tag \<and>
       seal_links hm mj tag cs = Inr ts \<and> never_widens (c # cs))"
proof -
  have len: "length ts = length cs" if "seal_links hm mj tag cs = Inr ts" for tag cs ts
    using that by (induction cs arbitrary: tag ts) (auto split: sum.splits)
  show ?thesis
  proof (cases "links t")
    case (Cons c cs)
    then show ?thesis
      by (cases "tags t") (auto simp: Verify_def verify_links_ok len split: sum.splits)
  qed (simp add: Verify_def)
qed

lemma seal_links_snoc:
  "seal_links hm mj tag (cs @ [c]) = Inr ts \<longleftrightarrow>
    (\<exists>us u. ts = us @ [u] \<and> seal_links hm mj tag cs = Inr us \<and> linkTag hm mj (last (tag # us)) c = Inr u)"
proof (induction cs arbitrary: tag ts)
  case (Cons d cs)
  show ?case
  proof (cases "linkTag hm mj tag d")
    case (Inr t')
    then show ?thesis using Cons.IH [of t']
      by (auto split: sum.splits)
  qed auto
qed (auto split: sum.splits)

section \<open>Tokens made by the package\<close>

text \<open>A chain of attenuations, each with its requested budget and scopes.\<close>

fun attenuate_all ::
  "hmac_fun \<Rightarrow> claims_marshal \<Rightarrow> Signer option \<Rightarrow> Token \<Rightarrow> (Budget \<times> Scope list) list \<Rightarrow> (cap_error, Token) result" where
  "attenuate_all hm mj s t [] = Inr t"
| "attenuate_all hm mj s t ((b, ss) # rs) =
     (case Attenuate hm mj s t b ss of
        Inl e \<Rightarrow> Inl e
      | Inr t' \<Rightarrow> attenuate_all hm mj s t' rs)"

definition canonical_token :: "Token \<Rightarrow> bool" where
  "canonical_token t \<longleftrightarrow> (\<forall>c \<in> set (links t). canonical_claims c = c)"

lemma canonical_claims_idem [simp]: "canonical_claims (canonical_claims c) = canonical_claims c"
  by (simp add: canonical_claims_def)

lemma encodeClaims_total: "\<forall>c. mj c \<noteq> None \<Longrightarrow> \<exists>b. encodeClaims mj c = Inr b"
  by (auto simp: encodeClaims_def split: option.splits)

lemma Verify_nonempty:
  "Verify hm mj (Some s) t = Inr () \<Longrightarrow> links t \<noteq> [] \<and> tags t \<noteq> [] \<and> length (tags t) = length (links t)"
  by (auto simp: Verify_def split: if_splits)

lemma Mint_ok:
  assumes "Mint hm mj (Some s) x b ss = Inr t"
  shows "Verify hm mj (Some s) t = Inr () \<and> canonical_token t \<and> Depth t = 1 \<and> TokenBudget t = b \<and>
    set (Scopes t) = set ss \<and> SandboxID t = x"
  using assms
  by (auto simp: Mint_def Verify_iff Let_def canonical_token_def canonical_claims_def Depth_def
      TokenBudget_def Scopes_def SandboxID_def never_widens_def split: if_splits sum.splits)

lemma Attenuate_ok:
  assumes v: "Verify hm mj (Some s) t = Inr ()" and a: "Attenuate hm mj (Some s) t b ss = Inr t'"
  shows "Verify hm mj (Some s) t' = Inr () \<and> Depth t' = Suc (Depth t) \<and>
    TokenBudget t' = Intersect (TokenBudget t) b \<and> set (Scopes t') = set (Scopes t) \<inter> set ss \<and>
    SandboxID t' = SandboxID t \<and> (canonical_token t \<longrightarrow> canonical_token t')"
proof -
  obtain c cs tag ts where t: "links t = c # cs" "tags t = tag # ts" "rootTag hm mj s c = Inr tag"
    "seal_links hm mj tag cs = Inr ts" "never_widens (c # cs)"
    using v by (auto simp: Verify_iff)
  let ?child = "child_claims (last (c # cs)) b ss"
  obtain u where u: "linkTag hm mj (last (tag # ts)) ?child = Inr u"
    and t': "t' = \<lparr>links = c # cs @ [?child], tags = tag # ts @ [u]\<rparr>"
    using a t(1,2) by (auto simp: Attenuate_def Let_def split: sum.splits)
  have "seal_links hm mj tag (cs @ [?child]) = Inr (ts @ [u])"
    using t(4) u by (simp add: seal_links_snoc)
  moreover have "never_widens ((c # cs) @ [?child])"
    unfolding never_widens_snoc using t(5) by simp
  ultimately have "Verify hm mj (Some s) t' = Inr ()"
    using t(3) t' by (simp add: Verify_iff)
  then show ?thesis using t(1) t'
    by (auto simp: Depth_def TokenBudget_def Scopes_def SandboxID_def child_claims_def
        canonical_token_def canonical_claims_def intersectScopes_def)
qed

lemma Attenuate_total:
  assumes "\<forall>c. mj c \<noteq> None" and "Verify hm mj (Some s) t = Inr ()"
  obtains t' where "Attenuate hm mj (Some s) t b ss = Inr t'"
proof -
  have "links t \<noteq> []" "tags t \<noteq> []" using Verify_nonempty [OF assms(2)] by auto
  moreover obtain e where "encodeClaims mj (child_claims (last (links t)) b ss) = Inr e"
    using encodeClaims_total [OF assms(1)] by blast
  ultimately show thesis using that by (simp add: Attenuate_def linkTag_def)
qed

lemma attenuate_all_ok:
  assumes "Verify hm mj (Some s) t = Inr ()" and "canonical_token t"
    and "attenuate_all hm mj (Some s) t rs = Inr t'"
  shows "Verify hm mj (Some s) t' = Inr () \<and> canonical_token t' \<and> Depth t' = Depth t + length rs \<and>
    TokenBudget t' = foldl Intersect (TokenBudget t) (map fst rs) \<and>
    set (Scopes t') = set (Scopes t) \<inter> (\<Inter>r \<in> set rs. set (snd r)) \<and> SandboxID t' = SandboxID t"
  using assms
proof (induction rs arbitrary: t)
  case (Cons r rs)
  obtain b ss where r: "r = (b, ss)" by fastforce
  obtain t1 where t1: "Attenuate hm mj (Some s) t b ss = Inr t1" "attenuate_all hm mj (Some s) t1 rs = Inr t'"
    using Cons.prems(3) r by (auto split: sum.splits)
  note A = Attenuate_ok [OF Cons.prems(1) t1(1)]
  have "Verify hm mj (Some s) t1 = Inr ()" "canonical_token t1" using A Cons.prems(2) by auto
  from Cons.IH [OF this t1(2)] A r show ?case by auto
qed simp

lemma attenuate_all_total:
  assumes "\<forall>c. mj c \<noteq> None" and "Verify hm mj (Some s) t = Inr ()"
  shows "\<exists>t'. attenuate_all hm mj (Some s) t rs = Inr t'"
  using assms(2)
proof (induction rs arbitrary: t)
  case (Cons r rs)
  obtain b ss where r: "r = (b, ss)" by fastforce
  obtain t1 where t1: "Attenuate hm mj (Some s) t b ss = Inr t1"
    using Attenuate_total [OF assms(1) Cons.prems] .
  then show ?case using Cons.IH [of t1] Attenuate_ok [OF Cons.prems t1] r by simp
qed simp

section \<open>The last tag determines the chain\<close>

text \<open>
  The keyed-hash inputs of a chain: the key and message of the root tag and of every link tag.
\<close>

definition tag_input :: "claims_marshal \<Rightarrow> bytes \<Rightarrow> bytes \<Rightarrow> claims \<Rightarrow> (bytes \<times> bytes) set" where
  "tag_input mj label key c = (case encodeClaims mj c of Inl e \<Rightarrow> {} | Inr enc \<Rightarrow> {(key, label @ enc)})"

fun link_inputs :: "claims_marshal \<Rightarrow> bytes \<Rightarrow> claims list \<Rightarrow> bytes list \<Rightarrow> (bytes \<times> bytes) set" where
  "link_inputs mj tag (c # cs) (t # ts) = tag_input mj link_label tag c \<union> link_inputs mj t cs ts"
| "link_inputs mj tag _ _ = {}"

definition chain_inputs :: "claims_marshal \<Rightarrow> Signer \<Rightarrow> Token \<Rightarrow> (bytes \<times> bytes) set" where
  "chain_inputs mj s t =
     tag_input mj root_label (signer_key s) (hd (links t)) \<union> link_inputs mj (hd (tags t)) (tl (links t)) (tl (tags t))"

definition collision_on :: "('a \<Rightarrow> 'b) \<Rightarrow> 'a set \<Rightarrow> bool" where
  "collision_on f A \<longleftrightarrow> (\<exists>x \<in> A. \<exists>y \<in> A. x \<noteq> y \<and> f x = f y)"

lemma no_collisionD: "\<not> collision_on f A \<Longrightarrow> x \<in> A \<Longrightarrow> y \<in> A \<Longrightarrow> f x = f y \<Longrightarrow> x = y"
  by (auto simp: collision_on_def)

lemma link_inputs_snoc:
  "length cs = length ts \<Longrightarrow>
    link_inputs mj tag (cs @ [c]) (ts @ [u]) = link_inputs mj tag cs ts \<union> tag_input mj link_label (last (tag # ts)) c"
  by (induction cs ts arbitrary: tag rule: list_induct2) auto

lemma seal_links_length: "seal_links hm mj tag cs = Inr ts \<Longrightarrow> length cs = length ts"
  by (induction cs arbitrary: tag ts) (auto split: sum.splits)

lemma encodeClaims_inj:
  assumes "\<not> collision_on mj C" and "c \<in> C" "c' \<in> C" and "canonical_claims c = c" "canonical_claims c' = c'"
    and "encodeClaims mj c = Inr b" "encodeClaims mj c' = Inr b"
  shows "c = c'"
proof -
  have "mj c = Some b" "mj c' = Some b"
    using assms(4-7) by (auto simp: encodeClaims_def canonical_claims_def split: option.splits)
  then show ?thesis using no_collisionD [OF assms(1-3)] by simp
qed

text \<open>The labels keep root tags and link tags apart.\<close>

lemma label_clash: "root_label @ e \<noteq> link_label @ e'"
  by (simp add: root_label_def link_label_def)

lemma linkTag_inj:
  assumes "\<not> collision_on (case_prod hm) H" "\<not> collision_on mj C"
    and "tag_input mj link_label p c \<subseteq> H" "tag_input mj link_label p' c' \<subseteq> H" "c \<in> C" "c' \<in> C"
    and "canonical_claims c = c" "canonical_claims c' = c'"
    and "linkTag hm mj p c = Inr u" "linkTag hm mj p' c' = Inr u"
  shows "p = p' \<and> c = c'"
proof -
  obtain e e' where e: "encodeClaims mj c = Inr e" "encodeClaims mj c' = Inr e'"
    "hm p (link_label @ e) = u" "hm p' (link_label @ e') = u"
    using assms(9,10) by (auto simp: linkTag_def split: sum.splits)
  have "(p, link_label @ e) = (p', link_label @ e')"
    using assms(3,4) e by (intro no_collisionD [OF assms(1)]) (simp_all add: tag_input_def)
  with e encodeClaims_inj [OF assms(2,5-8)] show ?thesis by simp
qed

lemma root_not_link:
  assumes "\<not> collision_on (case_prod hm) H" and "tag_input mj root_label (signer_key s) c \<subseteq> H" "tag_input mj link_label p c' \<subseteq> H"
    and "rootTag hm mj s c = Inr u" and "linkTag hm mj p c' = Inr u"
  shows False
proof -
  obtain e e' where e: "encodeClaims mj c = Inr e" "encodeClaims mj c' = Inr e'"
    "hm (signer_key s) (root_label @ e) = u" "hm p (link_label @ e') = u"
    using assms(4,5) by (auto simp: rootTag_def linkTag_def split: sum.splits)
  have "(signer_key s, root_label @ e) = (p, link_label @ e')"
    using assms(2,3) e by (intro no_collisionD [OF assms(1)]) (simp_all add: tag_input_def)
  then show False using label_clash by blast
qed

lemma rootTag_inj:
  assumes "\<not> collision_on (case_prod hm) H" "\<not> collision_on mj C"
    and "tag_input mj root_label (signer_key s) c \<subseteq> H" "tag_input mj root_label (signer_key s) c' \<subseteq> H" "c \<in> C" "c' \<in> C"
    and "canonical_claims c = c" "canonical_claims c' = c'"
    and "rootTag hm mj s c = Inr u" "rootTag hm mj s c' = Inr u"
  shows "c = c'"
proof -
  obtain e e' where e: "encodeClaims mj c = Inr e" "encodeClaims mj c' = Inr e'"
    "hm (signer_key s) (root_label @ e) = u" "hm (signer_key s) (root_label @ e') = u"
    using assms(9,10) by (auto simp: rootTag_def split: sum.splits)
  have "(signer_key s, root_label @ e) = (signer_key s, root_label @ e')"
    using assms(3,4) e by (intro no_collisionD [OF assms(1)]) (simp_all add: tag_input_def)
  with e encodeClaims_inj [OF assms(2,5-8)] show ?thesis by simp
qed

lemma chain_of_last_tag:
  assumes nc: "\<not> collision_on (case_prod hm) H" "\<not> collision_on mj C"
    and "tag_input mj root_label (signer_key s) c \<subseteq> H" "tag_input mj root_label (signer_key s) c' \<subseteq> H"
    and "rootTag hm mj s c = Inr tag" "seal_links hm mj tag cs = Inr ts"
    and "rootTag hm mj s c' = Inr tag'" "seal_links hm mj tag' cs' = Inr ts'"
    and "\<forall>x \<in> set (c # cs) \<union> set (c' # cs'). canonical_claims x = x \<and> x \<in> C"
    and "last (tag # ts) = last (tag' # ts')"
    and "link_inputs mj tag cs ts \<subseteq> H" "link_inputs mj tag' cs' ts' \<subseteq> H"
  shows "c = c' \<and> cs = cs' \<and> tag = tag' \<and> ts = ts'"
  using assms(5-)
proof (induction cs arbitrary: cs' ts ts' rule: rev_induct)
  case Nil
  then have ts: "ts = []" by simp
  show ?case
  proof (cases cs' rule: rev_cases)
    case Nil
    then have "ts' = []" using Nil.prems(4) by simp
    with ts Nil.prems have "tag = tag'" by simp
    with rootTag_inj [OF nc assms(3,4)] Nil.prems ts \<open>ts' = []\<close> \<open>cs' = []\<close> show ?thesis by simp
  next
    case (snoc ds d)
    obtain vs v where v: "ts' = vs @ [v]" "seal_links hm mj tag' ds = Inr vs" "linkTag hm mj (last (tag' # vs)) d = Inr v"
      using Nil.prems(4) snoc by (auto simp: seal_links_snoc)
    have "tag_input mj link_label (last (tag' # vs)) d \<subseteq> H"
      using Nil.prems(8) snoc v(1) link_inputs_snoc [OF seal_links_length [OF v(2)]] by auto
    moreover have "tag = v" using Nil.prems(6) ts v(1) by simp
    ultimately show ?thesis using root_not_link [OF nc(1) assms(3)] Nil.prems(1) v(3) by blast
  qed
next
  case (snoc x cs)
  obtain us u where u: "ts = us @ [u]" "seal_links hm mj tag cs = Inr us" "linkTag hm mj (last (tag # us)) x = Inr u"
    using snoc.prems(2) by (auto simp: seal_links_snoc)
  have iu: "link_inputs mj tag cs us \<subseteq> H" "tag_input mj link_label (last (tag # us)) x \<subseteq> H"
    using snoc.prems(7) u(1) link_inputs_snoc [OF seal_links_length [OF u(2)]] by auto
  show ?case
  proof (cases cs' rule: rev_cases)
    case Nil
    then have "tag' = u" using snoc.prems(4,6) u(1) by simp
    then show ?thesis using root_not_link [OF nc(1) assms(4) iu(2) snoc.prems(3)] u(3) by blast
  next
    case (snoc ds d)
    obtain vs v where v: "ts' = vs @ [v]" "seal_links hm mj tag' ds = Inr vs" "linkTag hm mj (last (tag' # vs)) d = Inr v"
      using snoc.prems(4) snoc by (auto simp: seal_links_snoc)
    have iv: "link_inputs mj tag' ds vs \<subseteq> H" "tag_input mj link_label (last (tag' # vs)) d \<subseteq> H"
      using snoc.prems(8) snoc v(1) link_inputs_snoc [OF seal_links_length [OF v(2)]] by auto
    have uv: "u = v" using snoc.prems(6) u(1) v(1) by simp
    have x: "canonical_claims x = x" "canonical_claims d = d" "x \<in> C" "d \<in> C" using snoc.prems(5) snoc by simp_all
    have last: "last (tag # us) = last (tag' # vs)" "x = d"
      using linkTag_inj [OF nc iu(2) iv(2) x(3,4,1,2) u(3)] v(3) uv by simp_all
    have "c = c' \<and> cs = ds \<and> tag = tag' \<and> us = vs"
      using snoc.prems(5) snoc by (intro snoc.IH [OF snoc.prems(1) u(2) snoc.prems(3) v(2) _ last(1) iu(1) iv(1)]) simp
    with last(2) u(1) v(1) uv snoc show ?thesis by simp
  qed
qed

section \<open>Properties\<close>

definition narrower :: "Token \<Rightarrow> claims \<Rightarrow> bool" where
  "narrower t c \<longleftrightarrow> fitsWithin (TokenBudget t) (cl_Budget c) \<and>
     (\<forall>sc. HasScope t sc \<longrightarrow> hasScope c sc) \<and> SandboxID t = cl_SandboxID c"

text \<open>
  C2: Attenuation never widens. Whatever the keyed hash computes and whoever holds the key, the
  effective capability of a token that verifies is, on every budget field and on its scopes, within
  every link of its chain, and all links name one sandbox; the links themselves only ever narrow.
\<close>

theorem verify_never_widens:
  assumes "Verify hm mj s t = Inr ()"
  shows "links t \<noteq> [] \<and> (\<forall>c \<in> set (links t). narrower t c) \<and>
    (\<forall>j < length (links t). \<forall>i \<le> j. narrows (links t ! j) (links t ! i))"
proof -
  obtain sg where s: "s = Some sg" using assms by (cases s) (auto simp: Verify_def)
  then have ne: "links t \<noteq> []" and w: "never_widens (links t)" using assms by (auto simp: Verify_iff)
  have "narrower t c" if c: "c \<in> set (links t)" for c
  proof -
    obtain i where i: "i < length (links t)" "c = links t ! i" using c by (auto simp: in_set_conv_nth)
    then have "narrows (links t ! (length (links t) - 1)) c"
      using never_widens_nth [OF w, of i "length (links t) - 1"] by auto
    then show ?thesis using ne
      by (auto simp: narrower_def narrows_def TokenBudget_def HasScope_def SandboxID_def hasScope_iff last_conv_nth)
  qed
  then show ?thesis using ne never_widens_nth [OF w] by auto
qed

definition demo_hmac :: hmac_fun where
  "demo_hmac k m = rev m @ k"

definition demo_marshal :: claims_marshal where
  "demo_marshal c = Some (cl_SandboxID c @ [CHR '':''] @ concat (cl_Scopes c))"

definition demo_signer :: Signer where
  "demo_signer = \<lparr>signer_key = ''0123456789abcdef''\<rparr>"

definition demo_budget :: "int \<Rightarrow> Budget" where
  "demo_budget n = \<lparr>MaxForks = n, MaxCheckpoints = 3, MaxCpuSeconds = 60, MaxLifetimeExtension = 0, MaxEgressBytes = n\<rparr>"

definition demo_child :: "(cap_error, Token) result" where
  "demo_child =
     (case Mint demo_hmac demo_marshal (Some demo_signer) ''sb'' (demo_budget 5) [''fork'', ''exec''] of
        Inl e \<Rightarrow> Inl e
      | Inr t \<Rightarrow> attenuate_all demo_hmac demo_marshal (Some demo_signer) t [(demo_budget 9, [''exec'', ''files''])])"

lemma demo_child_ok:
  "\<exists>t. demo_child = Inr t \<and> Verify demo_hmac demo_marshal (Some demo_signer) t = Inr () \<and>
     canonical_token t \<and> length (links t) = 2"
proof -
  have total: "\<forall>c. demo_marshal c \<noteq> None" by (simp add: demo_marshal_def)
  obtain t0 where t0: "Mint demo_hmac demo_marshal (Some demo_signer) ''sb'' (demo_budget 5) [''fork'', ''exec''] = Inr t0"
    by (auto simp: Mint_def Let_def rootTag_def encodeClaims_def demo_marshal_def)
  note M = Mint_ok [OF t0]
  then obtain t where t: "attenuate_all demo_hmac demo_marshal (Some demo_signer) t0
      [(demo_budget 9, [''exec'', ''files''])] = Inr t"
    using attenuate_all_total [OF total] by blast
  then have c: "demo_child = Inr t" unfolding demo_child_def t0 by simp
  have "Verify demo_hmac demo_marshal (Some demo_signer) t0 = Inr ()" "canonical_token t0" "Depth t0 = 1"
    using M by simp_all
  with attenuate_all_ok [OF this(1,2) t] have "Verify demo_hmac demo_marshal (Some demo_signer) t = Inr ()"
    "canonical_token t" "length (links t) = 2" unfolding Depth_def by simp_all
  with c show ?thesis by blast
qed

theorem verify_never_widens_witness:
  "\<exists>t. demo_child = Inr t \<and> length (links t) = 2 \<and> (\<forall>c \<in> set (links t). narrower t c) \<and>
     narrows (links t ! 1) (links t ! 0)"
proof -
  obtain t where t: "demo_child = Inr t" "Verify demo_hmac demo_marshal (Some demo_signer) t = Inr ()"
    "length (links t) = 2" using demo_child_ok by blast
  then show ?thesis using verify_never_widens [OF t(2)] by auto
qed

text \<open>
  C23: Minting for a non-empty sandbox id and then attenuating any number of times succeeds and
  yields a token that verifies. Its effective budget is the element-wise minimum of the minted
  budget and all requested budgets, its scopes are the minted scopes that every request kept, and
  its depth counts the links.
\<close>

theorem minted_chain_verifies:
  assumes "\<forall>c. mj c \<noteq> None" and "x \<noteq> []"
  shows "\<exists>t0 t. Mint hm mj (Some s) x b ss = Inr t0 \<and> attenuate_all hm mj (Some s) t0 rs = Inr t \<and>
    Verify hm mj (Some s) t = Inr () \<and> Depth t = 1 + length rs \<and>
    TokenBudget t = foldl Intersect b (map fst rs) \<and>
    set (Scopes t) = set ss \<inter> (\<Inter>r \<in> set rs. set (snd r)) \<and> SandboxID t = x"
proof -
  obtain e where "encodeClaims mj \<lparr>cl_SandboxID = x, cl_Budget = b, cl_Scopes = canonicalize ss\<rparr> = Inr e"
    using encodeClaims_total [OF assms(1)] by blast
  then obtain t0 where t0: "Mint hm mj (Some s) x b ss = Inr t0"
    using assms(2) by (simp add: Mint_def Let_def rootTag_def)
  note M = Mint_ok [OF t0]
  then obtain t where t: "attenuate_all hm mj (Some s) t0 rs = Inr t"
    using attenuate_all_total [OF assms(1)] by blast
  show ?thesis using t0 t attenuate_all_ok [OF _ _ t] M by auto
qed

theorem minted_chain_verifies_witness:
  "\<exists>t0 t. Mint demo_hmac demo_marshal (Some demo_signer) ''sb'' (demo_budget 5) [''fork'', ''exec''] = Inr t0 \<and>
    attenuate_all demo_hmac demo_marshal (Some demo_signer) t0
      [(demo_budget 9, [''exec'', ''files'']), (demo_budget 2, [''exec''])] = Inr t \<and>
    Verify demo_hmac demo_marshal (Some demo_signer) t = Inr () \<and> Depth t = 3 \<and>
    TokenBudget t = demo_budget 2 \<and> set (Scopes t) = {''exec''} \<and> SandboxID t = ''sb''"
proof -
  have b: "foldl Intersect (demo_budget 5) (map fst [(demo_budget 9, [''exec'', ''files'']), (demo_budget 2, [''exec''])])
      = demo_budget 2"
    by (simp add: demo_budget_def Intersect_def min64_def)
  have "\<forall>c. demo_marshal c \<noteq> None" by (simp add: demo_marshal_def)
  from minted_chain_verifies [OF this, of "''sb''" demo_hmac demo_signer "demo_budget 5" "[''fork'', ''exec'']"
      "[(demo_budget 9, [''exec'', ''files'']), (demo_budget 2, [''exec''])]"]
  show ?thesis unfolding b by (auto simp: numeral_3_eq_3)
qed

text \<open>
  C24: Holding the signing key does not help to widen. Resealing a chain of claims with the key
  gives a token that verifies exactly when the chain never widens; a forged wider link is rejected
  although every tag of the resealed chain is right.
\<close>

theorem reseal_verifies_iff:
  assumes "reseal hm mj s t = Inr t'"
  shows "Verify hm mj (Some s) t' = Inr () \<longleftrightarrow> never_widens (links t)"
proof -
  obtain c cs tag ts where r: "map canonical_claims (links t) = c # cs" "rootTag hm mj s c = Inr tag"
    "seal_links hm mj tag cs = Inr ts" "t' = \<lparr>links = c # cs, tags = tag # ts\<rparr>"
    using assms by (auto simp: reseal_def split: list.splits sum.splits)
  then have "Verify hm mj (Some s) t' = Inr () \<longleftrightarrow> never_widens (c # cs)" by (simp add: Verify_iff)
  also have "\<dots> \<longleftrightarrow> never_widens (links t)" by (metis r(1) never_widens_canonical)
  finally show ?thesis .
qed

definition demo_forged :: Token where
  "demo_forged = \<lparr>links =
     [\<lparr>cl_SandboxID = ''sb'', cl_Budget = demo_budget 5, cl_Scopes = [''exec'']\<rparr>,
      \<lparr>cl_SandboxID = ''sb'', cl_Budget = demo_budget 6, cl_Scopes = [''exec'']\<rparr>], tags = []\<rparr>"

theorem reseal_verifies_iff_witness:
  "\<exists>t'. reseal demo_hmac demo_marshal demo_signer demo_forged = Inr t' \<and>
     Verify demo_hmac demo_marshal (Some demo_signer) t' \<noteq> Inr ()"
proof -
  obtain t' where t': "reseal demo_hmac demo_marshal demo_signer demo_forged = Inr t'"
    by (auto simp: reseal_def demo_forged_def rootTag_def linkTag_def encodeClaims_def demo_marshal_def)
  have "\<not> never_widens (links demo_forged)"
    by (simp add: never_widens_def narrows_def demo_forged_def fitsWithin_def demo_budget_def)
  then show ?thesis using reseal_verifies_iff [OF t'] t' by blast
qed


text \<open>
  C26: A token made by minting and attenuating survives its wire form: parsing what was serialized
  gives back the same chain and tags, so verification decides the same. The JSON codec is only
  assumed to decode what it encoded.
\<close>

theorem wire_round_trip:
  assumes "Mint hm mj (Some s) x b ss = Inr t0" and "attenuate_all hm mj (Some s) t0 rs = Inr t"
    and "wire_marshal (wire_of t) = Some bs" and "wire_unmarshal bs = Some (wire_of t)"
  shows "\<exists>enc. Serialize wire_marshal t = Inr enc \<and> Parse wire_unmarshal enc = Inr t \<and>
    Verify hm mj (Some s) t = Inr ()"
proof -
  have M: "Verify hm mj (Some s) t0 = Inr ()" "canonical_token t0" using Mint_ok [OF assms(1)] by simp_all
  note A = attenuate_all_ok [OF M assms(2)]
  have v: "Verify hm mj (Some s) t = Inr ()" and c: "canonical_token t" using A by simp_all
  note ne = Verify_nonempty [OF v]
  have "map canonical_claims (links t) = links t"
    using c by (intro map_idI) (simp add: canonical_token_def)
  then have "Parse wire_unmarshal (b64_encode bs) = Inr t"
    using assms(4) ne by (auto simp: Parse_def Let_def comp_def wire_of_def)
  moreover have "Serialize wire_marshal t = Inr (b64_encode bs)"
    using assms(3) ne by (simp add: Serialize_def wire_of_def)
  ultimately show ?thesis using v by blast
qed

theorem wire_round_trip_witness:
  "\<exists>t0 t enc. Mint demo_hmac demo_marshal (Some demo_signer) ''sb'' (demo_budget 5) [''fork'', ''exec''] = Inr t0 \<and>
     attenuate_all demo_hmac demo_marshal (Some demo_signer) t0 [(demo_budget 9, [''exec''])] = Inr t \<and>
     Serialize (\<lambda>w. if w = wire_of t then Some ''{1}'' else None) t = Inr enc \<and>
     Parse (\<lambda>bs. if bs = ''{1}'' then Some (wire_of t) else None) enc = Inr t"
proof -
  have total: "\<forall>c. demo_marshal c \<noteq> None" by (simp add: demo_marshal_def)
  obtain t0 where t0: "Mint demo_hmac demo_marshal (Some demo_signer) ''sb'' (demo_budget 5) [''fork'', ''exec''] = Inr t0"
    by (auto simp: Mint_def Let_def rootTag_def encodeClaims_def demo_marshal_def)
  then obtain t where t: "attenuate_all demo_hmac demo_marshal (Some demo_signer) t0 [(demo_budget 9, [''exec''])] = Inr t"
    using attenuate_all_total [OF total] Mint_ok by blast
  show ?thesis
    using t0 t wire_round_trip [OF t0 t, of "\<lambda>w. if w = wire_of t then Some ''{1}'' else None" "''{1}''"
        "\<lambda>bs. if bs = ''{1}'' then Some (wire_of t) else None"] by simp blast
qed


end
