(* ===== verification/Float64.thy ===== *)
theory Float64
  imports Mitos_Prelude "HOL-Library.Log_Nat"
begin

text \<open>
  IEEE double precision as the Go sources use it: a \<^verbatim>\<open>float64\<close> is a rational number and
  every operation is the exact operation followed by \<open>f64\<close>, rounding to the nearest number
  with a 53 bit significand, ties to the even one. The exponent is unbounded: no value of the
  modelled code comes near overflow or the subnormal range. The locale \<open>rounding\<close> collects
  what the clients need to know of \<open>f64\<close>.
\<close>

section \<open>Rounding to nearest even\<close>

definition round_half_even :: "rat \<Rightarrow> int" where
  "round_half_even x =
     (let f = \<lfloor>x\<rfloor>; d = x - of_int f
      in if d < 1 / 2 then f else if d > 1 / 2 then f + 1 else if even f then f else f + 1)"

text \<open>The exponent of the leading bit.\<close>

definition rat_exponent :: "rat \<Rightarrow> int" where
  "rat_exponent x =
     (let (p, q) = quotient_of x; e = bitlen p - bitlen q
      in if 2 powi e \<le> x then e else e - 1)"

definition f64_pos :: "rat \<Rightarrow> rat" where
  "f64_pos x = (let u = 2 powi (rat_exponent x - 52) in of_int (round_half_even (x / u)) * u)"

definition f64 :: "rat \<Rightarrow> rat" where
  "f64 x = (if x = 0 then 0 else if x > 0 then f64_pos x else - f64_pos (- x))"

text \<open>\<^verbatim>\<open>int64(f)\<close> truncates; out of range the amd64 conversion gives the least integer.\<close>

definition trunc_i64 :: "rat \<Rightarrow> int" where
  "trunc_i64 x =
     (let n = (if x \<ge> 0 then \<lfloor>x\<rfloor> else \<lceil>x\<rceil>) in if in_i64 n then n else - (2 ^ 63))"

text \<open>\<^verbatim>\<open>math.Round\<close>, half away from zero, and \<^verbatim>\<open>math.Ceil\<close>.\<close>

definition math_Round :: "rat \<Rightarrow> rat" where
  "math_Round x = (if x \<ge> 0 then of_int \<lfloor>x + 1 / 2\<rfloor> else of_int \<lceil>x - 1 / 2\<rceil>)"

definition math_Ceil :: "rat \<Rightarrow> rat" where
  "math_Ceil x = of_int \<lceil>x\<rceil>"

section \<open>Lemmas on integer rounding\<close>

lemma round_half_even_bounds: "\<bar>of_int (round_half_even x) - x\<bar> \<le> 1 / 2"
proof -
  have "of_int \<lfloor>x\<rfloor> \<le> x" "x < of_int \<lfloor>x\<rfloor> + 1" by linarith+
  then show ?thesis by (simp add: round_half_even_def Let_def abs_le_iff)
qed

lemma round_half_even_int [simp]: "round_half_even (of_int n) = n"
  by (simp add: round_half_even_def)

lemma round_half_even_floor: "\<lfloor>x\<rfloor> \<le> round_half_even x" "round_half_even x \<le> \<lfloor>x\<rfloor> + 1"
  by (simp_all add: round_half_even_def Let_def)

lemma round_half_even_mono:
  assumes "x \<le> y"
  shows "round_half_even x \<le> round_half_even y"
proof (cases "\<lfloor>x\<rfloor> = \<lfloor>y\<rfloor>")
  case True
  then show ?thesis using assms by (auto simp: round_half_even_def Let_def)
next
  case False
  then have "\<lfloor>x\<rfloor> + 1 \<le> \<lfloor>y\<rfloor>" using floor_mono [OF assms] by linarith
  then show ?thesis using round_half_even_floor [of x] round_half_even_floor [of y] by linarith
qed

lemma round_half_even_ge: "of_int n \<le> x \<Longrightarrow> n \<le> round_half_even x"
  using round_half_even_mono [of "of_int n" x] by simp

lemma round_half_even_le: "x \<le> of_int n \<Longrightarrow> round_half_even x \<le> n"
  using round_half_even_mono [of x "of_int n"] by simp

section \<open>The exponent\<close>

lemma bitlen_powi:
  assumes "0 < p"
  shows "2 powi (bitlen p - 1) \<le> (of_int p :: rat)" and "(of_int p :: rat) < 2 powi (bitlen p)"
proof -
  have b: "2 ^ nat (bitlen p - 1) \<le> p" "p < 2 ^ nat (bitlen p)" using assms bitlen_bounds by auto
  have pos: "0 < bitlen p" using assms bitlen_eq_zero_iff [of p] bitlen_nonneg [of p] by linarith
  have "(of_int (2 ^ nat (bitlen p - 1)) :: rat) \<le> of_int p" using b(1) by (simp only: of_int_le_iff)
  moreover have "(2 :: rat) powi (bitlen p - 1) = 2 ^ nat (bitlen p - 1)" using pos by (simp add: power_int_def)
  ultimately show "2 powi (bitlen p - 1) \<le> (of_int p :: rat)" by simp
  have "(of_int p :: rat) < of_int (2 ^ nat (bitlen p))" using b(2) by (simp only: of_int_less_iff)
  moreover have "(2 :: rat) powi (bitlen p) = 2 ^ nat (bitlen p)" using pos by (simp add: power_int_def)
  ultimately show "(of_int p :: rat) < 2 powi (bitlen p)" by simp
qed

lemma rat_exponent_bounds:
  assumes "0 < x"
  shows "2 powi (rat_exponent x) \<le> x" and "x < 2 powi (rat_exponent x + 1)"
proof -
  obtain p q where pq: "quotient_of x = (p, q)" by fastforce
  have x: "x = of_int p / of_int q" using quotient_of_div [OF pq] .
  have q: "0 < q" using quotient_of_denom_pos [OF pq] .
  have p: "0 < p" using assms x q by (simp add: zero_less_divide_iff)
  let ?e = "bitlen p - bitlen q"
  have up: "x < 2 powi (?e + 1)"
  proof -
    have "of_int p < 2 powi (?e + 1) * (2 powi (bitlen q - 1) :: rat)"
      using bitlen_powi(2) [OF p] by (simp add: power_int_add [symmetric])
    also have "\<dots> \<le> 2 powi (?e + 1) * of_int q"
      using bitlen_powi(1) [OF q] by (intro mult_left_mono) simp_all
    finally show ?thesis using q unfolding x by (simp add: pos_divide_less_eq pos_le_divide_eq)
  qed
  have lo: "2 powi (?e - 1) \<le> x"
  proof -
    have "2 powi (?e - 1) * of_int q \<le> 2 powi (?e - 1) * (2 powi (bitlen q) :: rat)"
      using bitlen_powi(2) [OF q] by (intro mult_left_mono) simp_all
    also have "\<dots> \<le> of_int p" using bitlen_powi(1) [OF p] by (simp add: power_int_add [symmetric])
    finally show ?thesis using q unfolding x by (simp add: pos_divide_less_eq pos_le_divide_eq)
  qed
  show "2 powi (rat_exponent x) \<le> x" "x < 2 powi (rat_exponent x + 1)"
    using up lo by (auto simp: rat_exponent_def pq Let_def)
qed

lemma rat_exponent_mono:
  assumes "0 < x" and "x \<le> y"
  shows "rat_exponent x \<le> rat_exponent y"
proof (rule ccontr)
  assume "\<not> rat_exponent x \<le> rat_exponent y"
  then have "rat_exponent y + 1 \<le> rat_exponent x" by simp
  then have "(2 :: rat) powi (rat_exponent y + 1) \<le> 2 powi (rat_exponent x)"
    by (intro power_int_increasing) simp_all
  with rat_exponent_bounds [of x] rat_exponent_bounds [of y] assms show False by linarith
qed

section \<open>Laws of rounding\<close>

lemma f64_pos_unfold:
  assumes "0 < x"
  obtains u where "u = 2 powi (rat_exponent x - 52)" "0 < u" "f64_pos x = of_int (round_half_even (x / u)) * u"
    "of_int (2 ^ 52) \<le> x / u" "x / u \<le> of_int (2 ^ 53)"
    "2 powi (rat_exponent x) = of_int (2 ^ 52) * u" "2 powi (rat_exponent x + 1) = of_int (2 ^ 53) * u"
proof -
  let ?e = "rat_exponent x"
  define u :: rat where "u = 2 powi (?e - 52)"
  have u: "0 < u" by (simp add: u_def)
  have e: "2 powi ?e = (2 :: rat) ^ 52 * u" "2 powi (?e + 1) = (2 :: rat) ^ 53 * u"
    using power_int_add [of "2 :: rat" 52 "?e - 52"] power_int_add [of "2 :: rat" 53 "?e - 52"]
    by (simp_all add: u_def add.commute)
  have "2 ^ 52 \<le> x / u" "x / u \<le> 2 ^ 53"
    using rat_exponent_bounds [OF assms] u unfolding e by (simp_all add: pos_le_divide_eq pos_divide_le_eq)
  then show thesis using that [of u] u e by (simp add: u_def f64_pos_def Let_def)
qed

lemma f64_pos_bounds:
  assumes "0 < x"
  shows "2 powi (rat_exponent x) \<le> f64_pos x" and "f64_pos x \<le> 2 powi (rat_exponent x + 1)"
proof -
  obtain u where u: "0 < u" "f64_pos x = of_int (round_half_even (x / u)) * u"
    "of_int (2 ^ 52) \<le> x / u" "x / u \<le> of_int (2 ^ 53)"
    "2 powi (rat_exponent x) = of_int (2 ^ 52) * u" "2 powi (rat_exponent x + 1) = of_int (2 ^ 53) * u"
    using f64_pos_unfold [OF assms] by metis
  have "(2 :: int) ^ 52 \<le> round_half_even (x / u)" "round_half_even (x / u) \<le> 2 ^ 53"
    using round_half_even_ge [OF u(3)] round_half_even_le [OF u(4)] by simp_all
  then have "of_int (2 ^ 52) \<le> (of_int (round_half_even (x / u)) :: rat)"
    "(of_int (round_half_even (x / u)) :: rat) \<le> of_int (2 ^ 53)" by (simp_all only: of_int_le_iff)
  then show "2 powi (rat_exponent x) \<le> f64_pos x" "f64_pos x \<le> 2 powi (rat_exponent x + 1)"
    unfolding u(2,5,6) using u(1) by (simp_all only: mult_right_mono less_imp_le)
qed

lemma f64_pos_mono:
  assumes "0 < x" and "x \<le> y"
  shows "f64_pos x \<le> f64_pos y"
proof (cases "rat_exponent x = rat_exponent y")
  case True
  define u :: rat where "u = 2 powi (rat_exponent y - 52)"
  have "0 < u" by (simp add: u_def)
  then have "round_half_even (x / u) \<le> round_half_even (y / u)"
    using assms(2) by (intro round_half_even_mono divide_right_mono) simp_all
  then have "of_int (round_half_even (x / u)) * u \<le> of_int (round_half_even (y / u)) * u"
    using \<open>0 < u\<close> by (intro mult_right_mono) simp_all
  then show ?thesis using True by (simp only: f64_pos_def u_def Let_def)
next
  case False
  then have "rat_exponent x + 1 \<le> rat_exponent y" using rat_exponent_mono [OF assms] by simp
  then have "(2 :: rat) powi (rat_exponent x + 1) \<le> 2 powi (rat_exponent y)"
    by (intro power_int_increasing) simp_all
  moreover have "0 < y" using assms by simp
  ultimately show ?thesis
    using f64_pos_bounds(2) [OF assms(1)] f64_pos_bounds(1) [of y] by linarith
qed

lemma f64_pos_positive: "0 < x \<Longrightarrow> 0 < f64_pos x"
  using f64_pos_bounds(1) [of x] zero_less_power_int [of "2 :: rat" "rat_exponent x"] by linarith

lemma f64_mono: "x \<le> y \<Longrightarrow> f64 x \<le> f64 y"
  using f64_pos_mono [of x y] f64_pos_mono [of "- y" "- x"] f64_pos_positive [of y] f64_pos_positive [of "- x"]
  by (auto simp: f64_def)

lemma f64_pos_error:
  assumes "0 < x"
  shows "\<bar>f64_pos x - x\<bar> \<le> x / 2 ^ 53"
proof -
  obtain u where u: "0 < u" "f64_pos x = of_int (round_half_even (x / u)) * u" "of_int (2 ^ 52) \<le> x / u"
    using f64_pos_unfold [OF assms] by metis
  have "f64_pos x - x = (of_int (round_half_even (x / u)) - x / u) * u"
    using u(1,2) by (simp add: left_diff_distrib)
  then have "\<bar>f64_pos x - x\<bar> = \<bar>of_int (round_half_even (x / u)) - x / u\<bar> * u"
    using u(1) by (simp add: abs_mult)
  also have "\<dots> \<le> 1 / 2 * u"
    using round_half_even_bounds u(1) by (intro mult_right_mono) simp_all
  also have "\<dots> \<le> x / 2 ^ 53"
    using u(1,3) by (simp add: pos_le_divide_eq)
  finally show ?thesis .
qed

lemma f64_error: "\<bar>f64 x - x\<bar> \<le> \<bar>x\<bar> / 2 ^ 53"
proof (cases "0 < x \<or> x = 0")
  case True
  then show ?thesis using f64_pos_error [of x] by (auto simp: f64_def)
next
  case False
  then have "f64 x - x = - (f64_pos (- x) - (- x))" "\<bar>x\<bar> = - x" "0 < - x" by (auto simp: f64_def)
  then show ?thesis using f64_pos_error [of "- x"] by (simp only: abs_minus_cancel)
qed

lemma f64_pos_grid:
  assumes "0 < x" and "x = of_int k * 2 powi (rat_exponent x - 52)"
  shows "f64_pos x = x"
proof -
  let ?u = "2 powi (rat_exponent x - 52) :: rat"
  have "x / ?u = of_int k" using assms(2) by (simp add: field_simps)
  then show ?thesis using assms(2) by (simp add: f64_pos_def Let_def)
qed

lemma f64_pos_int:
  assumes "0 < n" and "n \<le> 2 ^ 53"
  shows "f64_pos (of_int n) = of_int n"
proof (cases "n = 2 ^ 53")
  case True
  have "f64_pos (of_int (2 ^ 53)) = of_int (2 ^ 53)" by code_simp
  then show ?thesis using True by simp
next
  case False
  let ?e = "rat_exponent (of_int n)"
  have "(2 :: rat) powi ?e < 2 powi 53"
    using rat_exponent_bounds(1) [of "of_int n"] assms False by (simp add: power_int_def)
  then have e: "?e < 53" using power_int_increasing [of 53 ?e "2 :: rat"] by linarith
  define j where "j = nat (52 - ?e)"
  have "(2 :: rat) powi (?e - 52) = inverse (2 ^ j)"
    using e by (simp add: power_int_def j_def power_one_over inverse_eq_divide)
  then have "of_int n = of_int (n * 2 ^ j) * (2 powi (?e - 52) :: rat)" by simp
  moreover have "(0 :: rat) < of_int n" using assms(1) by simp
  ultimately show ?thesis using f64_pos_grid by blast
qed

lemma f64_exact_int:
  assumes "\<bar>n\<bar> \<le> 2 ^ 53"
  shows "f64 (of_int n) = of_int n"
  using f64_pos_int [of n] f64_pos_int [of "- n"] assms by (auto simp: f64_def)

section \<open>The interface of rounding\<close>

locale rounding =
  fixes rnd :: "rat \<Rightarrow> rat"
  assumes mono: "x \<le> y \<Longrightarrow> rnd x \<le> rnd y"
    and exact_int: "\<bar>n\<bar> \<le> 2 ^ 53 \<Longrightarrow> rnd (of_int n) = of_int n"
    and error: "\<bar>rnd x - x\<bar> \<le> \<bar>x\<bar> / 2 ^ 53"
begin

lemma zero: "rnd 0 = 0"
  using exact_int [of 0] by simp

lemma nonneg: "0 \<le> x \<Longrightarrow> 0 \<le> rnd x"
  using mono [of 0 x] zero by simp

lemma nonpos: "x \<le> 0 \<Longrightarrow> rnd x \<le> 0"
  using mono [of x 0] zero by simp

lemma le_int: "x \<le> of_int n \<Longrightarrow> \<bar>n\<bar> \<le> 2 ^ 53 \<Longrightarrow> rnd x \<le> of_int n"
  using mono [of x "of_int n"] exact_int [of n] by simp

lemma ge_int: "of_int n \<le> x \<Longrightarrow> \<bar>n\<bar> \<le> 2 ^ 53 \<Longrightarrow> of_int n \<le> rnd x"
  using mono [of "of_int n" x] exact_int [of n] by simp

text \<open>Rounding never crosses an integer that is a float itself.\<close>

lemma floor_le: "\<bar>\<lfloor>x\<rfloor>\<bar> \<le> 2 ^ 53 \<Longrightarrow> \<lfloor>x\<rfloor> \<le> \<lfloor>rnd x\<rfloor>"
  using ge_int [of "\<lfloor>x\<rfloor>" x] by (simp add: le_floor_iff)

lemma upper: "0 \<le> x \<Longrightarrow> rnd x \<le> x * (1 + 1 / 2 ^ 53)"
  using abs_le_D1 [OF error [of x]] by (simp add: distrib_left)

lemma lower: "0 \<le> x \<Longrightarrow> x * (1 - 1 / 2 ^ 53) \<le> rnd x"
  using abs_le_D2 [OF error [of x]] by (simp add: right_diff_distrib)

end

interpretation f64: rounding f64
  by unfold_locales (rule f64_mono f64_exact_int f64_error, assumption?)+

section \<open>Conversions\<close>

lemma trunc_i64_range [simp]: "in_i64 (trunc_i64 x)"
  by (simp add: trunc_i64_def Let_def) (simp add: in_i64_def)

lemma trunc_i64_int: "in_i64 n \<Longrightarrow> trunc_i64 (of_int n) = n"
  by (simp add: trunc_i64_def)

lemma trunc_i64_floor: "0 \<le> x \<Longrightarrow> x < 2 ^ 63 \<Longrightarrow> trunc_i64 x = \<lfloor>x\<rfloor>"
  by (auto simp: trunc_i64_def in_i64_def floor_less_iff)

lemma f64_one_mult: "\<bar>n\<bar> \<le> 2 ^ 53 \<Longrightarrow> f64 (f64 (of_int n) * 1) = of_int n"
  by (simp add: f64.exact_int)

end
