(* ===== verification/Isolation_Tier.thy ===== *)
theory Isolation_Tier
  imports Mitos_Prelude
begin

text \<open>
  Isolation assurance tiers, \<^verbatim>\<open>internal/controller/isolation_tier.go\<close>: the order of the tiers,
  the reading of node labels and pool specs, and the floor test. Labels are a map from label
  name to value; a missing label reads as the empty string, as in Go.
\<close>

type_synonym IsolationTier = string

definition IsolationTierHardwareKVM :: IsolationTier where
  "IsolationTierHardwareKVM = ''hardware-kvm''"

definition IsolationTierPVM :: IsolationTier where
  "IsolationTierPVM = ''pvm''"

definition IsolationTierGVisor :: IsolationTier where
  "IsolationTierGVisor = ''gvisor''"

definition isolationTierNodeLabel :: string where
  "isolationTierNodeLabel = ''mitos.run/isolation-tier''"

definition label_of :: "(string \<rightharpoonup> string) \<Rightarrow> string \<Rightarrow> string" where
  "label_of labels k = (case labels k of None \<Rightarrow> [] | Some v \<Rightarrow> v)"

definition assurance :: "IsolationTier \<Rightarrow> int" where
  "assurance t =
     (if t = IsolationTierHardwareKVM then 3
      else if t = IsolationTierPVM then 2
      else if t = IsolationTierGVisor then 1
      else 0)"

definition tier_meets :: "IsolationTier \<Rightarrow> IsolationTier \<Rightarrow> bool" where
  "tier_meets t minTier = (if minTier = [] then True else assurance t \<ge> assurance minTier)"

definition normalizeTier :: "string \<Rightarrow> IsolationTier" where
  "normalizeTier s =
     (if s = IsolationTierHardwareKVM then IsolationTierHardwareKVM
      else if s = IsolationTierPVM then IsolationTierPVM
      else if s = IsolationTierGVisor then IsolationTierGVisor
      else [])"

definition IsolationTierFromNodeLabels :: "(string \<rightharpoonup> string) \<Rightarrow> IsolationTier" where
  "IsolationTierFromNodeLabels labels =
     (let v = label_of labels isolationTierNodeLabel
      in if v = IsolationTierHardwareKVM then IsolationTierHardwareKVM
         else if v = IsolationTierPVM then IsolationTierPVM
         else if v = IsolationTierGVisor then IsolationTierGVisor
         else [])"

definition MinIsolationTierFromSpec :: "string \<Rightarrow> bool \<Rightarrow> IsolationTier" where
  "MinIsolationTierFromSpec minTier requireHardwareKVM =
     (let floor = normalizeTier minTier
      in if requireHardwareKVM \<and> assurance IsolationTierHardwareKVM > assurance floor
         then IsolationTierHardwareKVM
         else floor)"

section \<open>The order of the tiers\<close>

lemmas tier_names = IsolationTierHardwareKVM_def IsolationTierPVM_def IsolationTierGVisor_def

definition known_tier :: "IsolationTier \<Rightarrow> bool" where
  "known_tier t \<longleftrightarrow> t = IsolationTierHardwareKVM \<or> t = IsolationTierPVM \<or> t = IsolationTierGVisor"

lemma assurance_range: "0 \<le> assurance t" "assurance t \<le> 3"
  by (simp_all add: assurance_def)

lemma assurance_known: "0 < assurance t \<longleftrightarrow> known_tier t"
  by (simp add: assurance_def known_tier_def)

lemma assurance_inj: "known_tier t \<Longrightarrow> assurance t = assurance t' \<Longrightarrow> t = t'"
  by (auto simp: assurance_def known_tier_def tier_names split: if_splits)

lemma assurance_top: "assurance t = 3 \<longleftrightarrow> t = IsolationTierHardwareKVM"
  by (simp add: assurance_def)

lemma assurance_empty [simp]: "assurance [] = 0"
  by (simp add: assurance_def tier_names)

lemma normalizeTier_known: "normalizeTier s = s \<and> known_tier s \<or> normalizeTier s = [] \<and> \<not> known_tier s"
  by (auto simp: normalizeTier_def known_tier_def)

lemma assurance_normalizeTier [simp]: "assurance (normalizeTier s) = assurance s"
  using normalizeTier_known [of s] assurance_known [of s] assurance_range [of s]
  by (metis assurance_empty order_le_less)

lemma tier_meets_trans: "tier_meets t u \<Longrightarrow> u \<noteq> [] \<Longrightarrow> tier_meets u v \<Longrightarrow> tier_meets t v"
  by (auto simp: tier_meets_def split: if_splits)

lemma MinIsolationTierFromSpec_assurance:
  "assurance (MinIsolationTierFromSpec s req) = (if req then 3 else assurance s)"
proof -
  have k: "assurance IsolationTierHardwareKVM = 3" by (simp add: assurance_def)
  have "assurance s = 3" if "\<not> assurance s < 3" using that assurance_range(2) [of s] by simp
  then show ?thesis by (auto simp: MinIsolationTierFromSpec_def k)
qed

lemma MinIsolationTierFromSpec_meets:
  "tier_meets t (MinIsolationTierFromSpec s req) \<longleftrightarrow>
     (req \<longrightarrow> t = IsolationTierHardwareKVM) \<and> assurance s \<le> assurance t"
proof -
  have e: "assurance (MinIsolationTierFromSpec s req) = 0" if "MinIsolationTierFromSpec s req = []"
    using that by simp
  have "tier_meets t (MinIsolationTierFromSpec s req) \<longleftrightarrow> assurance (MinIsolationTierFromSpec s req) \<le> assurance t"
    using e assurance_range(1) [of t] by (auto simp: tier_meets_def)
  also have "\<dots> \<longleftrightarrow> (req \<longrightarrow> 3 \<le> assurance t) \<and> assurance s \<le> assurance t"
    using assurance_range(2) [of s] by (auto simp: MinIsolationTierFromSpec_assurance)
  also have "3 \<le> assurance t \<longleftrightarrow> t = IsolationTierHardwareKVM"
    using assurance_range(2) [of t] assurance_top [of t] by auto
  finally show ?thesis .
qed

text \<open>
  Isolation floors are fail-closed on recognised tiers. A node declared by its label meets the
  floor of a pool spec exactly when it is hardware-kvm if the spec requires that, and is at least
  as strong as the named minimum tier if that is a known one; in particular an undeclared or
  misspelt node label meets no known floor, and the convenience flag only ever tightens.
\<close>

theorem isolation_floor:
  "tier_meets (IsolationTierFromNodeLabels labels) (MinIsolationTierFromSpec spec require) \<longleftrightarrow>
     (require \<longrightarrow> labels isolationTierNodeLabel = Some IsolationTierHardwareKVM) \<and>
     (known_tier spec \<longrightarrow>
        (\<exists>v. labels isolationTierNodeLabel = Some v \<and> known_tier v \<and> assurance spec \<le> assurance v))"
proof -
  let ?v = "label_of labels isolationTierNodeLabel"
  have t: "IsolationTierFromNodeLabels labels = normalizeTier ?v"
    by (simp add: IsolationTierFromNodeLabels_def normalizeTier_def Let_def)
  have kvm: "normalizeTier ?v = IsolationTierHardwareKVM \<longleftrightarrow> labels isolationTierNodeLabel = Some IsolationTierHardwareKVM"
    by (auto simp: normalizeTier_def label_of_def tier_names split: option.splits if_splits)
  have "assurance spec \<le> assurance ?v \<longleftrightarrow>
      (known_tier spec \<longrightarrow> known_tier ?v \<and> assurance spec \<le> assurance ?v)"
    using assurance_known [of spec] assurance_known [of ?v] assurance_range(1) [of spec] assurance_range(1) [of ?v]
    by linarith
  moreover have "known_tier ?v \<and> assurance spec \<le> assurance ?v \<longleftrightarrow>
      (\<exists>v. labels isolationTierNodeLabel = Some v \<and> known_tier v \<and> assurance spec \<le> assurance v)"
    by (auto simp: label_of_def known_tier_def tier_names split: option.splits)
  ultimately show ?thesis unfolding t MinIsolationTierFromSpec_meets kvm by simp
qed

theorem isolation_floor_witness:
  "\<not> tier_meets (IsolationTierFromNodeLabels [isolationTierNodeLabel \<mapsto> ''pvm'']) (MinIsolationTierFromSpec ''gvisor'' True) \<and>
   tier_meets (IsolationTierFromNodeLabels [isolationTierNodeLabel \<mapsto> ''pvm'']) (MinIsolationTierFromSpec ''gvisor'' False) \<and>
   \<not> tier_meets (IsolationTierFromNodeLabels Map.empty) (MinIsolationTierFromSpec ''gvisor'' False)"
  unfolding isolation_floor by (simp add: known_tier_def tier_names assurance_def)

end
