(* ===== verification/Best_Pick.thy ===== *)
theory Best_Pick
  imports Mitos_Prelude
begin

text \<open>
  The scan that several selections of the controller share: start from a first candidate and
  replace it by every later one that beats it. Over a strict order that is total on different
  keys, the result does not depend on the order in which a Go map yields the candidates.
\<close>

fun pick_best :: "('a \<Rightarrow> 'a \<Rightarrow> bool) \<Rightarrow> 'a \<Rightarrow> 'a list \<Rightarrow> 'a" where
  "pick_best beats best [] = best"
| "pick_best beats best (x # xs) = pick_best beats (if beats x best then x else best) xs"

lemma pick_best_in: "pick_best beats b xs \<in> set (b # xs)"
proof (induction xs arbitrary: b)
  case (Cons x xs)
  from Cons [of "if beats x b then x else b"] show ?case by (auto split: if_splits)
qed simp

locale best_pick =
  fixes key :: "'a \<Rightarrow> 'k" and beats :: "'a \<Rightarrow> 'a \<Rightarrow> bool"
  assumes irrefl: "\<not> beats x x"
    and trans: "beats x y \<Longrightarrow> beats y z \<Longrightarrow> beats x z"
    and total: "key x \<noteq> key y \<Longrightarrow> beats x y \<or> beats y x"
begin

lemma asym: "beats x y \<Longrightarrow> \<not> beats y x"
  using irrefl trans by blast

lemma pick_beats_all:
  assumes "inj_on key (set (b # xs))" and "y \<in> set (b # xs)" and "y \<noteq> pick_best beats b xs"
  shows "beats (pick_best beats b xs) y"
  using assms
proof (induction xs arbitrary: b y)
  case Nil
  then show ?case by simp
next
  case (Cons x xs)
  define c where "c = (if beats x b then x else b)"
  define l where "l = (if beats x b then b else x)"
  let ?p = "pick_best beats c xs"
  have sub: "set (c # xs) \<subseteq> set (b # x # xs)" by (auto simp: c_def)
  have IH: "z = ?p \<or> beats ?p z" if "z \<in> set (c # xs)" for z
    using Cons.IH [OF inj_on_subset [OF Cons.prems(1) sub] that] by blast
  have "l = c \<or> beats c l"
  proof (cases "x = b")
    case False
    then have "key x \<noteq> key b" using inj_onD [OF Cons.prems(1), of x b] by auto
    then show ?thesis using total [of x b] by (auto simp: c_def l_def)
  qed (simp add: c_def l_def)
  moreover have "c = ?p \<or> beats ?p c" by (rule IH) (rule list.set_intros)
  ultimately have l: "l = ?p \<or> beats ?p l" using trans [of ?p c l] by metis
  have "y = l \<or> y \<in> set (c # xs)" using Cons.prems(2) by (auto simp: c_def l_def)
  then have "y = ?p \<or> beats ?p y" using l IH by blast
  then show ?case using Cons.prems(3) by (simp add: c_def)
qed

lemma pick_order_independent:
  assumes "inj_on key (set (b # xs))" and "set (b # xs) = set (c # ys)"
  shows "pick_best beats b xs = pick_best beats c ys"
proof (rule ccontr)
  let ?p = "pick_best beats b xs" and ?q = "pick_best beats c ys"
  assume ne: "?p \<noteq> ?q"
  have q: "?q \<in> set (b # xs)" unfolding assms(2) by (rule pick_best_in)
  have p: "?p \<in> set (c # ys)" unfolding assms(2) [symmetric] by (rule pick_best_in)
  have "inj_on key (set (c # ys))" using assms(1) unfolding assms(2) .
  then have "beats ?q ?p" using p ne by (rule pick_beats_all)
  moreover have "beats ?p ?q" using assms(1) q ne [symmetric] by (rule pick_beats_all)
  ultimately show False using asym by blast
qed

end

end
