(* ===== verification/Node_Registry.thy ===== *)
theory Node_Registry
  imports Float64 Isolation_Tier Best_Pick Go_Text
begin

text \<open>
  The controller's node registry and fork scheduler, \<^verbatim>\<open>internal/controller/node_registry.go\<close> and
  \<^verbatim>\<open>scheduler.go\<close>. The node map is a partial map; where the code ranges over it, the iteration
  order is an argument (any enumeration of the keys). The clock is the argument \<open>now\<close>. A
  dialed connection and a TLS configuration are opaque handles; closing a connection is recorded
  in the registry.
\<close>

section \<open>Data\<close>

type_synonym handle = nat

record TemplateCapacity =
  tc_TemplateID :: string
  tc_SnapshotDigest :: string
  tc_SharedOnceBytes :: int
  tc_AvgForkUniqueBytes :: int
  tc_ForkCount :: int

record NodeInfo =
  n_Name :: string
  n_Endpoint :: string
  n_HTTPEndpoint :: string
  n_CASEndpoint :: string
  n_ActiveSandboxes :: int
  n_MaxSandboxes :: int
  n_MemoryTotal :: int
  n_MemoryUsed :: int
  n_DiskTotal :: int
  n_DiskFree :: int
  n_GPUTotal :: int
  n_GPUUsed :: int
  n_GPUType :: string
  n_IsolationTier :: IsolationTier
  n_TemplateIDs :: "string list"
  n_SnapshotIDs :: "string list"
  n_TemplateDigests :: "string \<rightharpoonup> string"
  n_TemplateEstimates :: "string \<rightharpoonup> TemplateCapacity"
  n_LastHeartbeat :: time
  n_probeFailures :: int
  n_TLS :: "handle option"
  n_conn :: "handle option"

record NodeRegistry =
  r_nodes :: "string \<rightharpoonup> NodeInfo"
  r_TLS :: "handle option"
  r_overcommitFactor :: rat
  r_closed :: "handle list"

record ForkRequest =
  fr_TemplateID :: string
  fr_PreferredNode :: string
  fr_MemoryBytes :: int
  fr_GPUCount :: int
  fr_GPUType :: string
  fr_MinIsolationTier :: IsolationTier

definition probeFailureThreshold :: int where
  "probeFailureThreshold = 3"

definition minute_ns :: duration where
  "minute_ns = 60 * second_ns"

section \<open>GPU labels\<close>

definition gpuNodeLabel :: string where
  "gpuNodeLabel = ''mitos.run/gpu''"

definition gpuTypeNodeLabel :: string where
  "gpuTypeNodeLabel = ''mitos.run/gpu-type''"

definition GPUFromNodeLabels :: "(string \<rightharpoonup> string) \<Rightarrow> int \<times> string" where
  "GPUFromNodeLabels labels =
     (case labels gpuNodeLabel of
        None \<Rightarrow> (0, [])
      | Some v \<Rightarrow>
          if v = [] \<or> v = ''false'' \<or> v = ''0'' then (0, [])
          else
            let total =
              (if v = ''true'' then 1
               else case ParseInt32 v of
                      Some n \<Rightarrow> if n > 0 then n else 1
                    | None \<Rightarrow> 1)
            in (total, label_of labels gpuTypeNodeLabel))"

section \<open>Registry operations\<close>

definition NewNodeRegistry :: NodeRegistry where
  "NewNodeRegistry = \<lparr>r_nodes = Map.empty, r_TLS = None, r_overcommitFactor = 1, r_closed = []\<rparr>"

definition SetOvercommitFactor :: "NodeRegistry \<Rightarrow> rat \<Rightarrow> NodeRegistry" where
  "SetOvercommitFactor r f = (if f \<le> 0 then r else r\<lparr>r_overcommitFactor := f\<rparr>)"

definition SetNodeMemory :: "NodeRegistry \<Rightarrow> string \<Rightarrow> int \<Rightarrow> int \<Rightarrow> NodeRegistry" where
  "SetNodeMemory r name totalBytes used =
     (case r_nodes r name of
        None \<Rightarrow> r
      | Some node \<Rightarrow> r\<lparr>r_nodes := (r_nodes r)(name \<mapsto> node\<lparr>n_MemoryTotal := totalBytes, n_MemoryUsed := used\<rparr>)\<rparr>)"

definition closing :: "NodeRegistry \<Rightarrow> handle option \<Rightarrow> NodeRegistry" where
  "closing r h = (case h of None \<Rightarrow> r | Some c \<Rightarrow> r\<lparr>r_closed := r_closed r @ [c]\<rparr>)"

definition Register :: "time \<Rightarrow> NodeRegistry \<Rightarrow> NodeInfo \<Rightarrow> NodeRegistry" where
  "Register now r info =
     (let (info1, r1) =
        (case r_nodes r (n_Name info) of
           None \<Rightarrow> (info, r)
         | Some old \<Rightarrow>
             if n_conn old \<noteq> None
             then if n_Endpoint old = n_Endpoint info \<and> n_conn info = None
                  then (info\<lparr>n_conn := n_conn old\<rparr>, r)
                  else (info, closing r (n_conn old))
             else (info, r))
      in r1\<lparr>r_nodes := (r_nodes r1)(n_Name info \<mapsto> info1\<lparr>n_LastHeartbeat := now\<rparr>)\<rparr>)"

definition Unregister :: "NodeRegistry \<Rightarrow> string \<Rightarrow> NodeRegistry" where
  "Unregister r name =
     (case r_nodes r name of
        None \<Rightarrow> r
      | Some node \<Rightarrow> (closing r (n_conn node))\<lparr>r_nodes := (r_nodes r)(name := None)\<rparr>)"

definition isHealthy :: "time \<Rightarrow> NodeInfo \<Rightarrow> bool" where
  "isHealthy now n =
     (if n_probeFailures n \<ge> probeFailureThreshold then False
      else now - n_LastHeartbeat n < 2 * minute_ns)"

definition hasSnapshot :: "NodeInfo \<Rightarrow> string \<Rightarrow> bool" where
  "hasSnapshot n x =
     (if list_ex (\<lambda>s. s = x) (n_SnapshotIDs n) then True
      else list_ex (\<lambda>t. t = x) (n_TemplateIDs n))"

definition AddTemplateWithDigest :: "NodeRegistry \<Rightarrow> string \<Rightarrow> string \<Rightarrow> string \<Rightarrow> NodeRegistry" where
  "AddTemplateWithDigest r nodeName templateID digest =
     (case r_nodes r nodeName of
        None \<Rightarrow> r
      | Some node \<Rightarrow>
          let node1 = (if digest \<noteq> []
                       then node\<lparr>n_TemplateDigests := (n_TemplateDigests node)(templateID \<mapsto> digest)\<rparr>
                       else node);
              node2 = (if list_ex (\<lambda>t. t = templateID) (n_TemplateIDs node1) then node1
                       else node1\<lparr>n_TemplateIDs := n_TemplateIDs node1 @ [templateID]\<rparr>)
          in r\<lparr>r_nodes := (r_nodes r)(nodeName \<mapsto> node2)\<rparr>)"

definition AddTemplate :: "NodeRegistry \<Rightarrow> string \<Rightarrow> string \<Rightarrow> NodeRegistry" where
  "AddTemplate r nodeName templateID = AddTemplateWithDigest r nodeName templateID []"

definition GetNode :: "NodeRegistry \<Rightarrow> string \<Rightarrow> NodeInfo option" where
  "GetNode r name = r_nodes r name"

definition NodeHealthy :: "time \<Rightarrow> NodeRegistry \<Rightarrow> string \<Rightarrow> bool" where
  "NodeHealthy now r name = (case r_nodes r name of None \<Rightarrow> False | Some node \<Rightarrow> isHealthy now node)"

definition priorProbeFailures :: "NodeRegistry \<Rightarrow> string \<Rightarrow> int" where
  "priorProbeFailures r name = (case r_nodes r name of None \<Rightarrow> 0 | Some node \<Rightarrow> n_probeFailures node)"

definition TemplateDigestOnNode :: "NodeRegistry \<Rightarrow> string \<Rightarrow> string \<Rightarrow> string option" where
  "TemplateDigestOnNode r nodeName templateID =
     (case r_nodes r nodeName of
        None \<Rightarrow> None
      | Some n \<Rightarrow>
          (case n_TemplateDigests n templateID of
             None \<Rightarrow> None
           | Some d \<Rightarrow> if d \<noteq> [] then Some d else None))"

text \<open>
  Dialing: the transport credentials are those of the node, then those of the registry, then
  none. The dialer is an argument.
\<close>

datatype creds = Insecure | TLS_creds handle

datatype conn_error = NodeNotFound string | DialFailed string

definition dial_creds :: "NodeRegistry \<Rightarrow> NodeInfo \<Rightarrow> creds" where
  "dial_creds r node =
     (case n_TLS node of
        Some c \<Rightarrow> TLS_creds c
      | None \<Rightarrow> (case r_TLS r of Some c \<Rightarrow> TLS_creds c | None \<Rightarrow> Insecure))"

definition GetConnection ::
  "(string \<Rightarrow> creds \<Rightarrow> handle option) \<Rightarrow> NodeRegistry \<Rightarrow> string \<Rightarrow> (conn_error, handle) result \<times> NodeRegistry" where
  "GetConnection dial r nodeName =
     (case r_nodes r nodeName of
        None \<Rightarrow> (Inl (NodeNotFound nodeName), r)
      | Some node \<Rightarrow>
          (case n_conn node of
             Some c \<Rightarrow> (Inr c, r)
           | None \<Rightarrow>
               (case dial (n_Endpoint node) (dial_creds r node) of
                  None \<Rightarrow> (Inl (DialFailed nodeName), r)
                | Some c \<Rightarrow> (Inr c, r\<lparr>r_nodes := (r_nodes r)(nodeName \<mapsto> node\<lparr>n_conn := Some c\<rparr>)\<rparr>))))"

definition NodeMTLS :: "NodeRegistry \<Rightarrow> string \<Rightarrow> bool" where
  "NodeMTLS r nodeName =
     (case r_nodes r nodeName of
        None \<Rightarrow> False
      | Some node \<Rightarrow> n_TLS node \<noteq> None \<or> r_TLS r \<noteq> None)"

end
