(* ===== verification/Node_Scheduler.thy ===== *)
theory Node_Scheduler
  imports Node_Registry
begin

text \<open>
  Admission and node selection of \<^verbatim>\<open>internal/controller/scheduler.go\<close> and the selection part of
  \<^verbatim>\<open>node_registry.go\<close>: memory, disk, GPU, sandbox count and isolation gates, and the packing order.
  The argument \<open>order\<close> is the order in which Go ranges over the node map.
\<close>

section \<open>Admission\<close>

definition defaultColdSharedBytes :: int where
  "defaultColdSharedBytes = 256 * 1024 * 1024"

definition defaultForkUniqueBytes :: int where
  "defaultForkUniqueBytes = 8 * 1024 * 1024"

definition minDiskHeadroomFraction :: rat where
  "minDiskHeadroomFraction = f64 (15 / 100)"

text \<open>The headroom, \<open>None\<close> when the budget is unknown.\<close>

definition available :: "NodeRegistry \<Rightarrow> NodeInfo \<Rightarrow> int option" where
  "available r node =
     (if n_MemoryTotal node \<le> 0 then None
      else
        let factor = (if r_overcommitFactor r \<le> 0 then 1 else r_overcommitFactor r)
        in Some (i64 (trunc_i64 (f64 (f64 (of_int (n_MemoryTotal node)) * factor)) - n_MemoryUsed node)))"

definition hasDiskHeadroom :: "NodeInfo \<Rightarrow> bool" where
  "hasDiskHeadroom n =
     (if n_DiskTotal n \<le> 0 then True
      else f64 (of_int (n_DiskFree n)) \<ge> f64 (f64 (of_int (n_DiskTotal n)) * minDiskHeadroomFraction))"

definition isWarmFor :: "NodeInfo \<Rightarrow> string \<Rightarrow> bool" where
  "isWarmFor n templateID =
     (if templateID = [] then False
      else case n_TemplateEstimates n templateID of
             None \<Rightarrow> False
           | Some est \<Rightarrow> tc_ForkCount est > 0)"

definition forkCountFor :: "NodeInfo \<Rightarrow> string \<Rightarrow> int" where
  "forkCountFor n templateID =
     (case n_TemplateEstimates n templateID of None \<Rightarrow> 0 | Some est \<Rightarrow> tc_ForkCount est)"

definition node_values :: "NodeRegistry \<Rightarrow> string list \<Rightarrow> NodeInfo list" where
  "node_values r order = List.map_filter (r_nodes r) order"

definition templateEstimateAcross ::
  "NodeRegistry \<Rightarrow> string list \<Rightarrow> NodeInfo \<Rightarrow> string \<Rightarrow> TemplateCapacity option" where
  "templateEstimateAcross r order node templateID =
     (if templateID = [] then None
      else case n_TemplateEstimates node templateID of
             Some est \<Rightarrow> Some est
           | None \<Rightarrow>
               (case find (\<lambda>n. n_TemplateEstimates n templateID \<noteq> None) (node_values r order) of
                  None \<Rightarrow> None
                | Some n \<Rightarrow> n_TemplateEstimates n templateID))"

definition projectedCost :: "NodeRegistry \<Rightarrow> string list \<Rightarrow> NodeInfo \<Rightarrow> string \<Rightarrow> int" where
  "projectedCost r order node templateID =
     (let est = templateEstimateAcross r order node templateID;
          unique = (case est of
                      Some e \<Rightarrow> if tc_AvgForkUniqueBytes e > 0 then tc_AvgForkUniqueBytes e
                                else defaultForkUniqueBytes
                    | None \<Rightarrow> defaultForkUniqueBytes)
      in if isWarmFor node templateID then unique
         else
           let shared = (case est of
                           Some e \<Rightarrow> if tc_SharedOnceBytes e > 0 then tc_SharedOnceBytes e
                                     else defaultColdSharedBytes
                         | None \<Rightarrow> defaultColdSharedBytes)
           in i64 (shared + unique))"

definition atSandboxCeiling :: "NodeInfo \<Rightarrow> bool" where
  "atSandboxCeiling n \<longleftrightarrow> n_MaxSandboxes n > 0 \<and> n_ActiveSandboxes n \<ge> n_MaxSandboxes n"

definition admitsGPU :: "NodeInfo \<Rightarrow> ForkRequest \<Rightarrow> bool" where
  "admitsGPU n req =
     (if fr_GPUCount req \<le> 0 then True
      else if n_GPUTotal n \<le> 0 then False
      else if fr_GPUType req \<noteq> [] \<and> n_GPUType n \<noteq> fr_GPUType req then False
      else i32 (n_GPUTotal n - n_GPUUsed n) \<ge> fr_GPUCount req)"

definition admitsTier :: "NodeInfo \<Rightarrow> ForkRequest \<Rightarrow> bool" where
  "admitsTier n req = tier_meets (n_IsolationTier n) (fr_MinIsolationTier req)"

definition admitsRequest :: "NodeRegistry \<Rightarrow> string list \<Rightarrow> NodeInfo \<Rightarrow> ForkRequest \<Rightarrow> bool" where
  "admitsRequest r order node req =
     (if atSandboxCeiling node then False
      else if \<not> hasDiskHeadroom node then False
      else if \<not> admitsGPU node req then False
      else if \<not> admitsTier node req then False
      else
        (case available r node of
           None \<Rightarrow> True
         | Some avail \<Rightarrow>
             let cost = projectedCost r order node (fr_TemplateID req);
                 cost' = (if fr_MemoryBytes req > cost then fr_MemoryBytes req else cost)
             in cost' \<le> avail))"

section \<open>Selection\<close>

definition packTier :: "NodeInfo \<Rightarrow> string \<Rightarrow> int" where
  "packTier n snapshotID =
     (if snapshotID = [] \<or> \<not> hasSnapshot n snapshotID then 0
      else if forkCountFor n snapshotID > 0 then 2 else 1)"

definition denser :: "NodeRegistry \<Rightarrow> NodeInfo \<Rightarrow> NodeInfo \<Rightarrow> string \<Rightarrow> bool" where
  "denser r c b snapshotID =
     (let cTier = packTier c snapshotID; bTier = packTier b snapshotID
      in if cTier \<noteq> bTier then cTier > bTier
         else if cTier > 0 then
           let cForks = forkCountFor c snapshotID; bForks = forkCountFor b snapshotID
           in if cForks \<noteq> bForks then cForks > bForks else n_Name c < n_Name b
         else
           let (cAvail, cKnown) = (case available r c of None \<Rightarrow> (0, False) | Some a \<Rightarrow> (a, True));
               (bAvail, bKnown) = (case available r b of None \<Rightarrow> (0, False) | Some a \<Rightarrow> (a, True))
           in if cKnown \<noteq> bKnown then cKnown
              else if cKnown \<and> cAvail \<noteq> bAvail then cAvail > bAvail
              else n_Name c < n_Name b)"

definition packBest :: "NodeRegistry \<Rightarrow> NodeInfo list \<Rightarrow> string \<Rightarrow> NodeInfo" where
  "packBest r admitted snapshotID =
     pick_best (\<lambda>c b. denser r c b snapshotID) (hd admitted) (tl admitted)"

definition anyNodeMeetsTier :: "time \<Rightarrow> NodeRegistry \<Rightarrow> string list \<Rightarrow> IsolationTier \<Rightarrow> bool" where
  "anyNodeMeetsTier now r order minTier =
     list_ex (\<lambda>n. isHealthy now n \<and> tier_meets (n_IsolationTier n) minTier) (node_values r order)"

definition anyHealthyNodeHasDiskHeadroom :: "time \<Rightarrow> NodeRegistry \<Rightarrow> string list \<Rightarrow> bool" where
  "anyHealthyNodeHasDiskHeadroom now r order =
     list_ex (\<lambda>n. isHealthy now n \<and> hasDiskHeadroom n) (node_values r order)"

text \<open>The last four are wrapped around \<^verbatim>\<open>ErrNoCapacity\<close>.\<close>

datatype sched_error =
    NoNodesRegistered
  | NoHealthyNodes
  | NoCapacityTier IsolationTier
  | NoCapacityGPU int string
  | NoCapacityDisk
  | NoCapacityMemory rat

fun ErrNoCapacity :: "sched_error \<Rightarrow> bool" where
  "ErrNoCapacity NoNodesRegistered = False"
| "ErrNoCapacity NoHealthyNodes = False"
| "ErrNoCapacity _ = True"

definition preferred_choice :: "time \<Rightarrow> NodeRegistry \<Rightarrow> string list \<Rightarrow> ForkRequest \<Rightarrow> NodeInfo option" where
  "preferred_choice now r order req =
     (if fr_PreferredNode req \<noteq> [] then
        (case r_nodes r (fr_PreferredNode req) of
           None \<Rightarrow> None
         | Some node \<Rightarrow> if isHealthy now node \<and> admitsRequest r order node req then Some node else None)
      else None)"

definition no_capacity :: "time \<Rightarrow> NodeRegistry \<Rightarrow> string list \<Rightarrow> ForkRequest \<Rightarrow> sched_error" where
  "no_capacity now r order req =
     (if fr_MinIsolationTier req \<noteq> [] \<and> \<not> anyNodeMeetsTier now r order (fr_MinIsolationTier req)
      then NoCapacityTier (fr_MinIsolationTier req)
      else if fr_GPUCount req > 0 then NoCapacityGPU (fr_GPUCount req) (fr_GPUType req)
      else if \<not> anyHealthyNodeHasDiskHeadroom now r order then NoCapacityDisk
      else NoCapacityMemory (r_overcommitFactor r))"

definition SelectNodeForFork ::
  "time \<Rightarrow> NodeRegistry \<Rightarrow> string list \<Rightarrow> ForkRequest \<Rightarrow> (sched_error, NodeInfo) result" where
  "SelectNodeForFork now r order req =
     (if order = [] then Inl NoNodesRegistered
      else
        case preferred_choice now r order req of
          Some node \<Rightarrow> Inr node
        | None \<Rightarrow>
            let healthy = filter (isHealthy now) (node_values r order);
                admitted = filter (\<lambda>n. admitsRequest r order n req) healthy
            in if healthy = [] then Inl NoHealthyNodes
               else if admitted = [] then Inl (no_capacity now r order req)
               else Inr (packBest r admitted (fr_TemplateID req)))"

definition SelectNode ::
  "time \<Rightarrow> NodeRegistry \<Rightarrow> string list \<Rightarrow> string \<Rightarrow> string \<Rightarrow> (sched_error, NodeInfo) result" where
  "SelectNode now r order snapshotID preferredNode =
     SelectNodeForFork now r order
       \<lparr>fr_TemplateID = snapshotID, fr_PreferredNode = preferredNode, fr_MemoryBytes = 0, fr_GPUCount = 0,
        fr_GPUType = [], fr_MinIsolationTier = []\<rparr>"

section \<open>Template holders\<close>

definition NodesWithTemplate :: "time \<Rightarrow> NodeRegistry \<Rightarrow> string list \<Rightarrow> string \<Rightarrow> NodeInfo list" where
  "NodesWithTemplate now r order templateID =
     filter (\<lambda>n. isHealthy now n \<and> hasSnapshot n templateID) (node_values r order)"

record SnapshotHolder =
  sh_Name :: string
  sh_Digest :: string

definition digest_of :: "NodeInfo \<Rightarrow> string \<Rightarrow> string" where
  "digest_of n templateID = (case n_TemplateDigests n templateID of None \<Rightarrow> [] | Some d \<Rightarrow> d)"

definition SnapshotHolders :: "time \<Rightarrow> NodeRegistry \<Rightarrow> string list \<Rightarrow> string \<Rightarrow> SnapshotHolder list" where
  "SnapshotHolders now r order templateID =
     map (\<lambda>n. \<lparr>sh_Name = n_Name n, sh_Digest = digest_of n templateID\<rparr>)
       (filter (\<lambda>n. isHealthy now n \<and> hasSnapshot n templateID) (node_values r order))"

definition casBaseURL :: "NodeInfo \<Rightarrow> string" where
  "casBaseURL n = (if n_CASEndpoint n = [] then [] else ''https://'' @ n_CASEndpoint n @ ''/cas'')"

definition TemplateSource ::
  "time \<Rightarrow> NodeRegistry \<Rightarrow> string list \<Rightarrow> string \<Rightarrow> (NodeInfo \<times> string \<times> string) option" where
  "TemplateSource now r order templateID =
     (case filter (\<lambda>n. isHealthy now n \<and> hasSnapshot n templateID \<and>
             digest_of n templateID \<noteq> [] \<and> n_CASEndpoint n \<noteq> []) (node_values r order) of
        [] \<Rightarrow> None
      | n # ns \<Rightarrow>
          let best = pick_best (\<lambda>c b. n_Name c < n_Name b) n ns
          in Some (best, casBaseURL best, digest_of best templateID))"

definition TemplateDigest :: "time \<Rightarrow> NodeRegistry \<Rightarrow> string list \<Rightarrow> string \<Rightarrow> string option" where
  "TemplateDigest now r order templateID =
     (case find (\<lambda>n. isHealthy now n \<and> hasSnapshot n templateID \<and> digest_of n templateID \<noteq> []) (node_values r order) of
        None \<Rightarrow> None
      | Some n \<Rightarrow> Some (digest_of n templateID))"

definition ListNodes :: "NodeRegistry \<Rightarrow> string list \<Rightarrow> NodeInfo list" where
  "ListNodes r order = node_values r order"

fun PruneStale_loop :: "time \<Rightarrow> duration \<Rightarrow> NodeRegistry \<Rightarrow> int \<Rightarrow> string list \<Rightarrow> int \<times> NodeRegistry" where
  "PruneStale_loop now maxAge r pruned [] = (pruned, r)"
| "PruneStale_loop now maxAge r pruned (name # names) =
     (case r_nodes r name of
        None \<Rightarrow> PruneStale_loop now maxAge r pruned names
      | Some node \<Rightarrow>
          if now - n_LastHeartbeat node \<ge> maxAge
          then PruneStale_loop now maxAge
                 ((closing r (n_conn node))\<lparr>r_nodes := (r_nodes r)(name := None)\<rparr>) (pruned + 1) names
          else PruneStale_loop now maxAge r pruned names)"

definition PruneStale :: "time \<Rightarrow> NodeRegistry \<Rightarrow> string list \<Rightarrow> duration \<Rightarrow> int \<times> NodeRegistry" where
  "PruneStale now r order maxAge = PruneStale_loop now maxAge r 0 order"

section \<open>The packing order\<close>

text \<open>What \<open>denser\<close> compares before it falls back to the node name.\<close>

definition pack_rank :: "NodeRegistry \<Rightarrow> string \<Rightarrow> NodeInfo \<Rightarrow> int \<times> int \<times> int" where
  "pack_rank r s n =
     (packTier n s,
      if packTier n s > 0 then forkCountFor n s else if available r n = None then 0 else 1,
      if packTier n s > 0 then 0 else case available r n of None \<Rightarrow> 0 | Some a \<Rightarrow> a)"

definition lex_greater :: "int \<times> int \<times> int \<Rightarrow> int \<times> int \<times> int \<Rightarrow> bool" where
  "lex_greater x y \<longleftrightarrow>
     (case x of (a, b, c) \<Rightarrow> case y of (d, e, f) \<Rightarrow> a > d \<or> a = d \<and> (b > e \<or> b = e \<and> c > f))"

lemma lex_greater_trans: "lex_greater x y \<Longrightarrow> lex_greater y z \<Longrightarrow> lex_greater x z"
  by (auto simp: lex_greater_def split: prod.splits)

lemma lex_greater_total: "x \<noteq> y \<Longrightarrow> lex_greater x y \<or> lex_greater y x"
  by (auto simp: lex_greater_def split: prod.splits)

lemma lex_greater_irrefl: "\<not> lex_greater x x"
  by (auto simp: lex_greater_def split: prod.splits)

lemma packTier_nonneg: "0 \<le> packTier n s"
  by (simp add: packTier_def)

lemma denser_iff:
  "denser r c b s \<longleftrightarrow> lex_greater (pack_rank r s c) (pack_rank r s b) \<or>
     pack_rank r s c = pack_rank r s b \<and> n_Name c < n_Name b"
  using packTier_nonneg [of c s] packTier_nonneg [of b s]
  by (auto simp: denser_def pack_rank_def lex_greater_def Let_def split: option.splits)

interpretation dens: best_pick n_Name "\<lambda>c b. denser r c b s" for r s
proof unfold_locales
  fix x y z
  show "\<not> denser r x x s" by (simp add: denser_iff lex_greater_irrefl)
  show "denser r x z s" if "denser r x y s" "denser r y z s"
    using that lex_greater_trans [of "pack_rank r s x" "pack_rank r s y" "pack_rank r s z"]
    by (auto simp: denser_iff)
  show "denser r x y s \<or> denser r y x s" if "n_Name x \<noteq> n_Name y"
    using that lex_greater_total [of "pack_rank r s x" "pack_rank r s y"]
    by (cases "pack_rank r s x = pack_rank r s y") (auto simp: denser_iff)
qed

interpretation nameorder: best_pick n_Name "\<lambda>c b. n_Name c < n_Name b"
  by unfold_locales auto

section \<open>Ranging over the node map\<close>

definition reg_names :: "NodeRegistry \<Rightarrow> bool" where
  "reg_names r \<longleftrightarrow> (\<forall>k n. r_nodes r k = Some n \<longrightarrow> n_Name n = k)"

definition enumerates :: "NodeRegistry \<Rightarrow> string list \<Rightarrow> bool" where
  "enumerates r order \<longleftrightarrow> distinct order \<and> set order = dom (r_nodes r)"

lemma set_node_values: "enumerates r order \<Longrightarrow> set (node_values r order) = ran (r_nodes r)"
  by (force simp: enumerates_def node_values_def ran_def List.map_filter_def dom_def)

lemma names_inj: "reg_names r \<Longrightarrow> inj_on n_Name (ran (r_nodes r))"
  by (auto simp: reg_names_def ran_def intro!: inj_onI)

lemma registered_ran: "reg_names r \<Longrightarrow> n \<in> ran (r_nodes r) \<longleftrightarrow> r_nodes r (n_Name n) = Some n"
  by (auto simp: reg_names_def ran_def)

text \<open>Whether \<open>n\<close> is a registered, healthy node that admits the request.\<close>

definition eligible :: "time \<Rightarrow> NodeRegistry \<Rightarrow> string list \<Rightarrow> ForkRequest \<Rightarrow> NodeInfo \<Rightarrow> bool" where
  "eligible now r order req n \<longleftrightarrow> n \<in> ran (r_nodes r) \<and> isHealthy now n \<and> admitsRequest r order n req"

text \<open>A healthy, admitting preferred node wins; otherwise the unbeaten eligible node.\<close>

definition is_preferred :: "time \<Rightarrow> NodeRegistry \<Rightarrow> string list \<Rightarrow> ForkRequest \<Rightarrow> NodeInfo \<Rightarrow> bool" where
  "is_preferred now r order req n \<longleftrightarrow> fr_PreferredNode req \<noteq> [] \<and>
     r_nodes r (fr_PreferredNode req) = Some n \<and> eligible now r order req n"

lemma packBest_in: "xs \<noteq> [] \<Longrightarrow> packBest r xs s \<in> set xs"
  using pick_best_in [of "\<lambda>c b. denser r c b s" "hd xs" "tl xs"] by (simp add: packBest_def)

lemma packBest_beats:
  assumes "xs \<noteq> []" "inj_on n_Name (set xs)" "y \<in> set xs" "y \<noteq> packBest r xs s"
  shows "denser r (packBest r xs s) y s"
proof -
  have e: "set (hd xs # tl xs) = set xs" using assms(1) by simp
  have "inj_on n_Name (set (hd xs # tl xs))" "y \<in> set (hd xs # tl xs)" unfolding e by (rule assms(2), rule assms(3))
  then show ?thesis unfolding packBest_def using assms(4) [unfolded packBest_def] by (rule dens.pick_beats_all)
qed

lemma packBest_order:
  assumes "xs \<noteq> []" "inj_on n_Name (set xs)" "set xs = set ys"
  shows "packBest r xs s = packBest r ys s"
proof -
  have "ys \<noteq> []" using assms by auto
  then have e: "set (hd xs # tl xs) = set xs" "set (hd ys # tl ys) = set ys" using assms(1) by simp_all
  have "inj_on n_Name (set (hd xs # tl xs))" unfolding e by (rule assms(2))
  then show ?thesis unfolding packBest_def by (rule dens.pick_order_independent) (simp only: e assms(3))
qed

section \<open>Selection meets its specification\<close>

lemma enumerates_empty: "enumerates r order \<Longrightarrow> order = [] \<longleftrightarrow> ran (r_nodes r) = {}"
  by (auto simp: enumerates_def ran_def dom_def)

lemma SelectNodeForFork_cases:
  assumes en: "enumerates r order"
  obtains (preferred) n where "is_preferred now r order req n" "SelectNodeForFork now r order req = Inr n"
    | (packed) xs where "\<nexists>n. is_preferred now r order req n" "set xs = {n. eligible now r order req n}" "xs \<noteq> []"
        "SelectNodeForFork now r order req = Inr (packBest r xs (fr_TemplateID req))"
    | (unhealthy) e where "SelectNodeForFork now r order req = Inl e" "\<not> ErrNoCapacity e"
        "\<forall>n \<in> ran (r_nodes r). \<not> isHealthy now n"
        "e = (if ran (r_nodes r) = {} then NoNodesRegistered else NoHealthyNodes)"
    | (full) e where "SelectNodeForFork now r order req = Inl e" "ErrNoCapacity e"
        "\<exists>n \<in> ran (r_nodes r). isHealthy now n" "\<nexists>n. eligible now r order req n"
proof -
  let ?h = "filter (isHealthy now) (node_values r order)"
  let ?a = "filter (\<lambda>n. admitsRequest r order n req) ?h"
  note sv = set_node_values [OF en]
  have a: "set ?a = {n. eligible now r order req n}" using sv by (auto simp: eligible_def)
  have pref: "preferred_choice now r order req = Some n \<longleftrightarrow> is_preferred now r order req n" for n
    by (auto simp: preferred_choice_def is_preferred_def eligible_def ranI split: option.splits)
  show thesis
  proof (cases "order = []")
    case True
    then show thesis using enumerates_empty [OF en] by (intro unhealthy [of NoNodesRegistered]) (auto simp: SelectNodeForFork_def)
  next
    case ne: False
    show thesis
    proof (cases "preferred_choice now r order req")
      case (Some n)
      then show thesis using pref [of n] ne by (intro preferred [of n]) (simp_all add: SelectNodeForFork_def)
    next
      case None
      then have S: "SelectNodeForFork now r order req = (if ?h = [] then Inl NoHealthyNodes
          else if ?a = [] then Inl (no_capacity now r order req) else Inr (packBest r ?a (fr_TemplateID req)))"
        using ne by (simp only: SelectNodeForFork_def Let_def if_False option.case)
      have np: "\<nexists>n. is_preferred now r order req n" using pref None by (metis option.distinct(1))
      consider "?h = []" | "?h \<noteq> []" "?a = []" | "?a \<noteq> []" by fastforce
      then show thesis
      proof cases
        case 1
        then have "\<forall>n \<in> ran (r_nodes r). \<not> isHealthy now n" using sv by (auto simp: filter_empty_conv)
        then show thesis using 1 S enumerates_empty [OF en] ne by (intro unhealthy [of NoHealthyNodes]) simp_all
      next
        case 2
        then have "\<exists>n \<in> ran (r_nodes r). isHealthy now n" using sv by (auto simp: filter_empty_conv)
        moreover have "\<nexists>n. eligible now r order req n" using a [unfolded 2(2)] by auto
        moreover have "ErrNoCapacity (no_capacity now r order req)" by (simp add: no_capacity_def)
        ultimately show thesis using 2 S by (intro full [of "no_capacity now r order req"]) simp_all
      next
        case 3
        then have "?h \<noteq> []" by (metis filter.simps(1))
        then show thesis using 3 S np a by (intro packed [of ?a]) (simp_all only: if_False not_False_eq_True)
      qed
    qed
  qed
qed

lemma select_eligible:
  assumes "enumerates r order" and "SelectNodeForFork now r order req = Inr n"
  shows "eligible now r order req n"
  using assms(1)
proof (cases rule: SelectNodeForFork_cases [of r order now req])
  case (packed xs)
  with assms(2) packBest_in [OF packed(3)] show ?thesis by auto
qed (use assms(2) in \<open>auto simp: is_preferred_def\<close>)

lemma eligible_order:
  assumes "enumerates r order" "enumerates r order'"
    and "\<And>n. n \<in> ran (r_nodes r) \<Longrightarrow> projectedCost r order n (fr_TemplateID req) = projectedCost r order' n (fr_TemplateID req)"
  shows "eligible now r order req n \<longleftrightarrow> eligible now r order' req n"
proof -
  have "admitsRequest r order n req = admitsRequest r order' n req" if "n \<in> ran (r_nodes r)"
    using assms(3) [OF that] by (simp only: admitsRequest_def)
  then show ?thesis by (auto simp: eligible_def)
qed

text \<open>Nodes that report an estimate for a template agree on its two sizes.\<close>

definition estimates_agree :: "NodeRegistry \<Rightarrow> string \<Rightarrow> bool" where
  "estimates_agree r t \<longleftrightarrow>
     (\<forall>m \<in> ran (r_nodes r). \<forall>n \<in> ran (r_nodes r). \<forall>e f.
        n_TemplateEstimates m t = Some e \<and> n_TemplateEstimates n t = Some f \<longrightarrow>
        tc_SharedOnceBytes e = tc_SharedOnceBytes f \<and> tc_AvgForkUniqueBytes e = tc_AvgForkUniqueBytes f)"

lemma templateEstimateAcross_fallback:
  assumes "enumerates r order" and "n_TemplateEstimates node t = None" and "t \<noteq> []"
  shows "case templateEstimateAcross r order node t of
      None \<Rightarrow> \<forall>m \<in> ran (r_nodes r). n_TemplateEstimates m t = None
    | Some e \<Rightarrow> \<exists>m \<in> ran (r_nodes r). n_TemplateEstimates m t = Some e"
proof (cases "find (\<lambda>n. n_TemplateEstimates n t \<noteq> None) (node_values r order)")
  case None
  then have "templateEstimateAcross r order node t = None"
    using assms(2,3) by (simp only: templateEstimateAcross_def if_False option.case)
  moreover have "\<forall>m \<in> ran (r_nodes r). n_TemplateEstimates m t = None"
    using None set_node_values [OF assms(1)] by (simp add: find_None_iff)
  ultimately show ?thesis by simp
next
  case (Some m)
  then have "m \<in> ran (r_nodes r)" "n_TemplateEstimates m t \<noteq> None"
    using find_SomeD [OF Some] set_node_values [OF assms(1)] by auto
  moreover have "templateEstimateAcross r order node t = n_TemplateEstimates m t"
    using assms(2,3) Some by (simp only: templateEstimateAcross_def if_False option.case)
  ultimately show ?thesis by auto
qed

lemma projectedCost_order:
  assumes "enumerates r order" "enumerates r order'" "estimates_agree r t"
  shows "projectedCost r order n t = projectedCost r order' n t"
proof -
  let ?e = "templateEstimateAcross r order n t" and ?f = "templateEstimateAcross r order' n t"
  have "rel_option (\<lambda>e f. tc_SharedOnceBytes e = tc_SharedOnceBytes f \<and> tc_AvgForkUniqueBytes e = tc_AvgForkUniqueBytes f) ?e ?f"
  proof (cases "t = [] \<or> n_TemplateEstimates n t \<noteq> None")
    case True
    then show ?thesis by (auto simp: templateEstimateAcross_def)
  next
    case False
    then have n: "n_TemplateEstimates n t = None" "t \<noteq> []" by auto
    note A = templateEstimateAcross_fallback [OF assms(1) n]
    note B = templateEstimateAcross_fallback [OF assms(2) n]
    show ?thesis
    proof (cases ?e)
      case None
      with A B have "?f = None" by (cases ?f) auto
      with None show ?thesis by simp
    next
      case (Some e)
      with A obtain m where m: "m \<in> ran (r_nodes r)" "n_TemplateEstimates m t = Some e" by auto
      with B obtain f where f: "?f = Some f" by (cases ?f) auto
      with B obtain m' where "m' \<in> ran (r_nodes r)" "n_TemplateEstimates m' t = Some f" by auto
      with m assms(3) have "tc_SharedOnceBytes e = tc_SharedOnceBytes f \<and> tc_AvgForkUniqueBytes e = tc_AvgForkUniqueBytes f"
        unfolding estimates_agree_def by blast
      then show ?thesis unfolding Some f by simp
    qed
  qed
  then show ?thesis
    by (cases rule: option.rel_cases) (simp_all only: projectedCost_def Let_def option.case)
qed

section \<open>Properties\<close>

text \<open>
  C18: Placement is sound. The node chosen for a fork is registered and healthy, below its
  sandbox ceiling, has disk headroom, meets the isolation floor, has the requested GPUs, and,
  where its memory budget is known, has headroom for both the projected cost and the explicit
  size of the request.
\<close>

theorem select_sound:
  assumes "reg_names r" and "enumerates r order" and "SelectNodeForFork now r order req = Inr n"
  shows "r_nodes r (n_Name n) = Some n \<and> isHealthy now n \<and> hasDiskHeadroom n \<and>
    (n_MaxSandboxes n \<le> 0 \<or> n_ActiveSandboxes n < n_MaxSandboxes n) \<and>
    tier_meets (n_IsolationTier n) (fr_MinIsolationTier req) \<and>
    (0 < fr_GPUCount req \<longrightarrow> 0 < n_GPUTotal n \<and> fr_GPUType req \<in> {[], n_GPUType n} \<and>
       fr_GPUCount req \<le> i32 (n_GPUTotal n - n_GPUUsed n)) \<and>
    (\<forall>a. available r n = Some a \<longrightarrow> projectedCost r order n (fr_TemplateID req) \<le> a \<and> fr_MemoryBytes req \<le> a)"
proof -
  have "eligible now r order req n" using assms(2,3) by (rule select_eligible)
  then have e: "n \<in> ran (r_nodes r)" "isHealthy now n" "admitsRequest r order n req" by (auto simp: eligible_def)
  from e(1) have "r_nodes r (n_Name n) = Some n" using registered_ran [OF assms(1)] by simp
  with e(2,3) show ?thesis
    by (auto simp: admitsRequest_def atSandboxCeiling_def admitsGPU_def admitsTier_def Let_def split: if_splits option.splits)
qed

text \<open>
  C19: Placement is complete and its errors are precise. Selection fails exactly when no healthy
  registered node admits the request; the error is a capacity shortage exactly when some node is
  healthy, and the two precondition errors tell an empty registry from an unhealthy one.
\<close>

theorem select_complete:
  assumes "enumerates r order"
  shows "case SelectNodeForFork now r order req of
      Inr n \<Rightarrow> eligible now r order req n
    | Inl e \<Rightarrow> (\<nexists>n. eligible now r order req n) \<and>
        (ErrNoCapacity e \<longleftrightarrow> (\<exists>n \<in> ran (r_nodes r). isHealthy now n)) \<and>
        (e = NoNodesRegistered \<longleftrightarrow> ran (r_nodes r) = {})"
  using assms
proof (cases rule: SelectNodeForFork_cases [of r order now req])
  case (packed xs)
  then show ?thesis using packBest_in [OF packed(3)] by auto
next
  case (full e)
  moreover have "e \<noteq> NoNodesRegistered" using full(2) by auto
  ultimately show ?thesis by auto
qed (auto simp: is_preferred_def eligible_def)


text \<open>
  C28: Without overcommit a node is never filled beyond its memory. With the factor at its default
  of 1 and a reported total below \<open>2 ^ 53\<close> bytes, the floating point headroom is exact, and the
  usage of the chosen node plus the larger of the projected cost and the requested size fits its
  total memory.
\<close>

theorem select_fits_memory:
  assumes "reg_names r" and "enumerates r order" and "SelectNodeForFork now r order req = Inr n"
    and "r_overcommitFactor r = 1" and "0 < n_MemoryTotal n" and "n_MemoryTotal n \<le> 2 ^ 53"
    and "0 \<le> n_MemoryUsed n" and "in_i64 (n_MemoryUsed n)"
  shows "n_MemoryUsed n + max (projectedCost r order n (fr_TemplateID req)) (fr_MemoryBytes req) \<le> n_MemoryTotal n"
proof -
  have a: "available r n = Some (n_MemoryTotal n - n_MemoryUsed n)"
  proof -
    have "f64 (f64 (of_int (n_MemoryTotal n)) * 1) = of_int (n_MemoryTotal n)"
      using assms(5,6) by (intro f64_one_mult) simp
    moreover have "in_i64 (n_MemoryTotal n)" "in_i64 (n_MemoryTotal n - n_MemoryUsed n)"
      using assms(5-8) by (simp_all add: in_i64_def)
    ultimately show ?thesis
      using assms(4,5) by (simp add: available_def trunc_i64_int i64_id)
  qed
  have "eligible now r order req n" using assms(2,3) by (rule select_eligible)
  then show ?thesis using a
    by (auto simp: eligible_def admitsRequest_def Let_def max_def split: if_splits)
qed

section \<open>A concrete cluster\<close>

definition demo_node :: "string \<Rightarrow> int \<Rightarrow> int \<Rightarrow> NodeInfo" where
  "demo_node name used forks =
     \<lparr>n_Name = name, n_Endpoint = name, n_HTTPEndpoint = [], n_CASEndpoint = name, n_ActiveSandboxes = 1,
      n_MaxSandboxes = 10, n_MemoryTotal = 2 ^ 34, n_MemoryUsed = used, n_DiskTotal = 1000, n_DiskFree = 500,
      n_GPUTotal = 0, n_GPUUsed = 0, n_GPUType = [], n_IsolationTier = IsolationTierHardwareKVM,
      n_TemplateIDs = [''py''], n_SnapshotIDs = [], n_TemplateDigests = Map.empty,
      n_TemplateEstimates = [''py'' \<mapsto> \<lparr>tc_TemplateID = ''py'', tc_SnapshotDigest = [], tc_SharedOnceBytes = 0,
         tc_AvgForkUniqueBytes = 0, tc_ForkCount = forks\<rparr>],
      n_LastHeartbeat = 0, n_probeFailures = 0, n_TLS = None, n_conn = None\<rparr>"

definition demo_registry :: NodeRegistry where
  "demo_registry =
     Register 1 (Register 1 NewNodeRegistry (demo_node ''a'' 100 1)) (demo_node ''b'' 200 3)"

definition demo_request :: ForkRequest where
  "demo_request = \<lparr>fr_TemplateID = ''py'', fr_PreferredNode = [], fr_MemoryBytes = 2 ^ 30, fr_GPUCount = 0,
     fr_GPUType = [], fr_MinIsolationTier = ''hardware-kvm''\<rparr>"

lemma demo_selects:
  "map_sum id n_Name (SelectNodeForFork 2 demo_registry [''a'', ''b''] demo_request) = Inr ''b''"
  by code_simp

lemma demo_nodes:
  "r_nodes demo_registry =
     [''a'' \<mapsto> (demo_node ''a'' 100 1)\<lparr>n_LastHeartbeat := 1\<rparr>, ''b'' \<mapsto> (demo_node ''b'' 200 3)\<lparr>n_LastHeartbeat := 1\<rparr>]"
  by (simp add: demo_registry_def Register_def NewNodeRegistry_def demo_node_def)

lemma demo_names: "reg_names demo_registry"
  by (simp add: reg_names_def demo_nodes) (simp add: demo_node_def)

lemma demo_enumerates: "enumerates demo_registry [''a'', ''b'']" "enumerates demo_registry [''b'', ''a'']"
  by (auto simp: enumerates_def demo_nodes)

lemma demo_estimates: "estimates_agree demo_registry t"
  by (auto simp: estimates_agree_def demo_nodes demo_node_def split: if_splits)

lemma demo_selected:
  obtains n where "SelectNodeForFork 2 demo_registry [''a'', ''b''] demo_request = Inr n" "n_Name n = ''b''"
  using demo_selects by (cases "SelectNodeForFork 2 demo_registry [''a'', ''b''] demo_request") auto

theorem select_sound_witness:
  "\<exists>n. SelectNodeForFork 2 demo_registry [''a'', ''b''] demo_request = Inr n \<and> n_Name n = ''b'' \<and>
     r_nodes demo_registry ''b'' = Some n \<and> isHealthy 2 n \<and> tier_meets (n_IsolationTier n) ''hardware-kvm''"
proof -
  obtain n where n: "SelectNodeForFork 2 demo_registry [''a'', ''b''] demo_request = Inr n" "n_Name n = ''b''"
    using demo_selected .
  have "fr_MinIsolationTier demo_request = ''hardware-kvm''" by (simp add: demo_request_def)
  with select_sound [OF demo_names demo_enumerates(1) n(1)] n show ?thesis by (metis n(2))
qed

theorem select_complete_witness:
  "case SelectNodeForFork 2 demo_registry [''a'', ''b''] demo_request of
      Inr n \<Rightarrow> eligible 2 demo_registry [''a'', ''b''] demo_request n
    | Inl e \<Rightarrow> \<nexists>n. eligible 2 demo_registry [''a'', ''b''] demo_request n"
  using select_complete [OF demo_enumerates(1), of 2 demo_request] by (auto split: sum.splits)


theorem select_fits_memory_witness:
  "\<exists>n. SelectNodeForFork 2 demo_registry [''a'', ''b''] demo_request = Inr n \<and>
     n_MemoryUsed n + max (projectedCost demo_registry [''a'', ''b''] n ''py'') (2 ^ 30) \<le> n_MemoryTotal n"
proof -
  obtain n where n: "SelectNodeForFork 2 demo_registry [''a'', ''b''] demo_request = Inr n" "n_Name n = ''b''"
    using demo_selected .
  have "r_nodes demo_registry (n_Name n) = Some n"
    using select_eligible [OF demo_enumerates(1) n(1)] registered_ran [OF demo_names] by (simp add: eligible_def)
  then have nb: "n = (demo_node ''b'' 200 3)\<lparr>n_LastHeartbeat := 1\<rparr>" using n(2) by (simp add: demo_nodes)
  have "r_overcommitFactor demo_registry = 1"
    by (simp add: demo_registry_def Register_def NewNodeRegistry_def demo_node_def)
  moreover have "0 < n_MemoryTotal n" "n_MemoryTotal n \<le> 2 ^ 53" "0 \<le> n_MemoryUsed n" "in_i64 (n_MemoryUsed n)"
    by (simp_all add: nb demo_node_def in_i64_def)
  moreover have "fr_TemplateID demo_request = ''py''" "fr_MemoryBytes demo_request = 2 ^ 30"
    by (simp_all add: demo_request_def)
  ultimately show ?thesis
    using select_fits_memory [OF demo_names demo_enumerates(1) n(1)] n(1) by metis
qed

section \<open>Template sources\<close>

definition is_source :: "time \<Rightarrow> NodeRegistry \<Rightarrow> string \<Rightarrow> NodeInfo \<Rightarrow> bool" where
  "is_source now r t n \<longleftrightarrow> n \<in> ran (r_nodes r) \<and> isHealthy now n \<and> hasSnapshot n t \<and>
     digest_of n t \<noteq> [] \<and> n_CASEndpoint n \<noteq> []"

text \<open>
  The source a template is distributed from is chosen deterministically. Whatever the map
  iteration order, it is the healthy holder with a digest and a CAS endpoint that has the least
  name, served under the TLS URL of its own CAS endpoint together with the digest that same node
  recorded; there is no source exactly when no such holder exists.
\<close>

theorem template_source_least:
  assumes "reg_names r" and "enumerates r order"
  shows "case TemplateSource now r order t of
      None \<Rightarrow> \<nexists>n. is_source now r t n
    | Some (n, url, d) \<Rightarrow> is_source now r t n \<and> (\<forall>m. is_source now r t m \<and> m \<noteq> n \<longrightarrow> n_Name n < n_Name m) \<and>
        url = ''https://'' @ n_CASEndpoint n @ ''/cas'' \<and> n_TemplateDigests n t = Some d"
proof -
  let ?xs = "filter (\<lambda>n. isHealthy now n \<and> hasSnapshot n t \<and> digest_of n t \<noteq> [] \<and> n_CASEndpoint n \<noteq> []) (node_values r order)"
  have xs: "set ?xs = {n. is_source now r t n}"
    using set_node_values [OF assms(2)] by (auto simp: is_source_def)
  show ?thesis
  proof (cases ?xs)
    case Nil
    then show ?thesis using xs by (simp add: TemplateSource_def)
  next
    case (Cons y ys)
    let ?b = "pick_best (\<lambda>c b. n_Name c < n_Name b) y ys"
    have sy: "set (y # ys) = {n. is_source now r t n}" using xs Cons by simp
    have "?b \<in> {n. is_source now r t n}" unfolding sy [symmetric] by (rule pick_best_in)
    then have b: "is_source now r t ?b" by simp
    have "inj_on n_Name (set (y # ys))"
      unfolding sy by (rule inj_on_subset [OF names_inj [OF assms(1)]]) (auto simp: is_source_def)
    note inj = this
    have least: "n_Name ?b < n_Name m" if "is_source now r t m" "m \<noteq> ?b" for m
    proof -
      have "m \<in> set (y # ys)" unfolding sy using that by simp
      then show ?thesis using inj that(2) by (intro nameorder.pick_beats_all)
    qed
    have "n_TemplateDigests ?b t = Some (digest_of ?b t)" "casBaseURL ?b = ''https://'' @ n_CASEndpoint ?b @ ''/cas''"
      using b by (auto simp: is_source_def digest_of_def casBaseURL_def split: option.splits)
    then show ?thesis using Cons b least by (simp add: TemplateSource_def Let_def)
  qed
qed

definition demo_sources :: NodeRegistry where
  "demo_sources = AddTemplateWithDigest (AddTemplateWithDigest demo_registry ''a'' ''py'' ''d1'') ''b'' ''py'' ''d2''"

theorem template_source_least_witness:
  "\<exists>n. TemplateSource 2 demo_sources [''b'', ''a''] ''py'' = Some (n, ''https://a/cas'', ''d1'') \<and>
     (\<forall>m. is_source 2 demo_sources ''py'' m \<and> m \<noteq> n \<longrightarrow> n_Name n < n_Name m)"
proof -
  have nodes: "r_nodes demo_sources =
      [''a'' \<mapsto> (demo_node ''a'' 100 1)\<lparr>n_LastHeartbeat := 1, n_TemplateDigests := [''py'' \<mapsto> ''d1'']\<rparr>,
       ''b'' \<mapsto> (demo_node ''b'' 200 3)\<lparr>n_LastHeartbeat := 1, n_TemplateDigests := [''py'' \<mapsto> ''d2'']\<rparr>]"
    by (simp add: demo_sources_def AddTemplateWithDigest_def demo_nodes Let_def) (simp add: demo_node_def)
  have names: "reg_names demo_sources" by (simp add: reg_names_def nodes) (simp add: demo_node_def)
  have enum: "enumerates demo_sources [''b'', ''a'']" by (auto simp: enumerates_def nodes)
  have "map_option (\<lambda>(n, u, d). (u, d)) (TemplateSource 2 demo_sources [''b'', ''a''] ''py'') = Some (''https://a/cas'', ''d1'')"
    by code_simp
  then obtain n where "TemplateSource 2 demo_sources [''b'', ''a''] ''py'' = Some (n, ''https://a/cas'', ''d1'')"
    by auto
  then show ?thesis using template_source_least [OF names enum, of 2 "''py''"] by auto
qed

end
