(* ===== verification/Node_Lifecycle.thy ===== *)
theory Node_Lifecycle
  imports Node_Scheduler
begin

text \<open>
  Runs of the node registry: registration, removal, dialing, pruning and bookkeeping as one step
  relation, with the invariants every run keeps.
\<close>

section \<open>The invariant\<close>

definition live_conns :: "NodeRegistry \<Rightarrow> handle set" where
  "live_conns r = {c. \<exists>k n. r_nodes r k = Some n \<and> n_conn n = Some c}"

text \<open>
  Every node is filed under its own name, no registered connection is closed, no two nodes share
  a connection, and the overcommit factor is positive.
\<close>

definition reg_inv :: "NodeRegistry \<Rightarrow> bool" where
  "reg_inv r \<longleftrightarrow> reg_names r \<and> live_conns r \<inter> set (r_closed r) = {} \<and>
     (\<forall>j k m n c. r_nodes r j = Some m \<and> r_nodes r k = Some n \<and> n_conn m = Some c \<and> n_conn n = Some c \<longrightarrow> j = k) \<and>
     0 < r_overcommitFactor r"

lemma reg_invI:
  assumes "\<And>k n. r_nodes r k = Some n \<Longrightarrow> n_Name n = k"
    and "\<And>k n c. r_nodes r k = Some n \<Longrightarrow> n_conn n = Some c \<Longrightarrow> c \<notin> set (r_closed r)"
    and "\<And>j k m n c. r_nodes r j = Some m \<Longrightarrow> r_nodes r k = Some n \<Longrightarrow> n_conn m = Some c \<Longrightarrow> n_conn n = Some c \<Longrightarrow> j = k"
    and "0 < r_overcommitFactor r"
  shows "reg_inv r"
  using assms unfolding reg_inv_def reg_names_def live_conns_def by blast

lemma reg_invD:
  assumes "reg_inv r"
  shows "\<And>k n. r_nodes r k = Some n \<Longrightarrow> n_Name n = k"
    and "\<And>k n c. r_nodes r k = Some n \<Longrightarrow> n_conn n = Some c \<Longrightarrow> c \<notin> set (r_closed r)"
    and "\<And>j k m n c. r_nodes r j = Some m \<Longrightarrow> r_nodes r k = Some n \<Longrightarrow> n_conn m = Some c \<Longrightarrow> n_conn n = Some c \<Longrightarrow> j = k"
    and "0 < r_overcommitFactor r"
  using assms unfolding reg_inv_def reg_names_def live_conns_def by blast+

lemma closing_simps [simp]:
  "r_nodes (closing r h) = r_nodes r" "r_overcommitFactor (closing r h) = r_overcommitFactor r"
  "set (r_closed (closing r h)) = set_option h \<union> set (r_closed r)"
  by (auto simp: closing_def split: option.splits)

text \<open>Replacing one node by one with the same name and connection.\<close>

lemma update_node_inv:
  assumes inv: "reg_inv r" and k: "r_nodes r k = Some n" and n': "n_Name n' = n_Name n" "n_conn n' = n_conn n"
  shows "reg_inv (r\<lparr>r_nodes := (r_nodes r)(k \<mapsto> n')\<rparr>)"
proof (rule reg_invI)
  fix j m assume "r_nodes (r\<lparr>r_nodes := (r_nodes r)(k \<mapsto> n')\<rparr>) j = Some m"
  then show "n_Name m = j" using reg_invD(1) [OF inv, of j] reg_invD(1) [OF inv k] n' by (auto split: if_splits)
next
  fix j m c assume "r_nodes (r\<lparr>r_nodes := (r_nodes r)(k \<mapsto> n')\<rparr>) j = Some m" "n_conn m = Some c"
  then show "c \<notin> set (r_closed (r\<lparr>r_nodes := (r_nodes r)(k \<mapsto> n')\<rparr>))"
    using reg_invD(2) [OF inv, of j m c] reg_invD(2) [OF inv k, of c] n' by (auto split: if_splits)
next
  fix i j m p c
  assume "r_nodes (r\<lparr>r_nodes := (r_nodes r)(k \<mapsto> n')\<rparr>) i = Some m" "r_nodes (r\<lparr>r_nodes := (r_nodes r)(k \<mapsto> n')\<rparr>) j = Some p"
    "n_conn m = Some c" "n_conn p = Some c"
  moreover define old where "old x q = (if x = k then n else q)" for x and q :: NodeInfo
  ultimately have "r_nodes r i = Some (old i m)" "r_nodes r j = Some (old j p)"
    "n_conn (old i m) = Some c" "n_conn (old j p) = Some c"
    using k n' by (auto simp: old_def split: if_splits)
  then show "i = j" by (rule reg_invD(3) [OF inv])
next
  show "0 < r_overcommitFactor (r\<lparr>r_nodes := (r_nodes r)(k \<mapsto> n')\<rparr>)" using reg_invD(4) [OF inv] by simp
qed

text \<open>Removing one node and closing its connection.\<close>

lemma remove_node_inv:
  assumes inv: "reg_inv r" and k: "r_nodes r k = Some n"
  shows "reg_inv ((closing r (n_conn n))\<lparr>r_nodes := (r_nodes r)(k := None)\<rparr>)"
proof (rule reg_invI)
  fix j m assume "r_nodes ((closing r (n_conn n))\<lparr>r_nodes := (r_nodes r)(k := None)\<rparr>) j = Some m"
  then show "n_Name m = j" using reg_invD(1) [OF inv, of j] by (simp split: if_splits)
next
  fix j m c
  assume "r_nodes ((closing r (n_conn n))\<lparr>r_nodes := (r_nodes r)(k := None)\<rparr>) j = Some m" and c: "n_conn m = Some c"
  then have j: "r_nodes r j = Some m" "j \<noteq> k" by (auto split: if_splits)
  then have "n_conn n \<noteq> Some c" using reg_invD(3) [OF inv j(1) k c] by blast
  then show "c \<notin> set (r_closed ((closing r (n_conn n))\<lparr>r_nodes := (r_nodes r)(k := None)\<rparr>))"
    using reg_invD(2) [OF inv j(1) c] by simp
next
  fix i j m p c
  assume "r_nodes ((closing r (n_conn n))\<lparr>r_nodes := (r_nodes r)(k := None)\<rparr>) i = Some m"
    "r_nodes ((closing r (n_conn n))\<lparr>r_nodes := (r_nodes r)(k := None)\<rparr>) j = Some p"
    "n_conn m = Some c" "n_conn p = Some c"
  then show "i = j" using reg_invD(3) [OF inv, of i m j p c] by (simp split: if_splits)
next
  show "0 < r_overcommitFactor ((closing r (n_conn n))\<lparr>r_nodes := (r_nodes r)(k := None)\<rparr>)"
    using reg_invD(4) [OF inv] by simp
qed

text \<open>Filing a node under a name nobody else's connection touches.\<close>

lemma insert_node_inv:
  assumes inv: "reg_inv r" and k: "r_nodes r k = None" and n: "n_Name n = k"
    and c: "\<And>c. n_conn n = Some c \<Longrightarrow> c \<notin> live_conns r \<and> c \<notin> set (r_closed r)"
  shows "reg_inv (r\<lparr>r_nodes := (r_nodes r)(k \<mapsto> n)\<rparr>)"
proof (rule reg_invI)
  fix j m assume "r_nodes (r\<lparr>r_nodes := (r_nodes r)(k \<mapsto> n)\<rparr>) j = Some m"
  then show "n_Name m = j" using reg_invD(1) [OF inv, of j m] n by (auto split: if_splits)
next
  fix j m d assume "r_nodes (r\<lparr>r_nodes := (r_nodes r)(k \<mapsto> n)\<rparr>) j = Some m" "n_conn m = Some d"
  then show "d \<notin> set (r_closed (r\<lparr>r_nodes := (r_nodes r)(k \<mapsto> n)\<rparr>))"
    using reg_invD(2) [OF inv, of j m d] c [of d] by (auto split: if_splits)
next
  fix i j m p d
  assume a: "r_nodes (r\<lparr>r_nodes := (r_nodes r)(k \<mapsto> n)\<rparr>) i = Some m" "r_nodes (r\<lparr>r_nodes := (r_nodes r)(k \<mapsto> n)\<rparr>) j = Some p"
    "n_conn m = Some d" "n_conn p = Some d"
  show "i = j"
  proof (cases "i = k \<or> j = k")
    case True
    then show ?thesis using a c [of d] by (auto simp: live_conns_def split: if_splits)
  next
    case False
    then show ?thesis using a reg_invD(3) [OF inv, of i m j p d] by simp
  qed
next
  show "0 < r_overcommitFactor (r\<lparr>r_nodes := (r_nodes r)(k \<mapsto> n)\<rparr>)" using reg_invD(4) [OF inv] by simp
qed

section \<open>Every operation keeps the invariant\<close>

lemma NewNodeRegistry_inv: "reg_inv NewNodeRegistry"
  by (rule reg_invI) (simp_all add: NewNodeRegistry_def)

lemma replace_node_inv:
  assumes inv: "reg_inv r" and k: "r_nodes r k = Some old" and n: "n_Name n = k"
    and c: "\<And>c. n_conn n = Some c \<Longrightarrow> c \<notin> live_conns r \<and> c \<notin> set (r_closed r)"
  shows "reg_inv ((closing r (n_conn old))\<lparr>r_nodes := (r_nodes r)(k \<mapsto> n)\<rparr>)"
proof -
  let ?q = "(closing r (n_conn old))\<lparr>r_nodes := (r_nodes r)(k := None)\<rparr>"
  have q: "reg_inv ?q" by (rule remove_node_inv [OF inv k])
  have "c \<notin> live_conns ?q \<and> c \<notin> set (r_closed ?q)" if "n_conn n = Some c" for c
    using c [OF that] k by (auto simp: live_conns_def split: if_splits)
  then have "reg_inv (?q\<lparr>r_nodes := (r_nodes ?q)(k \<mapsto> n)\<rparr>)" using q n by (intro insert_node_inv) simp_all
  then show ?thesis by simp
qed

lemma Register_inv:
  assumes inv: "reg_inv r" and c: "n_conn info = None"
  shows "reg_inv (Register now r info)"
proof (cases "r_nodes r (n_Name info)")
  case None
  then show ?thesis using insert_node_inv [OF inv None, of "info\<lparr>n_LastHeartbeat := now\<rparr>"] c
    by (simp add: Register_def)
next
  case (Some old)
  have name: "n_Name old = n_Name info" using reg_invD(1) [OF inv Some] .
  show ?thesis
  proof (cases "n_conn old \<noteq> None \<and> n_Endpoint old \<noteq> n_Endpoint info")
    case True
    then show ?thesis using replace_node_inv [OF inv Some, of "info\<lparr>n_LastHeartbeat := now\<rparr>"] c Some
      by (simp add: Register_def)
  next
    case False
    then have "Register now r info = r\<lparr>r_nodes := (r_nodes r)(n_Name info \<mapsto> info\<lparr>n_conn := n_conn old, n_LastHeartbeat := now\<rparr>)\<rparr>"
    proof (cases "n_conn old")
      case None
      then show ?thesis using Some c by (cases info) (simp add: Register_def)
    qed (use False Some c in \<open>simp add: Register_def\<close>)
    then show ?thesis using update_node_inv [OF inv Some] name by simp
  qed
qed

lemma Unregister_inv: "reg_inv r \<Longrightarrow> reg_inv (Unregister r k)"
  using remove_node_inv [of r k] by (simp add: Unregister_def split: option.splits)

lemma SetNodeMemory_inv: "reg_inv r \<Longrightarrow> reg_inv (SetNodeMemory r k total' used)"
  using update_node_inv [of r k] by (simp add: SetNodeMemory_def split: option.splits)

lemma AddTemplateWithDigest_inv: "reg_inv r \<Longrightarrow> reg_inv (AddTemplateWithDigest r k t d)"
  using update_node_inv [of r k] by (simp add: AddTemplateWithDigest_def Let_def split: option.splits)

lemma SetOvercommitFactor_inv: "reg_inv r \<Longrightarrow> reg_inv (SetOvercommitFactor r f)"
  by (simp add: reg_inv_def SetOvercommitFactor_def reg_names_def live_conns_def)

definition fresh_dial :: "NodeRegistry \<Rightarrow> (string \<Rightarrow> creds \<Rightarrow> handle option) \<Rightarrow> bool" where
  "fresh_dial r dial \<longleftrightarrow> (\<forall>e cr c. dial e cr = Some c \<longrightarrow> c \<notin> live_conns r \<and> c \<notin> set (r_closed r))"

lemma GetConnection_inv:
  assumes inv: "reg_inv r" and fr: "fresh_dial r dial" and g: "GetConnection dial r k = (res, r')"
  shows "reg_inv r'"
proof (cases "r' = r")
  case False
  then obtain n c where n: "r_nodes r k = Some n" "n_conn n = None" "dial (n_Endpoint n) (dial_creds r n) = Some c"
    "r' = r\<lparr>r_nodes := (r_nodes r)(k \<mapsto> n\<lparr>n_conn := Some c\<rparr>)\<rparr>"
    using g by (auto simp: GetConnection_def split: option.splits)
  have "c \<notin> live_conns r \<and> c \<notin> set (r_closed r)" using fr n(3) by (auto simp: fresh_dial_def)
  then show ?thesis
    using replace_node_inv [OF inv n(1), of "n\<lparr>n_conn := Some c\<rparr>"] n(2,4) reg_invD(1) [OF inv n(1)]
    by (simp add: closing_def)
qed (use inv in simp)

lemma PruneStale_loop_inv:
  "reg_inv r \<Longrightarrow> PruneStale_loop now maxAge r p order = (q, r') \<Longrightarrow> reg_inv r'"
  by (induction now maxAge r p order rule: PruneStale_loop.induct)
    (auto split: option.splits if_splits dest: remove_node_inv)

section \<open>Runs\<close>

inductive reg_step :: "NodeRegistry \<Rightarrow> NodeRegistry \<Rightarrow> bool" where
  reg_register: "n_conn info = None \<Longrightarrow> reg_step r (Register now r info)"
| reg_unregister: "reg_step r (Unregister r k)"
| reg_overcommit: "reg_step r (SetOvercommitFactor r f)"
| reg_memory: "reg_step r (SetNodeMemory r k t u)"
| reg_template: "reg_step r (AddTemplateWithDigest r k tmpl d)"
| reg_connect: "fresh_dial r dial \<Longrightarrow> GetConnection dial r k = (res, r') \<Longrightarrow> reg_step r r'"
| reg_prune: "PruneStale now r order maxAge = (p, r') \<Longrightarrow> reg_step r r'"

inductive_cases reg_stepE: "reg_step r r'"

lemma reg_step_inv: "reg_step r r' \<Longrightarrow> reg_inv r \<Longrightarrow> reg_inv r'"
  by (erule reg_stepE)
    (simp_all add: Register_inv Unregister_inv SetOvercommitFactor_inv SetNodeMemory_inv AddTemplateWithDigest_inv,
      erule (2) GetConnection_inv, simp add: PruneStale_def PruneStale_loop_inv)

lemma reg_steps_inv: "reg_step\<^sup>*\<^sup>* r r' \<Longrightarrow> reg_inv r \<Longrightarrow> reg_inv r'"
  by (induction rule: rtranclp_induct) (simp_all add: reg_step_inv)

section \<open>Pruning\<close>

definition stale :: "time \<Rightarrow> duration \<Rightarrow> NodeInfo \<Rightarrow> bool" where
  "stale now maxAge n \<longleftrightarrow> maxAge \<le> now - n_LastHeartbeat n"

lemma PruneStale_loop_spec:
  assumes "distinct order" and "PruneStale_loop now maxAge r p order = (q, r')"
  shows "r_nodes r' = (\<lambda>k. case r_nodes r k of None \<Rightarrow> None
        | Some n \<Rightarrow> if k \<in> set order \<and> stale now maxAge n then None else Some n)"
    and "q = p + int (length (filter (\<lambda>k. \<exists>n. r_nodes r k = Some n \<and> stale now maxAge n) order))"
  using assms
proof (induction order arbitrary: r p)
  case (Cons k ks)
  { case 1
    let ?r1 = "\<lambda>n. (closing r (n_conn n))\<lparr>r_nodes := (r_nodes r)(k := None)\<rparr>"
    show ?case
    proof (cases "\<exists>n. r_nodes r k = Some n \<and> stale now maxAge n")
      case True
      then obtain n where n: "r_nodes r k = Some n" "stale now maxAge n" by blast
      then have "r_nodes r' = (\<lambda>j. case r_nodes (?r1 n) j of None \<Rightarrow> None
          | Some m \<Rightarrow> if j \<in> set ks \<and> stale now maxAge m then None else Some m)"
        using Cons.IH(1) [of "?r1 n" "p + 1"] 1 by (simp add: stale_def)
      then show ?thesis using n by (auto simp: fun_eq_iff split: option.splits)
    next
      case False
      then have "r_nodes r' = (\<lambda>j. case r_nodes r j of None \<Rightarrow> None
          | Some m \<Rightarrow> if j \<in> set ks \<and> stale now maxAge m then None else Some m)"
        using Cons.IH(1) [of r p] 1 by (auto simp: stale_def split: option.splits if_splits)
      then show ?thesis using False by (auto simp: fun_eq_iff split: option.splits)
    qed
  }
  { case 2
    have eq: "filter (\<lambda>j. \<exists>n. ((r_nodes r)(k := None)) j = Some n \<and> stale now maxAge n) ks =
        filter (\<lambda>j. \<exists>n. r_nodes r j = Some n \<and> stale now maxAge n) ks"
      using 2(1) by (intro filter_cong) auto
    show ?case
    proof (cases "r_nodes r k")
      case None
      then show ?thesis using Cons.IH(2) [of r p] 2 by simp
    next
      case (Some n)
      then show ?thesis
        using Cons.IH(2) [of "(closing r (n_conn n))\<lparr>r_nodes := (r_nodes r)(k := None)\<rparr>" "p + 1"] Cons.IH(2) [of r p] 2 eq
        by (auto simp: stale_def split: if_splits)
    qed
  }
qed (auto simp: fun_eq_iff split: option.splits)

section \<open>Properties\<close>

text \<open>
  C29: In every run of the registry, each node is filed under its own name and a connection the
  registry hands out is never one it has closed: re-registration carries a dialed connection
  forward or closes it, and removal and pruning close what they drop. The overcommit factor stays
  positive.
\<close>

theorem registry_connections_live:
  assumes "reg_step\<^sup>*\<^sup>* NewNodeRegistry r" and "fresh_dial r dial"
    and "GetConnection dial r k = (Inr c, r')"
  shows "(\<exists>n. GetNode r' k = Some n \<and> n_Name n = k \<and> n_conn n = Some c) \<and> c \<notin> set (r_closed r') \<and>
    0 < r_overcommitFactor r'"
proof -
  have inv: "reg_inv r" using reg_steps_inv [OF assms(1)] NewNodeRegistry_inv by blast
  have inv': "reg_inv r'" using inv assms(2,3) by (rule GetConnection_inv)
  obtain n where n: "r_nodes r' k = Some n" "n_conn n = Some c"
    using assms(3) by (auto simp: GetConnection_def split: option.splits)
  then show ?thesis using reg_invD [OF inv'] by (auto simp: GetNode_def)
qed

theorem registry_connections_live_witness:
  "\<exists>r'. GetConnection (\<lambda>e cr. Some 7) (Register 1 NewNodeRegistry (demo_node ''a'' 0 0)) ''a'' = (Inr 7, r') \<and>
     7 \<notin> set (r_closed r') \<and> 0 < r_overcommitFactor r'"
proof -
  let ?r = "Register 1 NewNodeRegistry (demo_node ''a'' 0 0)"
  have run: "reg_step\<^sup>*\<^sup>* NewNodeRegistry ?r" by (rule r_into_rtranclp, rule reg_register) (simp add: demo_node_def)
  have fr: "fresh_dial ?r (\<lambda>e cr. Some 7)"
    by (auto simp: fresh_dial_def live_conns_def Register_def NewNodeRegistry_def demo_node_def split: if_splits)
  obtain r' where g: "GetConnection (\<lambda>e cr. Some 7) ?r ''a'' = (Inr 7, r')"
    by (simp add: GetConnection_def Register_def NewNodeRegistry_def demo_node_def)
  show ?thesis using registry_connections_live [OF run fr g] g by blast
qed

text \<open>
  The encryption key gate is fail-closed. Where the registry reports mTLS for a node, a
  connection is obtained without ever dialing insecurely: a dialer that refuses insecure
  credentials behaves the same. Where it does not report mTLS, no dial is made with TLS.
\<close>

theorem node_mtls_gate:
  "GetConnection dial r k =
     GetConnection (\<lambda>e cr. if (cr = Insecure) = NodeMTLS r k then None else dial e cr) r k"
  by (auto simp: GetConnection_def NodeMTLS_def dial_creds_def split: option.splits)

text \<open>
  Pruning removes exactly the nodes whose last heartbeat is at least the given age old, leaves
  the others as they were, and returns how many it removed; with an age of two minutes or more
  every healthy node survives.
\<close>

theorem prune_exact:
  assumes "enumerates r order" and "PruneStale now r order maxAge = (p, r')"
  shows "r_nodes r' = (\<lambda>k. case r_nodes r k of None \<Rightarrow> None | Some n \<Rightarrow> if stale now maxAge n then None else Some n) \<and>
    p = int (card (dom (r_nodes r) - dom (r_nodes r'))) \<and>
    (2 * minute_ns \<le> maxAge \<longrightarrow> (\<forall>k n. r_nodes r k = Some n \<and> isHealthy now n \<longrightarrow> r_nodes r' k = Some n))"
proof -
  have order: "distinct order" "set order = dom (r_nodes r)" using assms(1) by (auto simp: enumerates_def)
  note L = PruneStale_loop_spec [OF order(1), of now maxAge r 0 p r']
  have run: "PruneStale_loop now maxAge r 0 order = (p, r')" using assms(2) by (simp add: PruneStale_def)
  have nodes: "r_nodes r' = (\<lambda>k. case r_nodes r k of None \<Rightarrow> None | Some n \<Rightarrow> if stale now maxAge n then None else Some n)"
    unfolding L(1) [OF run] using order(2) by (auto simp: fun_eq_iff split: option.splits)
  let ?xs = "filter (\<lambda>k. \<exists>n. r_nodes r k = Some n \<and> stale now maxAge n) order"
  have "set ?xs = dom (r_nodes r) - dom (r_nodes r')"
    using order(2) by (auto simp: nodes split: option.splits if_splits)
  moreover have "card (set ?xs) = length ?xs" by (rule distinct_card) (rule distinct_filter [OF order(1)])
  ultimately have p: "p = int (card (dom (r_nodes r) - dom (r_nodes r')))" using L(2) [OF run] by (simp only: add_0)
  have "r_nodes r' k = Some n" if "2 * minute_ns \<le> maxAge" "r_nodes r k = Some n" "isHealthy now n" for k n
    using that by (simp add: nodes stale_def isHealthy_def split: if_splits)
  then show ?thesis using nodes p by blast
qed

theorem prune_exact_witness:
  "\<exists>p r'. PruneStale 200 demo_registry [''a'', ''b''] 100 = (p, r') \<and> dom (r_nodes r') = {} \<and> p = 2"
proof -
  obtain p r' where P: "PruneStale 200 demo_registry [''a'', ''b''] 100 = (p, r')" by fastforce
  note X = prune_exact [OF demo_enumerates(1) P]
  have "dom (r_nodes r') = {}" using X by (auto simp: demo_nodes stale_def split: option.splits if_splits)
  moreover have "dom (r_nodes demo_registry) = {''a'', ''b''}" by (auto simp: demo_nodes)
  ultimately show ?thesis using X P by auto
qed

end
