(* ===== verification/Warm_Pool.thy ===== *)
theory Warm_Pool
  imports Mitos_Prelude
begin

text \<open>
  The warm pool autoscaler, \<^verbatim>\<open>internal/controller/warmpool_autoscale.go\<close>, with the demand tracker
  and the reconciler method that joins them. Counts are 32 bit integers and wrap.
\<close>

record PoolWarm =
  warm_Min :: int
  warm_Max :: int
  warm_TargetPending :: int
  warm_CooldownSeconds :: int

record SandboxPool =
  pool_Namespace :: string
  pool_Name :: string
  pool_Warm :: "PoolWarm option"

definition defaultScaleDownCooldown :: duration where
  "defaultScaleDownCooldown = 300 * second_ns"

definition poolWarmMin :: "SandboxPool \<Rightarrow> int" where
  "poolWarmMin pool = (case pool_Warm pool of None \<Rightarrow> 0 | Some w \<Rightarrow> warm_Min w)"

definition warm_target :: "PoolWarm \<Rightarrow> int \<Rightarrow> int" where
  "warm_target w inUse =
     (let maxWarm = warm_Max w;
          effectiveMin = (if warm_Min w > maxWarm then maxWarm else warm_Min w);
          t0 = i32 (inUse + warm_TargetPending w);
          t1 = (if t0 < effectiveMin then effectiveMin else t0)
      in if t1 > maxWarm then maxWarm else t1)"

definition warm_cooldown :: "PoolWarm \<Rightarrow> duration" where
  "warm_cooldown w =
     (if warm_CooldownSeconds w > 0 then warm_CooldownSeconds w * second_ns else defaultScaleDownCooldown)"

definition computeDesiredWarm :: "SandboxPool \<Rightarrow> int \<Rightarrow> int \<Rightarrow> time option \<Rightarrow> time \<Rightarrow> int \<times> bool" where
  "computeDesiredWarm pool dormant inUse lastClaim now =
     (let fixed = (let desired = poolWarmMin pool in (desired, desired < dormant))
      in case pool_Warm pool of
           None \<Rightarrow> fixed
         | Some w \<Rightarrow>
             if warm_Max w \<le> 0 then fixed
             else
               let target = warm_target w inUse
               in if target \<ge> dormant then (target, False)
                  else
                    let lst = (case lastClaim of None \<Rightarrow> 0 | Some t \<Rightarrow> t)
                    in if IsZero lst \<or> now - lst \<ge> warm_cooldown w then (target, True)
                       else (dormant, False))"

text \<open>The demand tracker: the last claim arrival of each pool.\<close>

type_synonym PoolDemand = "string \<rightharpoonup> time"

definition NewPoolDemand :: PoolDemand where
  "NewPoolDemand = Map.empty"

definition RecordArrival :: "PoolDemand \<Rightarrow> string \<Rightarrow> time \<Rightarrow> PoolDemand" where
  "RecordArrival d key t =
     (case d key of
        Some prev \<Rightarrow> if t < prev then d else d(key \<mapsto> t)
      | None \<Rightarrow> d(key \<mapsto> t))"

definition LastArrival :: "PoolDemand \<Rightarrow> string \<Rightarrow> time option" where
  "LastArrival d key = d key"

definition Forget :: "PoolDemand \<Rightarrow> string \<Rightarrow> PoolDemand" where
  "Forget d key = d(key := None)"

definition poolKey :: "SandboxPool \<Rightarrow> string" where
  "poolKey pool = pool_Namespace pool @ ''/'' @ pool_Name pool"

text \<open>A nil tracker is \<open>None\<close>.\<close>

definition desiredWarm :: "PoolDemand option \<Rightarrow> time \<Rightarrow> SandboxPool \<Rightarrow> int \<Rightarrow> int \<Rightarrow> int" where
  "desiredWarm demand now pool dormant inUse =
     (let lastClaim = (case demand of None \<Rightarrow> None | Some d \<Rightarrow> LastArrival d (poolKey pool))
      in fst (computeDesiredWarm pool dormant inUse lastClaim now))"

section \<open>The target\<close>

lemma warm_target_clamp:
  assumes "in_i32 (inUse + warm_TargetPending w)"
  shows "warm_target w inUse = min (warm_Max w) (max (min (warm_Min w) (warm_Max w)) (inUse + warm_TargetPending w))"
  using assms by (auto simp: warm_target_def Let_def i32_id min_def max_def)

text \<open>A run of arrivals.\<close>

definition record_all :: "PoolDemand \<Rightarrow> (string \<times> time) list \<Rightarrow> PoolDemand" where
  "record_all d as = foldl (\<lambda>d (k, t). RecordArrival d k t) d as"

lemma RecordArrival_same: "RecordArrival d k t k = Some (case d k of None \<Rightarrow> t | Some p \<Rightarrow> max p t)"
  by (auto simp: RecordArrival_def max_def split: option.splits)

lemma RecordArrival_other: "j \<noteq> k \<Longrightarrow> RecordArrival d k t j = d j"
  by (auto simp: RecordArrival_def split: option.splits)

definition arrivals :: "(string \<times> time) list \<Rightarrow> string \<Rightarrow> time set" where
  "arrivals as k = {t. (k, t) \<in> set as}"

lemma finite_arrivals [simp]: "finite (arrivals as k)"
proof (rule finite_surj)
  show "arrivals as k \<subseteq> snd ` set as" by (force simp: arrivals_def image_def)
qed simp

lemma arrivals_snoc: "arrivals (as @ [(j, t)]) k = (if j = k then insert t (arrivals as k) else arrivals as k)"
  by (auto simp: arrivals_def)

lemma record_all_latest:
  "record_all NewPoolDemand as k = (if arrivals as k = {} then None else Some (Max (arrivals as k)))"
proof (induction as rule: rev_induct)
  case Nil
  then show ?case by (simp add: record_all_def NewPoolDemand_def arrivals_def)
next
  case (snoc a as)
  obtain j t where a: "a = (j, t)" by fastforce
  have step: "record_all NewPoolDemand (as @ [(j, t)]) = RecordArrival (record_all NewPoolDemand as) j t"
    by (simp add: record_all_def)
  show ?case
  proof (cases "j = k")
    case True
    then show ?thesis unfolding a step arrivals_snoc using snoc
      by (simp add: RecordArrival_same max.commute)
  next
    case False
    then show ?thesis unfolding a step arrivals_snoc using snoc by (simp add: RecordArrival_other)
  qed
qed

section \<open>Properties\<close>

text \<open>
  With an autoscaler ceiling set and counts that do not overflow, the desired warm count is the
  demand clamped between the floor and the ceiling, or, only while a claim arrived within the
  cooldown and the pool would shrink, the current dormant count. A scale-down is reported exactly
  when the count is reduced, scaling up is immediate, and the target is a fixed point.
\<close>

theorem warm_pool_target:
  assumes "pool_Warm pool = Some w" and "0 < warm_Max w" and "in_i32 (inUse + warm_TargetPending w)"
    and "computeDesiredWarm pool dormant inUse lastClaim now = (d, down)"
  shows "let target = min (warm_Max w) (max (min (warm_Min w) (warm_Max w)) (inUse + warm_TargetPending w));
             cooling = (\<exists>t. lastClaim = Some t \<and> t \<noteq> 0 \<and> now - t < warm_cooldown w)
         in d = (if target < dormant \<and> cooling then dormant else target) \<and>
            (down \<longleftrightarrow> d < dormant) \<and> (dormant \<le> target \<longrightarrow> d = target) \<and>
            fst (computeDesiredWarm pool target inUse lastClaim now) = target"
proof -
  note c = warm_target_clamp [OF assms(3)]
  show ?thesis
    using assms(1,2,4) unfolding Let_def c [symmetric]
    by (auto simp: computeDesiredWarm_def Let_def split: option.splits if_splits)
qed

theorem warm_pool_target_witness:
  "computeDesiredWarm \<lparr>pool_Namespace = ''ns'', pool_Name = ''p'',
      pool_Warm = Some \<lparr>warm_Min = 1, warm_Max = 5, warm_TargetPending = 2, warm_CooldownSeconds = 0\<rparr>\<rparr> 4 1 None 0 = (3, True) \<and>
   (let target = min 5 (max (min 1 5) (1 + 2)) in (3::int) = target)"
  using warm_pool_target [of "\<lparr>pool_Namespace = ''ns'', pool_Name = ''p'',
      pool_Warm = Some \<lparr>warm_Min = 1, warm_Max = 5, warm_TargetPending = 2, warm_CooldownSeconds = 0\<rparr>\<rparr>"
      "\<lparr>warm_Min = 1, warm_Max = 5, warm_TargetPending = 2, warm_CooldownSeconds = 0\<rparr>" 1 4 None 0 3 True]
  by (simp add: computeDesiredWarm_def warm_target_def Let_def in_i32_def i32_def)

text \<open>
  The demand tracker remembers the latest arrival of each pool. However arrivals are
  interleaved and reordered, the recorded time of a pool is the maximum of its arrivals.
\<close>

theorem demand_latest:
  "LastArrival (record_all NewPoolDemand as) k =
     (if k \<in> fst ` set as then Some (Max {t. (k, t) \<in> set as}) else None)"
proof -
  have "k \<in> fst ` set as \<longleftrightarrow> arrivals as k \<noteq> {}" by (force simp: arrivals_def)
  then show ?thesis by (simp add: LastArrival_def record_all_latest) (simp add: arrivals_def)
qed

end
