(* ===== verification/Cas_Manifest.thy ===== *)
theory Cas_Manifest
  imports Json_Text "HOL-Library.Multiset"
begin

text \<open>
  Chunking and snapshot manifests of the content-addressed store, \<^verbatim>\<open>internal/cas/chunk.go\<close>,
  \<^verbatim>\<open>manifest.go\<close> and \<^verbatim>\<open>verify.go\<close>. SHA-256, the JSON string quoting and the JSON decoder are
  arguments of the definitions; the files a host holds are a map from path to contents.
\<close>

section \<open>Chunks\<close>

type_synonym Digest = string
type_synonym files = "string \<rightharpoonup> bytes"

definition ChunkSize :: nat where
  "ChunkSize = 4 * 2 ^ 20"

definition is_lower_hex :: "char \<Rightarrow> bool" where
  "is_lower_hex c \<longleftrightarrow> (CHR ''a'' \<le> c \<and> c \<le> CHR ''f'') \<or> (CHR ''0'' \<le> c \<and> c \<le> CHR ''9'')"

definition ValidateDigest :: "Digest \<Rightarrow> bool" where
  "ValidateDigest d \<longleftrightarrow> length d = 64 \<and> list_all is_lower_hex d"

record ChunkRef =
  cr_Digest :: Digest
  cr_Size :: int

definition digestBytes :: "(bytes \<Rightarrow> uint8 list) \<Rightarrow> bytes \<Rightarrow> Digest" where
  "digestBytes sha b = hex_string (sha b)"

text \<open>The blocks that successive full reads of \<open>ChunkSize\<close> bytes return.\<close>

function blocks :: "bytes \<Rightarrow> bytes list" where
  "blocks bs = (if bs = [] then [] else take ChunkSize bs # blocks (drop ChunkSize bs))"
  by pat_completeness auto
termination
  by (relation "measure length") (auto simp: ChunkSize_def)

declare blocks.simps [simp del]

definition chunk_ref :: "(bytes \<Rightarrow> uint8 list) \<Rightarrow> bytes \<Rightarrow> ChunkRef" where
  "chunk_ref sha b = \<lparr>cr_Digest = digestBytes sha b, cr_Size = int (length b)\<rparr>"

definition chunkFile :: "(bytes \<Rightarrow> uint8 list) \<Rightarrow> files \<Rightarrow> string \<Rightarrow> (string, ChunkRef list) result" where
  "chunkFile sha fs path =
     (case fs path of
        None \<Rightarrow> Inl (''open '' @ path)
      | Some data \<Rightarrow> Inr (map (chunk_ref sha) (blocks data)))"

section \<open>Manifests\<close>

record FileEntry =
  fe_Name :: string
  fe_Size :: int
  fe_Chunks :: "ChunkRef list"

record HotPageSet =
  hp_PageSizeBytes :: int
  hp_File :: string
  hp_Offsets :: "int list"

definition hp_isEmpty :: "HotPageSet option \<Rightarrow> bool" where
  "hp_isEmpty h \<longleftrightarrow> (case h of None \<Rightarrow> True | Some hp \<Rightarrow> hp_Offsets hp = [])"

record Manifest =
  m_Files :: "FileEntry list"
  m_VMMVersion :: string
  m_CreatedUnix :: int
  m_SnapshotFormatVersion :: int
  m_CPUModel :: string
  m_KernelVersion :: string
  m_ConfigHash :: string
  m_HotPages :: "HotPageSet option"
  m_HugePages :: string
  m_GuestProtocolVersion :: int

definition dedupeSortedInt64 :: "int list \<Rightarrow> int list" where
  "dedupeSortedInt64 xs = remdups_adj (sort xs)"

text \<open>\<open>jstr\<close> is \<^verbatim>\<open>json.Marshal\<close> of a string.\<close>

type_synonym json_str = "string \<Rightarrow> string"

definition encode_chunk :: "json_str \<Rightarrow> ChunkRef \<Rightarrow> string" where
  "encode_chunk jstr c =
     ''{\"digest\":'' @ jstr (cr_Digest c) @ '',\"size\":'' @ dec_int (cr_Size c) @ ''}''"

definition encode_file :: "json_str \<Rightarrow> FileEntry \<Rightarrow> string" where
  "encode_file jstr fe =
     ''{'' @ ''\"chunks\":['' @ json_items (encode_chunk jstr) (fe_Chunks fe) @ ''],'' @
     ''\"name\":'' @ jstr (fe_Name fe) @ '',\"size\":'' @ dec_int (fe_Size fe) @ ''}''"

definition encode_hot_pages :: "json_str \<Rightarrow> HotPageSet \<Rightarrow> string" where
  "encode_hot_pages jstr hp =
     ''\"hotPages\":{\"file\":'' @ jstr (hp_File hp) @ '',\"offsets\":['' @
     json_items dec_int (dedupeSortedInt64 (hp_Offsets hp)) @
     ''],\"pageSizeBytes\":'' @ dec_int (hp_PageSizeBytes hp) @ ''},''"

definition Canonical :: "json_str \<Rightarrow> Manifest \<Rightarrow> bytes" where
  "Canonical jstr m =
     ''{'' @
     ''\"configHash\":'' @ jstr (m_ConfigHash m) @ '','' @
     ''\"cpuModel\":'' @ jstr (m_CPUModel m) @ '','' @
     ''\"createdUnix\":'' @ dec_int (m_CreatedUnix m) @ '','' @
     ''\"files\":['' @ json_items (encode_file jstr) (sort_key fe_Name (m_Files m)) @ ''],'' @
     (if m_GuestProtocolVersion m \<noteq> 0
      then ''\"guestProtocolVersion\":'' @ dec_int (m_GuestProtocolVersion m) @ '','' else []) @
     (case m_HotPages m of
        None \<Rightarrow> []
      | Some hp \<Rightarrow> if hp_isEmpty (m_HotPages m) then [] else encode_hot_pages jstr hp) @
     (if m_HugePages m \<noteq> [] then ''\"hugePages\":'' @ jstr (m_HugePages m) @ '','' else []) @
     ''\"kernelVersion\":'' @ jstr (m_KernelVersion m) @ '','' @
     ''\"snapshotFormatVersion\":'' @ dec_int (m_SnapshotFormatVersion m) @ '','' @
     ''\"vmmVersion\":'' @ jstr (m_VMMVersion m) @ ''}''"

definition ManifestDigest :: "(bytes \<Rightarrow> uint8 list) \<Rightarrow> json_str \<Rightarrow> Manifest \<Rightarrow> Digest" where
  "ManifestDigest sha jstr m = digestBytes sha (Canonical jstr m)"

record Metadata =
  md_SnapshotFormatVersion :: int
  md_VMMVersion :: string
  md_CPUModel :: string
  md_KernelVersion :: string
  md_ConfigHash :: string
  md_CreatedUnix :: int
  md_HotPages :: "HotPageSet option"
  md_HugePages :: string
  md_GuestProtocolVersion :: int

definition manifestFrom :: "FileEntry list \<Rightarrow> Metadata \<Rightarrow> Manifest" where
  "manifestFrom entries meta =
     \<lparr>m_Files = entries, m_VMMVersion = md_VMMVersion meta, m_CreatedUnix = md_CreatedUnix meta,
      m_SnapshotFormatVersion = md_SnapshotFormatVersion meta, m_CPUModel = md_CPUModel meta,
      m_KernelVersion = md_KernelVersion meta, m_ConfigHash = md_ConfigHash meta,
      m_HotPages = md_HotPages meta, m_HugePages = md_HugePages meta,
      m_GuestProtocolVersion = md_GuestProtocolVersion meta\<rparr>"

text \<open>The name to path map of a snapshot's files is given by its pairs; names are sorted.\<close>

fun build_entries :: "(bytes \<Rightarrow> uint8 list) \<Rightarrow> files \<Rightarrow> (string \<times> string) list \<Rightarrow> (string, FileEntry list) result" where
  "build_entries sha fs [] = Inr []"
| "build_entries sha fs ((name, path) # rest) =
     (case fs path of
        None \<Rightarrow> Inl (''stat '' @ path)
      | Some data \<Rightarrow>
          (case chunkFile sha fs path of
             Inl e \<Rightarrow> Inl e
           | Inr chunks \<Rightarrow>
               (case build_entries sha fs rest of
                  Inl e \<Rightarrow> Inl e
                | Inr es \<Rightarrow> Inr (\<lparr>fe_Name = name, fe_Size = int (length data), fe_Chunks = chunks\<rparr> # es))))"

definition BuildManifest ::
  "(bytes \<Rightarrow> uint8 list) \<Rightarrow> files \<Rightarrow> (string \<times> string) list \<Rightarrow> Metadata \<Rightarrow> (string, Manifest) result" where
  "BuildManifest sha fs fl meta =
     (case build_entries sha fs (sort_key fst fl) of
        Inl e \<Rightarrow> Inl e
      | Inr es \<Rightarrow> Inr (manifestFrom es meta))"

section \<open>Decoding\<close>

text \<open>
  \<open>unmarshal\<close> is \<^verbatim>\<open>json.Unmarshal\<close> into the manifest's JSON shape, which has the same fields; the
  decoder then refuses malformed digests.
\<close>

definition decodeManifest :: "(bytes \<Rightarrow> Manifest option) \<Rightarrow> bytes \<Rightarrow> (string, Manifest) result" where
  "decodeManifest unmarshal data =
     (if data = [] then Inl ''empty manifest data''
      else
        (case unmarshal data of
           None \<Rightarrow> Inl ''decode manifest''
         | Some mj \<Rightarrow>
             (case find (\<lambda>fe. \<not> list_all (\<lambda>c. ValidateDigest (cr_Digest c)) (fe_Chunks fe)) (m_Files mj) of
                Some fe \<Rightarrow> Inl (''manifest file '' @ fe_Name fe)
              | None \<Rightarrow> Inr mj)))"

section \<open>Verification of files\<close>

datatype verify_error = NotInManifest string | Rehash string | ChunkCount string | ChunkMismatch string nat

fun compare_from :: "string \<Rightarrow> nat \<Rightarrow> ChunkRef list \<Rightarrow> ChunkRef list \<Rightarrow> (verify_error, unit) result" where
  "compare_from name i (w # ws) (g # gs) =
     (if cr_Digest w \<noteq> cr_Digest g \<or> cr_Size w \<noteq> cr_Size g then Inl (ChunkMismatch name i)
      else compare_from name (Suc i) ws gs)"
| "compare_from name i _ _ = Inr ()"

definition compareChunks :: "string \<Rightarrow> ChunkRef list \<Rightarrow> ChunkRef list \<Rightarrow> (verify_error, unit) result" where
  "compareChunks name want got =
     (if length want \<noteq> length got then Inl (ChunkCount name) else compare_from name 0 want got)"

text \<open>The index by name: a later entry of the same name replaces an earlier one.\<close>

definition byName :: "Manifest \<Rightarrow> string \<Rightarrow> FileEntry option" where
  "byName m = map_of (rev (map (\<lambda>fe. (fe_Name fe, fe)) (m_Files m)))"

fun verify_files ::
  "(bytes \<Rightarrow> uint8 list) \<Rightarrow> files \<Rightarrow> Manifest \<Rightarrow> (string \<times> string) list \<Rightarrow> (verify_error, unit) result" where
  "verify_files sha fs m [] = Inr ()"
| "verify_files sha fs m ((name, path) # rest) =
     (case byName m name of
        None \<Rightarrow> Inl (NotInManifest name)
      | Some fe \<Rightarrow>
          (case chunkFile sha fs path of
             Inl e \<Rightarrow> Inl (Rehash name)
           | Inr chunks \<Rightarrow>
               (case compareChunks name (fe_Chunks fe) chunks of
                  Inl e \<Rightarrow> Inl e
                | Inr _ \<Rightarrow> verify_files sha fs m rest)))"

definition VerifyFilesAgainstManifest ::
  "(bytes \<Rightarrow> uint8 list) \<Rightarrow> files \<Rightarrow> Manifest \<Rightarrow> (string \<times> string) list \<Rightarrow> (verify_error, unit) result" where
  "VerifyFilesAgainstManifest sha fs m fl = verify_files sha fs m fl"

section \<open>Blocks\<close>

lemma blocks_Nil [simp]: "blocks [] = []"
  by (simp add: blocks.simps)

lemma concat_blocks [simp]: "concat (blocks bs) = bs"
  by (induction bs rule: blocks.induct) (subst blocks.simps, simp)

lemma blocks_small: "b \<in> set (blocks bs) \<Longrightarrow> b \<noteq> [] \<and> length b \<le> ChunkSize"
proof (induction bs rule: blocks.induct)
  case (1 bs)
  then show ?case
    by (cases "bs = []") (auto simp: blocks.simps [of bs] ChunkSize_def)
qed

lemma blocks_short: "bs \<noteq> [] \<Longrightarrow> length bs \<le> ChunkSize \<Longrightarrow> blocks bs = [bs]"
  by (simp add: blocks.simps [of bs])

section \<open>Digests\<close>

lemma hex_digit_lower: "is_lower_hex (hex_digit n)"
proof -
  have "list_all is_lower_hex (map (\<lambda>k. ''0123456789abcdef'' ! k) [0..<16])" by code_simp
  then show ?thesis by (auto simp: list_all_iff hex_digit_def)
qed

lemma digestBytes_valid: "length (sha b) = 32 \<Longrightarrow> ValidateDigest (digestBytes sha b)"
proof -
  have "list_all is_lower_hex (hex_string ws)" for ws
    by (induction ws) (simp_all add: hex_string_def hex_byte_def hex_digit_lower)
  then show "length (sha b) = 32 \<Longrightarrow> ?thesis" by (simp add: ValidateDigest_def digestBytes_def)
qed

section \<open>Canonical encoding\<close>

text \<open>What the encoding identifies: the order of files and of hot page offsets, and empty hot page sets.\<close>

definition normal_manifest :: "Manifest \<Rightarrow> Manifest" where
  "normal_manifest m =
     m\<lparr>m_Files := sort_key fe_Name (m_Files m),
       m_HotPages := (case m_HotPages m of
                        None \<Rightarrow> None
                      | Some hp \<Rightarrow> if hp_isEmpty (m_HotPages m) then None
                                   else Some (hp\<lparr>hp_Offsets := dedupeSortedInt64 (hp_Offsets hp)\<rparr>))\<rparr>"

lemma delimited_chunk:
  assumes "delimited jstr"
  shows "delimited (encode_chunk jstr)"
proof (rule delimitedI)
  fix c d r q
  assume "encode_chunk jstr c @ r = encode_chunk jstr d @ q"
  then have "jstr (cr_Digest c) @ '',\"size\":'' @ dec_int (cr_Size c) @ CHR 0x7D # r =
      jstr (cr_Digest d) @ '',\"size\":'' @ dec_int (cr_Size d) @ CHR 0x7D # q"
    by (simp add: encode_chunk_def)
  note 1 = delimitedD [OF assms this]
  then have "dec_int (cr_Size c) @ CHR 0x7D # r = dec_int (cr_Size d) @ CHR 0x7D # q" by simp
  from dec_int_split [OF this] 1 show "c = d \<and> r = q" by simp
qed

lemma delimited_chunks:
  assumes "delimited jstr"
  shows "delimited (\<lambda>xs. json_items (encode_chunk jstr) xs @ [CHR 0x5D])"
proof (rule delimited_items)
  show "x = y \<and> r = q" if "encode_chunk jstr x @ r = encode_chunk jstr y @ q" for x y r q
    using delimitedD [OF delimited_chunk [OF assms] that] .
  show "encode_chunk jstr x \<noteq> [] \<and> hd (encode_chunk jstr x) \<noteq> CHR 0x5D" for x
    by (simp add: encode_chunk_def)
qed

lemma delimited_file:
  assumes "delimited jstr"
  shows "delimited (encode_file jstr)"
proof (rule delimitedI)
  fix f g r q
  let ?items = "\<lambda>xs. json_items (encode_chunk jstr) xs @ [CHR 0x5D]"
  let ?rest = "\<lambda>h s. '',\"name\":'' @ jstr (fe_Name h) @ '',\"size\":'' @ dec_int (fe_Size h) @ CHR 0x7D # s"
  assume "encode_file jstr f @ r = encode_file jstr g @ q"
  then have "?items (fe_Chunks f) @ ?rest f r = ?items (fe_Chunks g) @ ?rest g q"
    by (simp add: encode_file_def)
  note 1 = delimitedD [OF delimited_chunks [OF assms] this]
  then have "jstr (fe_Name f) @ '',\"size\":'' @ dec_int (fe_Size f) @ CHR 0x7D # r =
      jstr (fe_Name g) @ '',\"size\":'' @ dec_int (fe_Size g) @ CHR 0x7D # q" by simp
  note 2 = delimitedD [OF assms this]
  then have "dec_int (fe_Size f) @ CHR 0x7D # r = dec_int (fe_Size g) @ CHR 0x7D # q" by simp
  from dec_int_split [OF this] 1 2 show "f = g \<and> r = q" by simp
qed

lemma delimited_files:
  assumes "delimited jstr"
  shows "delimited (\<lambda>xs. json_items (encode_file jstr) xs @ [CHR 0x5D])"
proof (rule delimited_items)
  show "x = y \<and> r = q" if "encode_file jstr x @ r = encode_file jstr y @ q" for x y r q
    using delimitedD [OF delimited_file [OF assms] that] .
  show "encode_file jstr x \<noteq> [] \<and> hd (encode_file jstr x) \<noteq> CHR 0x5D" for x
    by (simp add: encode_file_def)
qed

lemma delimited_offsets: "delimited (\<lambda>xs. json_items dec_int xs @ [CHR 0x5D])"
proof (rule delimited_items)
  fix i j :: int and r q
  assume h: "(hd r = CHR '','' \<or> hd r = CHR 0x5D) \<and> (hd q = CHR '','' \<or> hd q = CHR 0x5D) \<and> r \<noteq> [] \<and> q \<noteq> []"
    and e: "dec_int i @ r = dec_int j @ q"
  then have "dec_int i @ hd r # tl r = dec_int j @ hd q # tl q" by simp
  moreover have "\<not> is_digit (hd r)" "\<not> is_digit (hd q)" using h by auto
  ultimately show "i = j \<and> r = q" using dec_int_split h by (metis list.collapse)
next
  fix i
  have n: "is_digit (hd (dec_nat n))" "dec_nat n \<noteq> []" for n
    using digits_dec_nat [of n] by (cases "dec_nat n"; simp)+
  show "dec_int i \<noteq> [] \<and> hd (dec_int i) \<noteq> CHR 0x5D"
  proof (cases "i < 0")
    case False
    then show ?thesis using n [of "nat i"] not_digit(4) by (auto simp: dec_int_def simp del: not_digit)
  qed (simp add: dec_int_def)
qed

text \<open>The encoding from the kernel version on, and the three optional fields before it.\<close>

definition kernel_part :: "json_str \<Rightarrow> Manifest \<Rightarrow> string" where
  "kernel_part jstr m =
     ''\"kernelVersion\":'' @ jstr (m_KernelVersion m) @ '','' @
     ''\"snapshotFormatVersion\":'' @ dec_int (m_SnapshotFormatVersion m) @ '','' @
     ''\"vmmVersion\":'' @ jstr (m_VMMVersion m) @ ''}''"

definition huge_part :: "json_str \<Rightarrow> Manifest \<Rightarrow> string" where
  "huge_part jstr m =
     (if m_HugePages m \<noteq> [] then ''\"hugePages\":'' @ jstr (m_HugePages m) @ '','' else []) @ kernel_part jstr m"

definition hot_part :: "json_str \<Rightarrow> Manifest \<Rightarrow> string" where
  "hot_part jstr m =
     (case m_HotPages (normal_manifest m) of None \<Rightarrow> [] | Some hp \<Rightarrow> encode_hot_pages jstr hp) @ huge_part jstr m"

definition guest_part :: "json_str \<Rightarrow> Manifest \<Rightarrow> string" where
  "guest_part jstr m =
     (if m_GuestProtocolVersion m \<noteq> 0
      then ''\"guestProtocolVersion\":'' @ dec_int (m_GuestProtocolVersion m) @ '','' else []) @ hot_part jstr m"

lemma dedupe_idem [simp]: "dedupeSortedInt64 (dedupeSortedInt64 xs) = dedupeSortedInt64 xs"
proof -
  have "sorted (remdups_adj (sort xs))" by simp
  then have "sort (remdups_adj (sort xs)) = remdups_adj (sort xs)" by (simp add: sorted_sort_id)
  moreover have "remdups_adj (remdups_adj (sort xs)) = remdups_adj (sort xs)"
    by (simp only: distinct_adj_altdef [symmetric] distinct_adj_remdups_adj)
  ultimately show ?thesis by (simp only: dedupeSortedInt64_def)
qed

lemma encode_hot_pages_normal:
  "encode_hot_pages jstr (hp\<lparr>hp_Offsets := dedupeSortedInt64 (hp_Offsets hp)\<rparr>) = encode_hot_pages jstr hp"
  by (simp add: encode_hot_pages_def)

lemma Canonical_parts:
  "Canonical jstr m =
     ''{\"configHash\":'' @ jstr (m_ConfigHash m) @ '',\"cpuModel\":'' @ jstr (m_CPUModel m) @
     '',\"createdUnix\":'' @ dec_int (m_CreatedUnix m) @ CHR '','' # ''\"files\":['' @
     (json_items (encode_file jstr) (sort_key fe_Name (m_Files m)) @ [CHR 0x5D]) @ '','' @ guest_part jstr m"
  by (cases "m_HotPages m")
    (simp_all add: Canonical_def guest_part_def hot_part_def huge_part_def kernel_part_def normal_manifest_def
      encode_hot_pages_normal)

lemma kernel_part_inj:
  assumes "delimited jstr" "kernel_part jstr m = kernel_part jstr n"
  shows "m_KernelVersion m = m_KernelVersion n \<and> m_SnapshotFormatVersion m = m_SnapshotFormatVersion n \<and>
    m_VMMVersion m = m_VMMVersion n"
proof -
  let ?r = "\<lambda>x. '',\"snapshotFormatVersion\":'' @ dec_int (m_SnapshotFormatVersion x) @ CHR '','' # ''\"vmmVersion\":'' @ jstr (m_VMMVersion x) @ ''}''"
  have "jstr (m_KernelVersion m) @ ?r m = jstr (m_KernelVersion n) @ ?r n"
    using assms(2) by (simp add: kernel_part_def)
  note 1 = delimitedD [OF assms(1) this]
  then have "dec_int (m_SnapshotFormatVersion m) @ CHR '','' # ''\"vmmVersion\":'' @ jstr (m_VMMVersion m) @ ''}'' =
    dec_int (m_SnapshotFormatVersion n) @ CHR '','' # ''\"vmmVersion\":'' @ jstr (m_VMMVersion n) @ ''}''" by simp
  note 2 = dec_int_split [OF this]
  then have "jstr (m_VMMVersion m) @ ''}'' = jstr (m_VMMVersion n) @ ''}''" by simp
  with 1 2 delimitedD [OF assms(1) this] show ?thesis by simp
qed

lemma huge_part_inj:
  assumes "delimited jstr" "huge_part jstr m = huge_part jstr n"
  shows "m_HugePages m = m_HugePages n \<and> kernel_part jstr m = kernel_part jstr n"
proof (cases "m_HugePages m = []"; cases "m_HugePages n = []")
  assume "m_HugePages m \<noteq> []" "m_HugePages n \<noteq> []"
  then have "jstr (m_HugePages m) @ CHR '','' # kernel_part jstr m = jstr (m_HugePages n) @ CHR '','' # kernel_part jstr n"
    using assms(2) by (simp add: huge_part_def)
  from delimitedD [OF assms(1) this] show ?thesis by simp
qed (use assms(2) in \<open>simp_all add: huge_part_def kernel_part_def\<close>)

lemma encode_hot_pages_split:
  assumes "delimited jstr" "encode_hot_pages jstr h @ r = encode_hot_pages jstr k @ q"
  shows "hp_File h = hp_File k \<and> dedupeSortedInt64 (hp_Offsets h) = dedupeSortedInt64 (hp_Offsets k) \<and>
    hp_PageSizeBytes h = hp_PageSizeBytes k \<and> r = q"
proof -
  let ?i = "\<lambda>x. json_items dec_int (dedupeSortedInt64 (hp_Offsets x)) @ [CHR 0x5D]"
  let ?s = "\<lambda>x y. dec_int (hp_PageSizeBytes x) @ CHR 0x7D # CHR '','' # y"
  have "jstr (hp_File h) @ '',\"offsets\":['' @ ?i h @ '',\"pageSizeBytes\":'' @ ?s h r =
      jstr (hp_File k) @ '',\"offsets\":['' @ ?i k @ '',\"pageSizeBytes\":'' @ ?s k q"
    using assms(2) by (simp add: encode_hot_pages_def)
  note 1 = delimitedD [OF assms(1) this]
  then have "?i h @ '',\"pageSizeBytes\":'' @ ?s h r = ?i k @ '',\"pageSizeBytes\":'' @ ?s k q" by simp
  note 2 = delimitedD [OF delimited_offsets this]
  then have "?s h r = ?s k q" by simp
  from dec_int_split [OF this] 1 2 show ?thesis by simp
qed

lemma normal_hot_dedupe:
  "m_HotPages (normal_manifest m) = Some hp \<Longrightarrow> dedupeSortedInt64 (hp_Offsets hp) = hp_Offsets hp"
  by (auto simp: normal_manifest_def split: option.splits if_splits)

lemma huge_part_start: "take 3 (huge_part jstr m) \<in> {''\"hu'', ''\"ke''}"
  by (simp add: huge_part_def kernel_part_def)

lemma hot_part_start: "take 3 (hot_part jstr m) \<in> {''\"ho'', ''\"hu'', ''\"ke''}"
  using huge_part_start [of jstr m] by (auto simp: hot_part_def encode_hot_pages_def split: option.splits)

lemma hot_part_inj:
  assumes "delimited jstr" "hot_part jstr m = hot_part jstr n"
  shows "m_HotPages (normal_manifest m) = m_HotPages (normal_manifest n) \<and> huge_part jstr m = huge_part jstr n"
proof -
  have no: "encode_hot_pages jstr hp @ r \<noteq> huge_part jstr x" for hp r x
  proof
    assume "encode_hot_pages jstr hp @ r = huge_part jstr x"
    then have "take 3 (encode_hot_pages jstr hp @ r) = take 3 (huge_part jstr x)" by simp
    with huge_part_start [of jstr x] show False by (auto simp: encode_hot_pages_def)
  qed
  show ?thesis
  proof (cases "m_HotPages (normal_manifest m)"; cases "m_HotPages (normal_manifest n)")
    fix h k
    assume hk: "m_HotPages (normal_manifest m) = Some h" "m_HotPages (normal_manifest n) = Some k"
    then have "encode_hot_pages jstr h @ huge_part jstr m = encode_hot_pages jstr k @ huge_part jstr n"
      using assms(2) by (simp add: hot_part_def)
    from encode_hot_pages_split [OF assms(1) this] hk normal_hot_dedupe [OF hk(1)] normal_hot_dedupe [OF hk(2)]
    show ?thesis by simp
  next
    fix h
    assume "m_HotPages (normal_manifest m) = Some h" "m_HotPages (normal_manifest n) = None"
    with assms(2) no [of h "huge_part jstr m" n] show ?thesis by (simp add: hot_part_def)
  next
    fix h
    assume "m_HotPages (normal_manifest m) = None" "m_HotPages (normal_manifest n) = Some h"
    with assms(2) no [of h "huge_part jstr n" m] show ?thesis by (simp add: hot_part_def)
  qed (use assms(2) in \<open>simp add: hot_part_def\<close>)
qed

lemma guest_part_inj:
  assumes "delimited jstr" "guest_part jstr m = guest_part jstr n"
  shows "m_GuestProtocolVersion m = m_GuestProtocolVersion n \<and> hot_part jstr m = hot_part jstr n"
proof -
  have no: "''\"guestProtocolVersion\":'' @ r \<noteq> hot_part jstr x" for r x
  proof
    assume "''\"guestProtocolVersion\":'' @ r = hot_part jstr x"
    then have "take 3 (''\"guestProtocolVersion\":'' @ r) = take 3 (hot_part jstr x)" by simp
    with hot_part_start [of jstr x] show False by auto
  qed
  show ?thesis
  proof (cases "m_GuestProtocolVersion m = 0"; cases "m_GuestProtocolVersion n = 0")
    assume "m_GuestProtocolVersion m \<noteq> 0" "m_GuestProtocolVersion n \<noteq> 0"
    then have "dec_int (m_GuestProtocolVersion m) @ CHR '','' # hot_part jstr m =
        dec_int (m_GuestProtocolVersion n) @ CHR '','' # hot_part jstr n"
      using assms(2) by (simp add: guest_part_def)
    from dec_int_split [OF this] show ?thesis by simp
  next
    assume "m_GuestProtocolVersion m \<noteq> 0" "m_GuestProtocolVersion n = 0"
    then show ?thesis using assms(2) no [of "dec_int (m_GuestProtocolVersion m) @ '','' @ hot_part jstr m" n]
      by (simp add: guest_part_def)
  next
    assume "m_GuestProtocolVersion m = 0" "m_GuestProtocolVersion n \<noteq> 0"
    then show ?thesis using assms(2) no [of "dec_int (m_GuestProtocolVersion n) @ '','' @ hot_part jstr n" m]
      by (simp add: guest_part_def)
  qed (use assms(2) in \<open>simp add: guest_part_def\<close>)
qed

lemma Canonical_inj:
  assumes j: "delimited jstr" and c: "Canonical jstr m = Canonical jstr n"
  shows "normal_manifest m = normal_manifest n"
proof -
  let ?F = "\<lambda>x. (json_items (encode_file jstr) (sort_key fe_Name (m_Files x)) @ [CHR 0x5D]) @ '','' @ guest_part jstr x"
  let ?T = "\<lambda>x. dec_int (m_CreatedUnix x) @ CHR '','' # ''\"files\":['' @ ?F x"
  let ?P = "\<lambda>x. jstr (m_CPUModel x) @ '',\"createdUnix\":'' @ ?T x"
  have "jstr (m_ConfigHash m) @ '',\"cpuModel\":'' @ ?P m = jstr (m_ConfigHash n) @ '',\"cpuModel\":'' @ ?P n"
    using c by (simp add: Canonical_parts)
  note 1 = delimitedD [OF j this]
  then have "?P m = ?P n" by simp
  note 2 = delimitedD [OF j this]
  then have "?T m = ?T n" by simp
  note 3 = dec_int_split [OF this]
  then have "?F m = ?F n" by simp
  note 4 = delimitedD [OF delimited_files [OF j] this]
  then have "guest_part jstr m = guest_part jstr n" by simp
  note 5 = guest_part_inj [OF j this]
  note 6 = hot_part_inj [OF j 5 [THEN conjunct2]]
  note 7 = huge_part_inj [OF j 6 [THEN conjunct2]]
  note 8 = kernel_part_inj [OF j 7 [THEN conjunct2]]
  show ?thesis using 1 2 3 4 5 6 7 8 by (simp add: normal_manifest_def)
qed

lemma sort_key_idem [simp]: "sort_key f (sort_key f xs) = sort_key f xs"
  by (rule sort_key_id_if_sorted) simp

lemma normal_manifest_idem [simp]: "normal_manifest (normal_manifest m) = normal_manifest m"
proof -
  have "dedupeSortedInt64 xs \<noteq> []" if "xs \<noteq> []" for xs
    using that by (simp add: dedupeSortedInt64_def) (metis length_0_conv length_sort)
  then show ?thesis
    by (cases "m_HotPages m") (simp_all add: normal_manifest_def hp_isEmpty_def)
qed

lemma Canonical_normal: "Canonical jstr (normal_manifest m) = Canonical jstr m"
proof -
  have f: "sort_key fe_Name (m_Files (normal_manifest m)) = sort_key fe_Name (m_Files m)"
    by (simp add: normal_manifest_def)
  have n: "m_ConfigHash (normal_manifest m) = m_ConfigHash m" "m_CPUModel (normal_manifest m) = m_CPUModel m"
    "m_CreatedUnix (normal_manifest m) = m_CreatedUnix m" "m_GuestProtocolVersion (normal_manifest m) = m_GuestProtocolVersion m"
    "m_HugePages (normal_manifest m) = m_HugePages m" "m_KernelVersion (normal_manifest m) = m_KernelVersion m"
    "m_SnapshotFormatVersion (normal_manifest m) = m_SnapshotFormatVersion m" "m_VMMVersion (normal_manifest m) = m_VMMVersion m"
    by (simp_all add: normal_manifest_def)
  show ?thesis
    by (simp only: Canonical_parts guest_part_def hot_part_def huge_part_def kernel_part_def f n normal_manifest_idem)
qed

lemma sort_key_distinct:
  assumes "distinct (map f xs)" "distinct (map f ys)" "set xs = set ys"
  shows "sort_key f xs = sort_key f ys"
proof (rule properties_for_sort_key)
  have d: "distinct xs" "distinct ys" using assms(1,2) by (simp_all add: distinct_map)
  have m: "mset xs = mset ys" using d assms(3) by (simp add: set_eq_iff_mset_eq_distinct)
  then show "mset (sort_key f ys) = mset xs" by simp
  have one: "filter (\<lambda>x. f k = f x) zs = [k]" if "distinct (map f zs)" "k \<in> set zs" for zs k
    using that
  proof (induction zs)
    case (Cons z zs)
    show ?case
    proof (cases "z = k")
      case True
      then have "filter (\<lambda>x. f k = f x) zs = []" using Cons.prems(1) by (auto simp: filter_empty_conv)
      with True show ?thesis by simp
    next
      case False
      then have k: "k \<in> set zs" using Cons.prems(2) by simp
      then have "f k \<in> f ` set zs" by (rule imageI)
      then have "f k \<noteq> f z" using Cons.prems(1) by auto
      with Cons k show ?thesis by simp
    qed
  qed simp
  fix k assume "k \<in> set (sort_key f ys)"
  then have k: "k \<in> set xs" "k \<in> set (sort_key f ys)" using assms(3) by simp_all
  have "distinct (map f (sort_key f ys))"
    using assms(2) by (metis distinct_map distinct_sort set_sort)
  then show "filter (\<lambda>x. f k = f x) (sort_key f ys) = filter (\<lambda>x. f k = f x) xs"
    using one assms(1) k by metis
qed simp

section \<open>File verification\<close>

lemma chunkFile_ok: "chunkFile sha fs path = Inr cs \<longleftrightarrow> (\<exists>data. fs path = Some data \<and> cs = map (chunk_ref sha) (blocks data))"
  by (auto simp: chunkFile_def split: option.splits)

lemma compare_from_ok: "length want = length got \<Longrightarrow> compare_from name i want got = Inr () \<longleftrightarrow> want = got"
  by (induction name i want got rule: compare_from.induct) auto

lemma compareChunks_ok: "compareChunks name want got = Inr () \<longleftrightarrow> want = got"
  using compare_from_ok by (auto simp: compareChunks_def)

lemma compareChunks_same: "compareChunks name xs xs = Inr ()"
  by (simp add: compareChunks_ok)

lemma verify_files_ok:
  "verify_files sha fs m fl = Inr () \<longleftrightarrow>
    (\<forall>(name, path) \<in> set fl. \<exists>fe data. byName m name = Some fe \<and> fs path = Some data \<and>
       fe_Chunks fe = map (chunk_ref sha) (blocks data))"
proof (induction fl)
  case (Cons p fl)
  obtain name path where p: "p = (name, path)" by fastforce
  have "verify_files sha fs m (p # fl) = Inr () \<longleftrightarrow>
      (\<exists>fe data. byName m name = Some fe \<and> fs path = Some data \<and> fe_Chunks fe = map (chunk_ref sha) (blocks data)) \<and>
      verify_files sha fs m fl = Inr ()"
    using compareChunks_ok [of name]
    by (auto simp: p chunkFile_def compareChunks_same split: option.splits sum.splits)
  with Cons p show ?case by simp
qed simp

text \<open>Two of the given byte strings are different and have one digest.\<close>

definition digest_collision :: "(bytes \<Rightarrow> uint8 list) \<Rightarrow> bytes set \<Rightarrow> bool" where
  "digest_collision sha B \<longleftrightarrow> (\<exists>x \<in> B. \<exists>y \<in> B. x \<noteq> y \<and> digestBytes sha x = digestBytes sha y)"

definition file_blocks :: "files \<Rightarrow> string \<Rightarrow> bytes set" where
  "file_blocks fs path = (case fs path of None \<Rightarrow> {} | Some data \<Rightarrow> set (blocks data))"

lemma digest_collisionD: "\<not> digest_collision sha B \<Longrightarrow> inj_on (digestBytes sha) B"
  by (auto simp: inj_on_def digest_collision_def)

lemma digest_collision_mono: "digest_collision sha A \<Longrightarrow> A \<subseteq> B \<Longrightarrow> digest_collision sha B"
  unfolding digest_collision_def by blast

lemma chunk_refs_bind:
  assumes "map (chunk_ref sha) (blocks d) = map (chunk_ref sha) (blocks e)"
    and "\<not> digest_collision sha (set (blocks d) \<union> set (blocks e))"
  shows "d = e"
proof -
  have "inj_on (chunk_ref sha) (set (blocks d) \<union> set (blocks e))"
    using digest_collisionD [OF assms(2)] by (auto simp: inj_on_def chunk_ref_def)
  then have "blocks d = blocks e" using assms(1) by (simp add: inj_on_map_eq_map)
  then show ?thesis using concat_blocks by metis
qed

section \<open>Properties\<close>


lemma build_entries_ok:
  "build_entries sha fs fl = Inr es \<longleftrightarrow>
    list_all2 (\<lambda>(name, path) fe. \<exists>data. fs path = Some data \<and>
      fe = \<lparr>fe_Name = name, fe_Size = int (length data), fe_Chunks = map (chunk_ref sha) (blocks data)\<rparr>) fl es"
proof (induction fl arbitrary: es)
  case (Cons p fl)
  obtain name path where p: "p = (name, path)" by fastforce
  show ?case
  proof (cases es)
    case Nil
    then show ?thesis by (auto simp: p chunkFile_def split: option.splits sum.splits)
  next
    case (Cons fe es')
    have "build_entries sha fs (p # fl) = Inr (fe # es') \<longleftrightarrow> (\<exists>data. fs path = Some data \<and>
        fe = \<lparr>fe_Name = name, fe_Size = int (length data), fe_Chunks = map (chunk_ref sha) (blocks data)\<rparr>) \<and>
        build_entries sha fs fl = Inr es'"
      by (auto simp: p chunkFile_def split: option.splits sum.splits)
    then show ?thesis using Cons.IH [of es'] Cons p by simp
  qed
qed auto

text \<open>
  Building a manifest is deterministic in the input map: however the name to path map is
  enumerated, the manifest is the same, its files are sorted by name, and every file entry lists
  the digests and sizes of the consecutive blocks of that file's contents.
\<close>

theorem build_manifest_deterministic:
  assumes "distinct (map fst fl)" and "distinct (map fst fl')" and "set fl = set fl'"
    and "BuildManifest sha fs fl meta = Inr m"
  shows "BuildManifest sha fs fl' meta = Inr m \<and> sorted (map fe_Name (m_Files m)) \<and>
    set (map fe_Name (m_Files m)) = fst ` set fl \<and>
    (\<forall>fe \<in> set (m_Files m). \<exists>path data. (fe_Name fe, path) \<in> set fl \<and> fs path = Some data \<and>
       fe_Size fe = int (length data) \<and> fe_Chunks fe = map (chunk_ref sha) (blocks data) \<and> concat (blocks data) = data)"
proof -
  have s: "sort_key fst fl = sort_key fst fl'" using assms(1-3) by (rule sort_key_distinct)
  obtain es where es: "build_entries sha fs (sort_key fst fl) = Inr es" "m = manifestFrom es meta"
    using assms(4) by (auto simp: BuildManifest_def split: sum.splits)
  let ?R = "\<lambda>(name, path) fe. \<exists>data. fs path = Some data \<and>
      fe = \<lparr>fe_Name = name, fe_Size = int (length data), fe_Chunks = map (chunk_ref sha) (blocks data)\<rparr>"
  have r: "list_all2 ?R (sort_key fst fl) es" using es(1) by (simp only: build_entries_ok)
  then have "map fe_Name es = map fst (sort_key fst fl)"
    by (induction rule: list_all2_induct) auto
  then have names: "sorted (map fe_Name es)" "set (map fe_Name es) = fst ` set fl"
    by (simp, metis set_map set_sort)
  have "\<exists>path data. (fe_Name fe, path) \<in> set fl \<and> fs path = Some data \<and> fe_Size fe = int (length data) \<and>
      fe_Chunks fe = map (chunk_ref sha) (blocks data) \<and> concat (blocks data) = data" if fe: "fe \<in> set es" for fe
  proof -
    obtain i where i: "i < length es" "fe = es ! i" using fe by (auto simp: in_set_conv_nth)
    then have "?R (sort_key fst fl ! i) fe" using r by (simp add: list_all2_conv_all_nth)
    moreover have "sort_key fst fl ! i \<in> set fl"
      using i(1) list_all2_lengthD [OF r] nth_mem [of i "sort_key fst fl"] by simp
    ultimately show ?thesis by (cases "sort_key fst fl ! i") auto
  qed
  with names show ?thesis
    using assms(4) s es(2) by (simp add: BuildManifest_def manifestFrom_def)
qed

text \<open>
  Verifying files against a manifest accepts exactly the right files. It succeeds if and only if
  every supplied name is in the manifest and the file's blocks have the recorded digests and sizes
  in order; and two contents accepted for one name, on any two hosts, are equal unless two of their
  blocks are a SHA-256 collision.
\<close>

theorem verify_files_exact:
  "(VerifyFilesAgainstManifest sha fs m fl = Inr () \<longleftrightarrow>
      (\<forall>(name, path) \<in> set fl. \<exists>fe data. byName m name = Some fe \<and> fs path = Some data \<and>
         fe_Chunks fe = map (chunk_ref sha) (blocks data))) \<and>
   (VerifyFilesAgainstManifest sha fs m [(name, path)] = Inr () \<and>
    VerifyFilesAgainstManifest sha fs' m [(name, path')] = Inr () \<longrightarrow> 
      fs path = fs' path' \<or> digest_collision sha (file_blocks fs path \<union> file_blocks fs' path'))"
proof -
  have "fs path = fs' path' \<or> digest_collision sha (file_blocks fs path \<union> file_blocks fs' path')"
    if v: "verify_files sha fs m [(name, path)] = Inr ()" "verify_files sha fs' m [(name, path')] = Inr ()"
  proof -
    obtain fe d e where x: "fs path = Some d" "fs' path' = Some e" "map (chunk_ref sha) (blocks d) = map (chunk_ref sha) (blocks e)"
      using v unfolding verify_files_ok by auto
    then show ?thesis using chunk_refs_bind [OF x(3)] by (auto simp: file_blocks_def)
  qed
  then show ?thesis
    unfolding VerifyFilesAgainstManifest_def by (intro conjI impI) (rule verify_files_ok, simp)
qed

section \<open>Concrete instances\<close>

definition quote_all :: json_str where
  "quote_all s = CHR 0x22 # concat (map (\<lambda>c. [CHR 0x5C, c]) s) @ [CHR 0x22]"

lemma delimited_quote_all: "delimited quote_all"
proof (rule delimitedI)
  fix x y r q
  assume "quote_all x @ r = quote_all y @ q"
  then show "x = y \<and> r = q"
  proof (induction x arbitrary: y)
    case Nil
    then show ?case by (cases y) (simp_all add: quote_all_def)
  next
    case (Cons c x)
    then show ?case by (cases y) (simp_all add: quote_all_def)
  qed
qed

definition cas_sha :: "bytes \<Rightarrow> uint8 list" where
  "cas_sha b = take 32 (map (\<lambda>c. of_nat (of_char c)) b @ replicate 32 0)"

definition demo_meta :: Metadata where
  "demo_meta = \<lparr>md_SnapshotFormatVersion = 1, md_VMMVersion = ''v1'', md_CPUModel = ''cpu'', md_KernelVersion = ''6'',
     md_ConfigHash = ''h'', md_CreatedUnix = 0, md_HotPages = Some \<lparr>hp_PageSizeBytes = 4096, hp_File = ''mem'', hp_Offsets = [8192, 0, 8192]\<rparr>,
     md_HugePages = [], md_GuestProtocolVersion = 1\<rparr>"

definition demo_files :: files where
  "demo_files = [''/m'' \<mapsto> ''memory'', ''/v'' \<mapsto> ''state'']"


lemma demo_blocks: "blocks ''memory'' = [''memory'']" "blocks ''state'' = [''state'']"
  by (simp_all add: blocks_short ChunkSize_def)

theorem build_manifest_deterministic_witness:
  "\<exists>m. BuildManifest cas_sha demo_files [(''vmstate'', ''/v''), (''mem'', ''/m'')] demo_meta = Inr m \<and>
     BuildManifest cas_sha demo_files [(''mem'', ''/m''), (''vmstate'', ''/v'')] demo_meta = Inr m"
proof -
  obtain m where m: "BuildManifest cas_sha demo_files [(''vmstate'', ''/v''), (''mem'', ''/m'')] demo_meta = Inr m"
    by (simp add: BuildManifest_def chunkFile_def demo_files_def)
  then show ?thesis
    using build_manifest_deterministic [OF _ _ _ m, of "[(''mem'', ''/m''), (''vmstate'', ''/v'')]"] by auto
qed

theorem verify_files_exact_witness:
  "\<exists>m. BuildManifest cas_sha demo_files [(''mem'', ''/m'')] demo_meta = Inr m \<and>
     VerifyFilesAgainstManifest cas_sha demo_files m [(''mem'', ''/m'')] = Inr () \<and>
     VerifyFilesAgainstManifest cas_sha [''/m'' \<mapsto> ''memorx''] m [(''mem'', ''/m'')] \<noteq> Inr ()"
proof -
  obtain m where m: "BuildManifest cas_sha demo_files [(''mem'', ''/m'')] demo_meta = Inr m"
    "byName m ''mem'' = Some \<lparr>fe_Name = ''mem'', fe_Size = 6, fe_Chunks = [chunk_ref cas_sha ''memory'']\<rparr>"
    by (simp add: BuildManifest_def chunkFile_def demo_files_def manifestFrom_def byName_def demo_blocks)
  have b: "blocks ''memorx'' = [''memorx'']" by (simp add: blocks_short ChunkSize_def)
  have "chunk_ref cas_sha ''memory'' \<noteq> chunk_ref cas_sha ''memorx''" by code_simp
  then show ?thesis
    using m verify_files_exact [of cas_sha demo_files m "[(''mem'', ''/m'')]"]
      verify_files_exact [of cas_sha "[''/m'' \<mapsto> ''memorx'']" m "[(''mem'', ''/m'')]"]
    by (auto simp: demo_files_def demo_blocks b)
qed

end
