(* ===== verification/Cas_Store.thy ===== *)
theory Cas_Store
  imports Cas_Manifest
begin

text \<open>
  The content-addressed store, \<^verbatim>\<open>internal/cas/store.go\<close>, \<^verbatim>\<open>transport.go\<close> and \<^verbatim>\<open>evict.go\<close>. The
  three directories of a store are a map from digest to chunk bytes and modification time, a map
  from digest to manifest bytes, and the set of pin markers. Writes are atomic and succeed; a
  missing file is an error. The remote side of a pull is two arbitrary functions.
\<close>

section \<open>State\<close>

record Store =
  st_chunks :: "Digest \<rightharpoonup> bytes \<times> time"
  st_manifests :: "Digest \<rightharpoonup> bytes"
  st_pins :: "Digest set"

definition NewStore :: Store where
  "NewStore = \<lparr>st_chunks = Map.empty, st_manifests = Map.empty, st_pins = {}\<rparr>"

datatype cas_error =
    InvalidDigest Digest
  | ReadManifest Digest
  | BadManifest string
  | StatFile string
  | ChunkTooLarge Digest
  | ChunkVerification Digest Digest
  | MissingChunk Digest string
  | NoManifestFile Digest string
  | RemoteManifest Digest
  | RemoteManifestMismatch Digest Digest
  | RemoteChunk Digest

definition HasChunk :: "Store \<Rightarrow> Digest \<Rightarrow> bool" where
  "HasChunk s d = (if \<not> ValidateDigest d then False else st_chunks s d \<noteq> None)"

definition HasManifest :: "Store \<Rightarrow> Digest \<Rightarrow> bool" where
  "HasManifest s d = (if \<not> ValidateDigest d then False else st_manifests s d \<noteq> None)"

definition GetManifest :: "(bytes \<Rightarrow> Manifest option) \<Rightarrow> Store \<Rightarrow> Digest \<Rightarrow> (cas_error, Manifest) result" where
  "GetManifest unmarshal s d =
     (if \<not> ValidateDigest d then Inl (InvalidDigest d)
      else
        (case st_manifests s d of
           None \<Rightarrow> Inl (ReadManifest d)
         | Some data \<Rightarrow>
             (case decodeManifest unmarshal data of
                Inl e \<Rightarrow> Inl (BadManifest e)
              | Inr m \<Rightarrow> Inr m)))"

section \<open>Writing\<close>

definition writeChunk :: "time \<Rightarrow> Store \<Rightarrow> Digest \<Rightarrow> bytes \<Rightarrow> Store" where
  "writeChunk now s d data = s\<lparr>st_chunks := (st_chunks s)(d \<mapsto> (data, now))\<rparr>"

definition writeManifest :: "(bytes \<Rightarrow> uint8 list) \<Rightarrow> json_str \<Rightarrow> Store \<Rightarrow> Manifest \<Rightarrow> Store" where
  "writeManifest sha jstr s m =
     s\<lparr>st_manifests := (st_manifests s)(ManifestDigest sha jstr m \<mapsto> Canonical jstr m)\<rparr>"

definition PutManifest :: "(bytes \<Rightarrow> uint8 list) \<Rightarrow> json_str \<Rightarrow> Store \<Rightarrow> Manifest \<Rightarrow> Store" where
  "PutManifest sha jstr s m = writeManifest sha jstr s m"

definition put_block :: "(bytes \<Rightarrow> uint8 list) \<Rightarrow> time \<Rightarrow> Store \<Rightarrow> bytes \<Rightarrow> Store" where
  "put_block sha now s b =
     (let d = digestBytes sha b in if HasChunk s d then s else writeChunk now s d b)"

definition putFileChunks ::
  "(bytes \<Rightarrow> uint8 list) \<Rightarrow> time \<Rightarrow> files \<Rightarrow> Store \<Rightarrow> string \<Rightarrow> string \<Rightarrow> (cas_error, FileEntry) result \<times> Store" where
  "putFileChunks sha now fs s name path =
     (case fs path of
        None \<Rightarrow> (Inl (StatFile path), s)
      | Some data \<Rightarrow>
          (Inr \<lparr>fe_Name = name, fe_Size = int (length data), fe_Chunks = map (chunk_ref sha) (blocks data)\<rparr>,
           foldl (put_block sha now) s (blocks data)))"

fun put_files ::
  "(bytes \<Rightarrow> uint8 list) \<Rightarrow> time \<Rightarrow> files \<Rightarrow> Store \<Rightarrow> (string \<times> string) list \<Rightarrow>
     (cas_error, FileEntry list) result \<times> Store" where
  "put_files sha now fs s [] = (Inr [], s)"
| "put_files sha now fs s ((name, path) # rest) =
     (case putFileChunks sha now fs s name path of
        (Inl e, s1) \<Rightarrow> (Inl e, s1)
      | (Inr fe, s1) \<Rightarrow>
          (case put_files sha now fs s1 rest of
             (Inl e, s2) \<Rightarrow> (Inl e, s2)
           | (Inr fes, s2) \<Rightarrow> (Inr (fe # fes), s2)))"

definition PutSnapshot ::
  "(bytes \<Rightarrow> uint8 list) \<Rightarrow> json_str \<Rightarrow> time \<Rightarrow> files \<Rightarrow> Store \<Rightarrow> (string \<times> string) list \<Rightarrow> Metadata \<Rightarrow>
     (cas_error, Manifest) result \<times> Store" where
  "PutSnapshot sha jstr now fs s fl meta =
     (case put_files sha now fs s (sort_key fst fl) of
        (Inl e, s1) \<Rightarrow> (Inl e, s1)
      | (Inr es, s1) \<Rightarrow>
          let m = manifestFrom es meta in (Inr m, writeManifest sha jstr s1 m))"

definition PutChunk ::
  "(bytes \<Rightarrow> uint8 list) \<Rightarrow> time \<Rightarrow> Store \<Rightarrow> Digest \<Rightarrow> bytes \<Rightarrow> (cas_error, unit) result \<times> Store" where
  "PutChunk sha now s d r =
     (if \<not> ValidateDigest d then (Inl (InvalidDigest d), s)
      else
        let data = take (ChunkSize + 1) r
        in if length data > ChunkSize then (Inl (ChunkTooLarge d), s)
           else if digestBytes sha data \<noteq> d then (Inl (ChunkVerification d (digestBytes sha data)), s)
           else (Inr (), writeChunk now s d data))"

text \<open>The referenced chunks in order, each once, that the store does not hold.\<close>

fun missing_from :: "Store \<Rightarrow> Digest set \<Rightarrow> ChunkRef list \<Rightarrow> Digest list" where
  "missing_from s seen [] = []"
| "missing_from s seen (c # cs) =
     (if cr_Digest c \<in> seen then missing_from s seen cs
      else (if HasChunk s (cr_Digest c) then [] else [cr_Digest c]) @
        missing_from s (insert (cr_Digest c) seen) cs)"

definition all_chunks :: "Manifest \<Rightarrow> ChunkRef list" where
  "all_chunks m = concat (map fe_Chunks (m_Files m))"

definition MissingChunks :: "Store \<Rightarrow> Manifest \<Rightarrow> Digest list" where
  "MissingChunks s m = missing_from s {} (all_chunks m)"

section \<open>Reading\<close>

definition touchChunk :: "time \<Rightarrow> Store \<Rightarrow> Digest \<Rightarrow> Store" where
  "touchChunk now s d =
     (case st_chunks s d of
        None \<Rightarrow> s
      | Some (data, t) \<Rightarrow> s\<lparr>st_chunks := (st_chunks s)(d \<mapsto> (data, now))\<rparr>)"

definition copyVerifiedChunk ::
  "(bytes \<Rightarrow> uint8 list) \<Rightarrow> Store \<Rightarrow> ChunkRef \<Rightarrow> string \<Rightarrow> (cas_error, bytes) result" where
  "copyVerifiedChunk sha s c fileName =
     (case st_chunks s (cr_Digest c) of
        None \<Rightarrow> Inl (MissingChunk (cr_Digest c) fileName)
      | Some (data, t) \<Rightarrow>
          if digestBytes sha data \<noteq> cr_Digest c
          then Inl (ChunkVerification (cr_Digest c) (digestBytes sha data))
          else Inr data)"

fun copy_chunks ::
  "(bytes \<Rightarrow> uint8 list) \<Rightarrow> time \<Rightarrow> Store \<Rightarrow> string \<Rightarrow> ChunkRef list \<Rightarrow> (cas_error, bytes) result \<times> Store" where
  "copy_chunks sha now s fileName [] = (Inr [], s)"
| "copy_chunks sha now s fileName (c # cs) =
     (case copyVerifiedChunk sha s c fileName of
        Inl e \<Rightarrow> (Inl e, s)
      | Inr data \<Rightarrow>
          (case copy_chunks sha now (touchChunk now s (cr_Digest c)) fileName cs of
             (Inl e, s') \<Rightarrow> (Inl e, s')
           | (Inr rest, s') \<Rightarrow> (Inr (data @ rest), s')))"

text \<open>A failed file is removed from the destination.\<close>

definition materializeFileAt ::
  "(bytes \<Rightarrow> uint8 list) \<Rightarrow> time \<Rightarrow> Store \<Rightarrow> files \<Rightarrow> FileEntry \<Rightarrow> string \<Rightarrow>
     (cas_error, unit) result \<times> Store \<times> files" where
  "materializeFileAt sha now s out fe dst =
     (case copy_chunks sha now s (fe_Name fe) (fe_Chunks fe) of
        (Inl e, s') \<Rightarrow> (Inl e, s', out(dst := None))
      | (Inr data, s') \<Rightarrow> (Inr (), s', out(dst \<mapsto> data)))"

fun materialize_files ::
  "(bytes \<Rightarrow> uint8 list) \<Rightarrow> time \<Rightarrow> Store \<Rightarrow> files \<Rightarrow> FileEntry list \<Rightarrow> (cas_error, unit) result \<times> Store \<times> files" where
  "materialize_files sha now s out [] = (Inr (), s, out)"
| "materialize_files sha now s out (fe # fes) =
     (case materializeFileAt sha now s out fe (fe_Name fe) of
        (Inl e, s', out') \<Rightarrow> (Inl e, s', out')
      | (Inr _, s', out') \<Rightarrow> materialize_files sha now s' out' fes)"

text \<open>The destination directory is a map from file name to contents.\<close>

definition Materialize ::
  "(bytes \<Rightarrow> uint8 list) \<Rightarrow> (bytes \<Rightarrow> Manifest option) \<Rightarrow> time \<Rightarrow> Store \<Rightarrow> files \<Rightarrow> Digest \<Rightarrow>
     (cas_error, unit) result \<times> Store \<times> files" where
  "Materialize sha unmarshal now s out manifestDigest =
     (if \<not> ValidateDigest manifestDigest then (Inl (InvalidDigest manifestDigest), s, out)
      else
        (case GetManifest unmarshal s manifestDigest of
           Inl e \<Rightarrow> (Inl e, s, out)
         | Inr m \<Rightarrow> materialize_files sha now s out (m_Files m)))"

definition MaterializeFileTo ::
  "(bytes \<Rightarrow> uint8 list) \<Rightarrow> (bytes \<Rightarrow> Manifest option) \<Rightarrow> time \<Rightarrow> Store \<Rightarrow> files \<Rightarrow> Digest \<Rightarrow> string \<Rightarrow> string \<Rightarrow>
     (cas_error, unit) result \<times> Store \<times> files" where
  "MaterializeFileTo sha unmarshal now s out manifestDigest name dstPath =
     (if \<not> ValidateDigest manifestDigest then (Inl (InvalidDigest manifestDigest), s, out)
      else
        (case GetManifest unmarshal s manifestDigest of
           Inl e \<Rightarrow> (Inl e, s, out)
         | Inr m \<Rightarrow>
             (case find (\<lambda>fe. fe_Name fe = name) (m_Files m) of
                None \<Rightarrow> (Inl (NoManifestFile manifestDigest name), s, out)
              | Some fe \<Rightarrow> materializeFileAt sha now s out fe dstPath)))"

section \<open>Pulling\<close>

record Transport =
  tr_GetManifest :: "Digest \<Rightarrow> Manifest option"
  tr_GetChunk :: "Digest \<Rightarrow> bytes option"

definition pullChunk ::
  "(bytes \<Rightarrow> uint8 list) \<Rightarrow> time \<Rightarrow> Store \<Rightarrow> Transport \<Rightarrow> Digest \<Rightarrow> (cas_error, unit) result \<times> Store" where
  "pullChunk sha now local remote d =
     (case tr_GetChunk remote d of
        None \<Rightarrow> (Inl (RemoteChunk d), local)
      | Some rc \<Rightarrow> PutChunk sha now local d rc)"

fun pull_chunks ::
  "(bytes \<Rightarrow> uint8 list) \<Rightarrow> time \<Rightarrow> Store \<Rightarrow> Transport \<Rightarrow> Digest list \<Rightarrow> (cas_error, unit) result \<times> Store" where
  "pull_chunks sha now local remote [] = (Inr (), local)"
| "pull_chunks sha now local remote (d # ds) =
     (case pullChunk sha now local remote d of
        (Inl e, l1) \<Rightarrow> (Inl e, l1)
      | (Inr _, l1) \<Rightarrow> pull_chunks sha now l1 remote ds)"

definition Pull ::
  "(bytes \<Rightarrow> uint8 list) \<Rightarrow> json_str \<Rightarrow> time \<Rightarrow> Store \<Rightarrow> Transport \<Rightarrow> Digest \<Rightarrow> (cas_error, unit) result \<times> Store" where
  "Pull sha jstr now local remote manifestDigest =
     (if \<not> ValidateDigest manifestDigest then (Inl (InvalidDigest manifestDigest), local)
      else
        (case tr_GetManifest remote manifestDigest of
           None \<Rightarrow> (Inl (RemoteManifest manifestDigest), local)
         | Some m \<Rightarrow>
             if ManifestDigest sha jstr m \<noteq> manifestDigest
             then (Inl (RemoteManifestMismatch manifestDigest (ManifestDigest sha jstr m)), local)
             else
               (case pull_chunks sha now local remote (MissingChunks local m) of
                  (Inl e, l1) \<Rightarrow> (Inl e, l1)
                | (Inr _, l1) \<Rightarrow> (Inr (), PutManifest sha jstr l1 m))))"

section \<open>Pins and eviction\<close>

definition Pin :: "Store \<Rightarrow> Digest \<Rightarrow> Store" where
  "Pin s d = s\<lparr>st_pins := insert d (st_pins s)\<rparr>"

definition Unpin :: "Store \<Rightarrow> Digest \<Rightarrow> Store" where
  "Unpin s d = s\<lparr>st_pins := st_pins s - {d}\<rparr>"

definition IsPinned :: "Store \<Rightarrow> Digest \<Rightarrow> bool" where
  "IsPinned s d \<longleftrightarrow> d \<in> st_pins s"

definition pinnedChunks :: "(bytes \<Rightarrow> Manifest option) \<Rightarrow> Store \<Rightarrow> Digest set" where
  "pinnedChunks unmarshal s =
     (\<Union>d \<in> st_pins s. case GetManifest unmarshal s d of
        Inl e \<Rightarrow> {}
      | Inr m \<Rightarrow> cr_Digest ` set (all_chunks m))"

record chunkStat =
  cs_digest :: Digest
  cs_size :: int
  cs_mtime :: time

text \<open>The directory walk yields the chunk files in the order \<open>ds\<close>.\<close>

definition scanChunks :: "Store \<Rightarrow> Digest list \<Rightarrow> chunkStat list" where
  "scanChunks s ds =
     List.map_filter (\<lambda>d. case st_chunks s d of
        None \<Rightarrow> None
      | Some (data, t) \<Rightarrow> Some \<lparr>cs_digest = d, cs_size = int (length data), cs_mtime = t\<rparr>) ds"

definition totalChunkBytes :: "Store \<Rightarrow> Digest list \<Rightarrow> int" where
  "totalChunkBytes s ds = sum_list (map cs_size (scanChunks s ds))"

fun evict_loop :: "Digest set \<Rightarrow> int \<Rightarrow> chunkStat list \<Rightarrow> Store \<Rightarrow> int \<Rightarrow> int \<Rightarrow> int \<times> Store" where
  "evict_loop pinned maxBytes [] s total' freed = (freed, s)"
| "evict_loop pinned maxBytes (st # sts) s total' freed =
     (if total' \<le> maxBytes then (freed, s)
      else if cs_digest st \<in> pinned then evict_loop pinned maxBytes sts s total' freed
      else evict_loop pinned maxBytes sts (s\<lparr>st_chunks := (st_chunks s)(cs_digest st := None)\<rparr>)
             (total' - cs_size st) (freed + cs_size st))"

text \<open>\<open>byAge\<close> is the sort by modification time, which may order equal times in any way.\<close>

definition EvictToFit ::
  "(chunkStat list \<Rightarrow> chunkStat list) \<Rightarrow> (bytes \<Rightarrow> Manifest option) \<Rightarrow> Store \<Rightarrow> Digest list \<Rightarrow> int \<Rightarrow> int \<times> Store" where
  "EvictToFit byAge unmarshal s ds maxBytes =
     (let stats = scanChunks s ds;
          pinned = pinnedChunks unmarshal s;
          total' = sum_list (map cs_size stats)
      in if total' \<le> maxBytes then (0, s)
         else evict_loop pinned maxBytes (byAge stats) s total' 0)"

section \<open>Contents\<close>

text \<open>What a store holds, without the modification times.\<close>

definition content :: "Store \<Rightarrow> Digest \<rightharpoonup> bytes" where
  "content s d = map_option fst (st_chunks s d)"

text \<open>Every chunk file holds what its name says and is no larger than a chunk.\<close>

definition store_ok :: "(bytes \<Rightarrow> uint8 list) \<Rightarrow> Store \<Rightarrow> bool" where
  "store_ok sha s \<longleftrightarrow> (\<forall>d data. content s d = Some data \<longrightarrow>
     ValidateDigest d \<and> digestBytes sha data = d \<and> length data \<le> ChunkSize)"

lemma store_okD:
  "store_ok sha s \<Longrightarrow> content s d = Some data \<Longrightarrow> ValidateDigest d \<and> digestBytes sha data = d \<and> length data \<le> ChunkSize"
  by (auto simp: store_ok_def)

lemma content_writeChunk [simp]: "content (writeChunk now s d data) = (content s)(d \<mapsto> data)"
  by (auto simp: content_def writeChunk_def fun_eq_iff)

lemma content_touchChunk [simp]: "content (touchChunk now s d) = content s"
  by (auto simp: content_def touchChunk_def fun_eq_iff split: option.splits)

lemma content_writeManifest [simp]: "content (writeManifest sha jstr s m) = content s"
  by (auto simp: content_def writeManifest_def fun_eq_iff)

lemma content_PutManifest [simp]: "content (PutManifest sha jstr s m) = content s"
  by (simp add: PutManifest_def)

lemma manifests_simps [simp]:
  "st_manifests (writeChunk now s d data) = st_manifests s" "st_manifests (touchChunk now s d) = st_manifests s"
  "st_pins (writeChunk now s d data) = st_pins s" "st_pins (touchChunk now s d) = st_pins s"
  "st_pins (writeManifest sha jstr s m) = st_pins s"
  by (auto simp: writeChunk_def touchChunk_def writeManifest_def split: option.splits)

lemma HasChunk_content: "HasChunk s d \<longleftrightarrow> ValidateDigest d \<and> content s d \<noteq> None"
  by (simp add: HasChunk_def content_def)

lemma writeChunk_ok:
  "store_ok sha s \<Longrightarrow> ValidateDigest d \<Longrightarrow> digestBytes sha data = d \<Longrightarrow> length data \<le> ChunkSize \<Longrightarrow>
    store_ok sha (writeChunk now s d data)"
  by (auto simp: store_ok_def)

section \<open>Reading depends on the contents only\<close>

fun fetch :: "(bytes \<Rightarrow> uint8 list) \<Rightarrow> (Digest \<rightharpoonup> bytes) \<Rightarrow> string \<Rightarrow> ChunkRef list \<Rightarrow> (cas_error, bytes) result" where
  "fetch sha ct name [] = Inr []"
| "fetch sha ct name (c # cs) =
     (case ct (cr_Digest c) of
        None \<Rightarrow> Inl (MissingChunk (cr_Digest c) name)
      | Some data \<Rightarrow>
          if digestBytes sha data \<noteq> cr_Digest c then Inl (ChunkVerification (cr_Digest c) (digestBytes sha data))
          else case fetch sha ct name cs of Inl e \<Rightarrow> Inl e | Inr rest \<Rightarrow> Inr (data @ rest))"

lemma copy_chunks_fetch:
  "\<exists>s'. copy_chunks sha now s name cs = (fetch sha (content s) name cs, s') \<and> content s' = content s \<and>
     st_manifests s' = st_manifests s \<and> st_pins s' = st_pins s"
proof (induction cs arbitrary: s)
  case (Cons c cs)
  show ?case
  proof (cases "st_chunks s (cr_Digest c)")
    case None
    then have "content s (cr_Digest c) = None" by (simp add: content_def)
    with None show ?thesis by (simp add: copyVerifiedChunk_def)
  next
    case (Some p)
    obtain data t where p: "p = (data, t)" by fastforce
    obtain s' where "copy_chunks sha now (touchChunk now s (cr_Digest c)) name cs = (fetch sha (content s) name cs, s')"
      "content s' = content s" "st_manifests s' = st_manifests s" "st_pins s' = st_pins s"
      using Cons.IH [of "touchChunk now s (cr_Digest c)"] by auto
    moreover have "content s (cr_Digest c) = Some data" using Some p by (simp add: content_def)
    ultimately show ?thesis using Some p by (simp add: copyVerifiedChunk_def split: sum.splits)
  qed
qed simp

lemma fetch_ok:
  "fetch sha ct name cs = Inr data \<longleftrightarrow>
    (\<exists>bs. list_all2 (\<lambda>c b. ct (cr_Digest c) = Some b \<and> digestBytes sha b = cr_Digest c) cs bs \<and> data = concat bs)"
proof (induction cs arbitrary: data)
  case (Cons c cs)
  let ?R = "\<lambda>c b. ct (cr_Digest c) = Some b \<and> digestBytes sha b = cr_Digest c"
  have "fetch sha ct name (c # cs) = Inr data \<longleftrightarrow> (\<exists>b rest. ct (cr_Digest c) = Some b \<and>
      digestBytes sha b = cr_Digest c \<and> fetch sha ct name cs = Inr rest \<and> data = b @ rest)"
    by (auto split: option.splits sum.splits)
  also have "\<dots> \<longleftrightarrow> (\<exists>bs. list_all2 ?R (c # cs) bs \<and> data = concat bs)"
  proof
    assume "\<exists>b rest. ct (cr_Digest c) = Some b \<and> digestBytes sha b = cr_Digest c \<and> fetch sha ct name cs = Inr rest \<and> data = b @ rest"
    then obtain b bs where "?R c b" "list_all2 ?R cs bs" "data = b @ concat bs" unfolding Cons.IH by blast
    then have "list_all2 ?R (c # cs) (b # bs) \<and> data = concat (b # bs)" by simp
    then show "\<exists>bs. list_all2 ?R (c # cs) bs \<and> data = concat bs" by blast
  next
    assume "\<exists>bs. list_all2 ?R (c # cs) bs \<and> data = concat bs"
    then obtain b bs where "?R c b" "list_all2 ?R cs bs" "data = b @ concat bs" by (auto simp: list_all2_Cons1)
    then show "\<exists>b rest. ct (cr_Digest c) = Some b \<and> digestBytes sha b = cr_Digest c \<and> fetch sha ct name cs = Inr rest \<and> data = b @ rest"
      unfolding Cons.IH by blast
  qed
  finally show ?case .
qed auto

lemma materialize_files_ok:
  assumes "distinct (map fe_Name fes)"
    and "\<And>fe. fe \<in> set fes \<Longrightarrow> fetch sha (content s) (fe_Name fe) (fe_Chunks fe) = Inr (data (fe_Name fe))"
  shows "\<exists>s'. materialize_files sha now s out fes =
      (Inr (), s', \<lambda>x. if x \<in> fe_Name ` set fes then Some (data x) else out x) \<and> content s' = content s \<and>
      st_manifests s' = st_manifests s \<and> st_pins s' = st_pins s"
  using assms
proof (induction fes arbitrary: s out)
  case (Cons fe fes)
  obtain s1 where s1: "copy_chunks sha now s (fe_Name fe) (fe_Chunks fe) = (Inr (data (fe_Name fe)), s1)"
    "content s1 = content s" "st_manifests s1 = st_manifests s" "st_pins s1 = st_pins s"
    using copy_chunks_fetch [of sha now s "fe_Name fe" "fe_Chunks fe"] Cons.prems(2) [of fe] by auto
  have "\<exists>s'. materialize_files sha now s1 (out(fe_Name fe \<mapsto> data (fe_Name fe))) fes =
      (Inr (), s', \<lambda>x. if x \<in> fe_Name ` set fes then Some (data x) else (out(fe_Name fe \<mapsto> data (fe_Name fe))) x) \<and>
      content s' = content s1 \<and> st_manifests s' = st_manifests s1 \<and> st_pins s' = st_pins s1"
    using Cons.prems s1(2) by (intro Cons.IH) auto
  then show ?case using s1 by (auto simp: materializeFileAt_def fun_eq_iff)
qed simp

lemma materialize_files_frame:
  "materialize_files sha now s out fes = (Inr (), s', out') \<Longrightarrow> x \<notin> fe_Name ` set fes \<Longrightarrow> out' x = out x"
proof (induction fes arbitrary: s out)
  case (Cons h hs)
  obtain s1 out1 where m: "materializeFileAt sha now s out h (fe_Name h) = (Inr (), s1, out1)"
    "materialize_files sha now s1 out1 hs = (Inr (), s', out')"
    using Cons.prems(1) by (simp split: prod.splits sum.splits)
  then have "out1 x = out x" using Cons.prems(2) by (auto simp: materializeFileAt_def split: prod.splits sum.splits)
  moreover have "out' x = out1 x" using m(2) Cons.prems(2) by (intro Cons.IH [of s1 out1]) simp_all
  ultimately show ?case by simp
qed simp

lemma materialize_files_sound:
  assumes "materialize_files sha now s out fes = (Inr (), s', out')" and "distinct (map fe_Name fes)" and "fe \<in> set fes"
  shows "\<exists>data. fetch sha (content s) (fe_Name fe) (fe_Chunks fe) = Inr data \<and> out' (fe_Name fe) = Some data"
  using assms
proof (induction fes arbitrary: s out)
  case (Cons g fes)
  obtain s1 where s1: "copy_chunks sha now s (fe_Name g) (fe_Chunks g) = (fetch sha (content s) (fe_Name g) (fe_Chunks g), s1)"
    "content s1 = content s"
    using copy_chunks_fetch by blast
  then obtain data where d: "fetch sha (content s) (fe_Name g) (fe_Chunks g) = Inr data"
      "materialize_files sha now s1 (out(fe_Name g \<mapsto> data)) fes = (Inr (), s', out')"
    using Cons.prems(1) by (auto simp: materializeFileAt_def split: sum.splits)
  show ?case
  proof (cases "fe = g")
    case True
    have "out' (fe_Name g) = Some data"
      using materialize_files_frame [OF d(2), of "fe_Name g"] Cons.prems(2) by simp
    with True d(1) show ?thesis by simp
  next
    case False
    then show ?thesis using Cons.IH [OF d(2)] Cons.prems(2,3) s1(2) by auto
  qed
qed simp

section \<open>Writing keeps the store in order\<close>

definition sha256_shape :: "(bytes \<Rightarrow> uint8 list) \<Rightarrow> bool" where
  "sha256_shape sha \<longleftrightarrow> (\<forall>b. length (sha b) = 32)"

text \<open>What a write may do: add chunks that fit their names, and leave pins alone.\<close>

definition extends :: "(bytes \<Rightarrow> uint8 list) \<Rightarrow> Store \<Rightarrow> Store \<Rightarrow> bool" where
  "extends sha s s' \<longleftrightarrow> content s \<subseteq>\<^sub>m content s' \<and> (store_ok sha s \<longrightarrow> store_ok sha s') \<and>
     st_manifests s' = st_manifests s \<and> st_pins s' = st_pins s"

lemma extends_refl [simp]: "extends sha s s"
  by (simp add: extends_def)

lemma extends_trans: "extends sha s t \<Longrightarrow> extends sha t u \<Longrightarrow> extends sha s u"
  by (auto simp: extends_def intro: map_le_trans)

lemma extends_present: "extends sha s s' \<Longrightarrow> content s d \<noteq> None \<Longrightarrow> content s' d \<noteq> None"
  by (auto simp: extends_def map_le_def dom_def)

lemma writeChunk_extends:
  assumes "ValidateDigest d" "digestBytes sha b = d" "length b \<le> ChunkSize" "content s d = None"
  shows "extends sha s (writeChunk now s d b)"
  using assms by (auto simp: extends_def map_le_def intro: writeChunk_ok)

lemma put_block_extends:
  assumes "sha256_shape sha" and "length b \<le> ChunkSize"
  shows "extends sha s (put_block sha now s b)" and "content (put_block sha now s b) (digestBytes sha b) \<noteq> None"
proof -
  have v: "ValidateDigest (digestBytes sha b)" using assms(1) by (simp add: sha256_shape_def digestBytes_valid)
  then show "extends sha s (put_block sha now s b)"
    using assms(2) by (auto simp: put_block_def Let_def HasChunk_content intro: writeChunk_extends)
  show "content (put_block sha now s b) (digestBytes sha b) \<noteq> None"
    using v by (auto simp: put_block_def Let_def HasChunk_content)
qed

lemma put_blocks_extends:
  assumes "sha256_shape sha" and "\<forall>b \<in> set bs. length b \<le> ChunkSize"
  shows "extends sha s (foldl (put_block sha now) s bs) \<and>
    (\<forall>b \<in> set bs. content (foldl (put_block sha now) s bs) (digestBytes sha b) \<noteq> None)"
  using assms(2)
proof (induction bs arbitrary: s)
  case (Cons b bs)
  note P = put_block_extends [OF assms(1), where b = b and s = s and now = now]
  have IH: "extends sha (put_block sha now s b) (foldl (put_block sha now) (put_block sha now s b) bs)"
    "\<forall>b' \<in> set bs. content (foldl (put_block sha now) (put_block sha now s b) bs) (digestBytes sha b') \<noteq> None"
    using Cons.IH [of "put_block sha now s b"] Cons.prems by simp_all
  then show ?case
    using P Cons.prems extends_trans [OF P(1) IH(1)] extends_present [OF IH(1)] by simp
qed simp

definition holds_file :: "(bytes \<Rightarrow> uint8 list) \<Rightarrow> Store \<Rightarrow> files \<Rightarrow> string \<times> string \<Rightarrow> FileEntry \<Rightarrow> bool" where
  "holds_file sha s fs p fe \<longleftrightarrow> (\<exists>data. fs (snd p) = Some data \<and>
     fe = \<lparr>fe_Name = fst p, fe_Size = int (length data), fe_Chunks = map (chunk_ref sha) (blocks data)\<rparr> \<and>
     (\<forall>b \<in> set (blocks data). content s (digestBytes sha b) \<noteq> None))"

lemma holds_file_extends: "holds_file sha s fs p fe \<Longrightarrow> extends sha s s' \<Longrightarrow> holds_file sha s' fs p fe"
  unfolding holds_file_def using extends_present by metis

lemma put_files_spec:
  assumes sha: "sha256_shape sha"
  shows "put_files sha now fs s fl = (r, s') \<Longrightarrow>
    extends sha s s' \<and> (\<forall>es. r = Inr es \<longrightarrow> list_all2 (holds_file sha s' fs) fl es)"
proof (induction fl arbitrary: s r)
  case (Cons p fl)
  obtain name path where p: "p = (name, path)" by fastforce
  show ?case
  proof (cases "fs path")
    case None
    then show ?thesis using Cons.prems p by (auto simp: putFileChunks_def)
  next
    case (Some data)
    let ?s1 = "foldl (put_block sha now) s (blocks data)"
    have B: "extends sha s ?s1" "\<forall>b \<in> set (blocks data). content ?s1 (digestBytes sha b) \<noteq> None"
      using put_blocks_extends [OF sha, of "blocks data" s now] blocks_small by auto
    obtain r2 where r2: "put_files sha now fs ?s1 fl = (r2, s')"
      using Cons.prems p Some by (auto simp: putFileChunks_def split: prod.splits sum.splits)
    note IH = Cons.IH [OF r2]
    have ext: "extends sha s s'" using B(1) IH extends_trans by blast
    let ?fe = "\<lparr>fe_Name = name, fe_Size = int (length data), fe_Chunks = map (chunk_ref sha) (blocks data)\<rparr>"
    have "holds_file sha ?s1 fs p ?fe" using Some p B(2) by (simp add: holds_file_def)
    then have "holds_file sha s' fs p ?fe" using IH holds_file_extends by blast
    then show ?thesis using ext IH r2 Cons.prems p Some
      by (auto simp: putFileChunks_def split: sum.splits)
  qed
qed auto

lemma fetch_blocks:
  "\<forall>b \<in> set bs. ct (digestBytes sha b) = Some b \<Longrightarrow> fetch sha ct name (map (chunk_ref sha) bs) = Inr (concat bs)"
  by (induction bs) (simp_all add: chunk_ref_def)

text \<open>The chunk held under a block's digest is that block, unless the two collide.\<close>

lemma no_collision_content:
  assumes "store_ok sha s" "\<not> digest_collision sha B" "ran (content s) \<subseteq> B" "b \<in> B" "content s (digestBytes sha b) \<noteq> None"
  shows "content s (digestBytes sha b) = Some b"
proof -
  obtain data where d: "content s (digestBytes sha b) = Some data" using assms(5) by blast
  then have "digestBytes sha data = digestBytes sha b" using store_okD [OF assms(1)] by blast
  moreover have "data \<in> B" using d assms(3) by (auto intro: ranI)
  ultimately have "data = b" using assms(2,4) by (auto simp: digest_collision_def)
  with d show ?thesis by simp
qed

section \<open>Manifests in the store\<close>

text \<open>The documented contract of the codec on one manifest: decoding its canonical bytes gives its normal form.\<close>

definition reads_back :: "(bytes \<Rightarrow> Manifest option) \<Rightarrow> json_str \<Rightarrow> Manifest \<Rightarrow> bool" where
  "reads_back unmarshal jstr m \<longleftrightarrow> unmarshal (Canonical jstr m) = Some (normal_manifest m)"

lemma Canonical_nonempty: "Canonical jstr m \<noteq> []"
  by (simp add: Canonical_def)

lemma files_normal: "set (m_Files (normal_manifest m)) = set (m_Files m)"
  by (simp add: normal_manifest_def)

lemma GetManifest_stored:
  assumes "reads_back unmarshal jstr m" and "ValidateDigest d" and "st_manifests s d = Some (Canonical jstr m)"
    and "\<forall>c \<in> set (all_chunks m). ValidateDigest (cr_Digest c)"
  shows "GetManifest unmarshal s d = Inr (normal_manifest m)"
proof -
  have "find (\<lambda>fe. \<not> list_all (\<lambda>c. ValidateDigest (cr_Digest c)) (fe_Chunks fe)) (m_Files (normal_manifest m)) = None"
    using assms(4) files_normal [of m] by (auto simp: find_None_iff list_all_iff all_chunks_def)
  then show ?thesis
    using assms(1-3) by (simp add: GetManifest_def decodeManifest_def reads_back_def Canonical_nonempty)
qed

lemma names_normal: "distinct (map fe_Name (m_Files m)) \<Longrightarrow> distinct (map fe_Name (m_Files (normal_manifest m)))"
  by (simp add: normal_manifest_def distinct_map)

section \<open>Pulling\<close>

lemma PutChunk_spec:
  assumes "PutChunk sha now s d r = (res, s')"
  shows "(store_ok sha s \<longrightarrow> store_ok sha s') \<and> st_manifests s' = st_manifests s \<and> st_pins s' = st_pins s \<and>
    (content s d = None \<longrightarrow> extends sha s s') \<and>
    (case res of Inl e \<Rightarrow> s' = s | Inr _ \<Rightarrow> ValidateDigest d \<and> content s' = (content s)(d \<mapsto> take (ChunkSize + 1) r) \<and>
       digestBytes sha (take (ChunkSize + 1) r) = d)"
  using assms by (auto simp: PutChunk_def Let_def writeChunk_ok writeChunk_extends split: if_splits)

lemma mem_missing_from:
  "d \<in> set (missing_from s seen cs) \<longleftrightarrow> d \<in> set (map cr_Digest cs) \<and> d \<notin> seen \<and> \<not> HasChunk s d"
proof (induction cs arbitrary: d seen)
  case (Cons c cs)
  show ?case by (cases "d = cr_Digest c") (simp_all add: Cons.IH)
qed simp

lemma missing_from_distinct: "distinct (missing_from s seen cs)"
  by (induction cs arbitrary: seen) (simp_all add: mem_missing_from)

lemma set_MissingChunks: "set (MissingChunks s m) = {d. d \<in> cr_Digest ` set (all_chunks m) \<and> \<not> HasChunk s d}"
  by (simp add: MissingChunks_def set_eq_iff mem_missing_from)

lemma pull_chunks_spec:
  assumes "distinct ds" and "\<forall>d \<in> set ds. \<not> HasChunk l d" and "store_ok sha l"
    and "pull_chunks sha now l remote ds = (res, l')"
  shows "extends sha l l' \<and> store_ok sha l' \<and> dom (content l') \<subseteq> dom (content l) \<union> set ds \<and>
    (res = Inr () \<longrightarrow> (\<forall>d \<in> set ds. ValidateDigest d \<and> content l' d \<noteq> None))"
  using assms
proof (induction ds arbitrary: l)
  case (Cons d ds)
  obtain r1 l1 where p: "pullChunk sha now l remote d = (r1, l1)" by fastforce
  show ?case
  proof (cases "tr_GetChunk remote d")
    case None
    then show ?thesis using Cons.prems by (auto simp: pullChunk_def)
  next
    case (Some rc)
    then have put: "PutChunk sha now l d rc = (r1, l1)" using p by (simp add: pullChunk_def)
    note P = PutChunk_spec [OF put]
    have none: "ValidateDigest d \<Longrightarrow> content l d = None" using Cons.prems(2) by (simp add: HasChunk_content)
    show ?thesis
    proof (cases r1)
      case (Inl e)
      then show ?thesis using Cons.prems P p by auto
    next
      case (Inr u)
      then have l1: "ValidateDigest d" "content l1 = (content l)(d \<mapsto> take (ChunkSize + 1) rc)" "extends sha l l1"
        using P none by auto
      have "pull_chunks sha now l1 remote ds = (res, l')" using Cons.prems(4) p Inr by simp
      moreover have "\<forall>x \<in> set ds. \<not> HasChunk l1 x"
        using Cons.prems(1,2) l1(2) by (auto simp: HasChunk_content)
      moreover have "store_ok sha l1" using Cons.prems(3) P by blast
      ultimately have IH: "extends sha l1 l' \<and> store_ok sha l' \<and> dom (content l') \<subseteq> dom (content l1) \<union> set ds \<and>
          (res = Inr () \<longrightarrow> (\<forall>x \<in> set ds. ValidateDigest x \<and> content l' x \<noteq> None))"
        using Cons.prems(1) by (intro Cons.IH) auto
      have "content l' d \<noteq> None" using extends_present [of sha l1 l' d] IH l1(2) by auto
      with IH l1 extends_trans [OF l1(3)] show ?thesis by auto
    qed
  qed
qed auto

lemma Pull_cases:
  assumes "store_ok sha l" and "Pull sha jstr now l remote md = (res, l')"
  obtains (refused) e where "res = Inl e" "extends sha l l'" "store_ok sha l'"
    | (pulled) m l1 where "res = Inr ()" "tr_GetManifest remote md = Some m" "ManifestDigest sha jstr m = md" "ValidateDigest md"
        "extends sha l l1" "store_ok sha l1" "l' = PutManifest sha jstr l1 m"
        "\<forall>c \<in> set (all_chunks m). ValidateDigest (cr_Digest c) \<and> content l' (cr_Digest c) \<noteq> None"
        "dom (content l') \<subseteq> dom (content l) \<union> set (MissingChunks l m)"
proof (cases "ValidateDigest md \<and> (\<exists>m. tr_GetManifest remote md = Some m \<and> ManifestDigest sha jstr m = md)")
  case False
  then show thesis
    using assms refused by (auto simp: Pull_def split: option.splits if_splits)
next
  case True
  then obtain m where m: "tr_GetManifest remote md = Some m" "ManifestDigest sha jstr m = md" "ValidateDigest md" by blast
  obtain r1 l1 where r: "pull_chunks sha now l remote (MissingChunks l m) = (r1, l1)" by fastforce
  have miss: "\<forall>d \<in> set (MissingChunks l m). \<not> HasChunk l d" by (simp add: set_MissingChunks)
  have "distinct (MissingChunks l m)" by (simp add: MissingChunks_def missing_from_distinct)
  note S = pull_chunks_spec [OF this miss assms(1) r]
  show thesis
  proof (cases r1)
    case (Inl e)
    then show thesis using assms(2) r m S by (intro refused [of e]) (auto simp: Pull_def)
  next
    case (Inr u)
    then have l': "res = Inr ()" "l' = PutManifest sha jstr l1 m" using assms(2) r m by (auto simp: Pull_def)
    have ct: "content l' = content l1" by (simp add: l'(2))
    have "ValidateDigest (cr_Digest c) \<and> content l' (cr_Digest c) \<noteq> None" if c: "c \<in> set (all_chunks m)" for c
    proof (cases "HasChunk l (cr_Digest c)")
      case True
      then show ?thesis using S extends_present [of sha l l1] by (auto simp: HasChunk_content ct)
    next
      case False
      then have "cr_Digest c \<in> set (MissingChunks l m)" using c by (simp add: set_MissingChunks)
      then show ?thesis using S Inr by (auto simp: ct)
    qed
    then have all: "\<forall>c \<in> set (all_chunks m). ValidateDigest (cr_Digest c) \<and> content l' (cr_Digest c) \<noteq> None" by blast
    have "dom (content l') \<subseteq> dom (content l) \<union> set (MissingChunks l m)" unfolding ct using S by blast
    then show thesis using l' m S all by (intro pulled [of m l1]) blast+
  qed
qed

section \<open>Snapshots held by a store\<close>

lemma put_block_ran: "ran (content (put_block sha now s b)) \<subseteq> insert b (ran (content s))"
  by (auto simp: put_block_def Let_def ran_def split: if_splits)

lemma put_blocks_ran: "ran (content (foldl (put_block sha now) s bs)) \<subseteq> set bs \<union> ran (content s)"
proof (induction bs arbitrary: s)
  case (Cons b bs)
  then show ?case using put_block_ran [of sha now s b] Cons.IH [of "put_block sha now s b"] by auto
qed simp

lemma put_files_ran:
  "put_files sha now fs s fl = (r, s') \<Longrightarrow> ran (content s') \<subseteq> ran (content s) \<union> (\<Union>p \<in> set fl. file_blocks fs (snd p))"
proof (induction fl arbitrary: s r)
  case (Cons p fl)
  obtain name path where p: "p = (name, path)" by fastforce
  show ?case
  proof (cases "fs path")
    case None
    then show ?thesis using Cons.prems p by (auto simp: putFileChunks_def)
  next
    case (Some data)
    obtain r2 where r2: "put_files sha now fs (foldl (put_block sha now) s (blocks data)) fl = (r2, s')"
      using Cons.prems p Some by (auto simp: putFileChunks_def split: prod.splits sum.splits)
    then show ?thesis
      using Cons.IH [OF r2] put_blocks_ran [of sha now s "blocks data"] p Some by (auto simp: file_blocks_def)
  qed
qed simp

text \<open>
  A store holds a snapshot of the files \<open>fl\<close> under a digest: the manifest is stored and every block is present.
\<close>

definition holds_snapshot ::
  "(bytes \<Rightarrow> uint8 list) \<Rightarrow> json_str \<Rightarrow> Store \<Rightarrow> files \<Rightarrow> (string \<times> string) list \<Rightarrow> Manifest \<Rightarrow> bool" where
  "holds_snapshot sha jstr s fs fl m \<longleftrightarrow> distinct (map fst fl) \<and>
     st_manifests s (ManifestDigest sha jstr m) = Some (Canonical jstr m) \<and> list_all2 (holds_file sha s fs) fl (m_Files m)"

lemma holds_names: "list_all2 (holds_file sha s fs) fl es \<Longrightarrow> map fe_Name es = map fst fl"
  by (induction rule: list_all2_induct) (auto simp: holds_file_def)

lemma holds_entry:
  assumes "list_all2 (holds_file sha s fs) fl es" and "fe \<in> set es"
  obtains path where "(fe_Name fe, path) \<in> set fl" "holds_file sha s fs (fe_Name fe, path) fe"
proof -
  obtain i where i: "i < length es" "fe = es ! i" using assms(2) by (auto simp: in_set_conv_nth)
  then have "holds_file sha s fs (fl ! i) fe" "i < length fl" using assms(1) by (auto simp: list_all2_conv_all_nth)
  then obtain p where p: "p \<in> set fl" "holds_file sha s fs p fe" using nth_mem by blast
  then have "p = (fe_Name fe, snd p)" by (cases p) (auto simp: holds_file_def)
  with p show thesis using that [of "snd p"] by simp
qed

lemma holds_fileE:
  assumes "holds_file sha s fs p fe"
  obtains data where "fs (snd p) = Some data" "fe_Chunks fe = map (chunk_ref sha) (blocks data)"
    "\<forall>b \<in> set (blocks data). content s (digestBytes sha b) \<noteq> None"
  using assms unfolding holds_file_def by (metis FileEntry.select_convs(3))

lemma chunk_ref_digest [simp]: "cr_Digest (chunk_ref sha b) = digestBytes sha b"
  by (simp add: chunk_ref_def)

lemma holds_valid:
  assumes "sha256_shape sha" and "list_all2 (holds_file sha s fs) fl (m_Files m)"
  shows "\<forall>c \<in> set (all_chunks m). ValidateDigest (cr_Digest c) \<and> content s (cr_Digest c) \<noteq> None"
proof
  fix c
  assume "c \<in> set (all_chunks m)"
  then obtain fe where fe: "fe \<in> set (m_Files m)" "c \<in> set (fe_Chunks fe)" by (auto simp: all_chunks_def)
  obtain path where "holds_file sha s fs (fe_Name fe, path) fe" using holds_entry [OF assms(2) fe(1)] .
  then obtain data where d: "fe_Chunks fe = map (chunk_ref sha) (blocks data)"
      "\<forall>b \<in> set (blocks data). content s (digestBytes sha b) \<noteq> None" by (rule holds_fileE)
  then obtain b where "b \<in> set (blocks data)" "c = chunk_ref sha b" "content s (digestBytes sha b) \<noteq> None"
    using fe(2) by auto
  then show "ValidateDigest (cr_Digest c) \<and> content s (cr_Digest c) \<noteq> None"
    using assms(1) by (auto simp: sha256_shape_def digestBytes_valid)
qed

lemma materialize_held:
  assumes sha: "sha256_shape sha" and ok: "store_ok sha s" and held: "holds_snapshot sha jstr s fs fl m"
    and codec: "reads_back unmarshal jstr m"
    and nc: "\<not> digest_collision sha (ran (content s) \<union> (\<Union>p \<in> set fl. file_blocks fs (snd p)))"
  shows "\<exists>s2. Materialize sha unmarshal now s out (ManifestDigest sha jstr m) =
      (Inr (), s2, \<lambda>x. case map_of fl x of None \<Rightarrow> out x | Some path \<Rightarrow> fs path) \<and> content s2 = content s"
proof -
  let ?B = "ran (content s) \<union> (\<Union>p \<in> set fl. file_blocks fs (snd p))"
  have H: "distinct (map fst fl)" "st_manifests s (ManifestDigest sha jstr m) = Some (Canonical jstr m)"
      "list_all2 (holds_file sha s fs) fl (m_Files m)" using held by (auto simp: holds_snapshot_def)
  have v: "ValidateDigest (ManifestDigest sha jstr m)"
    using sha by (simp add: ManifestDigest_def sha256_shape_def digestBytes_valid)
  have "\<forall>c \<in> set (all_chunks m). ValidateDigest (cr_Digest c)" using holds_valid [OF sha H(3)] by blast
  then have get: "GetManifest unmarshal s (ManifestDigest sha jstr m) = Inr (normal_manifest m)"
    by (rule GetManifest_stored [OF codec v H(2)])
  have names: "distinct (map fe_Name (m_Files (normal_manifest m)))"
    using H(1) holds_names [OF H(3)] by (intro names_normal) simp
  let ?data = "\<lambda>x. the (fs (the (map_of fl x)))"
  have fetch: "fetch sha (content s) (fe_Name fe) (fe_Chunks fe) = Inr (?data (fe_Name fe)) \<and> map_of fl (fe_Name fe) \<noteq> None \<and>
      fs (the (map_of fl (fe_Name fe))) \<noteq> None"
    if "fe \<in> set (m_Files (normal_manifest m))" for fe
  proof -
    have fe: "fe \<in> set (m_Files m)" using that files_normal [of m] by simp
    obtain path where p: "(fe_Name fe, path) \<in> set fl" "holds_file sha s fs (fe_Name fe, path) fe"
      using holds_entry [OF H(3) fe] .
    from p(2) obtain data where "fs (snd (fe_Name fe, path)) = Some data"
        and d23: "fe_Chunks fe = map (chunk_ref sha) (blocks data)"
        "\<forall>b \<in> set (blocks data). content s (digestBytes sha b) \<noteq> None" by (rule holds_fileE)
    then have d: "fs path = Some data" "fe_Chunks fe = map (chunk_ref sha) (blocks data)"
        "\<forall>b \<in> set (blocks data). content s (digestBytes sha b) \<noteq> None" by simp_all
    have "set (blocks data) \<subseteq> ?B" using p(1) d(1) by (force simp: file_blocks_def)
    then have "\<forall>b \<in> set (blocks data). content s (digestBytes sha b) = Some b"
      using d(3) by (intro ballI no_collision_content [OF ok nc]) auto
    then have "fetch sha (content s) (fe_Name fe) (map (chunk_ref sha) (blocks data)) = Inr data"
      using fetch_blocks [of "blocks data" "content s" sha] by simp
    moreover have "map_of fl (fe_Name fe) = Some path" using p(1) H(1) by simp
    ultimately show ?thesis using d(1,2) by simp
  qed
  obtain s2 where s2: "materialize_files sha now s out (m_Files (normal_manifest m)) =
      (Inr (), s2, \<lambda>x. if x \<in> fe_Name ` set (m_Files (normal_manifest m)) then Some (?data x) else out x)"
      "content s2 = content s"
    using materialize_files_ok [OF names, of sha s ?data now out] fetch by blast
  have dom: "fe_Name ` set (m_Files (normal_manifest m)) = fst ` set fl"
    using holds_names [OF H(3)] files_normal [of m] by (metis set_map)
  have "(if x \<in> fe_Name ` set (m_Files (normal_manifest m)) then Some (?data x) else out x) =
      (case map_of fl x of None \<Rightarrow> out x | Some path \<Rightarrow> fs path)" for x
  proof (cases "x \<in> fst ` set fl")
    case True
    then obtain fe where "fe \<in> set (m_Files (normal_manifest m))" "x = fe_Name fe" using dom by blast
    then show ?thesis using fetch [of fe] True dom by auto
  next
    case False
    then have "map_of fl x = None" by (simp add: map_of_eq_None_iff)
    with False dom show ?thesis by simp
  qed
  then show ?thesis using s2 get v by (simp add: Materialize_def)
qed

lemma PutSnapshot_holds:
  assumes "sha256_shape sha" and "distinct (map fst fl)" and "PutSnapshot sha jstr now fs s fl meta = (Inr m, s1)"
  shows "holds_snapshot sha jstr s1 fs (sort_key fst fl) m" "store_ok sha s \<Longrightarrow> store_ok sha s1"
    "content s \<subseteq>\<^sub>m content s1" "ran (content s1) \<subseteq> ran (content s) \<union> (\<Union>p \<in> set fl. file_blocks fs (snd p))"
proof -
  obtain es s' where p: "put_files sha now fs s (sort_key fst fl) = (Inr es, s')" "m = manifestFrom es meta"
      "s1 = writeManifest sha jstr s' m"
    using assms(3) by (auto simp: PutSnapshot_def Let_def split: prod.splits sum.splits)
  note F = put_files_spec [OF assms(1) p(1)]
  have ct: "content s1 = content s'" by (simp add: p(3))
  have "list_all2 (holds_file sha s1 fs) (sort_key fst fl) es"
    using F unfolding holds_file_def ct by simp
  moreover have "distinct (map fst (sort_key fst fl))" using assms(2) by (simp add: distinct_map)
  ultimately show "holds_snapshot sha jstr s1 fs (sort_key fst fl) m"
    by (simp add: holds_snapshot_def p(2,3) manifestFrom_def writeManifest_def)
  show "store_ok sha s \<Longrightarrow> store_ok sha s1" using F by (simp add: store_ok_def ct extends_def)
  show "content s \<subseteq>\<^sub>m content s1" using F by (simp add: ct extends_def)
  show "ran (content s1) \<subseteq> ran (content s) \<union> (\<Union>p \<in> set fl. file_blocks fs (snd p))"
    using put_files_ran [OF p(1)] by (simp add: ct)
qed

lemma entries_held:
  assumes "build_entries sha fs fl = Inr es" and "\<forall>fe \<in> set es. \<forall>c \<in> set (fe_Chunks fe). content s (cr_Digest c) \<noteq> None"
  shows "list_all2 (holds_file sha s fs) fl es"
  using assms unfolding build_entries_ok
proof (induction rule: list_all2_induct)
  case (Cons p fl fe es)
  then show ?case by (cases p) (auto simp: holds_file_def)
qed simp

lemma BuildManifest_holds:
  assumes "distinct (map fst fl)" and "BuildManifest sha fs fl meta = Inr m"
    and "st_manifests s (ManifestDigest sha jstr m) = Some (Canonical jstr m)"
    and "\<forall>c \<in> set (all_chunks m). content s (cr_Digest c) \<noteq> None"
  shows "holds_snapshot sha jstr s fs (sort_key fst fl) m"
proof -
  obtain es where es: "build_entries sha fs (sort_key fst fl) = Inr es" "m = manifestFrom es meta"
    using assms(2) by (auto simp: BuildManifest_def split: sum.splits)
  have ch: "\<forall>fe \<in> set es. \<forall>c \<in> set (fe_Chunks fe). content s (cr_Digest c) \<noteq> None"
    using assms(4) by (simp add: es(2) all_chunks_def manifestFrom_def)
  have "list_all2 (holds_file sha s fs) (sort_key fst fl) es" by (rule entries_held [OF es(1) ch])
  then show ?thesis using assms(1,3) by (simp add: holds_snapshot_def es(2) manifestFrom_def distinct_map)
qed

section \<open>Eviction\<close>

definition chunk_size :: "Store \<Rightarrow> Digest \<Rightarrow> int" where
  "chunk_size s d = (case st_chunks s d of None \<Rightarrow> 0 | Some (data, t) \<Rightarrow> int (length data))"

definition drop_chunks :: "Digest set \<Rightarrow> Store \<Rightarrow> Store" where
  "drop_chunks D s = s\<lparr>st_chunks := st_chunks s |` (- D)\<rparr>"

lemma drop_chunks_simps [simp]:
  "st_pins (drop_chunks D s) = st_pins s" "st_manifests (drop_chunks D s) = st_manifests s"
  "content (drop_chunks D s) = content s |` (- D)" "drop_chunks {} s = s"
  "chunk_size (drop_chunks D s) d = (if d \<in> D then 0 else chunk_size s d)"
  by (simp_all add: drop_chunks_def content_def fun_eq_iff restrict_map_def chunk_size_def)

lemma drop_chunks_insert: "drop_chunks D (s\<lparr>st_chunks := (st_chunks s)(d := None)\<rparr>) = drop_chunks (insert d D) s"
  by (simp add: drop_chunks_def restrict_map_def fun_eq_iff)

text \<open>The walk lists every chunk once.\<close>

definition chunk_stat :: "Store \<Rightarrow> Digest \<Rightarrow> chunkStat" where
  "chunk_stat s d = \<lparr>cs_digest = d, cs_size = chunk_size s d, cs_mtime = (case st_chunks s d of None \<Rightarrow> 0 | Some (data, t) \<Rightarrow> t)\<rparr>"

lemma chunk_stat_simps [simp]: "cs_digest (chunk_stat s d) = d" "cs_size (chunk_stat s d) = chunk_size s d"
  by (simp_all add: chunk_stat_def)

lemma scanChunks_stats: "set ds \<subseteq> dom (st_chunks s) \<Longrightarrow> scanChunks s ds = map (chunk_stat s) ds"
  by (induction ds) (auto simp: scanChunks_def map_filter_def chunk_stat_def chunk_size_def)

lemma totalChunkBytes_sum: "totalChunkBytes s ds = sum_list (map (chunk_size s) ds)"
  by (induction ds) (auto simp: totalChunkBytes_def scanChunks_def map_filter_def chunk_size_def split: option.splits)

text \<open>What a pass of the loop did: it handled a prefix, dropped its unpinned chunks, and was over budget at each.\<close>

definition evicted :: "Digest set \<Rightarrow> chunkStat list \<Rightarrow> chunkStat list" where
  "evicted pinned ev = filter (\<lambda>st. cs_digest st \<notin> pinned) ev"

lemma evicted_simps [simp]:
  "evicted pinned [] = []"
  "evicted pinned (st # ev) = (if cs_digest st \<in> pinned then evicted pinned ev else st # evicted pinned ev)"
  by (simp_all add: evicted_def)

definition evict_run :: "Digest set \<Rightarrow> int \<Rightarrow> int \<Rightarrow> chunkStat list \<Rightarrow> chunkStat list \<Rightarrow> bool" where
  "evict_run pinned maxBytes tot ev rest \<longleftrightarrow>
     (rest = [] \<or> tot - sum_list (map cs_size (evicted pinned ev)) \<le> maxBytes) \<and>
     (\<forall>a x b. ev = a @ x # b \<longrightarrow> maxBytes < tot - sum_list (map cs_size (evicted pinned a)))"

lemma evict_run_Cons:
  assumes "evict_run pinned maxBytes (if cs_digest st \<in> pinned then tot else tot - cs_size st) ev rest" and "maxBytes < tot"
  shows "evict_run pinned maxBytes tot (st # ev) rest"
  using assms unfolding evict_run_def by (auto simp: Cons_eq_append_conv algebra_simps split: if_splits)

lemma evict_loop_spec:
  assumes "evict_loop pinned maxBytes sts s tot freed = (freed', s')"
  shows "\<exists>ev rest. sts = ev @ rest \<and> s' = drop_chunks (cs_digest ` set (evicted pinned ev)) s \<and>
    freed' = freed + sum_list (map cs_size (evicted pinned ev)) \<and> evict_run pinned maxBytes tot ev rest"
  using assms
proof (induction pinned maxBytes sts s tot freed rule: evict_loop.induct)
  case (1 pinned maxBytes s tot freed)
  then show ?case by (intro exI [of _ "[]"]) (simp add: evict_run_def)
next
  case (2 pinned maxBytes st sts s tot freed)
  show ?case
  proof (cases "tot \<le> maxBytes")
    case True
    then show ?thesis using 2(3) by (intro exI [of _ "[]"] exI [of _ "st # sts"]) (simp add: evict_run_def)
  next
    case big: False
    show ?thesis
    proof (cases "cs_digest st \<in> pinned")
      case True
      then obtain ev rest where "sts = ev @ rest" "s' = drop_chunks (cs_digest ` set (evicted pinned ev)) s"
          "freed' = freed + sum_list (map cs_size (evicted pinned ev))" "evict_run pinned maxBytes tot ev rest"
        using 2(1) [OF big True] 2(3) big by auto
      with True big show ?thesis
        by (intro exI [of _ "st # ev"] exI [of _ rest]) (simp add: evict_run_Cons)
    next
      case False
      let ?s1 = "s\<lparr>st_chunks := (st_chunks s)(cs_digest st := None)\<rparr>"
      obtain ev rest where "sts = ev @ rest" "s' = drop_chunks (cs_digest ` set (evicted pinned ev)) ?s1"
          "freed' = freed + cs_size st + sum_list (map cs_size (evicted pinned ev))"
          "evict_run pinned maxBytes (tot - cs_size st) ev rest"
        using 2(2) [OF big False] 2(3) big False by auto
      with False big show ?thesis
        by (intro exI [of _ "st # ev"] exI [of _ rest]) (simp add: drop_chunks_insert evict_run_Cons algebra_simps)
    qed
  qed
qed

text \<open>The sort by modification time: a permutation, oldest first.\<close>

definition sorts_by_age :: "(chunkStat list \<Rightarrow> chunkStat list) \<Rightarrow> bool" where
  "sorts_by_age byAge \<longleftrightarrow> (\<forall>xs. mset (byAge xs) = mset xs \<and> sorted (map cs_mtime (byAge xs)))"

definition lists_chunks :: "Store \<Rightarrow> Digest list \<Rightarrow> bool" where
  "lists_chunks s ds \<longleftrightarrow> distinct ds \<and> set ds = dom (st_chunks s)"

definition mtime_of :: "Store \<Rightarrow> Digest \<Rightarrow> time" where
  "mtime_of s d = cs_mtime (chunk_stat s d)"

lemma evicted_map: "evicted pinned (map (chunk_stat s) de) = map (chunk_stat s) (filter (\<lambda>d. d \<notin> pinned) de)"
  by (induction de) simp_all

lemma aged_walk:
  assumes "sorts_by_age byAge" and "lists_chunks s ds"
  obtains dl where "byAge (scanChunks s ds) = map (chunk_stat s) dl" "distinct dl" "set dl = dom (st_chunks s)"
    "sorted (map (mtime_of s) dl)"
proof -
  let ?sts = "byAge (scanChunks s ds)"
  have scan: "scanChunks s ds = map (chunk_stat s) ds" using assms(2) by (intro scanChunks_stats) (simp add: lists_chunks_def)
  have m: "mset ?sts = mset (map (chunk_stat s) ds)" "sorted (map cs_mtime ?sts)"
    using assms(1) by (simp_all add: sorts_by_age_def scan)
  have set: "set ?sts = chunk_stat s ` set ds" using m(1) by (metis set_map set_mset_mset)
  have "map (chunk_stat s) (map cs_digest ?sts) = ?sts"
    using set by (auto intro!: map_idI simp: comp_def)
  moreover have "mset (map cs_digest ?sts) = mset ds"
    using m(1) by (metis (no_types, lifting) chunk_stat_simps(1) list.map_comp list.map_ident_strong mset_map comp_apply)
  moreover have "map (mtime_of s) (map cs_digest ?sts) = map cs_mtime ?sts"
    using set by (auto simp: mtime_of_def)
  ultimately show thesis
    using that [of "map cs_digest ?sts"] assms(2) m(2) by (metis lists_chunks_def mset_eq_setD mset_eq_imp_distinct_iff)
qed

lemma chunk_size_nonneg: "0 \<le> chunk_size s d"
  by (simp add: chunk_size_def split: option.splits)

lemma evict_run_over:
  assumes run: "evict_run pinned maxBytes tot (map (chunk_stat s) de) rest" and "distinct de" "sorted (map (mtime_of s) de)"
    and d: "d \<in> set de"
  shows "maxBytes < tot - (\<Sum>e \<in> {e \<in> set (filter (\<lambda>d. d \<notin> pinned) de). mtime_of s e < mtime_of s d}. chunk_size s e)"
proof -
  obtain a b where ab: "de = a @ d # b" using d by (meson split_list)
  let ?u = "\<lambda>xs. filter (\<lambda>d. d \<notin> pinned) xs"
  have "maxBytes < tot - sum_list (map cs_size (evicted pinned (map (chunk_stat s) a)))"
    using run ab unfolding evict_run_def by (metis list.simps(9) map_append)
  moreover have "sum_list (map cs_size (evicted pinned (map (chunk_stat s) a))) = (\<Sum>e \<in> set (?u a). chunk_size s e)"
    using assms(2) ab by (simp add: evicted_map comp_def sum_list_distinct_conv_sum_set)
  moreover have "{e \<in> set (?u de). mtime_of s e < mtime_of s d} \<subseteq> set (?u a)"
    using assms(3) ab by (auto simp: sorted_append)
  then have "(\<Sum>e \<in> {e \<in> set (?u de). mtime_of s e < mtime_of s d}. chunk_size s e) \<le> (\<Sum>e \<in> set (?u a). chunk_size s e)"
    by (intro sum_mono2) (simp_all add: chunk_size_nonneg)
  ultimately show ?thesis by linarith
qed

lemma EvictToFit_spec:
  assumes "sorts_by_age byAge" and "lists_chunks s ds" and "EvictToFit byAge unmarshal s ds maxBytes = (freed, s')"
  shows "\<exists>D. s' = drop_chunks D s \<and> D \<subseteq> dom (st_chunks s) - pinnedChunks unmarshal s \<and> freed = (\<Sum>d \<in> D. chunk_size s d) \<and>
    (totalChunkBytes s ds - freed \<le> maxBytes \<or> dom (st_chunks s) - pinnedChunks unmarshal s \<subseteq> D) \<and>
    (\<forall>d \<in> D. \<forall>e \<in> dom (st_chunks s) - pinnedChunks unmarshal s - D. mtime_of s d \<le> mtime_of s e) \<and>
    (\<forall>d \<in> D. maxBytes < totalChunkBytes s ds - (\<Sum>e \<in> {e \<in> D. mtime_of s e < mtime_of s d}. chunk_size s e))"
proof (cases "totalChunkBytes s ds \<le> maxBytes")
  case True
  then show ?thesis
    using assms(3) by (intro exI [of _ "{}"]) (simp add: EvictToFit_def Let_def totalChunkBytes_def)
next
  case False
  let ?P = "pinnedChunks unmarshal s" and ?tot = "totalChunkBytes s ds"
  let ?u = "\<lambda>xs. filter (\<lambda>d. d \<notin> ?P) xs"
  obtain dl where dl: "byAge (scanChunks s ds) = map (chunk_stat s) dl" "distinct dl" "set dl = dom (st_chunks s)"
      "sorted (map (mtime_of s) dl)" using aged_walk [OF assms(1,2)] .
  have "evict_loop ?P maxBytes (map (chunk_stat s) dl) s ?tot 0 = (freed, s')"
    using assms(3) False dl(1) by (simp add: EvictToFit_def Let_def totalChunkBytes_def)
  from evict_loop_spec [OF this] obtain ev rest where ev: "map (chunk_stat s) dl = ev @ rest"
      "s' = drop_chunks (cs_digest ` set (evicted ?P ev)) s" "freed = sum_list (map cs_size (evicted ?P ev))"
      "evict_run ?P maxBytes ?tot ev rest" by auto
  then obtain de dr where de: "dl = de @ dr" "ev = map (chunk_stat s) de" "rest = map (chunk_stat s) dr"
    by (auto simp: map_eq_append_conv)
  let ?D = "set (?u de)"
  have D: "cs_digest ` set (evicted ?P ev) = ?D" by (auto simp: de(2) evicted_map image_image)
  have freed: "freed = (\<Sum>d \<in> ?D. chunk_size s d)"
    using dl(2) ev(3) by (simp add: de evicted_map comp_def sum_list_distinct_conv_sum_set)
  have "?tot - freed \<le> maxBytes \<or> dom (st_chunks s) - ?P \<subseteq> ?D"
    using ev(3,4) de dl(3) by (auto simp: evict_run_def)
  moreover have "\<forall>d \<in> ?D. \<forall>e \<in> dom (st_chunks s) - ?P - ?D. mtime_of s d \<le> mtime_of s e"
    using dl(3,4) de(1) by (auto simp: sorted_append)
  moreover have "\<forall>d \<in> ?D. maxBytes < ?tot - (\<Sum>e \<in> {e \<in> ?D. mtime_of s e < mtime_of s d}. chunk_size s e)"
    using evict_run_over [OF ev(4) [unfolded de(2)]] dl(2,4) de(1) by (simp add: sorted_append)
  moreover have "?D \<subseteq> dom (st_chunks s) - ?P" using dl(3) de(1) by auto
  ultimately show ?thesis using ev(2) D freed by (intro exI [of _ ?D]) simp
qed

lemma total_after_drop:
  assumes "distinct ds" and "D \<subseteq> set ds"
  shows "totalChunkBytes (drop_chunks D s) ds = totalChunkBytes s ds - (\<Sum>d \<in> D. chunk_size s d)"
proof -
  have "(\<Sum>d \<in> set ds. chunk_size s d) = (\<Sum>d \<in> set ds - D. chunk_size s d) + (\<Sum>d \<in> D. chunk_size s d)"
    using assms(2) by (intro sum.subset_diff) simp_all
  moreover have "(\<Sum>d \<in> set ds. if d \<in> D then 0 else chunk_size s d) = (\<Sum>d \<in> set ds - D. chunk_size s d)"
    by (intro sum.mono_neutral_cong_right) auto
  ultimately show ?thesis
    using assms(1) by (simp add: totalChunkBytes_sum sum_list_distinct_conv_sum_set)
qed

lemma store_ok_submap: "store_ok sha s \<Longrightarrow> content s' \<subseteq>\<^sub>m content s \<Longrightarrow> store_ok sha s'"
  unfolding store_ok_def map_le_def dom_def by (metis (mono_tags, lifting) mem_Collect_eq option.distinct(1))

lemma map_of_sort_key: "distinct (map fst fl) \<Longrightarrow> map_of (sort_key fst fl) = map_of fl"
  by (subst map_of_inject_set) (simp_all add: distinct_map)

lemma PutSnapshot_builds:
  assumes "sha256_shape sha" and "PutSnapshot sha jstr now fs s fl meta = (Inr m, s1)"
  shows "BuildManifest sha fs fl meta = Inr m"
proof -
  obtain es s' where p: "put_files sha now fs s (sort_key fst fl) = (Inr es, s')" "m = manifestFrom es meta"
    using assms(2) by (auto simp: PutSnapshot_def Let_def split: prod.splits sum.splits)
  have "list_all2 (holds_file sha s' fs) (sort_key fst fl) es" using put_files_spec [OF assms(1) p(1)] by blast
  then have "build_entries sha fs (sort_key fst fl) = Inr es"
    unfolding build_entries_ok by (rule list_all2_mono) (auto simp: holds_file_def)
  then show ?thesis by (simp add: BuildManifest_def p(2))
qed

lemma pinned_held:
  assumes "sha256_shape sha" and "ManifestDigest sha jstr m \<in> st_pins s" and held: "holds_snapshot sha jstr s fs fl m"
    and "reads_back unmarshal jstr m" and keep: "\<forall>d \<in> pinnedChunks unmarshal s. content s' d = content s d"
    and man: "st_manifests s' = st_manifests s"
  shows "holds_snapshot sha jstr s' fs fl m"
proof -
  have H: "list_all2 (holds_file sha s fs) fl (m_Files m)" "st_manifests s (ManifestDigest sha jstr m) = Some (Canonical jstr m)"
    using held by (simp_all add: holds_snapshot_def)
  have v: "\<forall>c \<in> set (all_chunks m). ValidateDigest (cr_Digest c)" using holds_valid [OF assms(1) H(1)] by blast
  have "ValidateDigest (ManifestDigest sha jstr m)"
    using assms(1) by (simp add: ManifestDigest_def sha256_shape_def digestBytes_valid)
  then have "GetManifest unmarshal s (ManifestDigest sha jstr m) = Inr (normal_manifest m)"
    by (rule GetManifest_stored [OF assms(4) _ H(2) v])
  then have "cr_Digest ` set (all_chunks (normal_manifest m)) \<subseteq> pinnedChunks unmarshal s"
    using assms(2) by (force simp: pinnedChunks_def)
  then have pin: "cr_Digest ` set (all_chunks m) \<subseteq> pinnedChunks unmarshal s"
    by (simp add: all_chunks_def files_normal)
  have "list_all2 (holds_file sha s' fs) fl (m_Files m)"
  proof (rule list.rel_mono_strong [OF H(1)])
    fix p fe
    assume fe: "fe \<in> set (m_Files m)" and h: "holds_file sha s fs p fe"
    have "content s' (digestBytes sha b) = content s (digestBytes sha b)"
      if "fe_Chunks fe = map (chunk_ref sha) (blocks data)" "b \<in> set (blocks data)" for data b
      using keep pin fe that by (force simp: all_chunks_def)
    then show "holds_file sha s' fs p fe" using h by (auto simp: holds_file_def)
  qed
  then show ?thesis using held man by (simp add: holds_snapshot_def)
qed

section \<open>Reachable stores\<close>

text \<open>Whatever is put, pulled from any remote, read, pinned and evicted, in any order.\<close>

inductive cas_step :: "(bytes \<Rightarrow> uint8 list) \<Rightarrow> json_str \<Rightarrow> (bytes \<Rightarrow> Manifest option) \<Rightarrow> Store \<Rightarrow> Store \<Rightarrow> bool"
  for sha jstr unmarshal where
  put: "PutSnapshot sha jstr now fs s fl meta = (r, s') \<Longrightarrow> cas_step sha jstr unmarshal s s'"
| put_chunk: "PutChunk sha now s d data = (r, s') \<Longrightarrow> cas_step sha jstr unmarshal s s'"
| put_manifest: "cas_step sha jstr unmarshal s (PutManifest sha jstr s m)"
| pull: "Pull sha jstr now s remote d = (r, s') \<Longrightarrow> cas_step sha jstr unmarshal s s'"
| materialize: "Materialize sha unmarshal now s out d = (r, s', out') \<Longrightarrow> cas_step sha jstr unmarshal s s'"
| materialize_file: "MaterializeFileTo sha unmarshal now s out d name dst = (r, s', out') \<Longrightarrow> cas_step sha jstr unmarshal s s'"
| pin: "cas_step sha jstr unmarshal s (Pin s d)"
| unpin: "cas_step sha jstr unmarshal s (Unpin s d)"
| evict: "EvictToFit byAge unmarshal s ds maxBytes = (freed, s') \<Longrightarrow> cas_step sha jstr unmarshal s s'"

lemma materializeFileAt_content: "materializeFileAt sha now s out fe dst = (r, s', out') \<Longrightarrow> content s' = content s"
  using copy_chunks_fetch [of sha now s "fe_Name fe" "fe_Chunks fe"]
  by (auto simp: materializeFileAt_def split: prod.splits sum.splits)

lemma materialize_files_content: "materialize_files sha now s out fes = (r, s', out') \<Longrightarrow> content s' = content s"
proof (induction fes arbitrary: s out)
  case (Cons fe fes)
  obtain r1 s1 out1 where m: "materializeFileAt sha now s out fe (fe_Name fe) = (r1, s1, out1)" by (metis prod_cases3)
  show ?case
  proof (cases r1)
    case (Inl e)
    then show ?thesis using Cons.prems m materializeFileAt_content [OF m] by simp
  next
    case (Inr u)
    then show ?thesis using Cons.prems m materializeFileAt_content [OF m] Cons.IH [of s1 out1] by simp
  qed
qed simp

lemma evict_loop_submap:
  "evict_loop pinned maxBytes sts s tot freed = (freed', s') \<Longrightarrow> content s' \<subseteq>\<^sub>m content s"
  using evict_loop_spec [of pinned maxBytes sts s tot freed freed' s'] by (auto simp: map_le_def restrict_map_def split: if_splits)

lemma PutSnapshot_ok:
  assumes "sha256_shape sha" and "PutSnapshot sha jstr now fs s fl meta = (r, s')" and "store_ok sha s"
  shows "store_ok sha s'"
proof -
  obtain r1 s1 where p: "put_files sha now fs s (sort_key fst fl) = (r1, s1)" by fastforce
  have "store_ok sha s1" using put_files_spec [OF assms(1) p] assms(3) by (simp add: extends_def)
  moreover have "content s' = content s1"
    using assms(2) p by (auto simp: PutSnapshot_def Let_def split: sum.splits)
  ultimately show ?thesis by (simp add: store_ok_def)
qed

lemma Pull_ok: "store_ok sha l \<Longrightarrow> Pull sha jstr now l remote md = (res, l') \<Longrightarrow> store_ok sha l'"
  by (erule (1) Pull_cases) (simp_all add: store_ok_def)

lemma cas_step_ok:
  assumes "sha256_shape sha" and "cas_step sha jstr unmarshal s s'" and "store_ok sha s"
  shows "store_ok sha s'"
  using assms(2,3)
proof cases
  case put
  then show ?thesis using PutSnapshot_ok [OF assms(1)] assms(3) by blast
next
  case put_chunk
  then show ?thesis using PutChunk_spec assms(3) by blast
next
  case put_manifest
  then show ?thesis using assms(3) by (simp add: store_ok_def)
next
  case pull
  then show ?thesis using Pull_ok assms(3) by blast
next
  case materialize
  then have "content s' = content s"
    using materialize_files_content by (auto simp: Materialize_def split: if_splits sum.splits)
  then show ?thesis using assms(3) by (simp add: store_ok_def)
next
  case materialize_file
  then have "content s' = content s"
    using materializeFileAt_content by (auto simp: MaterializeFileTo_def split: if_splits sum.splits option.splits)
  then show ?thesis using assms(3) by (simp add: store_ok_def)
next
  case pin
  then show ?thesis using assms(3) by (simp add: store_ok_def content_def Pin_def)
next
  case unpin
  then show ?thesis using assms(3) by (simp add: store_ok_def content_def Unpin_def)
next
  case (evict byAge ds maxBytes freed)
  then have "content s' \<subseteq>\<^sub>m content s"
    using evict_loop_submap by (auto simp: EvictToFit_def Let_def split: if_splits)
  then show ?thesis using store_ok_submap assms(3) by blast
qed

lemma reachable_store_ok:
  assumes "sha256_shape sha" and "(cas_step sha jstr unmarshal)\<^sup>*\<^sup>* NewStore s"
  shows "store_ok sha s"
  using assms(2)
proof (induction rule: rtranclp_induct)
  case base
  then show ?case by (simp add: store_ok_def content_def NewStore_def)
next
  case (step s s')
  then show ?case using cas_step_ok [OF assms(1)] by blast
qed

section \<open>Properties\<close>

text \<open>
  C20: Every chunk of a reachable store is what its name says. Starting from an empty store, whatever
  sequence of puts, pulls from arbitrary remotes, reads, pins and evictions is run, each chunk file
  hashes to its name and is no larger than a chunk; and a materialization that succeeds wrote, for
  every file of the manifest, blocks with exactly the digests the manifest lists, in order.
\<close>

theorem reachable_store_sound:
  assumes "sha256_shape sha" and "(cas_step sha jstr unmarshal)\<^sup>*\<^sup>* NewStore s"
  shows "(\<forall>d data. content s d = Some data \<longrightarrow> digestBytes sha data = d \<and> length data \<le> ChunkSize) \<and>
    (Materialize sha unmarshal now s out d = (Inr (), s', out') \<and> GetManifest unmarshal s d = Inr m \<and>
       distinct (map fe_Name (m_Files m)) \<longrightarrow>
     (\<forall>fe \<in> set (m_Files m). \<exists>bs. out' (fe_Name fe) = Some (concat bs) \<and>
        map (digestBytes sha) bs = map cr_Digest (fe_Chunks fe) \<and> (\<forall>b \<in> set bs. length b \<le> ChunkSize)))"
proof -
  have ok: "store_ok sha s" by (rule reachable_store_ok [OF assms])
  have "\<exists>bs. out' (fe_Name fe) = Some (concat bs) \<and> map (digestBytes sha) bs = map cr_Digest (fe_Chunks fe) \<and>
      (\<forall>b \<in> set bs. length b \<le> ChunkSize)"
    if m: "Materialize sha unmarshal now s out d = (Inr (), s', out')" "GetManifest unmarshal s d = Inr m"
      "distinct (map fe_Name (m_Files m))" and fe: "fe \<in> set (m_Files m)" for fe
  proof -
    have "materialize_files sha now s out (m_Files m) = (Inr (), s', out')"
      using m(1,2) by (auto simp: Materialize_def split: if_splits)
    from materialize_files_sound [OF this m(3) fe] obtain data
      where d: "fetch sha (content s) (fe_Name fe) (fe_Chunks fe) = Inr data" "out' (fe_Name fe) = Some data" by blast
    then obtain bs where bs: "data = concat bs"
        "list_all2 (\<lambda>c b. content s (cr_Digest c) = Some b \<and> digestBytes sha b = cr_Digest c) (fe_Chunks fe) bs"
      unfolding fetch_ok by blast
    have "map (digestBytes sha) bs = map cr_Digest (fe_Chunks fe) \<and> (\<forall>b \<in> set bs. length b \<le> ChunkSize)"
      using bs(2) by (induction rule: list_all2_induct) (auto dest: store_okD [OF ok])
    then show ?thesis using d(2) bs(1) by blast
  qed
  then show ?thesis using ok by (auto simp: store_ok_def)
qed



text \<open>
  C31: Eviction respects pins, order and budget. Exactly the freed bytes leave the store; no chunk of a
  pinned manifest is removed and nothing is altered; afterwards the store is within the budget or
  holds only pinned chunks; no chunk is removed before an unpinned chunk that was used less recently;
  and each removed chunk was removed while the store, without the older ones, was over budget. A
  pinned snapshot still materializes.
\<close>

theorem evict_to_fit_exact:
  assumes "sorts_by_age byAge" and "lists_chunks s ds" and "EvictToFit byAge unmarshal s ds maxBytes = (freed, s')"
  shows "totalChunkBytes s' ds = totalChunkBytes s ds - freed \<and> content s' \<subseteq>\<^sub>m content s \<and>
    (\<forall>d \<in> pinnedChunks unmarshal s. content s' d = content s d) \<and>
    (totalChunkBytes s' ds \<le> maxBytes \<or> dom (content s') \<subseteq> pinnedChunks unmarshal s) \<and>
    (\<forall>d \<in> dom (content s) - dom (content s'). \<forall>e \<in> dom (content s') - pinnedChunks unmarshal s. mtime_of s d \<le> mtime_of s e) \<and>
    (\<forall>d \<in> dom (content s) - dom (content s'). maxBytes < totalChunkBytes s ds -
       (\<Sum>e \<in> {e \<in> dom (content s) - dom (content s'). mtime_of s e < mtime_of s d}. chunk_size s e)) \<and>
    (sha256_shape sha \<and> store_ok sha s \<and> ManifestDigest sha jstr m \<in> st_pins s \<and> holds_snapshot sha jstr s fs fl m \<and>
       reads_back unmarshal jstr m \<and> \<not> digest_collision sha (ran (content s) \<union> (\<Union>p \<in> set fl. file_blocks fs (snd p))) \<longrightarrow>
       (\<exists>s2. Materialize sha unmarshal now' s' out (ManifestDigest sha jstr m) =
          (Inr (), s2, \<lambda>x. case map_of fl x of None \<Rightarrow> out x | Some path \<Rightarrow> fs path)))"
proof -
  let ?P = "pinnedChunks unmarshal s"
  obtain D where D: "s' = drop_chunks D s" "D \<subseteq> dom (st_chunks s) - ?P" "freed = (\<Sum>d \<in> D. chunk_size s d)"
      "totalChunkBytes s ds - freed \<le> maxBytes \<or> dom (st_chunks s) - ?P \<subseteq> D"
      "\<forall>d \<in> D. \<forall>e \<in> dom (st_chunks s) - ?P - D. mtime_of s d \<le> mtime_of s e"
      "\<forall>d \<in> D. maxBytes < totalChunkBytes s ds - (\<Sum>e \<in> {e \<in> D. mtime_of s e < mtime_of s d}. chunk_size s e)"
    using EvictToFit_spec [OF assms] by blast
  have dom: "dom (content s) = dom (st_chunks s)" by (auto simp: content_def)
  have dom': "dom (content s') = dom (st_chunks s) - D" "dom (content s) - dom (content s') = D"
    using D(1,2) dom by auto
  have total: "totalChunkBytes s' ds = totalChunkBytes s ds - freed"
    using assms(2) D(2) unfolding D(1,3) by (intro total_after_drop) (auto simp: lists_chunks_def)
  have keep: "\<forall>d \<in> ?P. content s' d = content s d" using D(1,2) by (auto simp: restrict_map_def)
  have sub: "content s' \<subseteq>\<^sub>m content s" by (simp add: D(1) map_le_def)
  have "\<exists>s2. Materialize sha unmarshal now' s' out (ManifestDigest sha jstr m) =
      (Inr (), s2, \<lambda>x. case map_of fl x of None \<Rightarrow> out x | Some path \<Rightarrow> fs path)"
    if p: "sha256_shape sha" "store_ok sha s" "ManifestDigest sha jstr m \<in> st_pins s" "holds_snapshot sha jstr s fs fl m"
      "reads_back unmarshal jstr m" "\<not> digest_collision sha (ran (content s) \<union> (\<Union>p \<in> set fl. file_blocks fs (snd p)))"
  proof -
    have "holds_snapshot sha jstr s' fs fl m" by (rule pinned_held [OF p(1,3-5) keep]) (simp add: D(1))
    moreover have "store_ok sha s'" by (rule store_ok_submap [OF p(2) sub])
    moreover have "ran (content s') \<subseteq> ran (content s)" unfolding D(1) by (auto simp: ran_def restrict_map_def split: if_splits)
    then have "\<not> digest_collision sha (ran (content s') \<union> (\<Union>p \<in> set fl. file_blocks fs (snd p)))"
      using p(6) by (elim contrapos_nn) (erule digest_collision_mono, auto)
    ultimately show ?thesis using materialize_held [OF p(1) _ _ p(5)] by blast
  qed
  then show ?thesis using total sub keep D(4-6) dom' by auto
qed

section \<open>A concrete store\<close>

definition demo_list :: "(string \<times> string) list" where
  "demo_list = [(''mem'', ''/m''), (''vm'', ''/v'')]"

definition demo_manifest :: Manifest where
  "demo_manifest = manifestFrom
     [\<lparr>fe_Name = ''mem'', fe_Size = 6, fe_Chunks = [chunk_ref cas_sha ''memory'']\<rparr>,
      \<lparr>fe_Name = ''vm'', fe_Size = 5, fe_Chunks = [chunk_ref cas_sha ''state'']\<rparr>] demo_meta"

definition demo_store :: Store where
  "demo_store = writeManifest cas_sha quote_all
     (writeChunk 1 (writeChunk 1 NewStore (digestBytes cas_sha ''memory'') ''memory'') (digestBytes cas_sha ''state'') ''state'')
     demo_manifest"

definition demo_unmarshal :: "bytes \<Rightarrow> Manifest option" where
  "demo_unmarshal b = (if b = Canonical quote_all demo_manifest then Some (normal_manifest demo_manifest) else None)"

lemma demo_reads_back: "reads_back demo_unmarshal quote_all demo_manifest"
  by (simp add: reads_back_def demo_unmarshal_def)

lemma cas_sha_shape: "sha256_shape cas_sha"
  by (simp add: sha256_shape_def cas_sha_def min_def)

lemma demo_digests:
  "digestBytes cas_sha ''memory'' \<noteq> digestBytes cas_sha ''state''" "digestBytes cas_sha ''memory'' \<noteq> digestBytes cas_sha ''junk''"
  "digestBytes cas_sha ''state'' \<noteq> digestBytes cas_sha ''junk''"
  by code_simp+

lemma demo_valid: "ValidateDigest (digestBytes cas_sha b)"
  using cas_sha_shape by (simp add: sha256_shape_def digestBytes_valid)

lemma demo_put: "PutSnapshot cas_sha quote_all 1 demo_files NewStore demo_list demo_meta = (Inr demo_manifest, demo_store)"
proof -
  have s: "sort_key fst demo_list = demo_list" by (simp add: demo_list_def)
  have b1: "put_block cas_sha 1 NewStore ''memory'' = writeChunk 1 NewStore (digestBytes cas_sha ''memory'') ''memory''"
    by (simp add: put_block_def Let_def HasChunk_def NewStore_def)
  have b2: "put_block cas_sha 1 (writeChunk 1 NewStore (digestBytes cas_sha ''memory'') ''memory'') ''state'' =
      writeChunk 1 (writeChunk 1 NewStore (digestBytes cas_sha ''memory'') ''memory'') (digestBytes cas_sha ''state'') ''state''"
    using demo_digests(1) by (simp add: put_block_def Let_def HasChunk_def NewStore_def writeChunk_def)
  have "put_files cas_sha 1 demo_files NewStore demo_list =
      (Inr (m_Files demo_manifest), writeChunk 1 (writeChunk 1 NewStore (digestBytes cas_sha ''memory'') ''memory'') (digestBytes cas_sha ''state'') ''state'')"
    by (simp add: demo_list_def demo_files_def putFileChunks_def demo_blocks b1 b2 demo_manifest_def manifestFrom_def)
  then show ?thesis
    by (simp add: PutSnapshot_def Let_def s demo_store_def demo_manifest_def manifestFrom_def)
qed

lemma demo_store_content: "content demo_store = [digestBytes cas_sha ''memory'' \<mapsto> ''memory'', digestBytes cas_sha ''state'' \<mapsto> ''state'']"
  by (simp add: demo_store_def) (simp add: content_def NewStore_def fun_eq_iff)

lemma demo_file_blocks: "(\<Union>p \<in> set demo_list. file_blocks demo_files (snd p)) = {''memory'', ''state''}"
  by (auto simp: demo_list_def file_blocks_def demo_files_def demo_blocks)

lemma demo_no_collision: "\<not> digest_collision cas_sha {''memory'', ''state''}"
  using demo_digests(1) by (auto simp: digest_collision_def)

lemma NewStore_content [simp]: "content NewStore = Map.empty"
  by (simp add: content_def NewStore_def fun_eq_iff)

lemma NewStore_ok [simp]: "store_ok sha NewStore"
  by (simp add: store_ok_def)


lemma demo_held: "holds_snapshot cas_sha quote_all demo_store demo_files demo_list demo_manifest"
proof -
  have "distinct (map fst demo_list)" "sort_key fst demo_list = demo_list" by (simp_all add: demo_list_def)
  then show ?thesis using PutSnapshot_holds(1) [OF cas_sha_shape _ demo_put] by simp
qed

lemma demo_store_ok: "store_ok cas_sha demo_store"
  using PutSnapshot_ok [OF cas_sha_shape demo_put] by simp

lemma demo_ran: "ran (content demo_store) \<subseteq> {''memory'', ''state''}"
  by (auto simp: demo_store_content ran_def split: if_splits)

lemma demo_collision_free: "\<not> digest_collision cas_sha (ran (content demo_store) \<union> (\<Union>p \<in> set demo_list. file_blocks demo_files (snd p)))"
proof -
  have "ran (content demo_store) \<union> (\<Union>p \<in> set demo_list. file_blocks demo_files (snd p)) = {''memory'', ''state''}"
    unfolding demo_file_blocks using demo_ran by blast
  then show ?thesis using demo_no_collision by simp
qed

lemma demo_get: "GetManifest demo_unmarshal demo_store (ManifestDigest cas_sha quote_all demo_manifest) = Inr (normal_manifest demo_manifest)"
proof (rule GetManifest_stored [OF demo_reads_back])
  show "ValidateDigest (ManifestDigest cas_sha quote_all demo_manifest)" by (simp add: ManifestDigest_def demo_valid)
  show "st_manifests demo_store (ManifestDigest cas_sha quote_all demo_manifest) = Some (Canonical quote_all demo_manifest)"
    using demo_held by (simp add: holds_snapshot_def)
  show "\<forall>c \<in> set (all_chunks demo_manifest). ValidateDigest (cr_Digest c)"
    using holds_valid [OF cas_sha_shape, of demo_store demo_files demo_list demo_manifest] demo_held by (simp add: holds_snapshot_def)
qed

theorem reachable_store_sound_witness:
  "\<exists>s2 out'. Materialize cas_sha demo_unmarshal 7 demo_store Map.empty (ManifestDigest cas_sha quote_all demo_manifest) = (Inr (), s2, out') \<and>
     (\<exists>bs. out' ''mem'' = Some (concat bs) \<and> map (digestBytes cas_sha) bs = [digestBytes cas_sha ''memory''])"
proof -
  let ?fe = "\<lparr>fe_Name = ''mem'', fe_Size = 6, fe_Chunks = [chunk_ref cas_sha ''memory'']\<rparr>"
  obtain s2 out' where m: "Materialize cas_sha demo_unmarshal 7 demo_store Map.empty (ManifestDigest cas_sha quote_all demo_manifest) = (Inr (), s2, out')"
    using materialize_held [OF cas_sha_shape demo_store_ok demo_held demo_reads_back demo_collision_free] by blast
  have r: "(cas_step cas_sha quote_all demo_unmarshal)\<^sup>*\<^sup>* NewStore demo_store"
    by (intro r_into_rtranclp cas_step.put [OF demo_put])
  have d: "distinct (map fe_Name (m_Files (normal_manifest demo_manifest)))"
    by (intro names_normal) (simp add: demo_manifest_def manifestFrom_def)
  have "?fe \<in> set (m_Files (normal_manifest demo_manifest))"
    unfolding files_normal by (simp add: demo_manifest_def manifestFrom_def)
  then have "\<exists>bs. out' (fe_Name ?fe) = Some (concat bs) \<and> map (digestBytes cas_sha) bs = map cr_Digest (fe_Chunks ?fe)"
    using reachable_store_sound [OF cas_sha_shape r, THEN conjunct2, THEN mp, OF conjI [OF m conjI [OF demo_get d]]] by blast
  then show ?thesis using m by auto
qed

definition demo_remote :: Transport where
  "demo_remote = \<lparr>tr_GetManifest = (\<lambda>d. Some demo_manifest), tr_GetChunk = content demo_store\<rparr>"

lemma demo_pull: "Pull cas_sha quote_all 1 NewStore demo_remote (ManifestDigest cas_sha quote_all demo_manifest) = (Inr (), demo_store)"
proof -
  have v: "ValidateDigest (ManifestDigest cas_sha quote_all demo_manifest)" by (simp add: ManifestDigest_def demo_valid)
  have miss: "MissingChunks NewStore demo_manifest = [digestBytes cas_sha ''memory'', digestBytes cas_sha ''state'']"
    using demo_digests(1) by (simp add: MissingChunks_def all_chunks_def demo_manifest_def manifestFrom_def HasChunk_def NewStore_def)
  have "pull_chunks cas_sha 1 NewStore demo_remote [digestBytes cas_sha ''memory'', digestBytes cas_sha ''state''] =
      (Inr (), writeChunk 1 (writeChunk 1 NewStore (digestBytes cas_sha ''memory'') ''memory'') (digestBytes cas_sha ''state'') ''state'')"
    using demo_digests(1) by (simp add: pullChunk_def demo_remote_def demo_store_content PutChunk_def Let_def demo_valid ChunkSize_def)
  then show ?thesis by (simp add: Pull_def v demo_remote_def miss demo_store_def PutManifest_def)
qed

lemma demo_build: "BuildManifest cas_sha demo_files demo_list demo_meta = Inr demo_manifest"
  by (rule PutSnapshot_builds [OF cas_sha_shape demo_put])

lemma cas_sha_first: "take 2 (digestBytes cas_sha (c # cs)) = hex_byte (of_nat (of_char c))"
  by (simp add: digestBytes_def cas_sha_def hex_string_def)

lemma demo_canonical_digest: "digestBytes cas_sha ''memory'' \<noteq> digestBytes cas_sha (Canonical quote_all demo_manifest)"
  "digestBytes cas_sha ''state'' \<noteq> digestBytes cas_sha (Canonical quote_all demo_manifest)"
proof -
  obtain r where r: "Canonical quote_all demo_manifest = CHR ''{'' # r" by (simp add: Canonical_def)
  have "hex_byte (of_nat (of_char CHR ''m'')) \<noteq> hex_byte (of_nat (of_char CHR ''{''))"
    "hex_byte (of_nat (of_char CHR ''s'')) \<noteq> hex_byte (of_nat (of_char CHR ''{''))" by code_simp+
  then show "digestBytes cas_sha ''memory'' \<noteq> digestBytes cas_sha (Canonical quote_all demo_manifest)"
    "digestBytes cas_sha ''state'' \<noteq> digestBytes cas_sha (Canonical quote_all demo_manifest)"
    unfolding r using cas_sha_first by metis+
qed


text \<open>The demo store with a stale chunk that no manifest names.\<close>

definition demo_full :: Store where
  "demo_full = Pin (writeChunk 0 demo_store (digestBytes cas_sha ''junk'') ''junk'') (ManifestDigest cas_sha quote_all demo_manifest)"

definition demo_digest_list :: "Digest list" where
  "demo_digest_list = map (digestBytes cas_sha) [''memory'', ''state'', ''junk'']"

lemma demo_lists: "lists_chunks demo_full demo_digest_list"
  using demo_digests by (auto simp: lists_chunks_def demo_digest_list_def demo_full_def Pin_def writeChunk_def demo_store_def
    writeManifest_def NewStore_def)

lemma sort_by_age: "sorts_by_age (sort_key cs_mtime)"
  by (simp add: sorts_by_age_def)

theorem evict_to_fit_exact_witness:
  "\<exists>freed s'. EvictToFit (sort_key cs_mtime) demo_unmarshal demo_full demo_digest_list 11 = (freed, s') \<and>
     totalChunkBytes s' demo_digest_list = 15 - freed \<and>
     (\<exists>s2. Materialize cas_sha demo_unmarshal 7 s' Map.empty (ManifestDigest cas_sha quote_all demo_manifest) =
        (Inr (), s2, \<lambda>x. case map_of demo_list x of None \<Rightarrow> None | Some path \<Rightarrow> demo_files path))"
proof -
  obtain freed s' where e: "EvictToFit (sort_key cs_mtime) demo_unmarshal demo_full demo_digest_list 11 = (freed, s')" by fastforce
  have ct: "content demo_full = (content demo_store)(digestBytes cas_sha ''junk'' \<mapsto> ''junk'')"
    by (simp add: demo_full_def content_def Pin_def writeChunk_def fun_eq_iff)
  have "totalChunkBytes demo_full demo_digest_list = 15"
    using demo_digests by (simp add: totalChunkBytes_sum demo_digest_list_def chunk_size_def demo_full_def Pin_def writeChunk_def
      demo_store_def writeManifest_def)
  moreover have "store_ok cas_sha demo_full"
    using demo_store_ok by (auto simp: store_ok_def ct demo_valid ChunkSize_def)
  moreover have "holds_snapshot cas_sha quote_all demo_full demo_files demo_list demo_manifest"
  proof -
    have "list_all2 (holds_file cas_sha demo_full demo_files) demo_list (m_Files demo_manifest)"
      using demo_held unfolding holds_snapshot_def holds_file_def ct by (elim conjE list_all2_mono) fastforce
    then show ?thesis using demo_held by (simp add: holds_snapshot_def demo_full_def Pin_def writeChunk_def)
  qed
  moreover have "\<not> digest_collision cas_sha (ran (content demo_full) \<union> (\<Union>p \<in> set demo_list. file_blocks demo_files (snd p)))"
  proof -
    have "ran (content demo_full) \<subseteq> insert ''junk'' (ran (content demo_store))" by (auto simp: ct ran_def split: if_splits)
    then have "ran (content demo_full) \<union> (\<Union>p \<in> set demo_list. file_blocks demo_files (snd p)) \<subseteq> {''memory'', ''state'', ''junk''}"
      using demo_ran unfolding demo_file_blocks by blast
    moreover have "\<not> digest_collision cas_sha {''memory'', ''state'', ''junk''}"
      using demo_digests by (auto simp: digest_collision_def)
    ultimately show ?thesis using digest_collision_mono by blast
  qed
  moreover have "ManifestDigest cas_sha quote_all demo_manifest \<in> st_pins demo_full" by (simp add: demo_full_def Pin_def)
  ultimately show ?thesis
    using e cas_sha_shape demo_reads_back
      evict_to_fit_exact [OF sort_by_age demo_lists e, of cas_sha quote_all demo_manifest demo_files demo_list 7 Map.empty] by auto
qed

end
