(* ===== verification/Civil_Time.thy ===== *)
theory Civil_Time
  imports Json_Text
begin

text \<open>
  The calendar of the standard library as far as the code uses it: the UTC date and clock of an
  instant, the first instant of its month, and the \<^verbatim>\<open>RFC3339Nano\<close> layout, which keys usage
  windows. An instant is a number of nanoseconds after the first instant of year 1. The printed
  form determines the instant, so distinct windows have distinct keys.
\<close>

section \<open>Dates\<close>

abbreviation day_ns :: int where
  "day_ns \<equiv> 86400000000000"

definition is_leap :: "nat \<Rightarrow> bool" where
  "is_leap y \<longleftrightarrow> y mod 4 = 0 \<and> (y mod 100 \<noteq> 0 \<or> y mod 400 = 0)"

definition year_len :: "nat \<Rightarrow> nat" where
  "year_len y = (if is_leap y then 366 else 365)"

definition month_lens :: "nat \<Rightarrow> nat list" where
  "month_lens y = [31, if is_leap y then 29 else 28, 31, 30, 31, 30, 31, 31, 30, 31, 30, 31]"

text \<open>The year and the day of the year of a day counted from the first day of year \<open>y\<close>.\<close>

function civil_year :: "nat \<Rightarrow> nat \<Rightarrow> nat \<times> nat" where
  "civil_year y d = (if d < year_len y then (y, d) else civil_year (Suc y) (d - year_len y))"
  by pat_completeness auto
termination
  by (relation "measure snd") (auto simp: year_len_def split: if_splits)

declare civil_year.simps [simp del]

fun civil_month :: "nat list \<Rightarrow> nat \<Rightarrow> nat \<Rightarrow> nat \<times> nat" where
  "civil_month [] m d = (m, d)"
| "civil_month (l # ls) m d = (if d < l then (m, d) else civil_month ls (Suc m) (d - l))"

record civil_date =
  cd_year :: nat
  cd_month :: nat
  cd_day :: nat

definition date_of :: "time \<Rightarrow> civil_date" where
  "date_of t =
     (let (y, yd) = civil_year 1 (nat (t div day_ns));
          (m, d) = civil_month (month_lens y) 1 yd
      in \<lparr>cd_year = y, cd_month = m, cd_day = d + 1\<rparr>)"

text \<open>The first instant of the month of \<open>t\<close>.\<close>

definition month_start :: "time \<Rightarrow> time" where
  "month_start t = t - t mod day_ns - (int (cd_day (date_of t)) - 1) * day_ns"

section \<open>Printing\<close>

definition pad :: "nat \<Rightarrow> nat \<Rightarrow> string" where
  "pad w n = replicate (w - length (dec_nat n)) (CHR ''0'') @ dec_nat n"

definition strip_zeros :: "string \<Rightarrow> string" where
  "strip_zeros s = rev (dropWhile (\<lambda>c. c = CHR ''0'') (rev s))"

definition fraction :: "nat \<Rightarrow> string" where
  "fraction n = (if n = 0 then [] else CHR ''.'' # strip_zeros (pad 9 n))"

definition rfc3339_nano :: "time \<Rightarrow> string" where
  "rfc3339_nano t =
     (let dt = date_of t; c = t mod day_ns
      in pad 4 (cd_year dt) @ ''-'' @ pad 2 (cd_month dt) @ ''-'' @ pad 2 (cd_day dt) @ ''T'' @
         pad 2 (nat (c div 3600000000000)) @ '':'' @ pad 2 (nat (c div 60000000000 mod 60)) @ '':'' @
         pad 2 (nat (c div second_ns mod 60)) @ fraction (nat (c mod second_ns)) @ ''Z'')"

section \<open>The date determines the day\<close>

lemma year_len_pos: "0 < year_len y"
  by (simp add: year_len_def)

lemma civil_year_spec:
  "civil_year y d = (y', d') \<Longrightarrow> y \<le> y' \<and> d = d' + sum year_len {y..<y'} \<and> d' < year_len y'"
proof (induction y d rule: civil_year.induct)
  case (1 y d)
  show ?case
  proof (cases "d < year_len y")
    case True
    then show ?thesis using 1(2) by (simp add: civil_year.simps [of y d])
  next
    case False
    then have "Suc y \<le> y' \<and> d - year_len y = d' + sum year_len {Suc y..<y'} \<and> d' < year_len y'"
      using 1 by (simp add: civil_year.simps [of y d])
    then show ?thesis using False sum.atLeast_Suc_lessThan [of y y' year_len] by auto
  qed
qed

lemma civil_month_spec:
  "civil_month ls m d = (m', d') \<Longrightarrow> m \<le> m' \<and> d = d' + sum_list (take (m' - m) ls)"
proof (induction ls m d rule: civil_month.induct)
  case (2 l ls m d)
  show ?case
  proof (cases "d < l")
    case True
    then show ?thesis using 2(2) by simp
  next
    case False
    then have "Suc m \<le> m'" "d - l = d' + sum_list (take (m' - Suc m) ls)" using 2 by auto
    moreover from this have "m' - m = Suc (m' - Suc m)" by simp
    ultimately show ?thesis using False by simp
  qed
qed simp

lemma date_of_inj:
  assumes "date_of s = date_of t" and "0 \<le> s" "0 \<le> t"
  shows "s div day_ns = t div day_ns"
proof -
  obtain y yd where y: "civil_year 1 (nat (s div day_ns)) = (y, yd)" by fastforce
  obtain y' yd' where y': "civil_year 1 (nat (t div day_ns)) = (y', yd')" by fastforce
  obtain m d where m: "civil_month (month_lens y) 1 yd = (m, d)" by fastforce
  obtain m' d' where m': "civil_month (month_lens y') 1 yd' = (m', d')" by fastforce
  have eq: "y = y'" "m = m'" "d = d'"
    using assms(1) y y' m m' by (simp_all add: date_of_def Let_def)
  have "yd = yd'" using civil_month_spec [OF m] civil_month_spec [OF m'] eq by simp
  then have "nat (s div day_ns) = nat (t div day_ns)" using civil_year_spec [OF y] civil_year_spec [OF y'] eq by simp
  moreover have "0 \<le> s div day_ns" "0 \<le> t div day_ns" using assms(2,3) by (simp_all add: pos_imp_zdiv_nonneg_iff)
  ultimately show ?thesis by (simp add: eq_nat_nat_iff)
qed

section \<open>The text determines the fields\<close>

lemma digits_value_append: "digits_value (xs @ ys) = digits_value xs * 10 ^ length ys + digits_value ys"
proof -
  have f: "foldl (\<lambda>v c. 10 * v + (of_char c - 48)) a ys = a * 10 ^ length ys + foldl (\<lambda>v c. 10 * v + (of_char c - 48)) 0 ys"
    for a :: nat and ys
  proof (induction ys arbitrary: a)
    case (Cons c ys)
    show ?case using Cons.IH [of "10 * a + (of_char c - 48)"] Cons.IH [of "of_char c - 48"] by (simp add: algebra_simps)
  qed simp
  show ?thesis using f [of "digits_value xs" ys] by (simp add: digits_value_def)
qed

lemma digits_value_zeros: "digits_value (replicate k (CHR ''0'')) = 0"
  by (induction k) (simp_all add: digits_value_def)

lemma pad_digits: "list_all is_digit (pad w n)" "digits_value (pad w n) = n"
  using digits_dec_nat [of n]
  by (auto simp: pad_def digits_value_append digits_value_zeros list_all_iff is_digit_def)

lemma pad_split:
  assumes "pad w m @ c # r = pad v n @ d # q" and "\<not> is_digit c" "\<not> is_digit d"
  shows "m = n \<and> c = d \<and> r = q"
  using digits_split [OF pad_digits(1) pad_digits(1) assms(2,3,1)] pad_digits(2) by metis

lemma pad_field:
  assumes "pad w m @ c # r = pad v n @ d # q" and "\<not> is_digit c" "\<not> is_digit d"
  shows "m = n" "r = q"
  using pad_split [OF assms] by simp_all

lemma length_dec_nat: "n < 10 ^ k \<Longrightarrow> 0 < k \<Longrightarrow> length (dec_nat n) \<le> k"
proof (induction n arbitrary: k rule: dec_nat.induct)
  case (1 n)
  show ?case
  proof (cases "n < 10")
    case False
    then obtain j where j: "k = Suc j" "0 < j" using 1(2,3) by (cases k; cases "k - 1") auto
    have "n div 10 < 10 ^ j" using 1(2) j by (simp add: less_mult_imp_div_less mult.commute)
    then show ?thesis using 1(1) False j by (simp add: dec_nat.simps [of n])
  qed (use 1(3) in \<open>simp add: dec_nat.simps [of n]\<close>)
qed

lemma length_pad: "n < 10 ^ w \<Longrightarrow> 0 < w \<Longrightarrow> length (pad w n) = w"
  using length_dec_nat [of n w] by (simp add: pad_def)

lemma zeros_prefix:
  "s = replicate (length (takeWhile (\<lambda>c. c = CHR ''0'') s)) (CHR ''0'') @ dropWhile (\<lambda>c. c = CHR ''0'') s"
  by (induction s) simp_all

lemma strip_zeros_inj:
  assumes "strip_zeros xs = strip_zeros ys" and "length xs = length ys"
  shows "xs = ys"
proof -
  let ?d = "dropWhile (\<lambda>c. c = CHR ''0'')"
  have d: "?d (rev xs) = ?d (rev ys)" using assms(1) by (simp add: strip_zeros_def)
  obtain j where j: "rev xs = replicate j (CHR ''0'') @ ?d (rev xs)" using zeros_prefix by blast
  obtain k where k: "rev ys = replicate k (CHR ''0'') @ ?d (rev ys)" using zeros_prefix by blast
  have "length (rev xs) = j + length (?d (rev xs))" "length (rev ys) = k + length (?d (rev ys))"
    by (subst j, simp, subst k, simp)
  then have "j = k" using assms(2) d by simp
  then have "rev xs = rev ys" using j k d by simp
  then show ?thesis by simp
qed

lemma fraction_split:
  assumes "fraction m @ CHR ''Z'' # r = fraction n @ CHR ''Z'' # q" and "m < 1000000000" "n < 1000000000"
  shows "m = n \<and> r = q"
proof -
  have dg: "list_all is_digit (strip_zeros (pad 9 k))" for k
    using pad_digits(1) [of 9 k] by (auto simp: strip_zeros_def list_all_iff dest: set_dropWhileD)
  have z: "\<not> is_digit (CHR ''Z'')" by (simp add: is_digit_def)
  show ?thesis
  proof (cases "m = 0 \<or> n = 0")
    case True
    then show ?thesis using assms(1) by (auto simp: fraction_def split: if_splits)
  next
    case False
    then have "strip_zeros (pad 9 m) @ CHR ''Z'' # r = strip_zeros (pad 9 n) @ CHR ''Z'' # q"
      using assms(1) by (simp add: fraction_def)
    from digits_split [OF dg dg z z this] have "strip_zeros (pad 9 m) = strip_zeros (pad 9 n)" "r = q" by auto
    moreover have "length (pad 9 m) = length (pad 9 n)" using assms(2,3) by (simp add: length_pad)
    ultimately have "pad 9 m = pad 9 n" "r = q" using strip_zeros_inj by auto
    then show ?thesis using pad_digits(2) by metis
  qed
qed

lemma clock_inj:
  assumes "s div 3600000000000 = t div (3600000000000 :: int)" "s div 60000000000 mod 60 = t div 60000000000 mod 60"
    and "s div 1000000000 mod 60 = t div 1000000000 mod 60" "s mod 1000000000 = t mod 1000000000"
  shows "s = t"
proof -
  have h: "x div 3600000000000 = x div 60000000000 div 60" "x div 60000000000 = x div 1000000000 div 60" for x :: int
    by (simp_all add: zdiv_zmult2_eq [symmetric])
  have "s div 60000000000 = t div 60000000000" using assms(1,2) h(1) [of s] h(1) [of t] by (metis div_mult_mod_eq)
  then have "s div 1000000000 = t div 1000000000" using assms(3) h(2) [of s] h(2) [of t] by (metis div_mult_mod_eq)
  then show ?thesis using assms(4) by (metis div_mult_mod_eq)
qed

lemma not_digit_marks [simp]: "\<not> is_digit (CHR ''T'')" "\<not> is_digit (CHR '':'')" "\<not> is_digit (CHR ''.'')" "\<not> is_digit (CHR ''Z'')"
  by (simp_all add: is_digit_def)

lemma fraction_start: "\<exists>c u. fraction n @ CHR ''Z'' # r = c # u \<and> \<not> is_digit c"
  by (auto simp: fraction_def)

theorem rfc3339_inj:
  assumes "rfc3339_nano s = rfc3339_nano t" and "0 \<le> s" "0 \<le> t"
  shows "s = t"
proof -
  let ?F = "\<lambda>t. fraction (nat (t mod day_ns mod second_ns)) @ ''Z''"
  let ?S = "\<lambda>t. pad 2 (nat (t mod day_ns div second_ns mod 60)) @ ?F t"
  let ?M = "\<lambda>t. pad 2 (nat (t mod day_ns div 60000000000 mod 60)) @ CHR '':'' # ?S t"
  let ?H = "\<lambda>t. pad 2 (nat (t mod day_ns div 3600000000000)) @ CHR '':'' # ?M t"
  let ?D = "\<lambda>t. pad 2 (cd_day (date_of t)) @ CHR ''T'' # ?H t"
  let ?O = "\<lambda>t. pad 2 (cd_month (date_of t)) @ CHR ''-'' # ?D t"
  have u: "rfc3339_nano t = pad 4 (cd_year (date_of t)) @ CHR ''-'' # ?O t" for t
    by (simp add: rfc3339_nano_def Let_def)
  have all: "pad 4 (cd_year (date_of s)) @ CHR ''-'' # ?O s = pad 4 (cd_year (date_of t)) @ CHR ''-'' # ?O t"
    using assms(1) by (simp only: u)
  note y = pad_field [OF all not_digit(1) not_digit(1)]
  note m = pad_field [OF y(2) not_digit(1) not_digit(1)]
  note d = pad_field [OF m(2) not_digit_marks(1) not_digit_marks(1)]
  note h = pad_field [OF d(2) not_digit_marks(2) not_digit_marks(2)]
  note mi = pad_field [OF h(2) not_digit_marks(2) not_digit_marks(2)]
  obtain c u e v where cu: "?F s = c # u" "\<not> is_digit c" "?F t = e # v" "\<not> is_digit e"
    using fraction_start [of _ "[]"] by metis
  note sp = pad_split [OF mi(2) [unfolded cu(1,3)] cu(2,4)]
  have se: "nat (s mod day_ns div second_ns mod 60) = nat (t mod day_ns div second_ns mod 60)" "?F s = ?F t"
    using sp by (simp_all only: cu(1,3))
  have fr: "nat (s mod day_ns mod second_ns) = nat (t mod day_ns mod second_ns)"
    using fraction_split [OF se(2)] by (simp add: nat_less_iff)
  have nn: "0 \<le> x mod day_ns div 3600000000000" "0 \<le> x mod day_ns div 60000000000 mod 60"
      "0 \<le> x mod day_ns div second_ns mod 60" "0 \<le> x mod day_ns mod second_ns" for x :: int
    by (simp_all add: pos_imp_zdiv_nonneg_iff)
  have "s mod day_ns = t mod day_ns"
    by (rule clock_inj [OF eq_nat_nat_iff [THEN iffD1, OF nn(1) nn(1) h(1)] eq_nat_nat_iff [THEN iffD1, OF nn(2) nn(2) mi(1)]
      eq_nat_nat_iff [THEN iffD1, OF nn(3) nn(3) se(1)] eq_nat_nat_iff [THEN iffD1, OF nn(4) nn(4) fr]])
  moreover have "date_of s = date_of t" using y(1) m(1) d(1) by simp
  then have "s div day_ns = t div day_ns" by (rule date_of_inj [OF _ assms(2,3)])
  ultimately show ?thesis by (metis div_mult_mod_eq)
qed

lemma rfc3339_chars: "CHR ''|'' \<notin> set (rfc3339_nano t)"
proof -
  have p: "CHR ''|'' \<notin> set (pad w n)" for w n
    using pad_digits(1) [of w n] by (auto simp: list_all_iff is_digit_def)
  have "CHR ''|'' \<notin> set (strip_zeros (pad 9 n))" for n
    using p [of 9 n] set_dropWhileD [of "CHR ''|''" _ "rev (pad 9 n)"] by (auto simp: strip_zeros_def)
  then have "CHR ''|'' \<notin> set (fraction n)" for n by (simp add: fraction_def)
  with p show ?thesis by (simp add: rfc3339_nano_def Let_def)
qed

end
