(* ===== verification/Credit_Ledger.thy ===== *)
theory Credit_Ledger
  imports Civil_Time Float64
begin

text \<open>
  The per-organization credit ledger, \<^verbatim>\<open>internal/saas/billing/ledger.go\<close>, and the reserved capacity
  grants of \<^verbatim>\<open>reservation.go\<close>. An implementation of the ledger interface is a record of
  operations over its state; the locale \<open>credit_ledger\<close> is the contract of that interface,
  stated over the view that clients have of a ledger, and the in-memory ledger is shown to
  implement it.
\<close>

section \<open>Entries\<close>

type_synonym Money = int
type_synonym EntryKind = string

definition KindSignupCredit :: EntryKind where "KindSignupCredit = ''signup_credit''"
definition KindTopUp :: EntryKind where "KindTopUp = ''top_up''"
definition KindUsageDrawdown :: EntryKind where "KindUsageDrawdown = ''usage_drawdown''"
definition KindAdjustment :: EntryKind where "KindAdjustment = ''adjustment''"
definition KindBoxGrant :: EntryKind where "KindBoxGrant = ''box_grant''"

record LedgerEntry =
  le_OrgID :: string
  le_Kind :: EntryKind
  le_Amount :: Money
  le_Key :: string
  le_At :: time
  le_Note :: string

record ProcessedWindow =
  pw_OrgID :: string
  pw_SandboxID :: string
  pw_Window :: time

definition DrawdownKey :: "string \<Rightarrow> string \<Rightarrow> time \<Rightarrow> string" where
  "DrawdownKey orgID sandboxID window =
     ''drawdown:'' @ orgID @ ''|'' @ sandboxID @ ''|'' @ rfc3339_nano window"

definition WindowKey :: "ProcessedWindow \<Rightarrow> string" where
  "WindowKey w = DrawdownKey (pw_OrgID w) (pw_SandboxID w) (pw_Window w)"

datatype ledger_error = ErrDuplicateEntry | LedgerFailure string

section \<open>The in-memory ledger\<close>

text \<open>
  Maps with a zero default are total functions. The processed-window markers are a list of
  organization, key and window, one for each pair of organization and key.
\<close>

record MemCreditLedger =
  ml_byOrg :: "string \<Rightarrow> LedgerEntry list"
  ml_seenKey :: "string set"
  ml_remainder :: "string \<Rightarrow> int"
  ml_processed :: "((string \<times> string) \<times> time) list"

definition NewMemCreditLedger :: MemCreditLedger where
  "NewMemCreditLedger = \<lparr>ml_byOrg = (\<lambda>x. []), ml_seenKey = {}, ml_remainder = (\<lambda>x. 0), ml_processed = []\<rparr>"

definition seen_key :: "string \<Rightarrow> string \<Rightarrow> string" where
  "seen_key orgID key = orgID @ [CHR 0x00] @ key"

definition appendLocked :: "MemCreditLedger \<Rightarrow> LedgerEntry \<Rightarrow> (ledger_error, unit) result \<times> MemCreditLedger" where
  "appendLocked l e =
     (let k = seen_key (le_OrgID e) (le_Key e);
          add = (\<lambda>l. l\<lparr>ml_byOrg := (ml_byOrg l)(le_OrgID e := ml_byOrg l (le_OrgID e) @ [e])\<rparr>)
      in if le_Key e \<noteq> []
         then if k \<in> ml_seenKey l then (Inl ErrDuplicateEntry, l)
              else (Inr (), add (l\<lparr>ml_seenKey := insert k (ml_seenKey l)\<rparr>))
         else (Inr (), add l))"

definition mem_Append :: "MemCreditLedger \<Rightarrow> LedgerEntry \<Rightarrow> (ledger_error, unit) result \<times> MemCreditLedger" where
  "mem_Append l e = appendLocked l e"

definition mem_Remainder :: "MemCreditLedger \<Rightarrow> string \<Rightarrow> (ledger_error, int) result" where
  "mem_Remainder l orgID = Inr (ml_remainder l orgID)"

definition mem_SettleWindow ::
  "MemCreditLedger \<Rightarrow> LedgerEntry \<Rightarrow> int \<Rightarrow> ProcessedWindow \<Rightarrow> (ledger_error, unit) result \<times> MemCreditLedger" where
  "mem_SettleWindow l e remainderMilliCents w =
     (let key = WindowKey w
      in if map_of (ml_processed l) (pw_OrgID w, key) \<noteq> None then (Inl ErrDuplicateEntry, l)
         else
           (case (if le_Amount e \<noteq> 0 then appendLocked l e else (Inr (), l)) of
              (Inl err, l1) \<Rightarrow> (Inl err, l1)
            | (Inr _, l1) \<Rightarrow>
                (Inr (), l1\<lparr>ml_processed := ml_processed l1 @ [((pw_OrgID w, key), pw_Window w)],
                            ml_remainder := (ml_remainder l1)(le_OrgID e := remainderMilliCents)\<rparr>)))"

definition mem_SettledWindowKeys :: "MemCreditLedger \<Rightarrow> string \<Rightarrow> time \<Rightarrow> (ledger_error, string set) result" where
  "mem_SettledWindowKeys l orgID since = Inr
     (set (map (\<lambda>((o', key), window). key) (filter (\<lambda>((o', key), window). o' = orgID \<and> \<not> window < since) (ml_processed l))) \<union>
      set (map le_Key (filter (\<lambda>e. le_Kind e = KindUsageDrawdown \<and> le_Key e \<noteq> [] \<and> \<not> le_At e < since) (ml_byOrg l orgID))))"

definition mem_PruneProcessedWindows :: "MemCreditLedger \<Rightarrow> time \<Rightarrow> (ledger_error, int) result \<times> MemCreditLedger" where
  "mem_PruneProcessedWindows l olderThan =
     (Inr (int (length (filter (\<lambda>(k, window). window < olderThan) (ml_processed l)))),
      l\<lparr>ml_processed := filter (\<lambda>(k, window). \<not> window < olderThan) (ml_processed l)\<rparr>)"

definition mem_Balance :: "MemCreditLedger \<Rightarrow> string \<Rightarrow> (ledger_error, Money) result" where
  "mem_Balance l orgID = Inr (foldl (\<lambda>bal e. i64 (bal + le_Amount e)) 0 (ml_byOrg l orgID))"

definition mem_Entries :: "MemCreditLedger \<Rightarrow> string \<Rightarrow> (ledger_error, LedgerEntry list) result" where
  "mem_Entries l orgID = Inr (ml_byOrg l orgID)"

definition mem_EntriesSince :: "MemCreditLedger \<Rightarrow> string \<Rightarrow> time \<Rightarrow> (ledger_error, LedgerEntry list) result" where
  "mem_EntriesSince l orgID since = Inr (filter (\<lambda>e. \<not> le_At e < since) (ml_byOrg l orgID))"

section \<open>The ledger interface\<close>

record 'l CreditLedger =
  cl_Append :: "'l \<Rightarrow> LedgerEntry \<Rightarrow> (ledger_error, unit) result \<times> 'l"
  cl_Balance :: "'l \<Rightarrow> string \<Rightarrow> (ledger_error, Money) result"
  cl_Entries :: "'l \<Rightarrow> string \<Rightarrow> (ledger_error, LedgerEntry list) result"
  cl_Remainder :: "'l \<Rightarrow> string \<Rightarrow> (ledger_error, int) result"
  cl_SettleWindow :: "'l \<Rightarrow> LedgerEntry \<Rightarrow> int \<Rightarrow> ProcessedWindow \<Rightarrow> (ledger_error, unit) result \<times> 'l"
  cl_SettledWindowKeys :: "'l \<Rightarrow> string \<Rightarrow> time \<Rightarrow> (ledger_error, string set) result"
  cl_PruneProcessedWindows :: "'l \<Rightarrow> time \<Rightarrow> (ledger_error, int) result \<times> 'l"
  cl_EntriesSince :: "('l \<Rightarrow> string \<Rightarrow> time \<Rightarrow> (ledger_error, LedgerEntry list) result) option"

definition mem_ledger :: "MemCreditLedger CreditLedger" where
  "mem_ledger =
     \<lparr>cl_Append = mem_Append, cl_Balance = mem_Balance, cl_Entries = mem_Entries, cl_Remainder = mem_Remainder,
      cl_SettleWindow = mem_SettleWindow, cl_SettledWindowKeys = mem_SettledWindowKeys,
      cl_PruneProcessedWindows = mem_PruneProcessedWindows, cl_EntriesSince = Some mem_EntriesSince\<rparr>"

section \<open>Grants\<close>

definition GrantSignupCredit ::
  "'l CreditLedger \<Rightarrow> 'l \<Rightarrow> string \<Rightarrow> Money \<Rightarrow> time \<Rightarrow> (ledger_error, unit) result \<times> 'l" where
  "GrantSignupCredit C l orgID amount now =
     cl_Append C l \<lparr>le_OrgID = orgID, le_Kind = KindSignupCredit, le_Amount = amount, le_Key = ''signup:'' @ orgID,
       le_At = now, le_Note = ''signup credit''\<rparr>"

definition TopUp ::
  "'l CreditLedger \<Rightarrow> 'l \<Rightarrow> string \<Rightarrow> Money \<Rightarrow> string \<Rightarrow> time \<Rightarrow> (ledger_error, unit) result \<times> 'l" where
  "TopUp C l orgID amount ref now =
     cl_Append C l \<lparr>le_OrgID = orgID, le_Kind = KindTopUp, le_Amount = amount, le_Key = ''topup:'' @ ref,
       le_At = now, le_Note = ''prepaid top-up''\<rparr>"

definition USD :: "int \<Rightarrow> Money" where
  "USD dollars = i64 (dollars * 100)"

definition TopUpLadder :: "Money list" where
  "TopUpLadder = [USD 10, USD 25, USD 50, USD 100, USD 250]"

definition DefaultSignupCredit :: Money where
  "DefaultSignupCredit = USD 100"

record Reservation =
  rs_Key :: string
  rs_VCPU :: int
  rs_MemGiB :: int
  rs_MonthlyCents :: int

definition boxS :: Reservation where
  "boxS = \<lparr>rs_Key = ''box_s'', rs_VCPU = 2, rs_MemGiB = 4, rs_MonthlyCents = 1900\<rparr>"
definition boxM :: Reservation where
  "boxM = \<lparr>rs_Key = ''box_m'', rs_VCPU = 4, rs_MemGiB = 8, rs_MonthlyCents = 3900\<rparr>"
definition boxL :: Reservation where
  "boxL = \<lparr>rs_Key = ''box_l'', rs_VCPU = 8, rs_MemGiB = 16, rs_MonthlyCents = 7500\<rparr>"

definition BoxCatalog :: "Reservation list" where
  "BoxCatalog = [boxS, boxM, boxL]"

definition boxDiscount :: rat where
  "boxDiscount = f64 (70 / 100)"

definition CreditCentsForReservation :: "Reservation \<Rightarrow> int" where
  "CreditCentsForReservation res = trunc_i64 (math_Round (f64 (f64 (of_int (rs_MonthlyCents res)) / boxDiscount)))"

definition BoxGrantKey :: "string \<Rightarrow> string \<Rightarrow> string \<Rightarrow> string" where
  "BoxGrantKey orgID yearMonth resKey = ''box|'' @ orgID @ ''|'' @ yearMonth @ ''|'' @ resKey"

text \<open>The layout \<^verbatim>\<open>2006-01\<close>: four digits, a dash and a month of two digits.\<close>

definition parse_year_month :: "string \<Rightarrow> (nat \<times> nat) option" where
  "parse_year_month s =
     (let y = take 4 s; m = drop 5 s
      in if length s = 7 \<and> s ! 4 = CHR ''-'' \<and> list_all is_digit y \<and> list_all is_digit m \<and>
            1 \<le> digits_value m \<and> digits_value m \<le> 12
         then Some (digits_value y, digits_value m) else None)"

definition first_of_month :: "nat \<Rightarrow> nat \<Rightarrow> time" where
  "first_of_month y m =
     (int (sum_list (map year_len [1..<y]) + sum_list (take (m - 1) (month_lens y))) -
      (if y = 0 then int (year_len 0) else 0)) * day_ns"

definition ApplyMonthlyGrant ::
  "'l CreditLedger \<Rightarrow> 'l \<Rightarrow> string \<Rightarrow> Reservation \<Rightarrow> string \<Rightarrow> (ledger_error, unit) result \<times> 'l" where
  "ApplyMonthlyGrant C l orgID res yearMonth =
     (case parse_year_month yearMonth of
        None \<Rightarrow> (Inl (LedgerFailure ''invalid year-month''), l)
      | Some (y, m) \<Rightarrow>
          cl_Append C l \<lparr>le_OrgID = orgID, le_Kind = KindBoxGrant, le_Amount = CreditCentsForReservation res,
            le_Key = BoxGrantKey orgID yearMonth (rs_Key res), le_At = first_of_month y m,
            le_Note = ''box grant: '' @ rs_Key res @ '' ('' @ dec_int (rs_VCPU res) @ '' vCPU / '' @ dec_int (rs_MemGiB res) @
              '' GiB) reserved capacity for '' @ yearMonth\<rparr>)"

section \<open>What a client sees of a ledger\<close>

record ledger_view =
  lv_entries :: "string \<Rightarrow> LedgerEntry list"
  lv_remainder :: "string \<Rightarrow> int"
  lv_marks :: "string \<times> string \<rightharpoonup> time"

definition duplicate_key :: "ledger_view \<Rightarrow> LedgerEntry \<Rightarrow> bool" where
  "duplicate_key v e \<longleftrightarrow> le_Key e \<noteq> [] \<and> le_Key e \<in> le_Key ` set (lv_entries v (le_OrgID e))"

definition add_entry :: "LedgerEntry \<Rightarrow> ledger_view \<Rightarrow> ledger_view" where
  "add_entry e v = v\<lparr>lv_entries := (lv_entries v)(le_OrgID e := lv_entries v (le_OrgID e) @ [e])\<rparr>"

definition spec_append :: "ledger_view \<Rightarrow> LedgerEntry \<Rightarrow> (ledger_error, unit) result \<times> ledger_view" where
  "spec_append v e = (if duplicate_key v e then (Inl ErrDuplicateEntry, v) else (Inr (), add_entry e v))"

definition spec_settle ::
  "ledger_view \<Rightarrow> LedgerEntry \<Rightarrow> int \<Rightarrow> ProcessedWindow \<Rightarrow> (ledger_error, unit) result \<times> ledger_view" where
  "spec_settle v e r w =
     (if lv_marks v (pw_OrgID w, WindowKey w) \<noteq> None \<or> le_Amount e \<noteq> 0 \<and> duplicate_key v e
      then (Inl ErrDuplicateEntry, v)
      else (Inr (), (if le_Amount e \<noteq> 0 then add_entry e v else v)
              \<lparr>lv_marks := (lv_marks v)((pw_OrgID w, WindowKey w) \<mapsto> pw_Window w),
               lv_remainder := (lv_remainder v)(le_OrgID e := r)\<rparr>))"

definition spec_prune :: "ledger_view \<Rightarrow> time \<Rightarrow> ledger_view" where
  "spec_prune v olderThan =
     v\<lparr>lv_marks := (\<lambda>k. case lv_marks v k of None \<Rightarrow> None | Some w \<Rightarrow> if w < olderThan then None else Some w)\<rparr>"

definition spec_settled :: "ledger_view \<Rightarrow> string \<Rightarrow> time \<Rightarrow> string set" where
  "spec_settled v orgID since =
     {key. \<exists>w. lv_marks v (orgID, key) = Some w \<and> since \<le> w} \<union>
     {le_Key e | e. e \<in> set (lv_entries v orgID) \<and> le_Kind e = KindUsageDrawdown \<and> le_Key e \<noteq> [] \<and> since \<le> le_At e}"

definition spec_balance :: "ledger_view \<Rightarrow> string \<Rightarrow> int" where
  "spec_balance v orgID = sum_list (map le_Amount (lv_entries v orgID))"

text \<open>
  The contract. An operation on organizations whose ids the implementation accepts either fails
  and changes nothing a client sees, or does what the specification says.
\<close>

locale credit_ledger =
  fixes C :: "'l CreditLedger" and inv :: "'l \<Rightarrow> bool" and view :: "'l \<Rightarrow> ledger_view" and org_ok :: "string \<Rightarrow> bool"
  assumes append: "inv l \<Longrightarrow> org_ok (le_OrgID e) \<Longrightarrow> cl_Append C l e = (r, l') \<Longrightarrow>
      inv l' \<and> ((r, view l') = spec_append (view l) e \<or> (\<exists>x. r = Inl (LedgerFailure x)) \<and> view l' = view l)"
    and settle: "inv l \<Longrightarrow> org_ok (le_OrgID e) \<Longrightarrow> org_ok (pw_OrgID w) \<Longrightarrow> cl_SettleWindow C l e m w = (r, l') \<Longrightarrow>
      inv l' \<and> ((r, view l') = spec_settle (view l) e m w \<or> (\<exists>x. r = Inl (LedgerFailure x)) \<and> view l' = view l)"
    and prune: "inv l \<Longrightarrow> cl_PruneProcessedWindows C l t = (n, l') \<Longrightarrow>
      inv l' \<and> (view l' = spec_prune (view l) t \<or> isl n \<and> view l' = view l)"
    and balance: "inv l \<Longrightarrow> cl_Balance C l orgID = Inr b \<Longrightarrow> b = i64 (spec_balance (view l) orgID)"
    and entries: "inv l \<Longrightarrow> cl_Entries C l orgID = Inr es \<Longrightarrow> es = lv_entries (view l) orgID"
    and remainder: "inv l \<Longrightarrow> cl_Remainder C l orgID = Inr m \<Longrightarrow> m = lv_remainder (view l) orgID"
    and settled: "inv l \<Longrightarrow> cl_SettledWindowKeys C l orgID since = Inr K \<Longrightarrow> K = spec_settled (view l) orgID since"
    and since: "inv l \<Longrightarrow> cl_EntriesSince C = Some f \<Longrightarrow> f l orgID t = Inr es \<Longrightarrow>
      es = filter (\<lambda>e. t \<le> le_At e) (lv_entries (view l) orgID)"

section \<open>The in-memory ledger implements the contract\<close>

definition mem_view :: "MemCreditLedger \<Rightarrow> ledger_view" where
  "mem_view l = \<lparr>lv_entries = ml_byOrg l, lv_remainder = ml_remainder l, lv_marks = map_of (ml_processed l)\<rparr>"

definition nul_free :: "string \<Rightarrow> bool" where
  "nul_free s \<longleftrightarrow> CHR 0x00 \<notin> set s"

text \<open>The index of seen keys is exactly the keys of the entries, and each entry is under its own organization.\<close>

definition seen_of :: "(string \<Rightarrow> LedgerEntry list) \<Rightarrow> string set" where
  "seen_of by = (\<Union>orgID. \<Union>e \<in> set (by orgID). if le_Key e = [] then {} else {seen_key (le_OrgID e) (le_Key e)})"

definition ledger_inv :: "MemCreditLedger \<Rightarrow> bool" where
  "ledger_inv l \<longleftrightarrow>
     ml_seenKey l = seen_of (ml_byOrg l) \<and>
     (\<forall>orgID. \<forall>e \<in> set (ml_byOrg l orgID). le_OrgID e = orgID \<and> nul_free orgID) \<and>
     distinct (map fst (ml_processed l))"

lemma seen_key_inj:
  assumes "seen_key o1 k1 = seen_key o2 k2" and "nul_free o1" "nul_free o2"
  shows "o1 = o2 \<and> k1 = k2"
proof -
  have t: "takeWhile (\<lambda>c. c \<noteq> CHR 0x00) (seen_key q k) = q" if "nul_free q" for q k
    using that by (induction q) (auto simp: seen_key_def nul_free_def)
  have "o1 = o2" using t [OF assms(2), of k1] t [OF assms(3), of k2] assms(1) by simp
  with assms(1) show ?thesis by (simp add: seen_key_def)
qed

lemma mem_seen_of: "e \<in> set (by orgID) \<Longrightarrow> le_Key e \<noteq> [] \<Longrightarrow> seen_key (le_OrgID e) (le_Key e) \<in> seen_of by"
  unfolding seen_of_def by (rule UN_I [OF UNIV_I], erule UN_I) simp

lemma seen_of_add:
  "seen_of (f(k := f k @ [e])) = seen_of f \<union> (if le_Key e = [] then {} else {seen_key (le_OrgID e) (le_Key e)})"
proof -
  let ?s = "\<lambda>e. if le_Key e = [] then {} else {seen_key (le_OrgID e) (le_Key e)}"
  have "(\<Union>x \<in> set ((f(k := f k @ [e])) j). ?s x) = (\<Union>x \<in> set (f j). ?s x) \<union> (if j = k then ?s e else {})" for j
    by (cases "j = k") (simp_all add: Un_commute)
  then show ?thesis unfolding seen_of_def by (auto split: if_splits)
qed

lemma seen_iff:
  assumes "ledger_inv l" and "nul_free (le_OrgID e)" and "le_Key e \<noteq> []"
  shows "seen_key (le_OrgID e) (le_Key e) \<in> ml_seenKey l \<longleftrightarrow> duplicate_key (mem_view l) e"
proof
  assume "seen_key (le_OrgID e) (le_Key e) \<in> ml_seenKey l"
  then obtain x orgID where x: "x \<in> set (ml_byOrg l orgID)" "seen_key (le_OrgID e) (le_Key e) = seen_key (le_OrgID x) (le_Key x)"
    using assms(1) by (auto simp: ledger_inv_def seen_of_def split: if_splits)
  have "le_OrgID x = orgID" "nul_free orgID" using assms(1) x(1) by (auto simp: ledger_inv_def)
  with seen_key_inj [OF x(2) assms(2)] x(1) assms(3) show "duplicate_key (mem_view l) e"
    by (auto simp: duplicate_key_def mem_view_def)
next
  assume "duplicate_key (mem_view l) e"
  then obtain x where "x \<in> set (ml_byOrg l (le_OrgID e))" "le_Key x = le_Key e"
    by (auto simp: duplicate_key_def mem_view_def)
  moreover from this have "le_OrgID x = le_OrgID e" using assms(1) by (auto simp: ledger_inv_def)
  ultimately show "seen_key (le_OrgID e) (le_Key e) \<in> ml_seenKey l"
    using mem_seen_of [of x "ml_byOrg l" "le_OrgID e"] assms(1,3) by (simp add: ledger_inv_def)
qed

lemma appendLocked_refines:
  assumes "ledger_inv l" and "nul_free (le_OrgID e)" and "appendLocked l e = (r, l')"
  shows "(r, mem_view l') = spec_append (mem_view l) e \<and> ledger_inv l' \<and>
    ml_processed l' = ml_processed l \<and> ml_remainder l' = ml_remainder l"
proof (cases "duplicate_key (mem_view l) e")
  case True
  then have "le_Key e \<noteq> []" by (simp add: duplicate_key_def)
  with True assms show ?thesis using seen_iff [OF assms(1,2)]
    by (auto simp: appendLocked_def spec_append_def)
next
  case False
  then have "le_Key e \<noteq> [] \<Longrightarrow> seen_key (le_OrgID e) (le_Key e) \<notin> ml_seenKey l" using seen_iff [OF assms(1,2)] by blast
  then have l': "r = Inr ()" "l' = (l\<lparr>ml_seenKey := (if le_Key e = [] then ml_seenKey l else insert (seen_key (le_OrgID e) (le_Key e)) (ml_seenKey l)),
      ml_byOrg := (ml_byOrg l)(le_OrgID e := ml_byOrg l (le_OrgID e) @ [e])\<rparr>)"
    using assms(3) by (auto simp: appendLocked_def Let_def split: if_splits)
  have "(r, mem_view l') = spec_append (mem_view l) e"
    using False by (simp add: l' spec_append_def add_entry_def mem_view_def)
  moreover have "ledger_inv l'"
    using assms(1,2) by (simp add: l' ledger_inv_def seen_of_add)
  ultimately show ?thesis by (simp add: l')
qed

lemma mem_SettleWindow_refines:
  assumes "ledger_inv l" and "nul_free (le_OrgID e)" and "mem_SettleWindow l e m w = (r, l')"
  shows "(r, mem_view l') = spec_settle (mem_view l) e m w \<and> ledger_inv l'"
proof (cases "map_of (ml_processed l) (pw_OrgID w, WindowKey w)")
  case (Some t)
  then show ?thesis using assms by (simp add: mem_SettleWindow_def spec_settle_def mem_view_def Let_def)
next
  case None
  obtain r1 l1 where a: "(if le_Amount e \<noteq> 0 then appendLocked l e else (Inr (), l)) = (r1, l1)" by fastforce
  have A: "ledger_inv l1" "ml_processed l1 = ml_processed l" "ml_remainder l1 = ml_remainder l"
      "le_Amount e \<noteq> 0 \<Longrightarrow> (r1, mem_view l1) = spec_append (mem_view l) e"
      "le_Amount e = 0 \<Longrightarrow> r1 = Inr () \<and> l1 = l"
    using a appendLocked_refines [OF assms(1,2)] assms(1) by (auto split: if_splits)
  have fresh: "(pw_OrgID w, WindowKey w) \<notin> fst ` set (ml_processed l)" using None by (simp add: map_of_eq_None_iff)
  show ?thesis
  proof (cases "le_Amount e \<noteq> 0 \<and> duplicate_key (mem_view l) e")
    case True
    then have "r1 = Inl ErrDuplicateEntry" "mem_view l1 = mem_view l" using A(4) by (simp_all add: spec_append_def)
    then show ?thesis using True assms(3) a None A(1) by (simp add: mem_SettleWindow_def spec_settle_def Let_def mem_view_def)
  next
    case False
    have r1: "r1 = Inr ()" "mem_view l1 = (if le_Amount e \<noteq> 0 then add_entry e (mem_view l) else mem_view l)"
      using False A(4,5) by (cases "le_Amount e = 0"; simp add: spec_append_def)+
    then have l': "r = Inr ()" "l' = l1\<lparr>ml_processed := ml_processed l @ [((pw_OrgID w, WindowKey w), pw_Window w)],
        ml_remainder := (ml_remainder l)(le_OrgID e := m)\<rparr>"
      using assms(3) a None A(2,3) by (auto simp: mem_SettleWindow_def Let_def)
    have "lv_entries (mem_view l1) = ml_byOrg l1" by (simp add: mem_view_def)
    then have by_l1: "ml_byOrg l1 = (if le_Amount e \<noteq> 0 then lv_entries (add_entry e (mem_view l)) else ml_byOrg l)"
      unfolding r1(2) by (cases "le_Amount e = 0") (simp_all add: mem_view_def)
    have "map_of (ml_processed l @ [((pw_OrgID w, WindowKey w), pw_Window w)]) =
        (map_of (ml_processed l))((pw_OrgID w, WindowKey w) \<mapsto> pw_Window w)"
      using None by (auto simp: map_add_def fun_eq_iff split: option.splits)
    then have "(r, mem_view l') = spec_settle (mem_view l) e m w"
      using False None by (simp add: l' by_l1 spec_settle_def mem_view_def add_entry_def)
    moreover have "ledger_inv l'" using A(1,2) fresh by (simp add: l' ledger_inv_def)
    ultimately show ?thesis ..
  qed
qed

lemma map_of_filter_val:
  "distinct (map fst xs) \<Longrightarrow> map_of (filter (\<lambda>(k, w). P w) xs) =
    (\<lambda>k. case map_of xs k of None \<Rightarrow> None | Some w \<Rightarrow> if P w then Some w else None)"
proof (induction xs)
  case (Cons x xs)
  obtain k w where x: "x = (k, w)" by fastforce
  have "map_of xs k = None" using Cons.prems x by (simp add: map_of_eq_None_iff)
  then show ?case using Cons x by (auto simp: fun_eq_iff)
qed (simp add: fun_eq_iff)

lemma foldl_i64_sum: "foldl (\<lambda>b e. i64 (b + f e)) (i64 a) xs = i64 (a + sum_list (map f xs))"
proof (induction xs arbitrary: a)
  case (Cons x xs)
  have "i64 (i64 a + f x) = i64 (a + f x)" by (simp add: i64_def mod_simps algebra_simps)
  then show ?case using Cons.IH [of "a + f x"] by (simp add: add.assoc)
qed simp

lemma mem_Balance_sum: "mem_Balance l orgID = Inr (i64 (spec_balance (mem_view l) orgID))"
  using foldl_i64_sum [of le_Amount 0 "ml_byOrg l orgID"] by (simp add: mem_Balance_def spec_balance_def mem_view_def i64_def)

interpretation memory: credit_ledger mem_ledger ledger_inv mem_view nul_free
proof
  show "ledger_inv l' \<and> ((r, mem_view l') = spec_append (mem_view l) e \<or> (\<exists>x. r = Inl (LedgerFailure x)) \<and> mem_view l' = mem_view l)"
    if "ledger_inv l" "nul_free (le_OrgID e)" "cl_Append mem_ledger l e = (r, l')" for l e r l'
    using appendLocked_refines [OF that(1,2)] that(3) by (simp add: mem_ledger_def mem_Append_def)
  show "ledger_inv l' \<and> ((r, mem_view l') = spec_settle (mem_view l) e m w \<or> (\<exists>x. r = Inl (LedgerFailure x)) \<and> mem_view l' = mem_view l)"
    if "ledger_inv l" "nul_free (le_OrgID e)" "nul_free (pw_OrgID w)" "cl_SettleWindow mem_ledger l e m w = (r, l')" for l e w m r l'
    using mem_SettleWindow_refines [OF that(1,2)] that(4) by (simp add: mem_ledger_def)
  show "ledger_inv l' \<and> (mem_view l' = spec_prune (mem_view l) t \<or> isl n \<and> mem_view l' = mem_view l)"
    if "ledger_inv l" "cl_PruneProcessedWindows mem_ledger l t = (n, l')" for l t n l'
  proof -
    have d: "distinct (map fst (ml_processed l))" using that(1) by (simp add: ledger_inv_def)
    have l': "l' = l\<lparr>ml_processed := filter (\<lambda>(k, w). \<not> w < t) (ml_processed l)\<rparr>"
      using that(2) by (auto simp: mem_ledger_def mem_PruneProcessedWindows_def)
    have "mem_view l' = spec_prune (mem_view l) t"
      using map_of_filter_val [OF d, of "\<lambda>w. \<not> w < t"]
      by (auto simp: l' spec_prune_def mem_view_def fun_eq_iff split: option.splits)
    moreover have "ledger_inv l'" using that(1) d by (simp add: l' ledger_inv_def distinct_map_filter)
    ultimately show ?thesis by blast
  qed
  show "b = i64 (spec_balance (mem_view l) orgID)" if "cl_Balance mem_ledger l orgID = Inr b" for l orgID b
    using that mem_Balance_sum by (simp add: mem_ledger_def)
  show "es = lv_entries (mem_view l) orgID" if "cl_Entries mem_ledger l orgID = Inr es" for l orgID es
    using that by (simp add: mem_ledger_def mem_Entries_def mem_view_def)
  show "m = lv_remainder (mem_view l) orgID" if "cl_Remainder mem_ledger l orgID = Inr m" for l orgID m
    using that by (simp add: mem_ledger_def mem_Remainder_def mem_view_def)
  show "K = spec_settled (mem_view l) orgID since"
    if "ledger_inv l" "cl_SettledWindowKeys mem_ledger l orgID since = Inr K" for l orgID since K
  proof -
    have d: "distinct (map fst (ml_processed l))" using that(1) by (simp add: ledger_inv_def)
    have "set (map (\<lambda>((o', key), window). key) (filter (\<lambda>((o', key), window). o' = orgID \<and> \<not> window < since) (ml_processed l))) =
        {key. \<exists>w. map_of (ml_processed l) (orgID, key) = Some w \<and> since \<le> w}"
      using d by (force simp: image_def not_less)
    then show ?thesis using that(2)
      by (auto simp: mem_ledger_def mem_SettledWindowKeys_def spec_settled_def mem_view_def not_less)
  qed
  show "es = filter (\<lambda>e. t \<le> le_At e) (lv_entries (mem_view l) orgID)"
    if "cl_EntriesSince mem_ledger = Some f" "f l orgID t = Inr es" for f l orgID t es
    using that by (auto simp: mem_ledger_def mem_EntriesSince_def mem_view_def not_less)
qed

section \<open>Properties\<close>

text \<open>
  C33: The in-memory ledger refines the specification of a credit ledger: an append is refused
  exactly for a key its organization already has, a settlement is atomic over entry, remainder
  and window mark and refused for a window that is marked or keyed, pruning removes exactly the
  older marks, and every read answers from the entries, remainders and marks.
\<close>

theorem mem_ledger_refines:
  assumes "ledger_inv l" "nul_free (le_OrgID e)"
  shows "(fst (mem_Append l e), mem_view (snd (mem_Append l e))) = spec_append (mem_view l) e \<and> ledger_inv (snd (mem_Append l e)) \<and>
    (fst (mem_SettleWindow l e m w), mem_view (snd (mem_SettleWindow l e m w))) = spec_settle (mem_view l) e m w \<and>
    ledger_inv (snd (mem_SettleWindow l e m w)) \<and>
    mem_view (snd (mem_PruneProcessedWindows l t)) = spec_prune (mem_view l) t \<and> ledger_inv (snd (mem_PruneProcessedWindows l t)) \<and>
    mem_Balance l orgID = Inr (i64 (spec_balance (mem_view l) orgID)) \<and>
    mem_SettledWindowKeys l orgID t = Inr (spec_settled (mem_view l) orgID t) \<and>
    mem_Entries l orgID = Inr (lv_entries (mem_view l) orgID) \<and> mem_Remainder l orgID = Inr (lv_remainder (mem_view l) orgID)"
proof -
  have a: "(fst (mem_Append l e), mem_view (snd (mem_Append l e))) = spec_append (mem_view l) e \<and> ledger_inv (snd (mem_Append l e))"
    using appendLocked_refines [OF assms, of "fst (appendLocked l e)" "snd (appendLocked l e)"] by (simp add: mem_Append_def)
  have s: "(fst (mem_SettleWindow l e m w), mem_view (snd (mem_SettleWindow l e m w))) = spec_settle (mem_view l) e m w \<and>
      ledger_inv (snd (mem_SettleWindow l e m w))"
    by (rule mem_SettleWindow_refines [OF assms]) simp
  have "cl_PruneProcessedWindows mem_ledger l t = (fst (mem_PruneProcessedWindows l t), snd (mem_PruneProcessedWindows l t))"
    by (simp add: mem_ledger_def)
  from memory.prune [OF assms(1) this]
  have p: "mem_view (snd (mem_PruneProcessedWindows l t)) = spec_prune (mem_view l) t \<and> ledger_inv (snd (mem_PruneProcessedWindows l t))"
    by (simp add: mem_PruneProcessedWindows_def)
  have k: "mem_SettledWindowKeys l orgID t = Inr (spec_settled (mem_view l) orgID t)"
    using memory.settled [OF assms(1), of orgID t] by (auto simp: mem_ledger_def mem_SettledWindowKeys_def)
  show ?thesis using a s p k mem_Balance_sum by (simp add: mem_Entries_def mem_Remainder_def mem_view_def)
qed

theorem mem_ledger_refines_witness:
  "fst (mem_Append (snd (mem_Append NewMemCreditLedger \<lparr>le_OrgID = ''acme'', le_Kind = KindTopUp, le_Amount = 5, le_Key = ''topup:1'', le_At = 1, le_Note = []\<rparr>))
     \<lparr>le_OrgID = ''acme'', le_Kind = KindTopUp, le_Amount = 5, le_Key = ''topup:1'', le_At = 2, le_Note = []\<rparr>) = Inl ErrDuplicateEntry"
proof -
  let ?e = "\<lambda>t. \<lparr>le_OrgID = ''acme'', le_Kind = KindTopUp, le_Amount = 5, le_Key = ''topup:1'', le_At = t, le_Note = []\<rparr>"
  have i: "ledger_inv NewMemCreditLedger" by (simp add: ledger_inv_def NewMemCreditLedger_def seen_of_def)
  have n: "nul_free (le_OrgID (?e t))" for t by (simp add: nul_free_def)
  have v: "duplicate_key (mem_view (snd (mem_Append NewMemCreditLedger (?e 1)))) (?e 2)"
    by (simp add: mem_Append_def appendLocked_def NewMemCreditLedger_def mem_view_def duplicate_key_def Let_def)
  have i1: "ledger_inv (snd (mem_Append NewMemCreditLedger (?e 1)))" using mem_ledger_refines [OF i n] by blast
  show ?thesis using mem_ledger_refines [OF i1 n, of 2] v by (simp add: spec_append_def)
qed

end
