(* ===== verification/Usage_Meter.thy ===== *)
theory Usage_Meter
  imports Float64 "HOL-Library.AList" "HOL-Library.Product_Lexorder"
begin

text \<open>
  The usage pipeline of \<^verbatim>\<open>internal/usage\<close>: integration of samples into records per sandbox and
  window (\<^verbatim>\<open>usage.go\<close>), the rolling sample buffer of the collector (\<^verbatim>\<open>collector.go\<close>), the
  in-memory record store (\<^verbatim>\<open>store.go\<close>), the termination queue (\<^verbatim>\<open>termination.go\<close>) and the roll-up
  of the usage API (\<^verbatim>\<open>api.go\<close>). The order in which a Go map of sandboxes is walked is the
  argument \<open>order\<close>.
\<close>

section \<open>Samples and records\<close>

record Config =
  cfg_Window :: duration
  cfg_MaxHold :: duration

definition DefaultConfig :: Config where
  "DefaultConfig = \<lparr>cfg_Window = 60 * second_ns, cfg_MaxHold = 120 * second_ns\<rparr>"

record Sample =
  sm_OrgID :: string
  sm_SandboxID :: string
  sm_Region :: string
  sm_Node :: string
  sm_Timestamp :: time
  sm_VCPUs :: int
  sm_MemUniqueBytes :: int
  sm_MemSharedAmortizedBytes :: int
  sm_DiskBytes :: int
  sm_EgressBytes :: int
  sm_GPUSeconds :: int

definition memLevel :: "Sample \<Rightarrow> int" where
  "memLevel s = i64 (sm_MemUniqueBytes s + sm_MemSharedAmortizedBytes s)"

record UsageRecord =
  ur_OrgID :: string
  ur_SandboxID :: string
  ur_Region :: string
  ur_Window :: time
  ur_VCPUSeconds :: rat
  ur_MemGiBSeconds :: rat
  ur_StorageGiBHours :: rat
  ur_EgressBytes :: int
  ur_GPUSeconds :: int

type_synonym recKey = "string \<times> time"

definition new_record :: "Sample \<Rightarrow> string \<Rightarrow> time \<Rightarrow> UsageRecord" where
  "new_record a sandbox w =
     \<lparr>ur_OrgID = sm_OrgID a, ur_SandboxID = sandbox, ur_Region = sm_Region a, ur_Window = w,
      ur_VCPUSeconds = 0, ur_MemGiBSeconds = 0, ur_StorageGiBHours = 0, ur_EgressBytes = 0, ur_GPUSeconds = 0\<rparr>"

definition record_at :: "(recKey \<rightharpoonup> UsageRecord) \<Rightarrow> Sample \<Rightarrow> string \<Rightarrow> time \<Rightarrow> UsageRecord" where
  "record_at recs a sandbox w = (case recs (sandbox, w) of None \<Rightarrow> new_record a sandbox w | Some r \<Rightarrow> r)"

section \<open>Time and arithmetic of the standard library\<close>

definition Truncate :: "time \<Rightarrow> duration \<Rightarrow> time" where
  "Truncate t d = (if d \<le> 0 then t else t - t mod d)"

definition Seconds :: "duration \<Rightarrow> rat" where
  "Seconds d = f64 (f64 (of_int (quot d second_ns)) + f64 (f64 (of_int (d - quot d second_ns * second_ns)) / 1000000000))"

definition bytesPerGiB :: rat where
  "bytesPerGiB = 2 ^ 30"

section \<open>Integration\<close>

definition add_slice ::
  "string \<Rightarrow> Sample \<Rightarrow> (recKey \<rightharpoonup> UsageRecord) \<Rightarrow> time \<times> time \<times> time \<Rightarrow> recKey \<rightharpoonup> UsageRecord" where
  "add_slice sandbox a recs sl =
     (case sl of (w, start, sliceEnd) \<Rightarrow>
       let secs = Seconds (sliceEnd - start);
           r = record_at recs a sandbox w
       in recs((sandbox, w) \<mapsto>
            r\<lparr>ur_VCPUSeconds := f64 (ur_VCPUSeconds r + f64 (f64 (of_int (sm_VCPUs a)) * secs)),
              ur_MemGiBSeconds := f64 (ur_MemGiBSeconds r + f64 (f64 (f64 (of_int (memLevel a)) / bytesPerGiB) * secs)),
              ur_StorageGiBHours := f64 (ur_StorageGiBHours r +
                f64 (f64 (f64 (of_int (sm_DiskBytes a)) / bytesPerGiB) * f64 (secs / 3600)))\<rparr>))"

text \<open>The loop of \<^verbatim>\<open>integrateInterval\<close>; not returning is \<open>None\<close>.\<close>

partial_function (option) integrateInterval ::
  "(recKey \<rightharpoonup> UsageRecord) \<Rightarrow> string \<Rightarrow> Sample \<Rightarrow> time \<Rightarrow> time \<Rightarrow> duration \<Rightarrow> (recKey \<rightharpoonup> UsageRecord) option" where
  "integrateInterval recs sandbox a start end' window =
     (if start < end' then
        let w = Truncate start window;
            windowEnd = w + window;
            sliceEnd = (if windowEnd < end' then windowEnd else end')
        in integrateInterval (add_slice sandbox a recs (w, start, sliceEnd)) sandbox a sliceEnd end' window
      else Some recs)"

fun dedupe_from :: "time set \<Rightarrow> Sample list \<Rightarrow> Sample list" where
  "dedupe_from seen [] = []"
| "dedupe_from seen (s # ss) =
     (if sm_Timestamp s \<in> seen then dedupe_from seen ss
      else s # dedupe_from (insert (sm_Timestamp s) seen) ss)"

definition dedupeByTimestamp :: "Sample list \<Rightarrow> Sample list" where
  "dedupeByTimestamp ss = dedupe_from {} ss"

definition counterStep :: "int \<Rightarrow> int \<Rightarrow> int" where
  "counterStep prev cur = (if cur \<ge> prev then i64 (cur - prev) else cur)"

text \<open>One pass over consecutive samples: the first loop of a group, then its second loop.\<close>

fun integrate_rates ::
  "Config \<Rightarrow> string \<Rightarrow> Sample list \<Rightarrow> (recKey \<rightharpoonup> UsageRecord) \<Rightarrow> (recKey \<rightharpoonup> UsageRecord) option" where
  "integrate_rates cfg sandbox (a # b # rest) recs =
     (let span = sm_Timestamp b - sm_Timestamp a;
          held = (if span > cfg_MaxHold cfg then cfg_MaxHold cfg else span)
      in if span \<le> 0 then integrate_rates cfg sandbox (b # rest) recs
         else case integrateInterval recs sandbox a (sm_Timestamp a) (sm_Timestamp a + held) (cfg_Window cfg) of
                None \<Rightarrow> None
              | Some recs' \<Rightarrow> integrate_rates cfg sandbox (b # rest) recs')"
| "integrate_rates cfg sandbox _ recs = Some recs"

definition add_step :: "duration \<Rightarrow> string \<Rightarrow> Sample \<Rightarrow> Sample \<Rightarrow> (recKey \<rightharpoonup> UsageRecord) \<Rightarrow> recKey \<rightharpoonup> UsageRecord" where
  "add_step window sandbox a b recs =
     (let egress = counterStep (sm_EgressBytes a) (sm_EgressBytes b);
          gpu = counterStep (sm_GPUSeconds a) (sm_GPUSeconds b)
      in if egress = 0 \<and> gpu = 0 then recs
         else let w = Truncate (sm_Timestamp a) window; r = record_at recs a sandbox w
              in recs((sandbox, w) \<mapsto> r\<lparr>ur_EgressBytes := i64 (ur_EgressBytes r + egress),
                                         ur_GPUSeconds := i64 (ur_GPUSeconds r + gpu)\<rparr>))"

fun integrate_counters ::
  "duration \<Rightarrow> string \<Rightarrow> Sample list \<Rightarrow> (recKey \<rightharpoonup> UsageRecord) \<Rightarrow> recKey \<rightharpoonup> UsageRecord" where
  "integrate_counters window sandbox (a # b # rest) recs =
     integrate_counters window sandbox (b # rest) (add_step window sandbox a b recs)"
| "integrate_counters window sandbox _ recs = recs"

definition sandbox_group :: "Sample list \<Rightarrow> string \<Rightarrow> Sample list" where
  "sandbox_group samples sandbox =
     sort_key sm_Timestamp (dedupeByTimestamp (filter (\<lambda>s. sm_SandboxID s = sandbox) samples))"

definition integrate_sandbox ::
  "Config \<Rightarrow> Sample list \<Rightarrow> string \<Rightarrow> (recKey \<rightharpoonup> UsageRecord) \<Rightarrow> (recKey \<rightharpoonup> UsageRecord) option" where
  "integrate_sandbox cfg samples sandbox recs =
     (let ss = sandbox_group samples sandbox
      in case integrate_rates cfg sandbox ss recs of
           None \<Rightarrow> None
         | Some recs' \<Rightarrow> Some (integrate_counters (cfg_Window cfg) sandbox ss recs'))"

fun integrate_all ::
  "Config \<Rightarrow> Sample list \<Rightarrow> string list \<Rightarrow> (recKey \<rightharpoonup> UsageRecord) \<Rightarrow> (recKey \<rightharpoonup> UsageRecord) option" where
  "integrate_all cfg samples [] recs = Some recs"
| "integrate_all cfg samples (sb # sbs) recs =
     (case integrate_sandbox cfg samples sb recs of
        None \<Rightarrow> None
      | Some recs' \<Rightarrow> integrate_all cfg samples sbs recs')"

definition effective_config :: "Config \<Rightarrow> Config" where
  "effective_config cfg =
     (let c1 = (if cfg_Window cfg \<le> 0 then cfg\<lparr>cfg_Window := cfg_Window DefaultConfig\<rparr> else cfg)
      in if cfg_MaxHold c1 \<le> 0 then c1\<lparr>cfg_MaxHold := cfg_MaxHold DefaultConfig\<rparr> else c1)"

text \<open>The records as a map; \<open>order\<close> walks the sandboxes of the samples.\<close>

definition Integrate :: "string list \<Rightarrow> Sample list \<Rightarrow> Config \<Rightarrow> (recKey \<rightharpoonup> UsageRecord) option" where
  "Integrate order samples cfg = integrate_all (effective_config cfg) samples order Map.empty"

text \<open>
  The result of \<^verbatim>\<open>Integrate\<close> lists the values of that map by sandbox and window; \<open>keys\<close> walks the
  map and the sort is on distinct keys.
\<close>

definition integrated_list :: "recKey list \<Rightarrow> (recKey \<rightharpoonup> UsageRecord) \<Rightarrow> UsageRecord list" where
  "integrated_list keys recs =
     sort_key (\<lambda>r. (ur_SandboxID r, ur_Window r)) (List.map_filter recs keys)"

section \<open>The record store\<close>

record Totals =
  tt_VCPUSeconds :: rat
  tt_MemGiBSeconds :: rat
  tt_StorageGiBHours :: rat
  tt_EgressBytes :: int
  tt_GPUSeconds :: int

definition zero_totals :: Totals where
  "zero_totals = \<lparr>tt_VCPUSeconds = 0, tt_MemGiBSeconds = 0, tt_StorageGiBHours = 0, tt_EgressBytes = 0, tt_GPUSeconds = 0\<rparr>"

definition totals_add :: "Totals \<Rightarrow> UsageRecord \<Rightarrow> Totals" where
  "totals_add t r =
     \<lparr>tt_VCPUSeconds = f64 (tt_VCPUSeconds t + ur_VCPUSeconds r),
      tt_MemGiBSeconds = f64 (tt_MemGiBSeconds t + ur_MemGiBSeconds r),
      tt_StorageGiBHours = f64 (tt_StorageGiBHours t + ur_StorageGiBHours r),
      tt_EgressBytes = i64 (tt_EgressBytes t + ur_EgressBytes r),
      tt_GPUSeconds = i64 (tt_GPUSeconds t + ur_GPUSeconds r)\<rparr>"

definition totals_sub :: "Totals \<Rightarrow> UsageRecord \<Rightarrow> Totals" where
  "totals_sub t r =
     \<lparr>tt_VCPUSeconds = f64 (tt_VCPUSeconds t - ur_VCPUSeconds r),
      tt_MemGiBSeconds = f64 (tt_MemGiBSeconds t - ur_MemGiBSeconds r),
      tt_StorageGiBHours = f64 (tt_StorageGiBHours t - ur_StorageGiBHours r),
      tt_EgressBytes = i64 (tt_EgressBytes t - ur_EgressBytes r),
      tt_GPUSeconds = i64 (tt_GPUSeconds t - ur_GPUSeconds r)\<rparr>"

record recordKey =
  rk_org :: string
  rk_sandbox :: string
  rk_window :: time

record MemUsageStore =
  us_records :: "(recordKey \<times> UsageRecord) list"
  us_retentionWindows :: nat
  us_cumByOrg :: "string \<rightharpoonup> Totals"

definition DefaultRetentionWindows :: int where
  "DefaultRetentionWindows = 24 * 60"

definition NewMemUsageStoreWithRetention :: "int \<Rightarrow> MemUsageStore" where
  "NewMemUsageStoreWithRetention retentionWindows =
     \<lparr>us_records = [], us_retentionWindows = nat (if retentionWindows \<le> 0 then DefaultRetentionWindows else retentionWindows),
      us_cumByOrg = Map.empty\<rparr>"

definition NewMemUsageStore :: MemUsageStore where
  "NewMemUsageStore = NewMemUsageStoreWithRetention DefaultRetentionWindows"

definition record_key :: "UsageRecord \<Rightarrow> recordKey" where
  "record_key r = \<lparr>rk_org = ur_OrgID r, rk_sandbox = ur_SandboxID r, rk_window = ur_Window r\<rparr>"

definition evictOldWindowsLocked :: "MemUsageStore \<Rightarrow> MemUsageStore" where
  "evictOldWindowsLocked s =
     (let windows = sort (remdups (map (rk_window \<circ> fst) (us_records s)))
      in if length windows \<le> us_retentionWindows s then s
         else let cutoff = windows ! (length windows - us_retentionWindows s)
              in s\<lparr>us_records := filter (\<lambda>(k, r). \<not> rk_window k < cutoff) (us_records s)\<rparr>)"

definition UpsertRecord :: "MemUsageStore \<Rightarrow> UsageRecord \<Rightarrow> MemUsageStore" where
  "UpsertRecord s rec =
     (let k = record_key rec;
          prev = map_of (us_records s) k;
          cum = (case us_cumByOrg s (ur_OrgID rec) of None \<Rightarrow> zero_totals | Some t \<Rightarrow> t);
          cum1 = totals_add cum rec;
          cum2 = (case prev of None \<Rightarrow> cum1 | Some p \<Rightarrow> totals_sub cum1 p)
      in evictOldWindowsLocked
           (s\<lparr>us_records := AList.update k rec (us_records s),
              us_cumByOrg := (us_cumByOrg s)(ur_OrgID rec \<mapsto> cum2)\<rparr>))"

definition ListRecords :: "MemUsageStore \<Rightarrow> string \<Rightarrow> time \<Rightarrow> time \<Rightarrow> UsageRecord list" where
  "ListRecords s orgID from' to' =
     sort_key (\<lambda>r. (ur_SandboxID r, ur_Window r))
       (map snd (filter (\<lambda>(k, r). rk_org k = orgID \<and> (IsZero from' \<or> \<not> ur_Window r < from') \<and>
          (IsZero to' \<or> ur_Window r < to')) (us_records s)))"

definition TotalsByOrg :: "MemUsageStore \<Rightarrow> string \<rightharpoonup> Totals" where
  "TotalsByOrg s = us_cumByOrg s"

definition rollUp :: "UsageRecord list \<Rightarrow> Totals" where
  "rollUp records = foldl totals_add zero_totals records"

section \<open>The collector\<close>

definition retention :: "Config \<Rightarrow> duration" where
  "retention cfg = cfg_Window cfg + cfg_MaxHold cfg"

definition newest :: "Sample list \<Rightarrow> time" where
  "newest buf = foldl (\<lambda>n s. if n < sm_Timestamp s then sm_Timestamp s else n) 0 buf"

definition pruneBuffer :: "Config \<Rightarrow> Sample list \<Rightarrow> Sample list" where
  "pruneBuffer cfg buf =
     (if buf = [] then buf
      else let cutoff = newest buf - retention cfg
           in filter (\<lambda>s. \<not> sm_Timestamp s < cutoff) buf)"

record Collector =
  co_cfg :: Config
  co_buf :: "Sample list"

definition NewCollector :: "Config \<Rightarrow> Collector" where
  "NewCollector cfg = \<lparr>co_cfg = (if cfg_Window cfg \<le> 0 then DefaultConfig else cfg), co_buf = []\<rparr>"

text \<open>
  One cycle on the samples a source returned; \<open>order\<close> and \<open>keys\<close> are the walks of the two maps of
  \<^verbatim>\<open>Integrate\<close>. A source error leaves everything as it was.
\<close>

definition CollectOnce ::
  "string list \<Rightarrow> recKey list \<Rightarrow> Collector \<Rightarrow> MemUsageStore \<Rightarrow> (string, Sample list) result \<Rightarrow>
     (Collector \<times> MemUsageStore) option" where
  "CollectOnce order keys c store samples =
     (case samples of
        Inl e \<Rightarrow> Some (c, store)
      | Inr ss \<Rightarrow>
          let buf = pruneBuffer (co_cfg c) (co_buf c @ ss)
          in case Integrate order buf (co_cfg c) of
               None \<Rightarrow> None
             | Some recs \<Rightarrow> Some (c\<lparr>co_buf := buf\<rparr>, foldl UpsertRecord store (integrated_list keys recs)))"

section \<open>Terminations\<close>

record Termination =
  tm_VMID :: string
  tm_APIID :: string
  tm_OrgID :: string
  tm_Region :: string
  tm_StartedAt :: time
  tm_At :: time

definition terminationLogCap :: nat where
  "terminationLogCap = 4096"

text \<open>A nil log is \<open>None\<close>.\<close>

definition RecordTermination :: "Termination list option \<Rightarrow> Termination \<Rightarrow> Termination list option" where
  "RecordTermination l t =
     (case l of
        None \<Rightarrow> None
      | Some pending \<Rightarrow> Some ((if length pending \<ge> terminationLogCap then tl pending else pending) @ [t]))"

definition DrainTerminations :: "Termination list option \<Rightarrow> Termination list \<times> Termination list option" where
  "DrainTerminations l = (case l of None \<Rightarrow> ([], None) | Some pending \<Rightarrow> (pending, Some []))"

section \<open>The slices of an interval\<close>

lemma Truncate_bounds: "0 < d \<Longrightarrow> Truncate t d \<le> t \<and> t < Truncate t d + d"
  by (simp add: Truncate_def)

definition slice_end :: "duration \<Rightarrow> time \<Rightarrow> time \<Rightarrow> time" where
  "slice_end window start end' =
     (if Truncate start window + window < end' then Truncate start window + window else end')"

lemma slice_end_less: "0 < window \<Longrightarrow> start < end' \<Longrightarrow> start < slice_end window start end' \<and> slice_end window start end' \<le> end'"
  using Truncate_bounds [of window start] by (simp add: slice_end_def)

function slices :: "duration \<Rightarrow> time \<Rightarrow> time \<Rightarrow> (time \<times> time \<times> time) list" where
  "slices window start end' =
     (if 0 < window \<and> start < end'
      then (Truncate start window, start, slice_end window start end') # slices window (slice_end window start end') end'
      else [])"
  by pat_completeness auto
termination
proof (relation "measure (\<lambda>(window, start, end'). nat (end' - start))")
  fix window start end' :: int
  assume "0 < window \<and> start < end'"
  then show "((window, slice_end window start end', end'), window, start, end') \<in> measure (\<lambda>(window, start, end'). nat (end' - start))"
    using slice_end_less [of window start end'] by simp
qed simp

declare slices.simps [simp del]

lemma integrateInterval_slices:
  "0 < window \<Longrightarrow> integrateInterval recs sandbox a start end' window = Some (foldl (add_slice sandbox a) recs (slices window start end'))"
proof (induction window start end' arbitrary: recs rule: slices.induct)
  case (1 window start end')
  show ?case
  proof (cases "start < end'")
    case True
    then have "integrateInterval recs sandbox a start end' window =
        integrateInterval (add_slice sandbox a recs (Truncate start window, start, slice_end window start end')) sandbox a
          (slice_end window start end') end' window"
      by (simp add: integrateInterval.simps [of recs] Let_def slice_end_def)
    also have "\<dots> = Some (foldl (add_slice sandbox a) recs (slices window start end'))"
      using 1 True by (simp add: slices.simps [of window start end'])
    finally show ?thesis .
  next
    case False
    then show ?thesis by (simp add: integrateInterval.simps [of recs] slices.simps [of window start end'])
  qed
qed

lemma integrateInterval_diverges:
  assumes "integrateInterval recs sandbox a start end' window = Some r"
  shows "start < end' \<longrightarrow> 0 < window"
proof (rule integrateInterval.raw_induct [where P = "\<lambda>recs sandbox a start end' window r. start < end' \<longrightarrow> 0 < window", OF _ assms])
  fix F recs sandbox a start end' window r
  assume IH: "\<And>recs sandbox a start end' window r. F recs sandbox a start end' window = Some r \<Longrightarrow> start < end' \<longrightarrow> 0 < window"
    and run: "(if start < end' then
        let w = Truncate start window; windowEnd = w + window; sliceEnd = (if windowEnd < end' then windowEnd else end')
        in F (add_slice sandbox a recs (w, start, sliceEnd)) sandbox a sliceEnd end' window
      else Some recs) = Some r"
  show "start < end' \<longrightarrow> 0 < window"
  proof (rule impI, rule ccontr)
    assume lt: "start < end'" and neg: "\<not> 0 < window"
    have w: "Truncate start window = start" using neg by (simp add: Truncate_def)
    have "start + window < end'" using lt neg by simp
    then have "F (add_slice sandbox a recs (start, start, start + window)) sandbox a (start + window) end' window = Some r"
      using run lt by (simp add: w Let_def)
    from IH [OF this] show False using lt neg by simp
  qed
qed

text \<open>The intervals of a group of samples over which a level is held, cut into slices.\<close>

fun rate_events :: "Config \<Rightarrow> Sample list \<Rightarrow> (Sample \<times> time \<times> time \<times> time) list" where
  "rate_events cfg (a # b # rest) =
     (let span = sm_Timestamp b - sm_Timestamp a;
          held = (if span > cfg_MaxHold cfg then cfg_MaxHold cfg else span)
      in (if span \<le> 0 then [] else map (Pair a) (slices (cfg_Window cfg) (sm_Timestamp a) (sm_Timestamp a + held))) @
         rate_events cfg (b # rest))"
| "rate_events cfg _ = []"

definition add_rate :: "string \<Rightarrow> (recKey \<rightharpoonup> UsageRecord) \<Rightarrow> Sample \<times> time \<times> time \<times> time \<Rightarrow> recKey \<rightharpoonup> UsageRecord" where
  "add_rate sandbox recs ev = add_slice sandbox (fst ev) recs (snd ev)"

lemma integrate_rates_events:
  "0 < cfg_Window cfg \<Longrightarrow> integrate_rates cfg sandbox g recs = Some (foldl (add_rate sandbox) recs (rate_events cfg g))"
proof (induction cfg sandbox g recs rule: integrate_rates.induct)
  case (1 cfg sandbox a b rest recs)
  have m: "foldl (add_rate sandbox) r (map (Pair a) sl) = foldl (add_slice sandbox a) r sl" for r sl
    by (induction sl arbitrary: r) (simp_all add: add_rate_def)
  show ?case
    using 1 by (cases "sm_Timestamp b - sm_Timestamp a \<le> 0") (simp_all add: Let_def integrateInterval_slices m)
qed simp_all

fun step_events :: "Sample list \<Rightarrow> (Sample \<times> Sample) list" where
  "step_events (a # b # rest) = (a, b) # step_events (b # rest)"
| "step_events _ = []"

lemma integrate_counters_events:
  "integrate_counters window sandbox g recs = foldl (\<lambda>r (a, b). add_step window sandbox a b r) recs (step_events g)"
  by (induction window sandbox g recs rule: integrate_counters.induct) simp_all

definition sandbox_records :: "Config \<Rightarrow> string \<Rightarrow> Sample list \<Rightarrow> (recKey \<rightharpoonup> UsageRecord) \<Rightarrow> recKey \<rightharpoonup> UsageRecord" where
  "sandbox_records cfg sandbox g recs =
     foldl (\<lambda>r (a, b). add_step (cfg_Window cfg) sandbox a b r) (foldl (add_rate sandbox) recs (rate_events cfg g)) (step_events g)"

lemma integrate_sandbox_events:
  "0 < cfg_Window cfg \<Longrightarrow> integrate_sandbox cfg samples sandbox recs = Some (sandbox_records cfg sandbox (sandbox_group samples sandbox) recs)"
  by (simp add: integrate_sandbox_def integrate_rates_events integrate_counters_events sandbox_records_def Let_def)

lemma effective_window_pos: "0 < cfg_Window (effective_config cfg)" "0 < cfg_MaxHold (effective_config cfg)"
  by (simp_all add: effective_config_def DefaultConfig_def Let_def)

lemma integrate_all_events:
  "0 < cfg_Window cfg \<Longrightarrow> integrate_all cfg samples order recs =
    Some (foldl (\<lambda>r sb. sandbox_records cfg sb (sandbox_group samples sb) r) recs order)"
  by (induction order arbitrary: recs) (simp_all add: integrate_sandbox_events)

lemma Integrate_events:
  "Integrate order samples cfg =
    Some (foldl (\<lambda>r sb. sandbox_records (effective_config cfg) sb (sandbox_group samples sb) r) Map.empty order)"
  by (simp add: Integrate_def integrate_all_events effective_window_pos)

section \<open>What a sandbox contributes\<close>

lemma add_rate_local:
  "s \<noteq> sandbox \<Longrightarrow> add_rate sandbox r ev (s, w) = r (s, w)"
  "(\<And>w. r (sandbox, w) = r' (sandbox, w)) \<Longrightarrow> add_rate sandbox r ev (sandbox, w) = add_rate sandbox r' ev (sandbox, w)"
  by (simp_all add: add_rate_def add_slice_def record_at_def Let_def split: prod.splits)

lemma add_step_local:
  "s \<noteq> sandbox \<Longrightarrow> add_step window sandbox a b r (s, w) = r (s, w)"
  "(\<And>w. r (sandbox, w) = r' (sandbox, w)) \<Longrightarrow> add_step window sandbox a b r (sandbox, w) = add_step window sandbox a b r' (sandbox, w)"
  by (simp_all add: add_step_def record_at_def Let_def)

lemma foldl_local:
  assumes "\<And>r ev s w. s \<noteq> sandbox \<Longrightarrow> f r ev (s, w) = r (s, w)"
    and "\<And>r r' ev w. (\<And>w. r (sandbox, w) = r' (sandbox, w)) \<Longrightarrow> f r ev (sandbox, w) = f r' ev (sandbox, w)"
  shows "s \<noteq> sandbox \<Longrightarrow> foldl f r evs (s, w) = r (s, w)"
    and "(\<And>w. r (sandbox, w) = r' (sandbox, w)) \<Longrightarrow> foldl f r evs (sandbox, w) = foldl f r' evs (sandbox, w)"
proof -
  show "s \<noteq> sandbox \<Longrightarrow> foldl f r evs (s, w) = r (s, w)"
    by (induction evs arbitrary: r) (simp_all add: assms(1))
  show "(\<And>w. r (sandbox, w) = r' (sandbox, w)) \<Longrightarrow> foldl f r evs (sandbox, w) = foldl f r' evs (sandbox, w)"
  proof (induction evs arbitrary: r r')
    case (Cons ev evs)
    have "foldl f (f r ev) evs (sandbox, w) = foldl f (f r' ev) evs (sandbox, w)"
      by (rule Cons.IH, rule assms(2), rule Cons.prems)
    then show ?case by simp
  qed simp
qed

lemmas foldl_add_rate_local = foldl_local [of sandbox "add_rate sandbox" for sandbox, OF add_rate_local]

lemma foldl_add_step_local:
  "s \<noteq> sandbox \<Longrightarrow> foldl (\<lambda>r (a, b). add_step window sandbox a b r) r evs (s, w) = r (s, w)"
  "(\<And>w. r (sandbox, w) = r' (sandbox, w)) \<Longrightarrow>
   foldl (\<lambda>r (a, b). add_step window sandbox a b r) r evs (sandbox, w) = foldl (\<lambda>r (a, b). add_step window sandbox a b r) r' evs (sandbox, w)"
  by (rule foldl_local [of sandbox "\<lambda>r (a, b). add_step window sandbox a b r"]; auto simp: add_step_local intro: add_step_local)+

lemma sandbox_records_local:
  "s \<noteq> sandbox \<Longrightarrow> sandbox_records cfg sandbox g r (s, w) = r (s, w)"
  "(\<And>w. r (sandbox, w) = r' (sandbox, w)) \<Longrightarrow> sandbox_records cfg sandbox g r (sandbox, w) = sandbox_records cfg sandbox g r' (sandbox, w)"
proof -
  show "s \<noteq> sandbox \<Longrightarrow> sandbox_records cfg sandbox g r (s, w) = r (s, w)"
    by (simp add: sandbox_records_def foldl_add_step_local(1) foldl_add_rate_local(1))
  show "(\<And>w. r (sandbox, w) = r' (sandbox, w)) \<Longrightarrow> sandbox_records cfg sandbox g r (sandbox, w) = sandbox_records cfg sandbox g r' (sandbox, w)"
    unfolding sandbox_records_def by (rule foldl_add_step_local(2), rule foldl_add_rate_local(2))
qed

lemma foldl_sandbox_records:
  assumes "distinct order"
  shows "foldl (\<lambda>r sb. sandbox_records cfg sb (G sb) r) r order (s, w) =
    (if s \<in> set order then sandbox_records cfg s (G s) r (s, w) else r (s, w))"
  using assms
proof (induction order arbitrary: r)
  case (Cons sb order)
  let ?r = "sandbox_records cfg sb (G sb) r"
  have "s \<noteq> sb \<Longrightarrow> sandbox_records cfg s (G s) ?r (s, w) = sandbox_records cfg s (G s) r (s, w)"
    by (rule sandbox_records_local(2)) (simp add: sandbox_records_local(1))
  then show ?case using Cons by (auto simp: sandbox_records_local(1))
qed simp

lemma Integrate_at:
  assumes "distinct order" "Integrate order samples cfg = Some recs"
  shows "recs (s, w) = (if s \<in> set order
    then sandbox_records (effective_config cfg) s (sandbox_group samples s) Map.empty (s, w) else None)"
  using assms(2) foldl_sandbox_records [OF assms(1), of "effective_config cfg" "sandbox_group samples" Map.empty s w]
  by (simp add: Integrate_events)

text \<open>The group of a sandbox depends only on the set of samples, when equal timestamps mean equal samples.\<close>

definition consistent_samples :: "Sample list \<Rightarrow> bool" where
  "consistent_samples samples \<longleftrightarrow>
     (\<forall>s \<in> set samples. \<forall>t \<in> set samples. sm_SandboxID s = sm_SandboxID t \<and> sm_Timestamp s = sm_Timestamp t \<longrightarrow> s = t)"

lemma dedupe_from_props:
  "set (dedupe_from seen ss) \<subseteq> set ss"
  "distinct (map sm_Timestamp (dedupe_from seen ss))"
  "sm_Timestamp ` set (dedupe_from seen ss) = sm_Timestamp ` set ss - seen"
  by (induction ss arbitrary: seen) (auto 4 3)

lemma set_dedupe:
  assumes "inj_on sm_Timestamp (set ss)"
  shows "set (dedupeByTimestamp ss) = set ss"
proof
  show "set (dedupeByTimestamp ss) \<subseteq> set ss" by (simp add: dedupeByTimestamp_def dedupe_from_props)
  show "set ss \<subseteq> set (dedupeByTimestamp ss)"
  proof
    fix s
    assume s: "s \<in> set ss"
    then have "sm_Timestamp s \<in> sm_Timestamp ` set (dedupeByTimestamp ss)"
      by (simp add: dedupeByTimestamp_def dedupe_from_props)
    then obtain t where t: "t \<in> set (dedupeByTimestamp ss)" "sm_Timestamp s = sm_Timestamp t" by auto
    have "t \<in> set ss" using t(1) dedupe_from_props(1) by (auto simp: dedupeByTimestamp_def)
    then show "s \<in> set (dedupeByTimestamp ss)" using inj_onD [OF assms t(2) s] t(1) by simp
  qed
qed

lemma sort_key_unique:
  fixes f :: "'a \<Rightarrow> 'k::linorder"
  assumes "distinct (map f xs)" "distinct (map f ys)" "set xs = set ys"
  shows "sort_key f xs = sort_key f ys"
  using assms by (intro map_sorted_distinct_set_unique [of f]) (simp_all add: distinct_map)

lemma sandbox_group_set:
  assumes "consistent_samples samples" "set samples' = set samples"
  shows "sandbox_group samples' s = sandbox_group samples s"
proof -
  let ?f = "filter (\<lambda>x. sm_SandboxID x = s)"
  have inj: "inj_on sm_Timestamp (set (?f ss))" if "set ss = set samples" for ss
    using assms(1) that by (simp add: consistent_samples_def inj_on_def)
  have d: "distinct (map sm_Timestamp (dedupeByTimestamp ss))" for ss
    by (simp add: dedupeByTimestamp_def dedupe_from_props)
  have "set (dedupeByTimestamp (?f samples')) = set (dedupeByTimestamp (?f samples))"
    unfolding set_dedupe [OF inj [OF assms(2)]] set_dedupe [OF inj [OF refl]] using assms(2) by simp
  with d d show ?thesis unfolding sandbox_group_def by (rule sort_key_unique)
qed

text \<open>Records are stored under their sandbox and an aligned window start.\<close>

definition record_wf :: "duration \<Rightarrow> recKey \<Rightarrow> UsageRecord \<Rightarrow> bool" where
  "record_wf window k r \<longleftrightarrow>
     ur_SandboxID r = fst k \<and> ur_Window r = snd k \<and> snd k mod window = 0 \<and> in_i64 (ur_EgressBytes r) \<and> in_i64 (ur_GPUSeconds r)"

definition records_wf :: "duration \<Rightarrow> (recKey \<rightharpoonup> UsageRecord) \<Rightarrow> bool" where
  "records_wf window recs \<longleftrightarrow> (\<forall>k r. recs k = Some r \<longrightarrow> record_wf window k r)"

lemma Truncate_aligned: "0 < window \<Longrightarrow> Truncate t window mod window = 0"
  by (simp add: Truncate_def minus_mod_eq_mult_div)

lemma slices_aligned: "(w, st, en) \<in> set (slices window start end') \<Longrightarrow> w = Truncate st window \<and> start \<le> st \<and> st < en \<and> en \<le> end' \<and> en \<le> w + window"
proof (induction window start end' rule: slices.induct)
  case (1 window start end')
  show ?case
  proof (cases "0 < window \<and> start < end'")
    case True
    then have "start < slice_end window start end'" "slice_end window start end' \<le> end'"
      "slice_end window start end' \<le> Truncate start window + window"
      using slice_end_less [of window start end'] by (auto simp: slice_end_def)
    then show ?thesis using 1 True by (auto simp: slices.simps [of window start end'])
  next
    case False
    then show ?thesis using 1(2) by (simp add: slices.simps [of window start end'])
  qed
qed

lemma rate_events_aligned:
  "(a, w, st, en) \<in> set (rate_events cfg g) \<Longrightarrow> w = Truncate st (cfg_Window cfg) \<and> sm_Timestamp a \<le> st \<and> st < en \<and> en \<le> w + cfg_Window cfg \<and>
    en \<le> sm_Timestamp a + cfg_MaxHold cfg"
proof (induction cfg g rule: rate_events.induct)
  case (1 cfg x y rest)
  then show ?case by (auto simp: Let_def split: if_splits dest!: slices_aligned)
qed simp_all

lemma record_at_wf:
  "records_wf window recs \<Longrightarrow> w mod window = 0 \<Longrightarrow> record_wf window (sandbox, w) (record_at recs a sandbox w)"
  by (auto simp: record_at_def records_wf_def record_wf_def new_record_def in_i64_def split: option.splits)

lemma add_rate_wf:
  assumes "records_wf window recs" "fst (snd ev) mod window = 0"
  shows "records_wf window (add_rate sandbox recs ev)"
  using assms record_at_wf [OF assms, of sandbox "fst ev"]
  by (cases ev) (auto simp: add_rate_def add_slice_def Let_def records_wf_def record_wf_def)

lemma add_step_wf:
  assumes "records_wf window recs" "0 < window"
  shows "records_wf window (add_step window sandbox a b recs)"
  using assms record_at_wf [OF assms(1) Truncate_aligned [OF assms(2), of "sm_Timestamp a"], of sandbox a]
  by (auto simp: add_step_def Let_def records_wf_def record_wf_def)

lemma foldl_invariant:
  assumes "P r" "\<And>r x. x \<in> set xs \<Longrightarrow> P r \<Longrightarrow> P (f r x)"
  shows "P (foldl f r xs)"
  using assms by (induction xs arbitrary: r) simp_all

lemma sandbox_records_wf:
  assumes "records_wf (cfg_Window cfg) recs" "0 < cfg_Window cfg"
  shows "records_wf (cfg_Window cfg) (sandbox_records cfg sandbox g recs)"
  unfolding sandbox_records_def
proof (rule foldl_invariant [where P = "records_wf (cfg_Window cfg)"])
  show "records_wf (cfg_Window cfg) (foldl (add_rate sandbox) recs (rate_events cfg g))"
  proof (rule foldl_invariant [where P = "records_wf (cfg_Window cfg)", OF assms(1)])
    fix r ev
    assume "ev \<in> set (rate_events cfg g)" "records_wf (cfg_Window cfg) r"
    then show "records_wf (cfg_Window cfg) (add_rate sandbox r ev)"
      using rate_events_aligned [of "fst ev" "fst (snd ev)" "fst (snd (snd ev))" "snd (snd (snd ev))" cfg g] Truncate_aligned [OF assms(2)]
      by (intro add_rate_wf) auto
  qed
qed (auto simp: add_step_wf assms(2))

section \<open>Totals over the windows of a sandbox\<close>

definition window_sum :: "(UsageRecord \<Rightarrow> 'a::comm_monoid_add) \<Rightarrow> string \<Rightarrow> (recKey \<rightharpoonup> UsageRecord) \<Rightarrow> 'a" where
  "window_sum f sandbox recs = (\<Sum>k \<in> {k \<in> dom recs. fst k = sandbox}. f (the (recs k)))"

lemma window_sum_upd:
  fixes f :: "UsageRecord \<Rightarrow> 'a::ab_group_add"
  assumes "finite (dom recs)" "f (new_record a sandbox w) = 0"
  shows "window_sum f sandbox (recs((sandbox, w) \<mapsto> r)) = window_sum f sandbox recs + (f r - f (record_at recs a sandbox w))"
proof -
  let ?A = "{k \<in> dom recs. fst k = sandbox}" and ?k = "(sandbox, w)"
  have fin: "finite ?A" using assms(1) by simp
  have old: "window_sum f sandbox recs = f (record_at recs a sandbox w) + (\<Sum>k \<in> ?A - {?k}. f (the (recs k)))"
  proof (cases "?k \<in> dom recs")
    case True
    then obtain q where q: "recs ?k = Some q" by auto
    then show ?thesis unfolding window_sum_def using sum.remove [OF fin, of ?k "\<lambda>k. f (the (recs k))"] True
      by (simp add: record_at_def)
  next
    case False
    then have "?A - {?k} = ?A" by auto
    then show ?thesis using False by (simp add: window_sum_def record_at_def assms(2) domIff)
  qed
  have "{k \<in> dom (recs(?k \<mapsto> r)). fst k = sandbox} = insert ?k (?A - {?k})" by auto
  then have "window_sum f sandbox (recs(?k \<mapsto> r)) = f r + (\<Sum>k \<in> ?A - {?k}. f (the ((recs(?k \<mapsto> r)) k)))"
    unfolding window_sum_def using fin by (simp add: sum.insert_remove)
  also have "(\<Sum>k \<in> ?A - {?k}. f (the ((recs(?k \<mapsto> r)) k))) = (\<Sum>k \<in> ?A - {?k}. f (the (recs k)))"
    by (rule sum.cong) auto
  finally show ?thesis unfolding old by (simp only: algebra_simps add_diff_cancel_left' add_diff_cancel_right')
qed

lemma window_sum_nonneg_bound:
  fixes f :: "UsageRecord \<Rightarrow> 'a::linordered_idom"
  assumes "finite (dom recs)" "\<forall>k r. recs k = Some r \<longrightarrow> 0 \<le> f r" "f (new_record a sandbox w) = 0"
  shows "0 \<le> f (record_at recs a sandbox w) \<and> f (record_at recs a sandbox w) \<le> window_sum f sandbox recs"
proof -
  let ?A = "{k \<in> dom recs. fst k = sandbox}"
  have fin: "finite ?A" using assms(1) by simp
  have nn: "0 \<le> f (the (recs k))" if "k \<in> ?A" for k using that assms(2) [rule_format, of k] by auto
  show ?thesis
  proof (cases "recs (sandbox, w)")
    case None
    moreover have "0 \<le> window_sum f sandbox recs" unfolding window_sum_def by (rule sum_nonneg) (rule nn)
    ultimately show ?thesis using assms(3) by (simp add: record_at_def)
  next
    case (Some q)
    then have "f (the (recs (sandbox, w))) \<le> window_sum f sandbox recs"
      unfolding window_sum_def using fin nn by (intro member_le_sum) auto
    then show ?thesis using Some assms(2) by (simp add: record_at_def)
  qed
qed

lemma window_sum_empty [simp]: "window_sum f sandbox Map.empty = 0"
  by (simp add: window_sum_def)

lemma window_sum_cong:
  assumes "\<And>w. recs (sandbox, w) = recs' (sandbox, w)"
  shows "window_sum f sandbox recs = window_sum f sandbox recs'"
proof -
  have "{k \<in> dom recs. fst k = sandbox} = {k \<in> dom recs'. fst k = sandbox}" using assms by (auto simp: domIff)
  then show ?thesis unfolding window_sum_def by (rule sum.cong) (use assms in auto)
qed

lemma finite_add_rate: "finite (dom recs) \<Longrightarrow> finite (dom (add_rate sandbox recs ev))"
  by (cases ev) (simp add: add_rate_def add_slice_def Let_def)

lemma finite_add_step: "finite (dom recs) \<Longrightarrow> finite (dom (add_step window sandbox a b recs))"
  by (simp add: add_step_def Let_def)

subsection \<open>Counters\<close>

definition step_of :: "(Sample \<Rightarrow> int) \<Rightarrow> Sample \<times> Sample \<Rightarrow> int" where
  "step_of c = (\<lambda>(a, b). if c a \<le> c b then c b - c a else c b)"

definition consumed :: "(Sample \<Rightarrow> int) \<Rightarrow> Sample list \<Rightarrow> int" where
  "consumed c g = sum_list (map (step_of c) (step_events g))"

lemma step_events_mem: "(a, b) \<in> set (step_events g) \<Longrightarrow> a \<in> set g \<and> b \<in> set g"
  by (induction g rule: step_events.induct) auto

lemma counterStep_of:
  "0 \<le> c a \<Longrightarrow> 0 \<le> c b \<Longrightarrow> c b < 2 ^ 63 \<Longrightarrow> counterStep (c a) (c b) = step_of c (a, b) \<and> 0 \<le> step_of c (a, b)"
  by (simp add: counterStep_def step_of_def wrap_simps in_i64_def)

text \<open>The two counters of a sample and the fields they feed.\<close>

definition counter_field :: "(UsageRecord \<Rightarrow> int) \<Rightarrow> (Sample \<Rightarrow> int) \<Rightarrow> bool" where
  "counter_field f c \<longleftrightarrow> (f = ur_EgressBytes \<and> c = sm_EgressBytes) \<or> (f = ur_GPUSeconds \<and> c = sm_GPUSeconds)"

lemma counter_field_rates:
  "counter_field f c \<Longrightarrow> f (r\<lparr>ur_VCPUSeconds := x, ur_MemGiBSeconds := y, ur_StorageGiBHours := z\<rparr>) = f r"
  "counter_field f c \<Longrightarrow> f (new_record a sandbox w) = 0"
  by (auto simp: counter_field_def new_record_def)

lemma add_step_sum:
  assumes "counter_field f c" "finite (dom recs)" "\<forall>k r. recs k = Some r \<longrightarrow> 0 \<le> f r"
    and "0 \<le> c a" "0 \<le> c b" "c b < 2 ^ 63" "window_sum f sandbox recs + step_of c (a, b) < 2 ^ 63"
  shows "window_sum f sandbox (add_step window sandbox a b recs) = window_sum f sandbox recs + step_of c (a, b)"
    and "\<forall>k r. add_step window sandbox a b recs k = Some r \<longrightarrow> 0 \<le> f r"
proof -
  let ?w = "Truncate (sm_Timestamp a) window"
  let ?q = "record_at recs a sandbox ?w"
  let ?e = "counterStep (sm_EgressBytes a) (sm_EgressBytes b)" and ?g = "counterStep (sm_GPUSeconds a) (sm_GPUSeconds b)"
  let ?r = "?q\<lparr>ur_EgressBytes := i64 (ur_EgressBytes ?q + ?e), ur_GPUSeconds := i64 (ur_GPUSeconds ?q + ?g)\<rparr>"
  note st = counterStep_of [of c a b, OF assms(4-6)]
  have bd: "0 \<le> f ?q \<and> f ?q \<le> window_sum f sandbox recs"
    by (rule window_sum_nonneg_bound [OF assms(2)]) (rule assms(3), rule counter_field_rates(2) [OF assms(1)])
  have upd: "f ?r = f ?q + step_of c (a, b)"
  proof -
    have "f ?r = i64 (f ?q + counterStep (c a) (c b))" using assms(1) by (auto simp: counter_field_def)
    then show ?thesis using st bd assms(7) by (simp add: wrap_simps in_i64_def)
  qed
  have zero: "?e = 0 \<and> ?g = 0 \<Longrightarrow> step_of c (a, b) = 0"
    using assms(1) st by (auto simp: counter_field_def)
  have step: "add_step window sandbox a b recs = (if ?e = 0 \<and> ?g = 0 then recs else recs((sandbox, ?w) \<mapsto> ?r))"
    by (simp add: add_step_def Let_def)
  show "window_sum f sandbox (add_step window sandbox a b recs) = window_sum f sandbox recs + step_of c (a, b)"
    using zero upd window_sum_upd [of recs f a sandbox ?w ?r, OF assms(2) counter_field_rates(2) [OF assms(1)]]
    by (simp only: step split: if_split) simp
  show "\<forall>k r. add_step window sandbox a b recs k = Some r \<longrightarrow> 0 \<le> f r"
    using assms(3) upd st bd unfolding step by (simp split: if_split)
qed

lemma add_steps_sum:
  assumes "counter_field f c" "finite (dom recs)" "\<forall>k r. recs k = Some r \<longrightarrow> 0 \<le> f r"
    and "\<And>a b. (a, b) \<in> set evs \<Longrightarrow> 0 \<le> c a \<and> 0 \<le> c b \<and> c b < 2 ^ 63"
    and "window_sum f sandbox recs + sum_list (map (step_of c) evs) < 2 ^ 63"
  shows "window_sum f sandbox (foldl (\<lambda>r (a, b). add_step window sandbox a b r) recs evs) =
    window_sum f sandbox recs + sum_list (map (step_of c) evs)"
  using assms(2-5)
proof (induction evs arbitrary: recs)
  case (Cons ev evs)
  obtain a b where ev: "ev = (a, b)" by (cases ev)
  let ?r = "add_step window sandbox a b recs"
  have rd: "0 \<le> c a" "0 \<le> c b" "c b < 2 ^ 63" using Cons.prems(3) ev by auto
  have "0 \<le> step_of c x" if "x \<in> set evs" for x
    using that Cons.prems(3) [of "fst x" "snd x"] counterStep_of [of c "fst x" "snd x"] by simp
  then have rest: "0 \<le> sum_list (map (step_of c) evs)" by (intro sum_list_nonneg) auto
  then have bound: "window_sum f sandbox recs + step_of c (a, b) < 2 ^ 63" using Cons.prems(4) ev by simp
  note step = add_step_sum [OF assms(1) Cons.prems(1,2) rd bound]
  have "window_sum f sandbox (foldl (\<lambda>r (a, b). add_step window sandbox a b r) ?r evs) =
    window_sum f sandbox ?r + sum_list (map (step_of c) evs)"
    using Cons.prems(3,4) ev step(1) by (intro Cons.IH) (auto simp: finite_add_step Cons.prems(1) step(2))
  then show ?case using step(1) ev by simp
qed simp

lemma add_rate_counters:
  assumes "counter_field f c" "finite (dom recs)"
  shows "window_sum f sandbox (add_rate sandbox recs ev) = window_sum f sandbox recs"
    and "\<forall>k r. recs k = Some r \<longrightarrow> 0 \<le> f r \<Longrightarrow> \<forall>k r. add_rate sandbox recs ev k = Some r \<longrightarrow> 0 \<le> f r"
proof -
  obtain a w st en where ev: "ev = (a, w, st, en)" by (cases ev)
  obtain x y z where upd: "add_rate sandbox recs ev = recs((sandbox, w) \<mapsto>
      (record_at recs a sandbox w)\<lparr>ur_VCPUSeconds := x, ur_MemGiBSeconds := y, ur_StorageGiBHours := z\<rparr>)"
    by (auto simp: ev add_rate_def add_slice_def Let_def)
  show "window_sum f sandbox (add_rate sandbox recs ev) = window_sum f sandbox recs"
    unfolding upd using window_sum_upd [of recs f a sandbox w, OF assms(2) counter_field_rates(2) [OF assms(1)]]
    by (simp add: counter_field_rates(1) [OF assms(1)])
  show "\<forall>k r. recs k = Some r \<longrightarrow> 0 \<le> f r \<Longrightarrow> \<forall>k r. add_rate sandbox recs ev k = Some r \<longrightarrow> 0 \<le> f r"
    using counter_field_rates(2) [OF assms(1), of a sandbox w]
    by (auto simp: upd counter_field_rates(1) [OF assms(1)] record_at_def split: if_splits option.splits)
qed

lemma add_rates_counters:
  assumes "counter_field f c"
  shows "finite (dom recs) \<Longrightarrow> \<forall>k r. recs k = Some r \<longrightarrow> 0 \<le> f r \<Longrightarrow>
    finite (dom (foldl (add_rate sandbox) recs evs)) \<and>
    window_sum f sandbox (foldl (add_rate sandbox) recs evs) = window_sum f sandbox recs \<and>
    (\<forall>k r. foldl (add_rate sandbox) recs evs k = Some r \<longrightarrow> 0 \<le> f r)"
proof (induction evs arbitrary: recs)
  case (Cons ev evs)
  note step = add_rate_counters [OF assms Cons.prems(1), of sandbox ev]
  from Cons.IH [OF finite_add_rate [OF Cons.prems(1)] step(2) [OF Cons.prems(2)]] show ?case by (simp add: step(1))
qed simp

lemma sandbox_records_counters:
  assumes "counter_field f c" "\<forall>s \<in> set g. 0 \<le> c s \<and> c s < 2 ^ 63" "consumed c g < 2 ^ 63"
  shows "window_sum f sandbox (sandbox_records cfg sandbox g Map.empty) = consumed c g"
proof -
  let ?r = "foldl (add_rate sandbox) Map.empty (rate_events cfg g)"
  have r: "finite (dom ?r)" "window_sum f sandbox ?r = 0" "\<forall>k q. ?r k = Some q \<longrightarrow> 0 \<le> f q"
    using add_rates_counters [OF assms(1), of Map.empty sandbox "rate_events cfg g"] by auto
  have ev: "0 \<le> c a \<and> 0 \<le> c b \<and> c b < 2 ^ 63" if "(a, b) \<in> set (step_events g)" for a b
    using step_events_mem [OF that] assms(2) by auto
  have "window_sum f sandbox (foldl (\<lambda>r (a, b). add_step (cfg_Window cfg) sandbox a b r) ?r (step_events g)) =
      window_sum f sandbox ?r + sum_list (map (step_of c) (step_events g))"
    using assms(3) r(2) by (intro add_steps_sum [OF assms(1) r(1,3)] ev) (simp_all add: consumed_def)
  then show ?thesis using r(2) by (simp add: sandbox_records_def consumed_def)
qed

lemma consumed_monotone:
  "sorted (map c g) \<Longrightarrow> g \<noteq> [] \<Longrightarrow> consumed c g = c (last g) - c (hd g)"
proof (induction g rule: step_events.induct)
  case (1 a b rest)
  then show ?case by (simp add: consumed_def step_of_def)
qed (simp_all add: consumed_def)

lemma set_sandbox_group: "set (sandbox_group samples s) \<subseteq> set samples"
  using dedupe_from_props(1) [of "{}" "filter (\<lambda>x. sm_SandboxID x = s) samples"]
  by (auto simp: sandbox_group_def dedupeByTimestamp_def)

subsection \<open>Held time\<close>

definition held_seconds :: "Config \<Rightarrow> Sample \<Rightarrow> Sample \<Rightarrow> int" where
  "held_seconds cfg a b = (min (sm_Timestamp b - sm_Timestamp a) (cfg_MaxHold cfg)) div second_ns"

fun vcpu_seconds :: "Config \<Rightarrow> Sample list \<Rightarrow> int" where
  "vcpu_seconds cfg (a # b # rest) = sm_VCPUs a * held_seconds cfg a b + vcpu_seconds cfg (b # rest)"
| "vcpu_seconds cfg _ = 0"

definition event_vcpu :: "Sample \<times> time \<times> time \<times> time \<Rightarrow> int" where
  "event_vcpu = (\<lambda>(a, w, st, en). sm_VCPUs a * ((en - st) div second_ns))"

lemma slices_seconds:
  "second_ns dvd window \<Longrightarrow> second_ns dvd start \<Longrightarrow> second_ns dvd end' \<Longrightarrow> (w, st, en) \<in> set (slices window start end') \<Longrightarrow>
   second_ns dvd st \<and> second_ns dvd en"
proof (induction window start end' rule: slices.induct)
  case (1 window start end')
  have t: "second_ns dvd Truncate start window"
    using 1(2,3) by (auto simp: Truncate_def dvd_mod)
  then have "second_ns dvd slice_end window start end'" using 1(2,4) by (simp add: slice_end_def)
  then show ?case using 1 by (auto simp: slices.simps [of window start end'] split: if_splits)
qed

lemma slices_length:
  "0 < window \<Longrightarrow> second_ns dvd window \<Longrightarrow> second_ns dvd start \<Longrightarrow> second_ns dvd end' \<Longrightarrow> start \<le> end' \<Longrightarrow>
   sum_list (map (\<lambda>(w, st, en). (en - st) div second_ns) (slices window start end')) = (end' - start) div second_ns"
proof (induction window start end' rule: slices.induct)
  case (1 window start end')
  show ?case
  proof (cases "start < end'")
    case True
    let ?m = "slice_end window start end'"
    have m: "second_ns dvd ?m" using slices_seconds [OF 1(3-5), of "Truncate start window" start ?m] True 1(2)
      by (simp add: slices.simps [of window start end'])
    have "(?m - start) div second_ns + (end' - ?m) div second_ns = (end' - start) div second_ns"
      using m 1(4,5) by (subst div_plus_div_distrib_dvd_left [symmetric]) auto
    then show ?thesis using 1 True m slice_end_less [of window start end'] by (simp add: slices.simps [of window start end'])
  next
    case False
    then have "end' = start" using 1(6) by simp
    then show ?thesis by (simp add: slices.simps [of window start start])
  qed
qed

lemma Seconds_exact:
  assumes "second_ns dvd d" "0 \<le> d" "d div second_ns \<le> 2 ^ 53"
  shows "Seconds d = of_int (d div second_ns)"
proof -
  have "quot d second_ns = d div second_ns" using assms(2) by (simp add: quot_nonneg)
  moreover have "d - d div second_ns * second_ns = 0" using assms(1) by simp
  moreover have "0 \<le> d div second_ns" using assms(2) by simp
  ultimately show ?thesis using assms(3) by (simp only: Seconds_def) (simp add: f64.zero f64.exact_int)
qed

lemma rate_events_vcpu:
  assumes "0 < cfg_Window cfg" "0 < cfg_MaxHold cfg" "second_ns dvd cfg_Window cfg" "second_ns dvd cfg_MaxHold cfg"
  shows "sorted_wrt (<) (map sm_Timestamp g) \<Longrightarrow> \<forall>s \<in> set g. second_ns dvd sm_Timestamp s \<Longrightarrow>
    sum_list (map event_vcpu (rate_events cfg g)) = vcpu_seconds cfg g"
proof (induction g rule: step_events.induct)
  case (1 a b rest)
  let ?t = "sm_Timestamp a" and ?h = "min (sm_Timestamp b - sm_Timestamp a) (cfg_MaxHold cfg)"
  have h: "0 < ?h" "second_ns dvd ?h" using 1(2,3) assms(2,4) by (auto simp: min_def)
  have "sum_list (map event_vcpu (map (Pair a) sl)) = sm_VCPUs a * sum_list (map (\<lambda>(w, st, en). (en - st) div second_ns) sl)" for sl
    by (induction sl) (auto simp: event_vcpu_def distrib_left)
  moreover have "sum_list (map (\<lambda>(w, st, en). (en - st) div second_ns) (slices (cfg_Window cfg) ?t (?t + ?h))) = ?h div second_ns"
    using slices_length [OF assms(1,3), of ?t "?t + ?h"] h 1(3) by simp
  moreover have "rate_events cfg (a # b # rest) = map (Pair a) (slices (cfg_Window cfg) ?t (?t + ?h)) @ rate_events cfg (b # rest)"
    using 1(2) by (simp add: Let_def min_def)
  ultimately show ?case using 1 by (simp add: held_seconds_def)
qed simp_all

lemma rate_events_seconds:
  assumes "second_ns dvd cfg_Window cfg" "second_ns dvd cfg_MaxHold cfg"
  shows "\<forall>s \<in> set g. second_ns dvd sm_Timestamp s \<Longrightarrow> (a, w, st, en) \<in> set (rate_events cfg g) \<Longrightarrow>
    a \<in> set g \<and> second_ns dvd st \<and> second_ns dvd en"
proof (induction g rule: step_events.induct)
  case (1 x y rest)
  let ?t = "sm_Timestamp x"
  let ?h = "if sm_Timestamp y - ?t > cfg_MaxHold cfg then cfg_MaxHold cfg else sm_Timestamp y - ?t"
  from 1(3) consider "(a, w, st, en) \<in> set (rate_events cfg (y # rest))"
    | "a = x" "(w, st, en) \<in> set (slices (cfg_Window cfg) ?t (?t + ?h))"
    by (auto simp: Let_def split: if_splits)
  then show ?case
  proof cases
    case 2
    have "second_ns dvd ?t" "second_ns dvd ?t + ?h" using 1(2) assms by auto
    then show ?thesis using slices_seconds [OF assms(1) _ _ 2(2)] 2(1) by simp
  qed (use 1 in auto)
qed simp_all

definition whole_vcpu :: "(recKey \<rightharpoonup> UsageRecord) \<Rightarrow> bool" where
  "whole_vcpu recs \<longleftrightarrow> (\<forall>k r. recs k = Some r \<longrightarrow> (\<exists>n. 0 \<le> n \<and> ur_VCPUSeconds r = of_int n))"

lemma add_rate_vcpu:
  assumes "finite (dom recs)" "whole_vcpu recs" "second_ns dvd st" "second_ns dvd en" "st < en" "en - st \<le> 2 ^ 53 * second_ns"
    and "0 \<le> sm_VCPUs a" "in_i32 (sm_VCPUs a)"
    and "window_sum ur_VCPUSeconds sandbox recs + of_int (event_vcpu (a, w, st, en)) \<le> 2 ^ 53"
  shows "window_sum ur_VCPUSeconds sandbox (add_rate sandbox recs (a, w, st, en)) =
      window_sum ur_VCPUSeconds sandbox recs + of_int (event_vcpu (a, w, st, en)) \<and>
    whole_vcpu (add_rate sandbox recs (a, w, st, en))"
proof -
  let ?q = "record_at recs a sandbox w" and ?d = "(en - st) div second_ns" and ?e = "event_vcpu (a, w, st, en)"
  have nr: "ur_VCPUSeconds (new_record a sandbox w) = 0" by (simp add: new_record_def)
  have nn: "\<forall>k r. recs k = Some r \<longrightarrow> 0 \<le> ur_VCPUSeconds r" using assms(2) by (fastforce simp: whole_vcpu_def)
  have bd: "0 \<le> ur_VCPUSeconds ?q \<and> ur_VCPUSeconds ?q \<le> window_sum ur_VCPUSeconds sandbox recs"
    by (rule window_sum_nonneg_bound [OF assms(1) nn nr])
  obtain n where n: "ur_VCPUSeconds ?q = of_int n" "0 \<le> n"
  proof (cases "recs (sandbox, w)")
    case None
    then show ?thesis using that [of 0] nr by (simp add: record_at_def)
  next
    case (Some r)
    then obtain m where "0 \<le> m" "ur_VCPUSeconds r = of_int m" using assms(2) unfolding whole_vcpu_def by blast
    then show ?thesis using that [of m] Some by (simp add: record_at_def)
  qed
  have secs: "Seconds (en - st) = of_int ?d" using assms(3-6) by (intro Seconds_exact) auto
  have d: "0 \<le> ?e" "?e = sm_VCPUs a * ?d" using assms(5,7) by (simp_all add: event_vcpu_def)
  have "of_int (n + ?e) \<le> (of_int (2 ^ 53) :: rat)" using assms(9) bd n(1) by simp
  then have le: "n + ?e \<le> 2 ^ 53" by (simp only: of_int_le_iff)
  have v: "f64 (of_int (sm_VCPUs a)) = of_int (sm_VCPUs a)" using assms(7,8) by (intro f64.exact_int) (simp add: in_i32_def)
  have "f64 (f64 (of_int (sm_VCPUs a)) * Seconds (en - st)) = of_int ?e"
    using f64.exact_int [of ?e] le n(2) d by (simp add: secs v)
  then have upd: "f64 (ur_VCPUSeconds ?q + f64 (f64 (of_int (sm_VCPUs a)) * Seconds (en - st))) = of_int (n + ?e)"
    using f64.exact_int [of "n + ?e"] le n d(1) by simp
  obtain y z where add: "add_rate sandbox recs (a, w, st, en) = recs((sandbox, w) \<mapsto>
      ?q\<lparr>ur_VCPUSeconds := of_int (n + ?e), ur_MemGiBSeconds := y, ur_StorageGiBHours := z\<rparr>)"
    by (simp only: add_rate_def add_slice_def Let_def fst_conv snd_conv prod.case upd)
  have "whole_vcpu (add_rate sandbox recs (a, w, st, en))"
    using assms(2) n(2) d(1) unfolding add whole_vcpu_def by (auto intro: exI [of _ "n + ?e"])
  then show ?thesis using n(1) 
    unfolding add window_sum_upd [of recs ur_VCPUSeconds a sandbox w, OF assms(1) nr] by simp
qed

lemma add_rates_vcpu:
  assumes "\<And>a w st en. (a, w, st, en) \<in> set evs \<Longrightarrow> second_ns dvd st \<and> second_ns dvd en \<and> st < en \<and>
      en - st \<le> 2 ^ 53 * second_ns \<and> 0 \<le> sm_VCPUs a \<and> in_i32 (sm_VCPUs a)"
  shows "finite (dom recs) \<Longrightarrow> whole_vcpu recs \<Longrightarrow>
    window_sum ur_VCPUSeconds sandbox recs + of_int (sum_list (map event_vcpu evs)) \<le> 2 ^ 53 \<Longrightarrow>
    window_sum ur_VCPUSeconds sandbox (foldl (add_rate sandbox) recs evs) =
      window_sum ur_VCPUSeconds sandbox recs + of_int (sum_list (map event_vcpu evs)) \<and>
    finite (dom (foldl (add_rate sandbox) recs evs))"
  using assms
proof (induction evs arbitrary: recs)
  case (Cons ev evs)
  obtain a w st en where ev: "ev = (a, w, st, en)" by (cases ev)
  note p = Cons.prems(4) [of a w st en]
  have "0 \<le> event_vcpu x" if "x \<in> set evs" for x
    using that Cons.prems(4) [of "fst x" "fst (snd x)" "fst (snd (snd x))" "snd (snd (snd x))"] 
    by (simp add: event_vcpu_def split_beta zdiv_mono1)
  then have "0 \<le> sum_list (map event_vcpu evs)" by (intro sum_list_nonneg) auto
  then have "(0 :: rat) \<le> of_int (sum_list (map event_vcpu evs))" by (simp only: of_int_0_le_iff)
  then have "window_sum ur_VCPUSeconds sandbox recs + of_int (event_vcpu (a, w, st, en)) \<le> 2 ^ 53"
    using Cons.prems(3) ev by simp
  then have step: "window_sum ur_VCPUSeconds sandbox (add_rate sandbox recs ev) =
      window_sum ur_VCPUSeconds sandbox recs + of_int (event_vcpu ev) \<and> whole_vcpu (add_rate sandbox recs ev)"
    unfolding ev using p ev Cons.prems(1,2) by (intro add_rate_vcpu) auto
  have "window_sum ur_VCPUSeconds sandbox (foldl (add_rate sandbox) (add_rate sandbox recs ev) evs) =
      window_sum ur_VCPUSeconds sandbox (add_rate sandbox recs ev) + of_int (sum_list (map event_vcpu evs)) \<and>
    finite (dom (foldl (add_rate sandbox) (add_rate sandbox recs ev) evs))"
  proof (rule Cons.IH [OF finite_add_rate [OF Cons.prems(1)]])
    show "window_sum ur_VCPUSeconds sandbox (add_rate sandbox recs ev) + of_int (sum_list (map event_vcpu evs)) \<le> 2 ^ 53"
      using Cons.prems(3) step by simp
    fix a w st en
    assume "(a, w, st, en) \<in> set evs"
    then show "second_ns dvd st \<and> second_ns dvd en \<and> st < en \<and> en - st \<le> 2 ^ 53 * second_ns \<and> 0 \<le> sm_VCPUs a \<and> in_i32 (sm_VCPUs a)"
      using Cons.prems(4) [of a w st en] by simp
  qed (use step in simp)
  then show ?case using step by (simp add: algebra_simps)
qed simp

lemma add_steps_vcpu:
  assumes "finite (dom recs)"
  shows "window_sum ur_VCPUSeconds sandbox (foldl (\<lambda>r (a, b). add_step window sandbox a b r) recs evs) =
    window_sum ur_VCPUSeconds sandbox recs"
  using assms
proof (induction evs arbitrary: recs)
  case (Cons ev evs)
  obtain a b where ev: "ev = (a, b)" by (cases ev)
  have nr: "ur_VCPUSeconds (new_record a sandbox (Truncate (sm_Timestamp a) window)) = 0" by (simp add: new_record_def)
  have "window_sum ur_VCPUSeconds sandbox (add_step window sandbox a b recs) = window_sum ur_VCPUSeconds sandbox recs"
    unfolding add_step_def Let_def
    using window_sum_upd [of recs ur_VCPUSeconds a sandbox "Truncate (sm_Timestamp a) window", OF Cons.prems nr]
    by (simp del: fun_upd_apply)
  then show ?case using Cons.IH [OF finite_add_step [OF Cons.prems], of window sandbox a b] ev by simp
qed simp

lemma sandbox_group_increasing: "sorted_wrt (<) (map sm_Timestamp (sandbox_group samples s))"
  using dedupe_from_props(2) [of "{}" "filter (\<lambda>x. sm_SandboxID x = s) samples"]
  by (simp add: sandbox_group_def dedupeByTimestamp_def strict_sorted_iff distinct_map)

lemma sandbox_records_vcpu:
  assumes "0 < cfg_Window cfg" "0 < cfg_MaxHold cfg" "second_ns dvd cfg_Window cfg" "second_ns dvd cfg_MaxHold cfg"
    and "cfg_MaxHold cfg \<le> 2 ^ 53 * second_ns"
    and g: "sorted_wrt (<) (map sm_Timestamp g)"
      "\<forall>s \<in> set g. second_ns dvd sm_Timestamp s \<and> 0 \<le> sm_VCPUs s \<and> in_i32 (sm_VCPUs s)" "vcpu_seconds cfg g \<le> 2 ^ 53"
  shows "window_sum ur_VCPUSeconds sandbox (sandbox_records cfg sandbox g Map.empty) = of_int (vcpu_seconds cfg g)"
proof -
  have dv: "\<forall>s \<in> set g. second_ns dvd sm_Timestamp s" using g(2) by simp
  note sum = rate_events_vcpu [OF assms(1-4) g(1) dv]
  have ev: "second_ns dvd st \<and> second_ns dvd en \<and> st < en \<and> en - st \<le> 2 ^ 53 * second_ns \<and> 0 \<le> sm_VCPUs a \<and> in_i32 (sm_VCPUs a)"
    if "(a, w, st, en) \<in> set (rate_events cfg g)" for a w st en
    using rate_events_aligned [OF that] rate_events_seconds [OF assms(3,4) dv that] g(2) assms(5) by auto
  have "rat_of_int (vcpu_seconds cfg g) \<le> of_int (2 ^ 53)" using g(3) by (simp only: of_int_le_iff)
  then have "window_sum ur_VCPUSeconds sandbox (foldl (add_rate sandbox) Map.empty (rate_events cfg g)) =
      window_sum ur_VCPUSeconds sandbox Map.empty + of_int (sum_list (map event_vcpu (rate_events cfg g))) \<and>
    finite (dom (foldl (add_rate sandbox) Map.empty (rate_events cfg g)))"
    by (intro add_rates_vcpu) (auto simp: whole_vcpu_def sum dest: ev)
  then show ?thesis by (simp add: sandbox_records_def add_steps_vcpu sum)
qed

section \<open>Properties\<close>

text \<open>
  C32: Integration returns for every list of samples and every configuration; the slicing loop
  returns exactly when the window is positive or the interval is empty, which the
  configuration defaults guarantee.
\<close>

theorem integrate_returns:
  "(\<exists>recs. Integrate order samples cfg = Some recs) \<and>
   ((\<exists>r. integrateInterval recs0 sandbox a start end' window = Some r) \<longleftrightarrow> 0 < window \<or> end' \<le> start)"
proof
  show "\<exists>recs. Integrate order samples cfg = Some recs" by (simp add: Integrate_events)
  have "\<exists>r. integrateInterval recs0 sandbox a start end' window = Some r" if "0 < window"
    using integrateInterval_slices [OF that] by blast
  moreover have "\<exists>r. integrateInterval recs0 sandbox a start end' window = Some r" if "end' \<le> start"
    using that by (simp add: integrateInterval.simps [of recs0])
  ultimately show "(\<exists>r. integrateInterval recs0 sandbox a start end' window = Some r) \<longleftrightarrow> 0 < window \<or> end' \<le> start"
    using integrateInterval_diverges by fastforce
qed

lemma Integrate_cong:
  assumes "consistent_samples samples" "set samples' = set samples" "distinct order" "distinct order'" "set order' = set order"
  shows "Integrate order' samples' cfg = Integrate order samples cfg"
proof -
  obtain r r' where r: "Integrate order samples cfg = Some r" "Integrate order' samples' cfg = Some r'" by (simp add: Integrate_events)
  have "r' (s, w) = r (s, w)" for s w
    unfolding Integrate_at [OF assms(3) r(1)] Integrate_at [OF assms(4) r(2)]
    by (simp add: assms(5) sandbox_group_set [OF assms(1,2)])
  then have "r' = r" by (intro ext) auto
  then show ?thesis using r by simp
qed

lemma Integrate_wf:
  assumes "Integrate order samples cfg = Some recs"
  shows "records_wf (cfg_Window (effective_config cfg)) recs"
proof -
  have "records_wf (cfg_Window (effective_config cfg))
      (foldl (\<lambda>r sb. sandbox_records (effective_config cfg) sb (sandbox_group samples sb) r) Map.empty order)"
    by (rule foldl_invariant [where P = "records_wf (cfg_Window (effective_config cfg))"])
      (auto simp: records_wf_def [of _ Map.empty] sandbox_records_wf effective_window_pos)
  then show ?thesis using assms by (simp add: Integrate_events)
qed

lemma map_filter_values:
  assumes "records_wf window recs" "distinct keys" "set keys \<subseteq> dom recs"
  shows "map (\<lambda>r. (ur_SandboxID r, ur_Window r)) (List.map_filter recs keys) = keys"
  using assms(2,3)
proof (induction keys)
  case (Cons k ks)
  then obtain r where "recs k = Some r" by auto
  then show ?case using Cons assms(1) by (cases k) (auto simp: map_filter_simps records_wf_def record_wf_def)
qed (simp add: map_filter_simps)

lemma integrated_list_keys:
  assumes "records_wf window recs" "distinct keys" "set keys = dom recs"
  shows "map (\<lambda>r. (ur_SandboxID r, ur_Window r)) (integrated_list keys recs) = sorted_list_of_set (dom recs)"
    and "set (integrated_list keys recs) = ran recs"
proof -
  let ?k = "\<lambda>r. (ur_SandboxID r, ur_Window r)" and ?l = "List.map_filter recs keys"
  have ks: "map ?k ?l = keys" using map_filter_values [OF assms(1,2)] assms(3) by simp
  have "distinct (map ?k ?l)" unfolding ks by (rule assms(2))
  then have "distinct (map ?k (sort_key ?k ?l))" by (simp add: distinct_map)
  note idem = sorted_list_of_set.idem_if_sorted_distinct [OF sorted_sort_key this]
  have "set (map ?k (sort_key ?k ?l)) = dom recs" using arg_cong [OF ks, of set] assms(3) by simp
  with idem show "map ?k (integrated_list keys recs) = sorted_list_of_set (dom recs)" by (simp only: integrated_list_def)
  show "set (integrated_list keys recs) = ran recs"
    using assms(3) by (force simp: integrated_list_def map_filter_def ran_def dom_def image_iff)
qed

text \<open>
  The outcome of an integration depends neither on the order or repetition of samples nor
  on the walks over the maps: it is one list, strictly ordered by sandbox and window, whose
  windows are aligned and whose counters are in range.
\<close>

theorem integrate_deterministic:
  assumes "consistent_samples samples" "set samples' = set samples" "distinct order" "distinct order'" "set order' = set order"
    and "Integrate order samples cfg = Some recs" "distinct keys" "set keys = dom recs" "distinct keys'" "set keys' = dom recs"
  shows "Integrate order' samples' cfg = Some recs \<and> integrated_list keys' recs = integrated_list keys recs \<and>
    map (\<lambda>r. (ur_SandboxID r, ur_Window r)) (integrated_list keys recs) = sorted_list_of_set (dom recs) \<and>
    (\<forall>r \<in> set (integrated_list keys recs). record_wf (cfg_Window (effective_config cfg)) (ur_SandboxID r, ur_Window r) r)"
proof (intro conjI)
  note wf = Integrate_wf [OF assms(6)]
  note l = integrated_list_keys [OF wf assms(7,8)] and l' = integrated_list_keys [OF wf assms(9,10)]
  show "Integrate order' samples' cfg = Some recs" using Integrate_cong [OF assms(1-5)] assms(6) by simp
  show "map (\<lambda>r. (ur_SandboxID r, ur_Window r)) (integrated_list keys recs) = sorted_list_of_set (dom recs)" by (rule l(1))
  show "\<forall>r \<in> set (integrated_list keys recs). record_wf (cfg_Window (effective_config cfg)) (ur_SandboxID r, ur_Window r) r"
    using wf l(2) by (auto simp: records_wf_def record_wf_def ran_def)
  have "inj_on (\<lambda>r. (ur_SandboxID r, ur_Window r)) (ran recs)"
    using wf by (intro inj_onI) (auto simp: records_wf_def record_wf_def ran_def; metis option.sel)
  then show "integrated_list keys' recs = integrated_list keys recs"
    using l(1) l'(1) by (intro map_inj_on [of "\<lambda>r. (ur_SandboxID r, ur_Window r)"]) (simp_all add: l(2) l'(2))
qed


section \<open>Concrete runs\<close>

text \<open>One sandbox with two vCPUs, read five seconds into every minute.\<close>

definition minute_sample :: "int \<Rightarrow> Sample" where
  "minute_sample k =
     \<lparr>sm_OrgID = ''acme'', sm_SandboxID = ''sb'', sm_Region = ''eu'', sm_Node = ''n1'', sm_Timestamp = (5 + 60 * k) * second_ns,
      sm_VCPUs = 2, sm_MemUniqueBytes = 0, sm_MemSharedAmortizedBytes = 0, sm_DiskBytes = 0, sm_EgressBytes = 10 * k, sm_GPUSeconds = 0\<rparr>"

lemma minute_group: "sandbox_group [minute_sample 0, minute_sample 1] ''sb'' = [minute_sample 0, minute_sample 1]"
  by (simp add: sandbox_group_def dedupeByTimestamp_def minute_sample_def)

lemma finite_Integrate:
  assumes "Integrate order samples cfg = Some recs"
  shows "finite (dom recs)"
proof -
  have "finite (dom (sandbox_records c sb g r))" if "finite (dom r)" for c sb g r
    unfolding sandbox_records_def using that
    by (intro foldl_invariant [where P = "\<lambda>r. finite (dom r)"]) (auto simp: finite_add_rate finite_add_step)
  then have "finite (dom (foldl (\<lambda>r sb. sandbox_records (effective_config cfg) sb (sandbox_group samples sb) r) Map.empty order))"
    by (intro foldl_invariant [where P = "\<lambda>r. finite (dom r)"]) auto
  then show ?thesis using assms by (simp add: Integrate_events)
qed

lemma effective_default: "effective_config DefaultConfig = DefaultConfig"
  by (simp add: effective_config_def DefaultConfig_def)

theorem integrate_deterministic_witness:
  "Integrate [''sb''] [minute_sample 1, minute_sample 0, minute_sample 1] DefaultConfig =
   Integrate [''sb''] [minute_sample 0, minute_sample 1] DefaultConfig"
proof -
  obtain recs where r: "Integrate [''sb''] [minute_sample 0, minute_sample 1] DefaultConfig = Some recs"
    by (simp add: Integrate_events)
  let ?keys = "sorted_list_of_set (dom recs)"
  have "consistent_samples [minute_sample 0, minute_sample 1]" by (simp add: consistent_samples_def minute_sample_def)
  from integrate_deterministic [OF this, of "[minute_sample 1, minute_sample 0, minute_sample 1]" "[''sb'']" "[''sb'']" DefaultConfig recs ?keys ?keys]
  show ?thesis using r finite_Integrate [OF r] by auto
qed


lemma f64_numeral: "numeral n \<le> (2 ^ 53 :: int) \<Longrightarrow> f64 (numeral n) = numeral n"
  using f64.exact_int [of "numeral n"] by simp

text \<open>The records of a run over whole buffers, and after the cut of the fifth cycle.\<close>

lemma minute_group4:
  "sandbox_group (map minute_sample [0, 1, 2, 3]) ''sb'' = map minute_sample [0, 1, 2, 3]"
  "sandbox_group (map minute_sample [1, 2, 3, 4]) ''sb'' = map minute_sample [1, 2, 3, 4]"
  by (simp_all add: sandbox_group_def dedupeByTimestamp_def minute_sample_def)

lemma minute_prune:
  "pruneBuffer DefaultConfig (map minute_sample [0, 1, 2, 3]) = map minute_sample [0, 1, 2, 3]"
  "pruneBuffer DefaultConfig (map minute_sample [0, 1, 2, 3] @ [minute_sample 4]) = map minute_sample [1, 2, 3, 4]"
  by (simp_all add: pruneBuffer_def newest_def retention_def DefaultConfig_def minute_sample_def)

text \<open>The vCPU seconds of one window, as the sum over its slices.\<close>

definition vcpu_at :: "(recKey \<rightharpoonup> UsageRecord) \<Rightarrow> string \<Rightarrow> time \<Rightarrow> rat" where
  "vcpu_at recs sandbox w = (case recs (sandbox, w) of None \<Rightarrow> 0 | Some r \<Rightarrow> ur_VCPUSeconds r)"

definition add_vcpu :: "rat \<Rightarrow> Sample \<times> time \<times> time \<times> time \<Rightarrow> rat" where
  "add_vcpu x ev = (case ev of (a, w, st, en) \<Rightarrow> f64 (x + f64 (f64 (of_int (sm_VCPUs a)) * Seconds (en - st))))"

lemma vcpu_at_rates:
  "vcpu_at (foldl (add_rate sandbox) recs evs) sandbox w = foldl add_vcpu (vcpu_at recs sandbox w) (filter (\<lambda>ev. fst (snd ev) = w) evs)"
proof (induction evs arbitrary: recs)
  case (Cons ev evs)
  have "vcpu_at (add_rate sandbox recs ev) sandbox w =
      (if fst (snd ev) = w then add_vcpu (vcpu_at recs sandbox w) ev else vcpu_at recs sandbox w)"
    by (cases ev) (auto simp: vcpu_at_def add_rate_def add_slice_def add_vcpu_def record_at_def new_record_def Let_def split: option.splits)
  then show ?case using Cons by simp
qed simp

lemma vcpu_at_steps:
  "vcpu_at (foldl (\<lambda>r (a, b). add_step window sandbox a b r) recs evs) sandbox w = vcpu_at recs sandbox w"
proof (induction evs arbitrary: recs)
  case (Cons ev evs)
  have "vcpu_at (add_step window sandbox a b recs) sandbox w = vcpu_at recs sandbox w" for a b
    by (auto simp: vcpu_at_def add_step_def record_at_def new_record_def Let_def split: option.splits)
  then show ?case using Cons by (cases ev) simp
qed simp

lemma vcpu_at_Integrate:
  "vcpu_at (the (Integrate [sb] samples cfg)) sb w =
   foldl add_vcpu 0 (filter (\<lambda>ev. fst (snd ev) = w) (rate_events (effective_config cfg) (sandbox_group samples sb)))"
  by (simp add: Integrate_events sandbox_records_def vcpu_at_steps vcpu_at_rates) (simp add: vcpu_at_def)

lemma pruned_window_shrinks:
  "vcpu_at (the (Integrate [''sb''] (pruneBuffer DefaultConfig (map minute_sample [0, 1, 2, 3])) DefaultConfig))
     ''sb'' (60 * second_ns) = 120 \<and>
   vcpu_at (the (Integrate [''sb''] (pruneBuffer DefaultConfig (map minute_sample [0, 1, 2, 3] @ [minute_sample 4])) DefaultConfig))
     ''sb'' (60 * second_ns) = 110"
  unfolding minute_prune vcpu_at_Integrate minute_group4 effective_default
  by (simp add: slices.simps slice_end_def Truncate_def DefaultConfig_def minute_sample_def)
   (simp add: add_vcpu_def Seconds_def quot_def f64_numeral f64.zero)

end
