(* ===== verification/Billing_Service.thy ===== *)
theory Billing_Service
  imports Credit_Ledger Usage_Meter
begin

text \<open>
  The billing service of \<^verbatim>\<open>internal/saas/billing\<close>: pricing (\<^verbatim>\<open>pricing.go\<close>, \<^verbatim>\<open>ratesconfig.go\<close>), the metered
  push to Stripe and the in-memory Stripe client (\<^verbatim>\<open>stripe.go\<close>), the drawdown of credit and the
  spend caps (\<^verbatim>\<open>service.go\<close>), the dunning state machine (\<^verbatim>\<open>dunning.go\<close>), the in-memory stores
  (\<^verbatim>\<open>stores.go\<close>), the webhook handler (\<^verbatim>\<open>webhook.go\<close>) and plans (\<^verbatim>\<open>plans.go\<close>). The ledger is any
  implementation of the interface of \<open>Credit_Ledger\<close>; the lemmas on the drawdown are proved in
  its locale and hold of the in-memory ledger by its interpretation. A product that is added to
  another number is rounded before the addition: no fused multiply-add.
\<close>

section \<open>Pricing\<close>

type_synonym MeterUnit = string

definition MeterVCPUSecond :: MeterUnit where "MeterVCPUSecond = ''vcpu_second''"
definition MeterMemGiBSecond :: MeterUnit where "MeterMemGiBSecond = ''mem_gib_second''"
definition MeterStorageGiBHour :: MeterUnit where "MeterStorageGiBHour = ''storage_gib_hour''"
definition MeterEgressGiB :: MeterUnit where "MeterEgressGiB = ''egress_gib''"
definition MeterGPUSecond :: MeterUnit where "MeterGPUSecond = ''gpu_second''"

lemmas meter_defs = MeterVCPUSecond_def MeterMemGiBSecond_def MeterStorageGiBHour_def MeterEgressGiB_def MeterGPUSecond_def

record Rates =
  rt_VCPUSecond :: rat
  rt_MemGiBSecond :: rat
  rt_StorageGiBHour :: rat
  rt_EgressGiB :: rat
  rt_GPUSecond :: rat

definition DefaultRates :: Rates where
  "DefaultRates =
     \<lparr>rt_VCPUSecond = f64 (128 / 100), rt_MemGiBSecond = f64 (16 / 100), rt_StorageGiBHour = 10, rt_EgressGiB = 9000,
      rt_GPUSecond = 60\<rparr>"

record PriceList =
  pl_VCPUSecond :: rat
  pl_MemGiBSecond :: rat
  pl_StorageGiBHour :: rat
  pl_EgressGiB :: rat
  pl_GPUSecond :: rat

definition DefaultPriceList :: PriceList where
  "DefaultPriceList =
     \<lparr>pl_VCPUSecond = f64 (128 / 10000000), pl_MemGiBSecond = f64 (16 / 10000000), pl_StorageGiBHour = f64 (1 / 10000),
      pl_EgressGiB = f64 (9 / 100), pl_GPUSecond = f64 (6 / 10000)\<rparr>"

definition FromPriceList :: "PriceList \<Rightarrow> Rates" where
  "FromPriceList pl =
     \<lparr>rt_VCPUSecond = f64 (pl_VCPUSecond pl * 100000), rt_MemGiBSecond = f64 (pl_MemGiBSecond pl * 100000),
      rt_StorageGiBHour = f64 (pl_StorageGiBHour pl * 100000), rt_EgressGiB = f64 (pl_EgressGiB pl * 100000),
      rt_GPUSecond = f64 (pl_GPUSecond pl * 100000)\<rparr>"

definition ToPriceList :: "Rates \<Rightarrow> PriceList" where
  "ToPriceList r =
     \<lparr>pl_VCPUSecond = f64 (rt_VCPUSecond r / 100000), pl_MemGiBSecond = f64 (rt_MemGiBSecond r / 100000),
      pl_StorageGiBHour = f64 (rt_StorageGiBHour r / 100000), pl_EgressGiB = f64 (rt_EgressGiB r / 100000),
      pl_GPUSecond = f64 (rt_GPUSecond r / 100000)\<rparr>"

definition QuantityFor :: "MeterUnit \<Rightarrow> UsageRecord \<Rightarrow> rat" where
  "QuantityFor unit' rec =
     (if unit' = MeterVCPUSecond then ur_VCPUSeconds rec
      else if unit' = MeterMemGiBSecond then ur_MemGiBSeconds rec
      else if unit' = MeterStorageGiBHour then ur_StorageGiBHours rec
      else if unit' = MeterEgressGiB then f64 (f64 (of_int (ur_EgressBytes rec)) / bytesPerGiB)
      else if unit' = MeterGPUSecond then f64 (of_int (ur_GPUSeconds rec))
      else 0)"

definition AllMeters :: "MeterUnit list" where
  "AllMeters = [MeterVCPUSecond, MeterMemGiBSecond, MeterStorageGiBHour, MeterEgressGiB, MeterGPUSecond]"

definition CostMilliCents :: "Rates \<Rightarrow> UsageRecord \<Rightarrow> int" where
  "CostMilliCents r rec =
     (let milliCents =
            f64 (f64 (f64 (f64 (f64 (QuantityFor MeterVCPUSecond rec * rt_VCPUSecond r) +
              f64 (QuantityFor MeterMemGiBSecond rec * rt_MemGiBSecond r)) +
              f64 (QuantityFor MeterStorageGiBHour rec * rt_StorageGiBHour r)) +
              f64 (QuantityFor MeterEgressGiB rec * rt_EgressGiB r)) +
              f64 (QuantityFor MeterGPUSecond rec * rt_GPUSecond r));
          m = trunc_i64 (math_Round milliCents)
      in if m < 0 then 0 else m)"

definition CostCents :: "Rates \<Rightarrow> UsageRecord \<Rightarrow> Money" where
  "CostCents r rec = quot (i64 (CostMilliCents r rec + 500)) 1000"

section \<open>The metered push\<close>

record UsageEvent =
  ue_CustomerID :: string
  ue_Unit :: MeterUnit
  ue_Quantity :: rat
  ue_IdempotencyKey :: string

record FakeStripe =
  fs_reported :: "string \<rightharpoonup> UsageEvent"
  fs_prices :: "MeterUnit \<rightharpoonup> string"
  fs_customers :: "string \<rightharpoonup> string"
  fs_subs :: "string \<rightharpoonup> string"
  fs_invoices :: "string list"
  fs_hasPayment :: "string \<Rightarrow> bool"
  fs_failReportFor :: "string \<Rightarrow> int"

definition NewFakeStripe :: FakeStripe where
  "NewFakeStripe =
     \<lparr>fs_reported = Map.empty, fs_prices = Map.empty, fs_customers = Map.empty, fs_subs = Map.empty, fs_invoices = [],
      fs_hasPayment = (\<lambda>c. False), fs_failReportFor = (\<lambda>k. 0)\<rparr>"

definition ArmReportFailure :: "FakeStripe \<Rightarrow> string \<Rightarrow> int \<Rightarrow> FakeStripe" where
  "ArmReportFailure f key n = f\<lparr>fs_failReportFor := (fs_failReportFor f)(key := n)\<rparr>"

definition SetPaymentMethod :: "FakeStripe \<Rightarrow> string \<Rightarrow> bool \<Rightarrow> FakeStripe" where
  "SetPaymentMethod f customerID ok = f\<lparr>fs_hasPayment := (fs_hasPayment f)(customerID := ok)\<rparr>"

definition ReportedCount :: "FakeStripe \<Rightarrow> nat" where
  "ReportedCount f = card (dom (fs_reported f))"

definition EnsureProductAndPrice :: "FakeStripe \<Rightarrow> MeterUnit \<Rightarrow> string \<times> FakeStripe" where
  "EnsureProductAndPrice f u =
     (case fs_prices f u of
        Some i \<Rightarrow> (i, f)
      | None \<Rightarrow> (let i = ''price_'' @ u in (i, f\<lparr>fs_prices := (fs_prices f)(u \<mapsto> i)\<rparr>)))"

definition EnsureCustomer :: "FakeStripe \<Rightarrow> string \<Rightarrow> string \<times> FakeStripe" where
  "EnsureCustomer f orgID =
     (case fs_customers f orgID of
        Some i \<Rightarrow> (i, f)
      | None \<Rightarrow> (let i = ''cus_'' @ orgID in (i, f\<lparr>fs_customers := (fs_customers f)(orgID \<mapsto> i)\<rparr>)))"

definition ReportUsage :: "FakeStripe \<Rightarrow> UsageEvent \<Rightarrow> (string, unit) result \<times> FakeStripe" where
  "ReportUsage f ev =
     (let k = ue_IdempotencyKey ev; n = fs_failReportFor f k
      in if n > 0 then (Inl ''fake stripe report failed'', f\<lparr>fs_failReportFor := (fs_failReportFor f)(k := i64 (n - 1))\<rparr>)
         else (Inr (), f\<lparr>fs_reported := (fs_reported f)(k \<mapsto> ev)\<rparr>))"

definition CreateSubscription :: "FakeStripe \<Rightarrow> string \<Rightarrow> string \<times> FakeStripe" where
  "CreateSubscription f customerID =
     (case fs_subs f customerID of
        Some i \<Rightarrow> (i, f)
      | None \<Rightarrow> (let i = ''sub_'' @ customerID in (i, f\<lparr>fs_subs := (fs_subs f)(customerID \<mapsto> i)\<rparr>)))"

definition CreateInvoice :: "FakeStripe \<Rightarrow> string \<Rightarrow> string \<times> FakeStripe" where
  "CreateInvoice f customerID =
     (let i = ''in_'' @ customerID in (i, f\<lparr>fs_invoices := fs_invoices f @ [i]\<rparr>))"

definition IdempotencyKey :: "UsageRecord \<Rightarrow> MeterUnit \<Rightarrow> string" where
  "IdempotencyKey rec u = ur_OrgID rec @ ''|'' @ ur_SandboxID rec @ ''|'' @ rfc3339_nano (ur_Window rec) @ ''|'' @ u"

text \<open>The loop over the meters; the count of reported events is returned with an error too.\<close>

fun push_meters :: "FakeStripe \<Rightarrow> string \<Rightarrow> UsageRecord \<Rightarrow> MeterUnit list \<Rightarrow> nat \<Rightarrow> nat \<times> string option \<times> FakeStripe" where
  "push_meters f customerID rec [] n = (n, None, f)"
| "push_meters f customerID rec (u # us) n =
     (let q = QuantityFor u rec
      in if q \<le> 0 then push_meters f customerID rec us n
         else case ReportUsage f \<lparr>ue_CustomerID = customerID, ue_Unit = u, ue_Quantity = q, ue_IdempotencyKey = IdempotencyKey rec u\<rparr> of
                (Inl e, f') \<Rightarrow> (n, Some e, f')
              | (Inr _, f') \<Rightarrow> push_meters f' customerID rec us (n + 1))"

definition PushUsage :: "FakeStripe \<Rightarrow> UsageRecord \<Rightarrow> nat \<times> string option \<times> FakeStripe" where
  "PushUsage f rec = (case EnsureCustomer f (ur_OrgID rec) of (customerID, f') \<Rightarrow> push_meters f' customerID rec AllMeters 0)"

section \<open>The service and its seams\<close>

datatype billing_error = OfLedger string ledger_error | OfSeam string string | ErrWebhookSignature string

record BudgetAlertEvent =
  ba_OrgID :: string
  ba_SoftCap :: Money
  ba_HardCap :: Money
  ba_Spend :: Money
  ba_At :: time

record SpendCap =
  sc_OrgID :: string
  sc_SoftCap :: Money
  sc_HardCap :: Money

type_synonym BillingStatus = string
type_synonym DunningEvent = string

definition StatusActive :: BillingStatus where "StatusActive = ''active''"
definition StatusPastDue :: BillingStatus where "StatusPastDue = ''past_due''"
definition StatusSuspended :: BillingStatus where "StatusSuspended = ''suspended''"
definition EventPaymentSucceeded :: DunningEvent where "EventPaymentSucceeded = ''payment_succeeded''"
definition EventPaymentFailed :: DunningEvent where "EventPaymentFailed = ''payment_failed''"
definition EventRetriesExhausted :: DunningEvent where "EventRetriesExhausted = ''retries_exhausted''"
definition EventSuspend :: DunningEvent where "EventSuspend = ''suspend''"

lemmas status_defs = StatusActive_def StatusPastDue_def StatusSuspended_def
  EventPaymentSucceeded_def EventPaymentFailed_def EventRetriesExhausted_def EventSuspend_def

text \<open>
  A nil suspender or alert sink is \<open>None\<close>. The suspender works on the state of whatever
  implements it; the alert sink answers, and the events handed to it are kept in the state.
\<close>

type_synonym 'k Suspender = "'k \<Rightarrow> string \<Rightarrow> string \<Rightarrow> string \<Rightarrow> bool \<Rightarrow> (string, unit) result \<times> 'k"

record ('l, 'k) Service =
  sv_ledger :: "'l CreditLedger"
  sv_suspend :: "'k Suspender option"
  sv_alerts :: "(BudgetAlertEvent \<Rightarrow> (string, unit) result) option"
  sv_rates :: Rates

record ('l, 'k) billing_state =
  st_ledger :: 'l
  st_caps :: "string \<rightharpoonup> SpendCap"
  st_status :: "string \<rightharpoonup> BillingStatus"
  st_kill :: 'k
  st_alerted :: "BudgetAlertEvent list"

definition caps_Get :: "(string \<rightharpoonup> SpendCap) \<Rightarrow> string \<Rightarrow> SpendCap option" where
  "caps_Get m orgID = m orgID"

definition caps_Set :: "(string \<rightharpoonup> SpendCap) \<Rightarrow> SpendCap \<Rightarrow> string \<rightharpoonup> SpendCap" where
  "caps_Set m cap = m(sc_OrgID cap \<mapsto> cap)"

definition status_Status :: "(string \<rightharpoonup> BillingStatus) \<Rightarrow> string \<Rightarrow> BillingStatus" where
  "status_Status m orgID = (case m orgID of Some st \<Rightarrow> st | None \<Rightarrow> StatusActive)"

definition status_SetStatus :: "(string \<rightharpoonup> BillingStatus) \<Rightarrow> string \<Rightarrow> BillingStatus \<Rightarrow> string \<rightharpoonup> BillingStatus" where
  "status_SetStatus m orgID st = m(orgID \<mapsto> st)"

definition SetSpendCap :: "('l, 'k) billing_state \<Rightarrow> SpendCap \<Rightarrow> ('l, 'k) billing_state" where
  "SetSpendCap s cap = s\<lparr>st_caps := caps_Set (st_caps s) cap\<rparr>"

section \<open>Drawdown\<close>

record DrawdownResult =
  dr_Cost :: Money
  dr_FromCredit :: Money
  dr_Remaining :: Money
  dr_CarriedMilliCents :: int
  dr_Replayed :: bool

definition zero_drawdown :: DrawdownResult where
  "zero_drawdown = \<lparr>dr_Cost = 0, dr_FromCredit = 0, dr_Remaining = 0, dr_CarriedMilliCents = 0, dr_Replayed = False\<rparr>"

definition usageKey :: "UsageRecord \<Rightarrow> string" where
  "usageKey rec = DrawdownKey (ur_OrgID rec) (ur_SandboxID rec) (ur_Window rec)"

definition priorDrawdownCredit :: "'l CreditLedger \<Rightarrow> 'l \<Rightarrow> UsageRecord \<Rightarrow> (billing_error, Money) result" where
  "priorDrawdownCredit C l rec =
     (case cl_Entries C l (ur_OrgID rec) of
        Inl e \<Rightarrow> Inl (OfLedger ''read ledger for prior drawdown'' e)
      | Inr entries \<Rightarrow>
          Inr (case find (\<lambda>e. le_Kind e = KindUsageDrawdown \<and> le_Key e = usageKey rec) entries of
                 Some e \<Rightarrow> if le_Amount e < 0 then i64 (- le_Amount e) else 0
               | None \<Rightarrow> 0))"

definition Drawdown ::
  "'l CreditLedger \<Rightarrow> Rates \<Rightarrow> time \<Rightarrow> 'l \<Rightarrow> UsageRecord \<Rightarrow> (billing_error, DrawdownResult) result \<times> 'l" where
  "Drawdown C rates now l rec =
     (let costMilli = CostMilliCents rates rec
      in if costMilli = 0 then (Inr zero_drawdown, l)
         else
      case cl_Remainder C l (ur_OrgID rec) of
        Inl e \<Rightarrow> (Inl (OfLedger ''read drawdown remainder'' e), l)
      | Inr carried \<Rightarrow>
      let totalMilli = i64 (carried + costMilli);
          cost = quot (i64 (totalMilli + 500)) 1000;
          newCarry = i64 (totalMilli - i64 (cost * 1000))
      in case cl_Balance C l (ur_OrgID rec) of
        Inl e \<Rightarrow> (Inl (OfLedger ''balance'' e), l)
      | Inr bal \<Rightarrow>
      let fromCredit = (if cost > bal then bal else cost);
          fromCredit' = (if fromCredit < 0 then 0 else fromCredit)
      in case cl_SettleWindow C l
                \<lparr>le_OrgID = ur_OrgID rec, le_Kind = KindUsageDrawdown, le_Amount = i64 (- fromCredit'), le_Key = usageKey rec,
                 le_At = now, le_Note = ''usage drawdown''\<rparr> newCarry
                \<lparr>pw_OrgID = ur_OrgID rec, pw_SandboxID = ur_SandboxID rec, pw_Window = ur_Window rec\<rparr> of
        (Inl ErrDuplicateEntry, l') \<Rightarrow>
          (case priorDrawdownCredit C l' rec of
             Inl e \<Rightarrow> (Inl e, l')
           | Inr prior \<Rightarrow>
               (Inr \<lparr>dr_Cost = prior, dr_FromCredit = prior, dr_Remaining = 0, dr_CarriedMilliCents = carried, dr_Replayed = True\<rparr>, l'))
      | (Inl e, l') \<Rightarrow> (Inl (OfLedger ''append drawdown'' e), l')
      | (Inr _, l') \<Rightarrow>
          (Inr \<lparr>dr_Cost = cost, dr_FromCredit = fromCredit', dr_Remaining = i64 (cost - fromCredit'),
                dr_CarriedMilliCents = newCarry, dr_Replayed = False\<rparr>, l'))"

section \<open>Spend caps\<close>

definition EnforceSpendCap ::
  "('l, 'k) Service \<Rightarrow> time \<Rightarrow> ('l, 'k) billing_state \<Rightarrow> string \<Rightarrow> Money \<Rightarrow> bool \<times> billing_error option \<times> ('l, 'k) billing_state" where
  "EnforceSpendCap sv now s orgID periodSpend =
     (case caps_Get (st_caps s) orgID of
        None \<Rightarrow> (False, None, s)
      | Some cap \<Rightarrow>
          if sc_HardCap cap > 0 \<and> periodSpend \<ge> sc_HardCap cap then
            (let note = ''hard spend cap reached: spend '' @ dec_int periodSpend @ '' cents >= cap '' @ dec_int (sc_HardCap cap) @ '' cents'';
                 (r, k) = (case sv_suspend sv of
                             None \<Rightarrow> (Inr (), st_kill s)
                           | Some susp \<Rightarrow> susp (st_kill s) orgID ''spend_cap'' note False)
             in case r of
                  Inl e \<Rightarrow> (False, Some (OfSeam ''suspend on spend cap'' e), s\<lparr>st_kill := k\<rparr>)
                | Inr _ \<Rightarrow> (True, None, s\<lparr>st_kill := k, st_status := status_SetStatus (st_status s) orgID StatusSuspended\<rparr>))
          else if sc_SoftCap cap > 0 \<and> periodSpend \<ge> sc_SoftCap cap then
            (case sv_alerts sv of
               None \<Rightarrow> (False, None, s)
             | Some alert \<Rightarrow>
                 let ev = \<lparr>ba_OrgID = orgID, ba_SoftCap = sc_SoftCap cap, ba_HardCap = sc_HardCap cap, ba_Spend = periodSpend, ba_At = now\<rparr>
                 in (False, (case alert ev of Inl e \<Rightarrow> Some (OfSeam ''budget alert'' e) | Inr _ \<Rightarrow> None),
                     s\<lparr>st_alerted := st_alerted s @ [ev]\<rparr>))
          else (False, None, s))"

definition spend_window :: "time \<Rightarrow> LedgerEntry list \<Rightarrow> time" where
  "spend_window periodStart entries =
     foldl (\<lambda>w e. if le_Kind e = KindTopUp \<and> le_Amount e > 0 \<and> \<not> le_At e < periodStart \<and> w < le_At e then le_At e else w)
       periodStart entries"

definition window_spend :: "time \<Rightarrow> LedgerEntry list \<Rightarrow> Money" where
  "window_spend windowStart entries =
     foldl (\<lambda>x e. if le_Kind e = KindUsageDrawdown \<and> le_Amount e < 0 \<and> \<not> le_At e < windowStart then i64 (x + i64 (- le_Amount e)) else x)
       0 entries"

definition EnforceSpendCapFromLedger ::
  "('l, 'k) Service \<Rightarrow> time \<Rightarrow> ('l, 'k) billing_state \<Rightarrow> string \<Rightarrow> bool \<times> billing_error option \<times> ('l, 'k) billing_state" where
  "EnforceSpendCapFromLedger sv now s orgID =
     (case caps_Get (st_caps s) orgID of
        None \<Rightarrow> (False, None, s)
      | Some cap \<Rightarrow>
          if sc_HardCap cap \<le> 0 \<and> sc_SoftCap cap \<le> 0 then (False, None, s)
          else
            let periodStart = month_start now
            in case (case cl_EntriesSince (sv_ledger sv) of
                       Some f \<Rightarrow> f (st_ledger s) orgID periodStart
                     | None \<Rightarrow> cl_Entries (sv_ledger sv) (st_ledger s) orgID) of
                 Inl e \<Rightarrow> (False, Some (OfLedger ''read ledger for spend cap'' e), s)
               | Inr entries \<Rightarrow> EnforceSpendCap sv now s orgID (window_spend (spend_window periodStart entries) entries))"

section \<open>Dunning\<close>

definition NextStatus :: "BillingStatus \<Rightarrow> DunningEvent \<Rightarrow> BillingStatus" where
  "NextStatus s ev =
     (if ev = EventPaymentSucceeded then StatusActive
      else if ev = EventSuspend \<or> ev = EventRetriesExhausted then StatusSuspended
      else if ev = EventPaymentFailed then
        (if s = StatusActive then StatusPastDue else if s = StatusPastDue then StatusPastDue
         else if s = StatusSuspended then StatusSuspended else s)
      else s)"

definition applyDunning ::
  "('l, 'k) Service \<Rightarrow> ('l, 'k) billing_state \<Rightarrow> string \<Rightarrow> DunningEvent \<Rightarrow>
     (BillingStatus \<times> billing_error option) \<times> ('l, 'k) billing_state" where
  "applyDunning sv s orgID ev =
     (let cur = status_Status (st_status s) orgID;
          next = NextStatus cur ev;
          (r, k) = (case sv_suspend sv of
                      Some susp \<Rightarrow> if next = StatusSuspended \<and> cur \<noteq> StatusSuspended
                                    then susp (st_kill s) orgID ''dunning'' (''dunning: '' @ ev) False else (Inr (), st_kill s)
                    | None \<Rightarrow> (Inr (), st_kill s))
      in case r of
           Inl e \<Rightarrow> ((cur, Some (OfSeam ''suspend on dunning'' e)), s\<lparr>st_kill := k\<rparr>)
         | Inr _ \<Rightarrow> ((next, None), s\<lparr>st_kill := k, st_status := status_SetStatus (st_status s) orgID next\<rparr>))"

section \<open>Webhooks\<close>

type_synonym WebhookEventType = string

definition EventTypePaymentSucceeded :: WebhookEventType where "EventTypePaymentSucceeded = ''invoice.payment_succeeded''"
definition EventTypePaymentFailed :: WebhookEventType where "EventTypePaymentFailed = ''invoice.payment_failed''"

record WebhookEvent =
  we_OrgID :: string
  we_Type :: WebhookEventType

definition dunningEventFor :: "WebhookEventType \<Rightarrow> DunningEvent option" where
  "dunningEventFor t =
     (if t = EventTypePaymentSucceeded then Some EventPaymentSucceeded
      else if t = EventTypePaymentFailed then Some EventPaymentFailed else None)"

text \<open>\<open>verify\<close> is the signature verifier of the deployment, on the payload and the signature header.\<close>

definition webhook_Handle ::
  "('l, 'k) Service \<Rightarrow> (bytes \<Rightarrow> string \<Rightarrow> (string, WebhookEvent) result) \<Rightarrow> ('l, 'k) billing_state \<Rightarrow> bytes \<Rightarrow> string \<Rightarrow>
     (BillingStatus \<times> billing_error option) \<times> ('l, 'k) billing_state" where
  "webhook_Handle sv verify s payload signatureHeader =
     (case verify payload signatureHeader of
        Inl e \<Rightarrow> (([], Some (ErrWebhookSignature e)), s)
      | Inr ev \<Rightarrow>
          (case dunningEventFor (we_Type ev) of
             None \<Rightarrow> ((status_Status (st_status s) (we_OrgID ev), None), s)
           | Some dev \<Rightarrow> applyDunning sv s (we_OrgID ev) dev))"

text \<open>The status code of the HTTP entry point; a failed read of the body is \<open>None\<close>.\<close>

definition webhook_ServeHTTP ::
  "('l, 'k) Service \<Rightarrow> (bytes \<Rightarrow> string \<Rightarrow> (string, WebhookEvent) result) \<Rightarrow> ('l, 'k) billing_state \<Rightarrow> string \<Rightarrow> bytes option \<Rightarrow> string \<Rightarrow>
     nat \<times> ('l, 'k) billing_state" where
  "webhook_ServeHTTP sv verify s meth body sig =
     (if meth \<noteq> ''POST'' then (404, s)
      else case body of
             None \<Rightarrow> (400, s)
           | Some payload \<Rightarrow>
               (case webhook_Handle sv verify s (take (2 ^ 20) payload) sig of
                  ((st, None), s') \<Rightarrow> (200, s')
                | ((st, Some (ErrWebhookSignature e)), s') \<Rightarrow> (401, s')
                | ((st, Some e), s') \<Rightarrow> (500, s')))"

section \<open>Plans\<close>

type_synonym Plan = string

definition PlanFree :: Plan where "PlanFree = ''free''"
definition PlanTeam :: Plan where "PlanTeam = ''team''"

record Entitlements =
  en_SSOEnforced :: bool
  en_SCIM :: bool
  en_AuditStreaming :: bool
  en_AuditRetentionDays :: int
  en_SeatPriceCents :: int

definition EntitlementsFor :: "Plan \<Rightarrow> string \<Rightarrow> Entitlements" where
  "EntitlementsFor plan edition =
     (if edition = ''community''
      then \<lparr>en_SSOEnforced = True, en_SCIM = True, en_AuditStreaming = True, en_AuditRetentionDays = 0, en_SeatPriceCents = 0\<rparr>
      else if plan = PlanTeam
      then \<lparr>en_SSOEnforced = True, en_SCIM = True, en_AuditStreaming = True, en_AuditRetentionDays = 365, en_SeatPriceCents = 2000\<rparr>
      else \<lparr>en_SSOEnforced = False, en_SCIM = False, en_AuditStreaming = False, en_AuditRetentionDays = 30, en_SeatPriceCents = 0\<rparr>)"

record StaticPlanSource =
  sp_Default :: Plan
  sp_Teams :: "string set"

definition NewStaticPlanSource :: "string list \<Rightarrow> StaticPlanSource" where
  "NewStaticPlanSource teamOrgIDs = \<lparr>sp_Default = PlanFree, sp_Teams = set (filter (\<lambda>i. i \<noteq> []) teamOrgIDs)\<rparr>"

definition GetPlan :: "StaticPlanSource \<Rightarrow> string \<Rightarrow> Plan" where
  "GetPlan s orgID = (if orgID \<in> sp_Teams s then PlanTeam else if sp_Default s = [] then PlanFree else sp_Default s)"

section \<open>One drawdown\<close>

lemma CostMilliCents_nonneg: "0 \<le> CostMilliCents r rec"
  by (simp add: CostMilliCents_def Let_def)

lemma half_up:
  fixes t :: int
  assumes "- 500 \<le> t"
  shows "quot (t + 500) 1000 * 1000 + (t - quot (t + 500) 1000 * 1000) = t"
    and "- 500 \<le> t - quot (t + 500) 1000 * 1000" "t - quot (t + 500) 1000 * 1000 < 500" "0 \<le> quot (t + 500) 1000"
proof -
  have q: "quot (t + 500) 1000 = (t + 500) div 1000" using assms by (simp add: quot_nonneg)
  show "quot (t + 500) 1000 * 1000 + (t - quot (t + 500) 1000 * 1000) = t" by simp
  show "- 500 \<le> t - quot (t + 500) 1000 * 1000" "t - quot (t + 500) 1000 * 1000 < 500" "0 \<le> quot (t + 500) 1000"
    using assms div_mult_mod_eq [of "t + 500" 1000] pos_mod_bound [of 1000 "t + 500"] pos_mod_sign [of 1000 "t + 500"]
    unfolding q by linarith+
qed

text \<open>The parts of a settlement: the whole cents of the carry and the cost, and what the balance covers.\<close>

definition settle_cents :: "int \<Rightarrow> int \<Rightarrow> int" where
  "settle_cents carried costMilli = quot (carried + costMilli + 500) 1000"

definition covered :: "int \<Rightarrow> int \<Rightarrow> int" where
  "covered bal cost = max 0 (min cost bal)"

definition drawdown_entry :: "time \<Rightarrow> UsageRecord \<Rightarrow> int \<Rightarrow> LedgerEntry" where
  "drawdown_entry now rec fromCredit =
     \<lparr>le_OrgID = ur_OrgID rec, le_Kind = KindUsageDrawdown, le_Amount = - fromCredit, le_Key = usageKey rec,
      le_At = now, le_Note = ''usage drawdown''\<rparr>"

definition drawdown_window :: "UsageRecord \<Rightarrow> ProcessedWindow" where
  "drawdown_window rec = \<lparr>pw_OrgID = ur_OrgID rec, pw_SandboxID = ur_SandboxID rec, pw_Window = ur_Window rec\<rparr>"

lemma WindowKey_usageKey: "WindowKey (drawdown_window rec) = usageKey rec"
  by (simp add: WindowKey_def drawdown_window_def usageKey_def)

lemma Drawdown_unfold:
  assumes "CostMilliCents rates rec \<noteq> 0" "cl_Remainder C l (ur_OrgID rec) = Inr carried" "cl_Balance C l (ur_OrgID rec) = Inr bal"
    and "- 500 \<le> carried" "carried < 500" "CostMilliCents rates rec < 2 ^ 62" "in_i64 bal"
  defines "cost \<equiv> settle_cents carried (CostMilliCents rates rec)"
  defines "fc \<equiv> covered bal cost" and "carry \<equiv> carried + CostMilliCents rates rec - cost * 1000"
  shows "Drawdown C rates now l rec =
     (case cl_SettleWindow C l (drawdown_entry now rec fc) carry (drawdown_window rec) of
        (Inl ErrDuplicateEntry, l') \<Rightarrow>
          (case priorDrawdownCredit C l' rec of
             Inl e \<Rightarrow> (Inl e, l')
           | Inr prior \<Rightarrow>
               (Inr \<lparr>dr_Cost = prior, dr_FromCredit = prior, dr_Remaining = 0, dr_CarriedMilliCents = carried, dr_Replayed = True\<rparr>, l'))
      | (Inl e, l') \<Rightarrow> (Inl (OfLedger ''append drawdown'' e), l')
      | (Inr _, l') \<Rightarrow>
          (Inr \<lparr>dr_Cost = cost, dr_FromCredit = fc, dr_Remaining = cost - fc, dr_CarriedMilliCents = carry, dr_Replayed = False\<rparr>, l'))"
proof -
  let ?m = "CostMilliCents rates rec"
  have m: "0 < ?m" using assms(1) CostMilliCents_nonneg [of rates rec] by simp
  have t: "i64 (carried + ?m) = carried + ?m" "i64 (carried + ?m + 500) = carried + ?m + 500"
    using assms(4-6) m by (simp_all add: wrap_simps in_i64_def)
  note h = half_up [of "carried + ?m"]
  have c: "0 \<le> cost" "cost \<le> ?m" "- 500 \<le> carry" "carry < 500"
    using h(2-4) assms(4,5) m unfolding cost_def carry_def settle_cents_def by simp_all
  then have w: "i64 (cost * 1000) = cost * 1000" "i64 (carried + ?m - cost * 1000) = carry"
    using assms(4-6) m unfolding carry_def by (simp_all add: wrap_simps in_i64_def)
  have f: "0 \<le> fc" "fc \<le> cost" using c(1) unfolding fc_def covered_def by simp_all
  have g: "(let fromCredit = (if cost > bal then bal else cost) in if fromCredit < 0 then 0 else fromCredit) = fc"
    using c(1) by (simp add: fc_def covered_def Let_def min_def max_def)
  have n: "i64 (- fc) = - fc" "i64 (cost - fc) = cost - fc" using f c assms(6) by (simp_all add: wrap_simps in_i64_def)
  show ?thesis
    unfolding Drawdown_def Let_def assms(2,3) sum.case t cost_def [unfolded settle_cents_def, symmetric] w
      g [unfolded Let_def] n drawdown_entry_def [symmetric] drawdown_window_def [symmetric]
    using assms(1) by simp
qed

definition keyed :: "ledger_view \<Rightarrow> UsageRecord \<Rightarrow> bool" where
  "keyed v rec \<longleftrightarrow> lv_marks v (ur_OrgID rec, usageKey rec) \<noteq> None \<or> usageKey rec \<in> le_Key ` set (lv_entries v (ur_OrgID rec))"

definition carry_ok :: "ledger_view \<Rightarrow> bool" where
  "carry_ok v \<longleftrightarrow> (\<forall>orgID. - 500 \<le> lv_remainder v orgID \<and> lv_remainder v orgID < 500)"

definition settled_now :: "Rates \<Rightarrow> UsageRecord \<Rightarrow> (billing_error, DrawdownResult) result \<Rightarrow> bool" where
  "settled_now rates rec r \<longleftrightarrow> CostMilliCents rates rec \<noteq> 0 \<and> (case r of Inl _ \<Rightarrow> False | Inr d \<Rightarrow> \<not> dr_Replayed d)"

text \<open>
  What a settlement does to the view: the carry and the cost turn into whole cents and a new
  carry, the balance pays what it can, and the window is marked.
\<close>

definition settlement :: "Rates \<Rightarrow> ledger_view \<Rightarrow> UsageRecord \<Rightarrow> DrawdownResult \<Rightarrow> ledger_view \<Rightarrow> bool" where
  "settlement rates v rec d v' \<longleftrightarrow>
     1000 * dr_Cost d + dr_CarriedMilliCents d = lv_remainder v (ur_OrgID rec) + CostMilliCents rates rec \<and>
     - 500 \<le> dr_CarriedMilliCents d \<and> dr_CarriedMilliCents d < 500 \<and> 0 \<le> dr_Cost d \<and>
     dr_FromCredit d + dr_Remaining d = dr_Cost d \<and> 0 \<le> dr_Remaining d \<and>
     dr_FromCredit d = covered (spec_balance v (ur_OrgID rec)) (dr_Cost d) \<and>
     lv_remainder v' = (lv_remainder v)(ur_OrgID rec := dr_CarriedMilliCents d) \<and>
     lv_marks v' = (lv_marks v)((ur_OrgID rec, usageKey rec) \<mapsto> ur_Window rec) \<and>
     spec_balance v' = (spec_balance v)(ur_OrgID rec := spec_balance v (ur_OrgID rec) - dr_FromCredit d) \<and>
     (\<forall>orgID. le_Key ` set (lv_entries v' orgID) \<subseteq>
        le_Key ` set (lv_entries v orgID) \<union> (if orgID = ur_OrgID rec then {usageKey rec} else {})) \<and>
     (\<forall>orgID. set (lv_entries v orgID) \<subseteq> set (lv_entries v' orgID))"

lemma spec_settle_settlement:
  assumes "spec_settle v (drawdown_entry now rec fc) carry (drawdown_window rec) = (Inr (), v')"
    and "fc = covered (spec_balance v (ur_OrgID rec)) cost" "0 \<le> cost"
    and "1000 * cost + carry = lv_remainder v (ur_OrgID rec) + CostMilliCents rates rec" "- 500 \<le> carry" "carry < 500"
  shows "settlement rates v rec
      \<lparr>dr_Cost = cost, dr_FromCredit = fc, dr_Remaining = cost - fc, dr_CarriedMilliCents = carry, dr_Replayed = False\<rparr> v' \<and>
    lv_marks v (ur_OrgID rec, usageKey rec) = None"
proof -
  let ?e = "drawdown_entry now rec fc"
  have free: "lv_marks v (ur_OrgID rec, usageKey rec) = None"
    and v': "v' = (if le_Amount ?e \<noteq> 0 then add_entry ?e v else v)
        \<lparr>lv_marks := (lv_marks v)((ur_OrgID rec, usageKey rec) \<mapsto> ur_Window rec),
         lv_remainder := (lv_remainder v)(ur_OrgID rec := carry)\<rparr>"
    using assms(1) WindowKey_usageKey [of rec]
    by (auto simp: spec_settle_def drawdown_window_def drawdown_entry_def split: if_splits)
  have e: "lv_entries v' = (if fc = 0 then lv_entries v else (lv_entries v)(ur_OrgID rec := lv_entries v (ur_OrgID rec) @ [?e]))"
    by (simp add: v' add_entry_def drawdown_entry_def)
  have "spec_balance v' = (spec_balance v)(ur_OrgID rec := spec_balance v (ur_OrgID rec) - fc)"
    by (auto simp: fun_eq_iff spec_balance_def e drawdown_entry_def)
  moreover have "0 \<le> cost - fc" using assms(2,3) by (simp add: covered_def)
  moreover have "lv_marks v' = (lv_marks v)((ur_OrgID rec, usageKey rec) \<mapsto> ur_Window rec)"
    "lv_remainder v' = (lv_remainder v)(ur_OrgID rec := carry)" by (simp_all add: v')
  ultimately show ?thesis using assms(2-6) free by (simp add: settlement_def e) (simp add: drawdown_entry_def subset_insertI)
qed

context credit_ledger
begin

lemma drawdown_step:
  assumes "inv l" "org_ok (ur_OrgID rec)" "Drawdown C rates now l rec = (r, l')"
    and "carry_ok (view l)" "CostMilliCents rates rec < 2 ^ 62" "in_i64 (spec_balance (view l) (ur_OrgID rec))"
  shows "inv l' \<and> (\<not> settled_now rates rec r \<longrightarrow> view l' = view l) \<and>
    (\<forall>d. r = Inr d \<and> dr_Replayed d \<longrightarrow> dr_Remaining d = 0 \<and> keyed (view l) rec) \<and>
    (\<forall>d. r = Inr d \<and> settled_now rates rec r \<longrightarrow>
       settlement rates (view l) rec d (view l') \<and> lv_marks (view l) (ur_OrgID rec, usageKey rec) = None)"
proof -
  let ?m = "CostMilliCents rates rec" and ?o = "ur_OrgID rec"
  show ?thesis
  proof (cases "?m = 0 \<or> isl (cl_Remainder C l ?o) \<or> isl (cl_Balance C l ?o)")
    case True
    then show ?thesis using assms(1,3)
      by (cases "cl_Remainder C l ?o"; cases "cl_Balance C l ?o"; cases "?m = 0")
        (auto simp: Drawdown_def zero_drawdown_def settled_now_def Let_def)
  next
    case False
    then obtain carried bal where rb: "cl_Remainder C l ?o = Inr carried" "cl_Balance C l ?o = Inr bal"
      by (auto simp: isl_def) (metis sum.exhaust)
    have c: "carried = lv_remainder (view l) ?o" "- 500 \<le> carried" "carried < 500"
      using remainder [OF assms(1) rb(1)] assms(4) by (simp_all add: carry_ok_def)
    have b: "bal = spec_balance (view l) ?o" using balance [OF assms(1) rb(2)] assms(6) by (simp add: wrap_simps)
    let ?cost = "settle_cents carried ?m"
    let ?fc = "covered bal ?cost" and ?carry = "carried + ?m - ?cost * 1000"
    have m: "0 < ?m" using False CostMilliCents_nonneg [of rates rec] by simp
    have cost: "0 \<le> ?cost" "- 500 \<le> ?carry" "?carry < 500"
      using half_up(2-4) [of "carried + ?m"] c(2) m by (simp_all add: settle_cents_def)
    obtain q l1 where s: "cl_SettleWindow C l (drawdown_entry now rec ?fc) ?carry (drawdown_window rec) = (q, l1)" by fastforce
    have st: "inv l1 \<and> ((q, view l1) = spec_settle (view l) (drawdown_entry now rec ?fc) ?carry (drawdown_window rec) \<or>
        (\<exists>x. q = Inl (LedgerFailure x)) \<and> view l1 = view l)"
      by (rule settle [OF assms(1) _ _ s]) (use assms(2) in \<open>simp_all add: drawdown_entry_def drawdown_window_def\<close>)
    note unf = Drawdown_unfold [OF _ rb c(2,3) assms(5), of now, unfolded s prod.case]
    show ?thesis
    proof (cases q)
      case (Inr x)
      then have sp: "spec_settle (view l) (drawdown_entry now rec ?fc) ?carry (drawdown_window rec) = (Inr (), view l1)" using st by simp
      have "1000 * ?cost + ?carry = lv_remainder (view l) ?o + ?m" by (simp add: c(1))
      from spec_settle_settlement [OF sp _ cost(1) this cost(2,3)] show ?thesis
        using False unf b assms(3,6) Inr st by (auto simp: settled_now_def)
    next
      case (Inl err)
      then have v: "view l1 = view l" using st by (auto simp: spec_settle_def split: if_splits)
      have k: "err = ErrDuplicateEntry \<Longrightarrow> keyed (view l) rec" using Inl st WindowKey_usageKey [of rec]
        by (auto simp: spec_settle_def keyed_def duplicate_key_def drawdown_entry_def drawdown_window_def split: if_splits)
      show ?thesis using False unf b assms(3,6) Inl st v k
        by (cases err; cases "priorDrawdownCredit C l1 rec") (auto simp: settled_now_def)
    qed
  qed
qed

end

section \<open>Sequences of drawdowns\<close>

fun drawdown_run ::
  "'l CreditLedger \<Rightarrow> Rates \<Rightarrow> 'l \<Rightarrow> (time \<times> UsageRecord) list \<Rightarrow> (UsageRecord \<times> (billing_error, DrawdownResult) result) list \<times> 'l" where
  "drawdown_run C rates l [] = ([], l)"
| "drawdown_run C rates l ((now, rec) # xs) =
     (let (r, l1) = Drawdown C rates now l rec; (rs, l2) = drawdown_run C rates l1 xs
      in ((rec, r) # rs, l2))"

definition landed :: "Rates \<Rightarrow> (UsageRecord \<times> (billing_error, DrawdownResult) result) list \<Rightarrow> (UsageRecord \<times> DrawdownResult) list" where
  "landed rates rs = map (\<lambda>(rec, r). (rec, projr r)) (filter (\<lambda>(rec, r). settled_now rates rec r) rs)"

definition landed_sum :: "(UsageRecord \<times> DrawdownResult \<Rightarrow> int) \<Rightarrow> string \<Rightarrow> (UsageRecord \<times> DrawdownResult) list \<Rightarrow> int" where
  "landed_sum f orgID ls = sum_list (map f (filter (\<lambda>(rec, d). ur_OrgID rec = orgID) ls))"

definition landed_keys :: "(UsageRecord \<times> DrawdownResult) list \<Rightarrow> (string \<times> string) list" where
  "landed_keys ls = map (\<lambda>(rec, d). (ur_OrgID rec, usageKey rec)) ls"

lemma landed_Cons:
  "landed rates ((rec, r) # rs) = (if settled_now rates rec r then (rec, projr r) # landed rates rs else landed rates rs)"
  by (simp add: landed_def)

lemma settlement_carry: "settlement rates v rec d v' \<Longrightarrow> carry_ok v \<Longrightarrow> carry_ok v'"
  by (simp add: carry_ok_def settlement_def)

lemma settlement_keyed: "settlement rates v rec d v' \<Longrightarrow> keyed v x \<Longrightarrow> keyed v' x"
  by (fastforce simp: settlement_def keyed_def)

lemma settlement_balance:
  assumes "settlement rates v rec d v'" "\<forall>orgID. 0 \<le> spec_balance v orgID \<and> spec_balance v orgID < 2 ^ 63"
  shows "\<forall>orgID. 0 \<le> spec_balance v' orgID \<and> spec_balance v' orgID < 2 ^ 63"
proof
  fix orgID
  show "0 \<le> spec_balance v' orgID \<and> spec_balance v' orgID < 2 ^ 63"
    using assms(1) spec [OF assms(2), of orgID] by (auto simp: settlement_def covered_def min_def max_def)
qed

definition run_ok :: "Rates \<Rightarrow> (string \<Rightarrow> bool) \<Rightarrow> (time \<times> UsageRecord) list \<Rightarrow> bool" where
  "run_ok rates org_ok xs \<longleftrightarrow> (\<forall>(now, rec) \<in> set xs. org_ok (ur_OrgID rec) \<and> CostMilliCents rates rec < 2 ^ 62)"

text \<open>What a sequence of drawdowns does to every organization.\<close>

definition run_accounts ::
  "Rates \<Rightarrow> ledger_view \<Rightarrow> (UsageRecord \<times> (billing_error, DrawdownResult) result) list \<Rightarrow> ledger_view \<Rightarrow> bool" where
  "run_accounts rates v rs v' \<longleftrightarrow>
     carry_ok v' \<and>
     (\<forall>orgID. 0 \<le> spec_balance v' orgID \<and> spec_balance v' orgID < 2 ^ 63) \<and>
     (\<forall>orgID. 1000 * landed_sum (dr_Cost \<circ> snd) orgID (landed rates rs) + lv_remainder v' orgID =
        lv_remainder v orgID + landed_sum (CostMilliCents rates \<circ> fst) orgID (landed rates rs)) \<and>
     (\<forall>orgID. spec_balance v' orgID = spec_balance v orgID - landed_sum (dr_FromCredit \<circ> snd) orgID (landed rates rs)) \<and>
     distinct (landed_keys (landed rates rs)) \<and>
     set (landed_keys (landed rates rs)) \<inter> dom (lv_marks v) = {} \<and>
     dom (lv_marks v') = dom (lv_marks v) \<union> set (landed_keys (landed rates rs)) \<and>
     (\<forall>x. keyed v x \<longrightarrow> keyed v' x)"

lemma run_accounts_Nil:
  "carry_ok v \<Longrightarrow> \<forall>orgID. 0 \<le> spec_balance v orgID \<and> spec_balance v orgID < 2 ^ 63 \<Longrightarrow> run_accounts rates v [] v"
  by (simp add: run_accounts_def landed_def landed_sum_def landed_keys_def)

lemma run_accounts_skip:
  assumes "run_accounts rates v rs v'" "\<not> settled_now rates rec r"
  shows "run_accounts rates v ((rec, r) # rs) v'"
proof -
  have e: "landed rates ((rec, r) # rs) = landed rates rs" using assms(2) by (simp add: landed_Cons)
  show ?thesis using assms(1) unfolding run_accounts_def e .
qed

lemma run_accounts_settle:
  assumes "run_accounts rates v1 rs v2" "settlement rates v rec d v1" "settled_now rates rec (Inr d)"
    and "lv_marks v (ur_OrgID rec, usageKey rec) = None"
  shows "run_accounts rates v ((rec, Inr d) # rs) v2"
proof -
  let ?L = "landed rates rs" and ?k = "(ur_OrgID rec, usageKey rec)"
  have L: "landed rates ((rec, Inr d) # rs) = (rec, d) # ?L" using assms(3) by (simp add: landed_Cons)
  have lk: "landed_keys ((rec, d) # ?L) = ?k # landed_keys ?L" by (simp add: landed_keys_def)
  have ls: "landed_sum f orgID ((rec, d) # ?L) = (if ur_OrgID rec = orgID then f (rec, d) else 0) + landed_sum f orgID ?L" for f orgID
    by (simp add: landed_sum_def)
  have m: "dom (lv_marks v1) = insert ?k (dom (lv_marks v))" using assms(2) by (auto simp: settlement_def)
  have "?k \<notin> set (landed_keys ?L)" using assms(1) m by (auto simp: run_accounts_def)
  moreover have "?k \<notin> dom (lv_marks v)" using assms(4) by auto
  ultimately have K: "distinct (?k # landed_keys ?L)" "set (?k # landed_keys ?L) \<inter> dom (lv_marks v) = {}"
      "dom (lv_marks v2) = dom (lv_marks v) \<union> set (?k # landed_keys ?L)"
    using assms(1) m by (auto simp: run_accounts_def)
  have s1: "1000 * dr_Cost d + dr_CarriedMilliCents d = lv_remainder v (ur_OrgID rec) + CostMilliCents rates rec"
    "lv_remainder v1 = (lv_remainder v)(ur_OrgID rec := dr_CarriedMilliCents d)"
    "spec_balance v1 = (spec_balance v)(ur_OrgID rec := spec_balance v (ur_OrgID rec) - dr_FromCredit d)"
    using assms(2) unfolding settlement_def by blast+
  have a1: "1000 * landed_sum (dr_Cost \<circ> snd) orgID ?L + lv_remainder v2 orgID = lv_remainder v1 orgID + landed_sum (CostMilliCents rates \<circ> fst) orgID ?L"
    "spec_balance v2 orgID = spec_balance v1 orgID - landed_sum (dr_FromCredit \<circ> snd) orgID ?L" for orgID
    using assms(1) unfolding run_accounts_def by blast+
  have R: "1000 * landed_sum (dr_Cost \<circ> snd) orgID ((rec, d) # ?L) + lv_remainder v2 orgID =
      lv_remainder v orgID + landed_sum (CostMilliCents rates \<circ> fst) orgID ((rec, d) # ?L)"
    and B: "spec_balance v2 orgID = spec_balance v orgID - landed_sum (dr_FromCredit \<circ> snd) orgID ((rec, d) # ?L)" for orgID
    using a1 [of orgID] s1 unfolding ls by (cases "ur_OrgID rec = orgID"; simp)+
  have "\<forall>x. keyed v x \<longrightarrow> keyed v2 x" using assms(1) settlement_keyed [OF assms(2)] by (auto simp: run_accounts_def)
  then show ?thesis using assms(1) R B K unfolding run_accounts_def L lk by blast
qed

context credit_ledger
begin

lemma drawdown_run_accounts:
  assumes "inv l" "run_ok rates org_ok xs" "carry_ok (view l)"
    and "\<forall>orgID. 0 \<le> spec_balance (view l) orgID \<and> spec_balance (view l) orgID < 2 ^ 63"
    and "drawdown_run C rates l xs = (rs, l')"
  shows "inv l' \<and> run_accounts rates (view l) rs (view l')"
  using assms
proof (induction xs arbitrary: l rs)
  case Nil
  then show ?case by (simp add: run_accounts_Nil)
next
  case (Cons x xs)
  obtain now rec where x: "x = (now, rec)" by (cases x)
  obtain r l1 where d: "Drawdown C rates now l rec = (r, l1)" by fastforce
  obtain rs1 where run: "drawdown_run C rates l1 xs = (rs1, l')" and rs: "rs = (rec, r) # rs1"
    using Cons.prems(5) d by (auto simp: x split: prod.splits)
  have ok: "org_ok (ur_OrgID rec)" "CostMilliCents rates rec < 2 ^ 62" "run_ok rates org_ok xs"
    using Cons.prems(2) by (auto simp: run_ok_def x)
  have "in_i64 (spec_balance (view l) (ur_OrgID rec))" using spec [OF Cons.prems(4), of "ur_OrgID rec"] by (simp add: in_i64_def)
  note step = drawdown_step [OF Cons.prems(1) ok(1) d Cons.prems(3) ok(2) this]
  show ?case
  proof (cases "settled_now rates rec r")
    case False
    then have "view l1 = view l" using step by simp
    then show ?thesis using Cons.IH [OF _ ok(3) _ _ run] Cons.prems(3,4) step False by (simp add: rs run_accounts_skip)
  next
    case True
    then obtain d where r: "r = Inr d" by (auto simp: settled_now_def split: sum.splits)
    have s: "settlement rates (view l) rec d (view l1)" "lv_marks (view l) (ur_OrgID rec, usageKey rec) = None"
      using step True r by simp_all
    have "inv l' \<and> run_accounts rates (view l1) rs1 (view l')"
      by (rule Cons.IH [OF _ ok(3) _ _ run])
        (use step settlement_carry [OF s(1) Cons.prems(3)] settlement_balance [OF s(1) Cons.prems(4)] in simp_all)
    then show ?thesis using run_accounts_settle [OF _ s(1) _ s(2)] True r rs by simp
  qed
qed

end

section \<open>The in-memory ledger settles every window exactly once\<close>

lemma mem_SettleWindow_no_failure: "mem_SettleWindow l e m w \<noteq> (Inl (LedgerFailure x), l')"
  by (simp add: mem_SettleWindow_def appendLocked_def Let_def)

lemma mem_Drawdown_ok: "\<exists>d. fst (Drawdown mem_ledger rates now l rec) = Inr d"
  unfolding Drawdown_def Let_def priorDrawdownCredit_def
  by (simp add: mem_ledger_def mem_Remainder_def mem_Balance_def mem_Entries_def mem_SettleWindow_no_failure
    split: prod.split sum.split ledger_error.split)

lemma mem_drawdown_all_keyed:
  assumes "ledger_inv l" "run_ok rates nul_free xs" "carry_ok (mem_view l)"
    and "\<forall>orgID. 0 \<le> spec_balance (mem_view l) orgID \<and> spec_balance (mem_view l) orgID < 2 ^ 63"
    and "drawdown_run mem_ledger rates l xs = (rs, l')" "(now, rec) \<in> set xs" "CostMilliCents rates rec \<noteq> 0"
  shows "keyed (mem_view l') rec"
  using assms
proof (induction xs arbitrary: l rs)
  case (Cons x xs)
  obtain t q where x: "x = (t, q)" by (cases x)
  obtain r l1 where d: "Drawdown mem_ledger rates t l q = (r, l1)" by fastforce
  obtain rs1 where run: "drawdown_run mem_ledger rates l1 xs = (rs1, l')"
    using Cons.prems(5) d by (auto simp: x split: prod.splits)
  have ok: "nul_free (ur_OrgID q)" "CostMilliCents rates q < 2 ^ 62" "run_ok rates nul_free xs"
    using Cons.prems(2) by (auto simp: run_ok_def x)
  have "in_i64 (spec_balance (mem_view l) (ur_OrgID q))" using spec [OF Cons.prems(4), of "ur_OrgID q"] by (simp add: in_i64_def)
  note step = memory.drawdown_step [OF Cons.prems(1) ok(1) d Cons.prems(3) ok(2) this]
  obtain dd where r: "r = Inr dd" using mem_Drawdown_ok [of rates t l q] d by auto
  have next': "carry_ok (mem_view l1)" "\<forall>orgID. 0 \<le> spec_balance (mem_view l1) orgID \<and> spec_balance (mem_view l1) orgID < 2 ^ 63"
    using step r settlement_carry [OF _ Cons.prems(3)] settlement_balance [OF _ Cons.prems(4)] Cons.prems(3,4)
    by (cases "settled_now rates q r"; fastforce)+
  have mono: "keyed (mem_view l1) y \<Longrightarrow> keyed (mem_view l') y" for y
    using memory.drawdown_run_accounts [OF _ ok(3) next' run] step unfolding run_accounts_def by blast
  show ?case
  proof (cases "x = (now, rec)")
    case True
    then have "keyed (mem_view l1) rec"
      using step r x Cons.prems(7) by (cases "dr_Replayed dd") (auto simp: settled_now_def settlement_def keyed_def)
    then show ?thesis by (rule mono)
  next
    case False
    then show ?thesis using Cons.IH [OF _ ok(3) next' run] Cons.prems(6,7) step by auto
  qed
qed simp

text \<open>
  C8: On the in-memory ledger a sequence of drawdowns, with records replayed in any order and
  any number of times, settles each usage window at most once and leaves every priced window
  settled. No balance ever becomes negative: it falls by exactly the credit the settlements
  took. The whole cents settled and the carried remainder add up to the milli-cents of the
  settled windows, so what is settled stays within half a cent of what was used.
\<close>

theorem drawdown_exactly_once:
  assumes "ledger_inv l" "carry_ok (mem_view l)" "run_ok rates nul_free xs"
    and "\<forall>orgID. 0 \<le> spec_balance (mem_view l) orgID \<and> spec_balance (mem_view l) orgID < 2 ^ 63"
    and "drawdown_run mem_ledger rates l xs = (rs, l')"
  shows "distinct (landed_keys (landed rates rs)) \<and> set (landed_keys (landed rates rs)) \<inter> dom (lv_marks (mem_view l)) = {} \<and>
    (\<forall>(now, rec) \<in> set xs. CostMilliCents rates rec \<noteq> 0 \<longrightarrow> keyed (mem_view l') rec) \<and>
    (\<forall>orgID. 0 \<le> spec_balance (mem_view l') orgID \<and>
       spec_balance (mem_view l') orgID = spec_balance (mem_view l) orgID - landed_sum (dr_FromCredit \<circ> snd) orgID (landed rates rs)) \<and>
    (\<forall>orgID. 1000 * landed_sum (dr_Cost \<circ> snd) orgID (landed rates rs) + ml_remainder l' orgID =
       ml_remainder l orgID + landed_sum (CostMilliCents rates \<circ> fst) orgID (landed rates rs) \<and>
       - 500 \<le> ml_remainder l' orgID \<and> ml_remainder l' orgID < 500)"
proof -
  have A: "run_accounts rates (mem_view l) rs (mem_view l')"
    using memory.drawdown_run_accounts [OF assms(1,3,2,4,5)] by blast
  have K: "keyed (mem_view l') rec" if "(now, rec) \<in> set xs" "CostMilliCents rates rec \<noteq> 0" for now rec
    by (rule mem_drawdown_all_keyed [OF assms(1,3,2,4,5) that])
  have r: "lv_remainder (mem_view m) = ml_remainder m" for m by (simp add: mem_view_def)
  show ?thesis using A unfolding run_accounts_def carry_ok_def r by (intro conjI) (blast | use K in blast)+
qed

definition gpu_record :: UsageRecord where
  "gpu_record =
     \<lparr>ur_OrgID = ''acme'', ur_SandboxID = ''sb'', ur_Region = ''eu'', ur_Window = 0, ur_VCPUSeconds = 0, ur_MemGiBSeconds = 0,
      ur_StorageGiBHours = 0, ur_EgressBytes = 0, ur_GPUSeconds = 60\<rparr>"

lemma gpu_cost: "CostMilliCents DefaultRates gpu_record = 3600"
  by (simp add: CostMilliCents_def QuantityFor_def meter_defs gpu_record_def DefaultRates_def f64.zero f64_numeral math_Round_def
    trunc_i64_def in_i64_def Let_def) (simp add: floor_eq_iff)

definition credited :: MemCreditLedger where
  "credited = snd (GrantSignupCredit mem_ledger NewMemCreditLedger ''acme'' DefaultSignupCredit 0)"

lemma credited_facts: "ledger_inv credited" "carry_ok (mem_view credited)"
  "spec_balance (mem_view credited) orgID = (if orgID = ''acme'' then 10000 else 0)"
proof -
  have i: "ledger_inv NewMemCreditLedger" by (simp add: ledger_inv_def NewMemCreditLedger_def seen_of_def)
  show "ledger_inv credited" unfolding credited_def GrantSignupCredit_def
    by (rule memory.append [THEN conjunct1, OF i, rotated, OF surjective_pairing]) (simp add: nul_free_def)
  show "carry_ok (mem_view credited)" "spec_balance (mem_view credited) orgID = (if orgID = ''acme'' then 10000 else 0)"
    by (simp_all add: credited_def GrantSignupCredit_def mem_ledger_def mem_Append_def appendLocked_def NewMemCreditLedger_def Let_def
      carry_ok_def mem_view_def spec_balance_def DefaultSignupCredit_def USD_def i64_def)
qed

theorem drawdown_exactly_once_witness:
  "distinct (landed_keys (landed DefaultRates (fst (drawdown_run mem_ledger DefaultRates credited [(1, gpu_record), (2, gpu_record)])))) \<and>
   keyed (mem_view (snd (drawdown_run mem_ledger DefaultRates credited [(1, gpu_record), (2, gpu_record)]))) gpu_record"
proof -
  let ?xs = "[(1, gpu_record), (2, gpu_record)]"
  have ok: "run_ok DefaultRates nul_free ?xs" by (simp add: run_ok_def gpu_cost) (simp add: gpu_record_def nul_free_def)
  have bal: "\<forall>orgID. 0 \<le> spec_balance (mem_view credited) orgID \<and> spec_balance (mem_view credited) orgID < 2 ^ 63"
    by (simp add: credited_facts)
  show ?thesis
    using drawdown_exactly_once [OF credited_facts(1,2) ok bal, OF surjective_pairing] gpu_cost by simp
qed

section \<open>The metered push\<close>

definition meter_event :: "string \<Rightarrow> UsageRecord \<Rightarrow> MeterUnit \<Rightarrow> UsageEvent" where
  "meter_event c rec u = \<lparr>ue_CustomerID = c, ue_Unit = u, ue_Quantity = QuantityFor u rec, ue_IdempotencyKey = IdempotencyKey rec u\<rparr>"

lemma IdempotencyKey_meter: "IdempotencyKey rec u = IdempotencyKey rec v \<longleftrightarrow> u = v"
  by (simp add: IdempotencyKey_def)

lemma push_meters_ok:
  assumes "push_meters f c rec us n = (k, None, f')" "distinct us"
  shows "k = n + length (filter (\<lambda>u. QuantityFor u rec > 0) us) \<and>
    fs_failReportFor f' = fs_failReportFor f \<and> fs_customers f' = fs_customers f \<and>
    (\<forall>u \<in> set us. QuantityFor u rec > 0 \<longrightarrow> fs_reported f' (IdempotencyKey rec u) = Some (meter_event c rec u) \<and>
       fs_failReportFor f (IdempotencyKey rec u) \<le> 0) \<and>
    (\<forall>key. key \<notin> IdempotencyKey rec ` {u \<in> set us. QuantityFor u rec > 0} \<longrightarrow> fs_reported f' key = fs_reported f key)"
  using assms
proof (induction us arbitrary: f n)
  case (Cons u us)
  show ?case
  proof (cases "QuantityFor u rec \<le> 0")
    case True
    then show ?thesis using Cons.IH [of f n] Cons.prems by auto
  next
    case False
    let ?f = "f\<lparr>fs_reported := (fs_reported f)(IdempotencyKey rec u \<mapsto> meter_event c rec u)\<rparr>"
    have ok: "fs_failReportFor f (IdempotencyKey rec u) \<le> 0" "push_meters ?f c rec us (n + 1) = (k, None, f')"
      using Cons.prems(1) False by (auto simp: ReportUsage_def meter_event_def Let_def split: if_splits)
    note ih = Cons.IH [OF ok(2)]
    have "IdempotencyKey rec u \<notin> IdempotencyKey rec ` {u \<in> set us. QuantityFor u rec > 0}"
      using Cons.prems(2) by (auto simp: IdempotencyKey_meter)
    moreover have "IdempotencyKey rec ` {v \<in> set (u # us). QuantityFor v rec > 0} =
        insert (IdempotencyKey rec u) (IdempotencyKey rec ` {u \<in> set us. QuantityFor u rec > 0})" using False by auto
    ultimately show ?thesis using ih Cons.prems(2) ok(1) False by (auto simp: IdempotencyKey_meter simp del: image_iff)
  qed
qed simp

lemma push_meters_again:
  assumes "\<forall>u \<in> set us. QuantityFor u rec > 0 \<longrightarrow> fs_reported f (IdempotencyKey rec u) = Some (meter_event c rec u) \<and>
    fs_failReportFor f (IdempotencyKey rec u) \<le> 0"
  shows "push_meters f c rec us n = (n + length (filter (\<lambda>u. QuantityFor u rec > 0) us), None, f)"
  using assms
proof (induction us arbitrary: n)
  case (Cons u us)
  show ?case
  proof (cases "QuantityFor u rec \<le> 0")
    case False
    then have "ReportUsage f (meter_event c rec u) = (Inr (), f)"
      using Cons.prems by (simp add: ReportUsage_def Let_def meter_event_def fun_upd_idem)
    then show ?thesis using Cons False by (simp add: meter_event_def [symmetric])
  qed (use Cons in simp)
qed simp

lemma IdempotencyKey_inj:
  assumes "IdempotencyKey rec u = IdempotencyKey rec' v" "CHR ''|'' \<notin> set (ur_OrgID rec)" "CHR ''|'' \<notin> set (ur_OrgID rec')"
    and "CHR ''|'' \<notin> set (ur_SandboxID rec)" "CHR ''|'' \<notin> set (ur_SandboxID rec')" "0 \<le> ur_Window rec" "0 \<le> ur_Window rec'"
  shows "ur_OrgID rec = ur_OrgID rec' \<and> ur_SandboxID rec = ur_SandboxID rec' \<and> ur_Window rec = ur_Window rec' \<and> u = v"
proof -
  have sep: "a = c \<and> b = d" if "a @ CHR ''|'' # b = c @ CHR ''|'' # d" "CHR ''|'' \<notin> set a" "CHR ''|'' \<notin> set c" for a b c d :: string
    using that by (induction a arbitrary: c) (auto simp: Cons_eq_append_conv append_eq_Cons_conv)
  have 1: "ur_OrgID rec = ur_OrgID rec' \<and> ur_SandboxID rec @ CHR ''|'' # rfc3339_nano (ur_Window rec) @ CHR ''|'' # u =
      ur_SandboxID rec' @ CHR ''|'' # rfc3339_nano (ur_Window rec') @ CHR ''|'' # v"
    using assms(1-3) by (intro sep) (simp_all add: IdempotencyKey_def)
  have 2: "ur_SandboxID rec = ur_SandboxID rec' \<and> rfc3339_nano (ur_Window rec) @ CHR ''|'' # u = rfc3339_nano (ur_Window rec') @ CHR ''|'' # v"
    using 1 assms(4,5) by (intro sep) simp_all
  have 3: "rfc3339_nano (ur_Window rec) = rfc3339_nano (ur_Window rec') \<and> u = v"
    using 2 by (intro sep) (simp_all add: rfc3339_chars)
  show ?thesis using 1 2 3 rfc3339_inj assms(6,7) by blast
qed

lemma PushUsage_customer:
  "PushUsage f rec = (k, e, f') \<Longrightarrow> \<exists>c f1. EnsureCustomer f (ur_OrgID rec) = (c, f1) \<and> fs_customers f1 (ur_OrgID rec) = Some c \<and>
     fs_reported f1 = fs_reported f \<and> fs_failReportFor f1 = fs_failReportFor f \<and> push_meters f1 c rec AllMeters 0 = (k, e, f')"
  by (auto simp: PushUsage_def EnsureCustomer_def Let_def split: option.splits prod.splits)

text \<open>
  C34: A push that succeeds has reported every positive meter of the record under a key of its
  own and touched nothing else; pushing the record again, as a retry does, changes nothing.
  Records of different organizations, sandboxes or windows never share a key.
\<close>

theorem push_idempotent:
  assumes "PushUsage f rec = (n, None, f')"
  shows "PushUsage f' rec = (n, None, f') \<and> n = length (filter (\<lambda>u. QuantityFor u rec > 0) AllMeters) \<and>
    (\<exists>c. \<forall>u \<in> set AllMeters. QuantityFor u rec > 0 \<longrightarrow> fs_reported f' (IdempotencyKey rec u) = Some (meter_event c rec u)) \<and>
    (\<forall>key. key \<notin> IdempotencyKey rec ` {u \<in> set AllMeters. QuantityFor u rec > 0} \<longrightarrow> fs_reported f' key = fs_reported f key) \<and>
    (\<forall>rec' u v. CHR ''|'' \<notin> set (ur_OrgID rec @ ur_OrgID rec' @ ur_SandboxID rec @ ur_SandboxID rec') \<and>
       0 \<le> ur_Window rec \<and> 0 \<le> ur_Window rec' \<and> IdempotencyKey rec u = IdempotencyKey rec' v \<longrightarrow>
       (ur_OrgID rec', ur_SandboxID rec', ur_Window rec', v) = (ur_OrgID rec, ur_SandboxID rec, ur_Window rec, u))"
proof -
  obtain c f1 where f1: "fs_customers f1 (ur_OrgID rec) = Some c" "fs_reported f1 = fs_reported f" "push_meters f1 c rec AllMeters 0 = (n, None, f')"
    using PushUsage_customer [OF assms] by blast
  have d: "distinct AllMeters" by (simp add: AllMeters_def meter_defs)
  note ok = push_meters_ok [OF f1(3) d]
  have "EnsureCustomer f' (ur_OrgID rec) = (c, f')" using ok f1(1) by (simp add: EnsureCustomer_def)
  then have again: "PushUsage f' rec = (n, None, f')"
    using push_meters_again [of AllMeters rec f' c 0] ok by (simp add: PushUsage_def)
  have "\<forall>rec' u v. CHR ''|'' \<notin> set (ur_OrgID rec @ ur_OrgID rec' @ ur_SandboxID rec @ ur_SandboxID rec') \<and>
       0 \<le> ur_Window rec \<and> 0 \<le> ur_Window rec' \<and> IdempotencyKey rec u = IdempotencyKey rec' v \<longrightarrow>
       (ur_OrgID rec', ur_SandboxID rec', ur_Window rec', v) = (ur_OrgID rec, ur_SandboxID rec, ur_Window rec, u)"
  proof (intro allI impI, elim conjE)
    fix rec' u v
    assume "IdempotencyKey rec u = IdempotencyKey rec' v" "CHR ''|'' \<notin> set (ur_OrgID rec @ ur_OrgID rec' @ ur_SandboxID rec @ ur_SandboxID rec')"
      "0 \<le> ur_Window rec" "0 \<le> ur_Window rec'"
    then show "(ur_OrgID rec', ur_SandboxID rec', ur_Window rec', v) = (ur_OrgID rec, ur_SandboxID rec, ur_Window rec, u)"
      using IdempotencyKey_inj [of rec u rec' v] by simp
  qed
  moreover have "\<forall>key. key \<notin> IdempotencyKey rec ` {u \<in> set AllMeters. QuantityFor u rec > 0} \<longrightarrow> fs_reported f' key = fs_reported f key"
    using ok unfolding f1(2) by blast
  moreover have "\<forall>u \<in> set AllMeters. QuantityFor u rec > 0 \<longrightarrow> fs_reported f' (IdempotencyKey rec u) = Some (meter_event c rec u)"
    using ok by blast
  moreover have "n = length (filter (\<lambda>u. QuantityFor u rec > 0) AllMeters)" using ok by simp
  ultimately show ?thesis using again by blast
qed

theorem push_idempotent_witness:
  "PushUsage (snd (snd (PushUsage NewFakeStripe gpu_record))) gpu_record = PushUsage NewFakeStripe gpu_record"
proof -
  have p: "QuantityFor MeterVCPUSecond gpu_record = 0" "QuantityFor MeterMemGiBSecond gpu_record = 0"
    "QuantityFor MeterStorageGiBHour gpu_record = 0" "QuantityFor MeterEgressGiB gpu_record = 0" "QuantityFor MeterGPUSecond gpu_record = 60"
    by (simp_all add: QuantityFor_def meter_defs gpu_record_def f64.zero f64_numeral)
  obtain f' where f': "PushUsage NewFakeStripe gpu_record = (1, None, f')"
    by (simp add: PushUsage_def AllMeters_def p EnsureCustomer_def NewFakeStripe_def ReportUsage_def Let_def)
  then show ?thesis using push_idempotent [OF f'] by simp
qed

section \<open>Spend caps\<close>

text \<open>
  The spend of a period: the debits since its start, or since the latest paid top-up in it.
\<close>

definition spend_start :: "time \<Rightarrow> LedgerEntry list \<Rightarrow> time" where
  "spend_start periodStart entries =
     Max (insert periodStart (le_At ` {e \<in> set entries. le_Kind e = KindTopUp \<and> le_Amount e > 0 \<and> periodStart \<le> le_At e}))"

definition period_spend :: "time \<Rightarrow> LedgerEntry list \<Rightarrow> int" where
  "period_spend periodStart entries =
     sum_list (map (\<lambda>e. - le_Amount e)
       (filter (\<lambda>e. le_Kind e = KindUsageDrawdown \<and> le_Amount e < 0 \<and> spend_start periodStart entries \<le> le_At e) entries))"

lemma foldl_latest:
  fixes at' :: "'a \<Rightarrow> int"
  shows "foldl (\<lambda>w e. if P e \<and> w < at' e then at' e else w) w es = Max (insert w (at' ` {e \<in> set es. P e}))"
proof (induction es arbitrary: w)
  case (Cons e es)
  have "insert w (at' ` {x \<in> set (e # es). P x}) = (if P e then insert (at' e) (insert w (at' ` {x \<in> set es. P x})) else insert w (at' ` {x \<in> set es. P x}))"
    by auto
  moreover have "Max (insert a (insert w S)) = Max (insert (if w < a then a else w) S)" if "finite S" for a :: int and S
    using that by (cases "S = {}") (auto simp: max_def)
  ultimately show ?case using Cons [of w] Cons [of "at' e"] by simp
qed simp

lemma spend_window_start: "spend_window periodStart entries = spend_start periodStart entries"
  using foldl_latest [of "\<lambda>e. le_Kind e = KindTopUp \<and> le_Amount e > 0 \<and> periodStart \<le> le_At e" le_At periodStart entries]
  by (simp add: spend_window_def spend_start_def not_less conj_assoc)

lemma window_spend_sum:
  "window_spend w entries = i64 (sum_list (map (\<lambda>e. - le_Amount e)
     (filter (\<lambda>e. le_Kind e = KindUsageDrawdown \<and> le_Amount e < 0 \<and> w \<le> le_At e) entries)))"
proof -
  let ?P = "\<lambda>e. le_Kind e = KindUsageDrawdown \<and> le_Amount e < 0 \<and> w \<le> le_At e"
  have "i64 (x + i64 y) = i64 (x + y)" for x y by (simp add: i64_def mod_simps algebra_simps)
  then have "foldl (\<lambda>x e. if ?P e then i64 (x + i64 (- le_Amount e)) else x) a entries =
      foldl (\<lambda>x e. i64 (x + - le_Amount e)) a (filter ?P entries)" for a
    by (induction entries arbitrary: a) simp_all
  from this [of 0] foldl_i64_sum [of "\<lambda>e. - le_Amount e" 0 "filter ?P entries"] show ?thesis
    by (simp add: window_spend_def not_less) (simp add: i64_def)
qed

lemma spend_start_ge: "periodStart \<le> spend_start periodStart entries"
  by (simp add: spend_start_def)

lemma spend_of_recent:
  "window_spend (spend_window p (filter (\<lambda>e. p \<le> le_At e) es)) (filter (\<lambda>e. p \<le> le_At e) es) = i64 (period_spend p es)"
  "window_spend (spend_window p es) es = i64 (period_spend p es)"
proof -
  have st: "spend_start p (filter (\<lambda>e. p \<le> le_At e) es) = spend_start p es"
    unfolding spend_start_def by (rule arg_cong [where f = "\<lambda>S. Max (insert p (le_At ` S))"]) auto
  have "filter (\<lambda>e. le_Kind e = KindUsageDrawdown \<and> le_Amount e < 0 \<and> spend_start p es \<le> le_At e) (filter (\<lambda>e. p \<le> le_At e) es) =
      filter (\<lambda>e. le_Kind e = KindUsageDrawdown \<and> le_Amount e < 0 \<and> spend_start p es \<le> le_At e) es"
    using spend_start_ge [of p es] by (auto simp: filter_filter intro: filter_cong)
  then show "window_spend (spend_window p (filter (\<lambda>e. p \<le> le_At e) es)) (filter (\<lambda>e. p \<le> le_At e) es) = i64 (period_spend p es)"
    by (simp only: window_spend_sum spend_window_start st period_spend_def)
  show "window_spend (spend_window p es) es = i64 (period_spend p es)"
    by (simp only: window_spend_sum spend_window_start period_spend_def)
qed

context credit_ledger
begin

lemma spend_cap_reads:
  assumes "inv (st_ledger s)" "sv_ledger sv = C" "st_caps s orgID = Some cap" "\<not> (sc_HardCap cap \<le> 0 \<and> sc_SoftCap cap \<le> 0)"
    and "EnforceSpendCapFromLedger sv now s orgID = (b, e, s')"
  shows "(\<exists>x. e = Some (OfLedger ''read ledger for spend cap'' x)) \<and> b = False \<and> s' = s \<or>
    EnforceSpendCap sv now s orgID (i64 (period_spend (month_start now) (lv_entries (view (st_ledger s)) orgID))) = (b, e, s')"
proof -
  let ?read = "case cl_EntriesSince C of Some f \<Rightarrow> f (st_ledger s) orgID (month_start now) | None \<Rightarrow> cl_Entries C (st_ledger s) orgID"
  have read: "EnforceSpendCapFromLedger sv now s orgID = (case ?read of
        Inl e \<Rightarrow> (False, Some (OfLedger ''read ledger for spend cap'' e), s)
      | Inr entries \<Rightarrow> EnforceSpendCap sv now s orgID (window_spend (spend_window (month_start now) entries) entries))"
    unfolding EnforceSpendCapFromLedger_def caps_Get_def Let_def assms(2,3) option.case if_not_P [OF assms(4)] ..
  show ?thesis
  proof (cases ?read)
    case (Inl x)
    then show ?thesis using read assms(5) by simp
  next
    case (Inr es)
    have "es = lv_entries (view (st_ledger s)) orgID \<or> es = filter (\<lambda>e. month_start now \<le> le_At e) (lv_entries (view (st_ledger s)) orgID)"
      using Inr entries [OF assms(1)] since [OF assms(1)] by (cases "cl_EntriesSince C") auto
    then show ?thesis using read Inr assms(5) spend_of_recent by auto
  qed
qed

end

end
