(* ===== verification/Payment_Provider.thy ===== *)
theory Payment_Provider
  imports Go_Text Billing_Service
begin

text \<open>
  The payment providers, \<^verbatim>\<open>internal/saas/billingprovider\<close>: the provider-neutral event
  (\<^verbatim>\<open>billingprovider.go\<close>) and the Paddle and Stripe implementations, which authenticate a webhook
  request and map it to an event, and the Paddle checkout. HMAC-SHA256, the JSON decoder and the
  HTTP transport are arguments. A request is its signature header and its body.
\<close>

section \<open>Events\<close>

record TopUpCredit =
  tc_OrgID :: string
  tc_AmountCents :: int
  tc_Ref :: string

record Event =
  ev_Status :: BillingStatus
  ev_CustomerRef :: string
  ev_OrgID :: string
  ev_TopUp :: "TopUpCredit option"

type_synonym hmac_fun = "bytes \<Rightarrow> bytes \<Rightarrow> bytes"

text \<open>\<^verbatim>\<open>time.Unix(sec, 0)\<close> and \<^verbatim>\<open>Time.Sub\<close>, which saturates.\<close>

definition Unix :: "int \<Rightarrow> time" where
  "Unix sec = i64 (sec + 62135596800) * second_ns"

definition time_Sub :: "time \<Rightarrow> time \<Rightarrow> duration" where
  "time_Sub t u = max (- (2 ^ 63)) (min (2 ^ 63 - 1) (t - u))"

definition outside_tolerance :: "time \<Rightarrow> duration \<Rightarrow> int \<Rightarrow> bool" where
  "outside_tolerance now tolerance sec = (let d = time_Sub now (Unix sec) in d > tolerance \<or> d < - tolerance)"

section \<open>Paddle\<close>

definition LiveBaseURL :: string where "LiveBaseURL = ''https://api.paddle.com''"

definition defaultTolerance :: duration where
  "defaultTolerance = 5 * 60 * second_ns"

record PaddleConfig =
  pc_APIKey :: string
  pc_WebhookSecret :: string
  pc_BaseURL :: string
  pc_Tolerance :: duration

record PaddleProvider =
  pp_apiKey :: string
  pp_secret :: string
  pp_baseURL :: string
  pp_tolerance :: duration

definition paddle_New :: "PaddleConfig \<Rightarrow> PaddleProvider" where
  "paddle_New cfg =
     \<lparr>pp_apiKey = pc_APIKey cfg, pp_secret = pc_WebhookSecret cfg,
      pp_baseURL = TrimRight (if pc_BaseURL cfg = [] then LiveBaseURL else pc_BaseURL cfg) (CHR ''/''),
      pp_tolerance = (if pc_Tolerance cfg = 0 then defaultTolerance else pc_Tolerance cfg)\<rparr>"

definition paddle_header :: "string \<Rightarrow> string \<times> string" where
  "paddle_header header =
     foldl (\<lambda>(ts, h1) part.
         case Cut (TrimSpace part) (CHR ''='') of
           None \<Rightarrow> (ts, h1)
         | Some (k, v) \<Rightarrow> if k = ''ts'' then (v, h1) else if k = ''h1'' then (ts, v) else (ts, h1))
       ([], []) (Split header (CHR '';''))"

definition paddle_verifySignature :: "hmac_fun \<Rightarrow> PaddleProvider \<Rightarrow> time \<Rightarrow> string \<Rightarrow> bytes \<Rightarrow> (string, unit) result" where
  "paddle_verifySignature hmac p now header body =
     (if pp_secret p = [] then Inl ''paddle: no webhook signing secret configured''
      else let (ts, h1) = paddle_header header
      in if ts = [] \<or> h1 = [] then Inl ''paddle: malformed Paddle-Signature header''
      else if pp_tolerance p \<ge> 0 \<and> ParseInt64 ts = None then Inl ''paddle: bad signature timestamp''
      else if pp_tolerance p \<ge> 0 \<and> outside_tolerance now (pp_tolerance p) (the (ParseInt64 ts))
        then Inl ''paddle: signature timestamp outside tolerance''
      else case hex_decode h1 of
             None \<Rightarrow> Inl ''paddle: signature is not valid hex''
           | Some want \<Rightarrow>
               if want \<noteq> hmac (pp_secret p) (ts @ '':'' @ body) then Inl ''paddle: signature mismatch'' else Inr ())"

definition paddle_statusFor :: "string \<Rightarrow> BillingStatus" where
  "paddle_statusFor eventType =
     (if eventType \<in> {''subscription.created'', ''subscription.activated'', ''subscription.resumed'', ''subscription.updated'',
          ''transaction.completed'', ''transaction.paid''} then StatusActive
      else if eventType \<in> {''subscription.past_due'', ''transaction.payment_failed''} then StatusPastDue
      else if eventType \<in> {''subscription.canceled'', ''subscription.paused''} then StatusSuspended
      else [])"

text \<open>The fields of a webhook envelope the provider reads; an absent field is the empty string.\<close>

record paddle_event =
  pe_EventType :: string
  pe_ID :: string
  pe_CustomerID :: string
  pe_Kind :: string
  pe_OrgID :: string
  pe_AmountCents :: string

definition isTopUpTxn :: "paddle_event \<Rightarrow> bool" where
  "isTopUpTxn ev \<longleftrightarrow>
     (pe_EventType ev = ''transaction.completed'' \<or> pe_EventType ev = ''transaction.paid'') \<and> pe_Kind ev = ''credit_topup''"

definition paddle_map :: "paddle_event \<Rightarrow> Event" where
  "paddle_map ev =
     \<lparr>ev_Status = (if isTopUpTxn ev then [] else paddle_statusFor (pe_EventType ev)),
      ev_CustomerRef = pe_CustomerID ev, ev_OrgID = pe_OrgID ev,
      ev_TopUp =
        (if isTopUpTxn ev \<and> pe_OrgID ev \<noteq> [] then
           (case ParseInt64 (pe_AmountCents ev) of
              Some cents \<Rightarrow>
                if cents > 0 then Some \<lparr>tc_OrgID = pe_OrgID ev, tc_AmountCents = cents, tc_Ref = pe_ID ev\<rparr> else None
            | None \<Rightarrow> None)
         else None)\<rparr>"

definition paddle_VerifyWebhook ::
  "hmac_fun \<Rightarrow> (bytes \<Rightarrow> (string, paddle_event) result) \<Rightarrow> PaddleProvider \<Rightarrow> time \<Rightarrow> string \<Rightarrow> bytes \<Rightarrow> (string, Event) result" where
  "paddle_VerifyWebhook hmac unmarshal p now header body =
     (case paddle_verifySignature hmac p now header body of
        Inl e \<Rightarrow> Inl e
      | Inr _ \<Rightarrow>
          (case unmarshal body of
             Inl e \<Rightarrow> Inl (''paddle: malformed event: '' @ e)
           | Inr ev \<Rightarrow> Inr (paddle_map ev)))"

section \<open>Paddle checkout\<close>

record CheckoutTopUp =
  ct_CustomerRef :: string
  ct_OrgID :: string
  ct_AmountCents :: int
  ct_ProductID :: string
  ct_Currency :: string

record Checkout =
  co_URL :: string
  co_CustomerRef :: string

text \<open>The transaction the checkout asks for: one item of one price, and the custom data.\<close>

record checkout_request =
  cq_url :: string
  cq_authorization :: string
  cq_Quantity :: int
  cq_ProductID :: string
  cq_Description :: string
  cq_TaxMode :: string
  cq_PriceQuantity :: "int \<times> int"
  cq_CollectionMode :: string
  cq_Amount :: string
  cq_Currency :: string
  cq_CustomerID :: string
  cq_Kind :: string
  cq_OrgID :: string
  cq_AmountCents :: string

definition checkout_request_for :: "PaddleProvider \<Rightarrow> CheckoutTopUp \<Rightarrow> checkout_request" where
  "checkout_request_for p i =
     \<lparr>cq_url = pp_baseURL p @ ''/transactions'', cq_authorization = ''Bearer '' @ pp_apiKey p,
      cq_Quantity = 1, cq_ProductID = ct_ProductID i, cq_Description = ''Credit top-up'', cq_TaxMode = ''account_setting'',
      cq_PriceQuantity = (1, 1), cq_CollectionMode = ''automatic'', cq_Amount = dec_int (ct_AmountCents i), cq_Currency = ct_Currency i,
      cq_CustomerID = ct_CustomerRef i, cq_Kind = ''credit_topup'', cq_OrgID = ct_OrgID i,
      cq_AmountCents = dec_int (ct_AmountCents i)\<rparr>"

text \<open>
  The transport answers with an error, or a status and the decoded response: the customer and
  the checkout address, or an error of reading or decoding it.
\<close>

definition CreateCheckout ::
  "(checkout_request \<Rightarrow> (string, int \<times> (string, string \<times> string) result) result) \<Rightarrow> PaddleProvider \<Rightarrow> CheckoutTopUp \<Rightarrow> (string, Checkout) result" where
  "CreateCheckout do_http p i =
     (if pp_apiKey p = [] then Inl ''paddle: checkout not configured (no API key)''
      else case do_http (checkout_request_for p i) of
        Inl e \<Rightarrow> Inl e
      | Inr (status, resp) \<Rightarrow>
          if status < 200 \<or> status \<ge> 300 then Inl (''paddle: checkout API returned status '' @ dec_int status)
          else case resp of
                 Inl e \<Rightarrow> Inl e
               | Inr (customer, url) \<Rightarrow>
                   if url = [] then Inl ''paddle: checkout url missing; set a default payment link''
                   else Inr \<lparr>co_URL = url, co_CustomerRef = customer\<rparr>)"

definition PortalURL ::
  "(string \<times> string \<Rightarrow> (string, int \<times> (string, string) result) result) \<Rightarrow> PaddleProvider \<Rightarrow> string \<Rightarrow> (string, string) result" where
  "PortalURL do_http p customerRef =
     (if pp_apiKey p = [] then Inl ''paddle: customer portal not configured (no API key)''
      else if customerRef = [] then Inl ''paddle: empty customer reference''
      else case do_http (pp_baseURL p @ ''/customers/'' @ customerRef @ ''/portal-sessions'', ''Bearer '' @ pp_apiKey p) of
        Inl e \<Rightarrow> Inl e
      | Inr (status, resp) \<Rightarrow>
          if status < 200 \<or> status \<ge> 300 then Inl (''paddle: portal API returned status '' @ dec_int status)
          else case resp of
                 Inl e \<Rightarrow> Inl e
               | Inr overview \<Rightarrow> if overview = [] then Inl ''paddle: portal response had no overview URL'' else Inr overview)"

section \<open>Stripe\<close>

record StripeProvider =
  sp_secret :: string
  sp_tolerance :: duration

definition stripe_header :: "string \<Rightarrow> string \<times> string list" where
  "stripe_header header =
     foldl (\<lambda>(ts, v1s) part.
         case Cut (TrimSpace part) (CHR ''='') of
           None \<Rightarrow> (ts, v1s)
         | Some (k, v) \<Rightarrow> if k = ''t'' then (v, v1s) else if k = ''v1'' then (ts, v1s @ [v]) else (ts, v1s))
       ([], []) (Split header (CHR '',''))"

definition stripe_verifySignature :: "hmac_fun \<Rightarrow> StripeProvider \<Rightarrow> time \<Rightarrow> string \<Rightarrow> bytes \<Rightarrow> (string, unit) result" where
  "stripe_verifySignature hmac p now header body =
     (if sp_secret p = [] then Inl ''stripe: no signing secret configured''
      else let (ts, v1s) = stripe_header header
      in if ts = [] \<or> v1s = [] then Inl ''stripe: malformed Stripe-Signature header''
      else if sp_tolerance p > 0 \<and> ParseInt64 ts = None then Inl ''stripe: bad signature timestamp''
      else if sp_tolerance p > 0 \<and> outside_tolerance now (sp_tolerance p) (the (ParseInt64 ts))
        then Inl ''stripe: signature timestamp outside tolerance''
      else if \<exists>v1 \<in> set v1s. hex_decode v1 = Some (hmac (sp_secret p) (ts @ ''.'' @ body)) then Inr ()
      else Inl ''stripe: signature mismatch'')"

definition stripe_statusFor :: "string \<Rightarrow> BillingStatus" where
  "stripe_statusFor eventType =
     (if eventType = ''invoice.payment_failed'' then StatusPastDue
      else if eventType = ''invoice.payment_succeeded'' \<or> eventType = ''customer.subscription.updated'' then StatusActive
      else if eventType = ''customer.subscription.deleted'' then StatusSuspended
      else [])"

text \<open>The decoder yields the type and the customer of the event.\<close>

definition stripe_VerifyWebhook ::
  "hmac_fun \<Rightarrow> (bytes \<Rightarrow> (string, string \<times> string) result) \<Rightarrow> StripeProvider \<Rightarrow> time \<Rightarrow> string \<Rightarrow> bytes \<Rightarrow> (string, Event) result" where
  "stripe_VerifyWebhook hmac unmarshal p now header body =
     (case stripe_verifySignature hmac p now header body of
        Inl e \<Rightarrow> Inl e
      | Inr _ \<Rightarrow>
          (case unmarshal body of
             Inl e \<Rightarrow> Inl (''stripe: malformed event: '' @ e)
           | Inr (typ, customer) \<Rightarrow>
               Inr \<lparr>ev_Status = stripe_statusFor typ, ev_CustomerRef = customer, ev_OrgID = [], ev_TopUp = None\<rparr>))"

section \<open>Authenticity\<close>

lemma parse_digits_chars: "parse_digits a s = Some v \<Longrightarrow> c \<in> set s \<Longrightarrow> digit_value c \<noteq> None"
  by (induction a s rule: parse_digits.induct) (auto split: option.splits)

lemma ParseInt64_no_colon:
  assumes "ParseInt64 ts = Some n"
  shows "CHR '':'' \<notin> set ts"
proof -
  have "digit_value CHR '':'' = None" by (simp add: digit_value_def less_eq_char_def)
  then have d: "parse_decimal s = Some v \<Longrightarrow> CHR '':'' \<notin> set s" for s v
    using parse_digits_chars by (fastforce simp: parse_decimal_def split: if_splits)
  show ?thesis
  proof (cases ts)
    case (Cons c s)
    then show ?thesis using assms d [of s] d [of ts]
      by (auto simp: ParseInt64_def parse_signed_def split: option.splits if_splits)
  qed simp
qed

lemma paddle_accepts:
  "paddle_verifySignature hmac p now header body = Inr () \<longleftrightarrow>
     (\<exists>ts h1. pp_secret p \<noteq> [] \<and> paddle_header header = (ts, h1) \<and> ts \<noteq> [] \<and> h1 \<noteq> [] \<and>
        hex_decode h1 = Some (hmac (pp_secret p) (ts @ '':'' @ body)) \<and>
        (0 \<le> pp_tolerance p \<longrightarrow> (\<exists>sec. ParseInt64 ts = Some sec \<and> \<not> outside_tolerance now (pp_tolerance p) sec)))"
  by (auto simp: paddle_verifySignature_def Let_def split: prod.splits option.splits if_splits)

lemma within_tolerance:
  assumes "\<not> outside_tolerance now tol sec" "tol < 2 ^ 63 - 1"
  shows "\<bar>now - Unix sec\<bar> \<le> tol"
  using assms by (auto simp: outside_tolerance_def time_Sub_def Let_def max_def min_def split: if_splits)

text \<open>
  A webhook that passes the Paddle signature check carries a MAC under the configured secret
  of its own timestamp and body, and its timestamp is within the tolerance of the clock. Two
  accepted requests with the same signature have the same timestamp and body, unless two
  different signed texts have the same MAC.
\<close>

lemma signature_binds:
  assumes "paddle_verifySignature hmac p now header body = Inr ()" "paddle_verifySignature hmac p now' header' body' = Inr ()"
    and "0 \<le> pp_tolerance p" "pp_tolerance p < 2 ^ 63 - 1"
  shows "\<exists>ts sec ts'. pp_secret p \<noteq> [] \<and> fst (paddle_header header) = ts \<and> fst (paddle_header header') = ts' \<and>
    ParseInt64 ts = Some sec \<and> \<bar>now - Unix sec\<bar> \<le> pp_tolerance p \<and>
    hex_decode (snd (paddle_header header)) = Some (hmac (pp_secret p) (ts @ '':'' @ body)) \<and>
    (hex_decode (snd (paddle_header header)) = hex_decode (snd (paddle_header header')) \<longrightarrow>
       ts = ts' \<and> body = body' \<or>
       ts @ '':'' @ body \<noteq> ts' @ '':'' @ body' \<and> hmac (pp_secret p) (ts @ '':'' @ body) = hmac (pp_secret p) (ts' @ '':'' @ body'))"
proof -
  obtain ts h1 sec where a: "pp_secret p \<noteq> []" "paddle_header header = (ts, h1)" "hex_decode h1 = Some (hmac (pp_secret p) (ts @ '':'' @ body))"
      "ParseInt64 ts = Some sec" "\<not> outside_tolerance now (pp_tolerance p) sec"
    using assms(1,3) by (auto simp: paddle_accepts)
  obtain ts' h1' sec' where b: "paddle_header header' = (ts', h1')" "hex_decode h1' = Some (hmac (pp_secret p) (ts' @ '':'' @ body'))"
      "ParseInt64 ts' = Some sec'"
    using assms(2,3) by (auto simp: paddle_accepts)
  have "ts = ts' \<and> body = body'" if "ts @ '':'' @ body = ts' @ '':'' @ body'"
    using cut_unique [of ts "CHR '':''" body ts' body'] ParseInt64_no_colon [OF a(4)] ParseInt64_no_colon [OF b(3)] that by simp
  then show ?thesis using a b within_tolerance [OF a(5) assms(4)] by auto
qed

definition demo_paddle :: PaddleProvider where
  "demo_paddle = paddle_New \<lparr>pc_APIKey = [], pc_WebhookSecret = ''s3cret'', pc_BaseURL = [], pc_Tolerance = 0\<rparr>"

text \<open>A keyed hash for closed examples: the key and the text themselves.\<close>

definition demo_hmac :: hmac_fun where
  "demo_hmac k m = k @ m"

section \<open>Checkout and webhook\<close>

text \<open>The completed transaction of a checkout carries the custom data of the request.\<close>

lemma checkout_round_trip:
  assumes "0 < ct_AmountCents i" "in_i64 (ct_AmountCents i)" "ct_OrgID i \<noteq> []"
    and "pe_EventType ev = ''transaction.completed''" "pe_Kind ev = cq_Kind (checkout_request_for p i)"
    and "pe_OrgID ev = cq_OrgID (checkout_request_for p i)" "pe_AmountCents ev = cq_AmountCents (checkout_request_for p i)"
  shows "ev_TopUp (paddle_map ev) = Some \<lparr>tc_OrgID = ct_OrgID i, tc_AmountCents = ct_AmountCents i, tc_Ref = pe_ID ev\<rparr> \<and>
    ev_Status (paddle_map ev) = []"
  using assms by (simp add: paddle_map_def isTopUpTxn_def checkout_request_for_def ParseInt64_dec_int)

end
