(* ===== verification/Quota_Suspension.thy ===== *)
theory Quota_Suspension
  imports Mitos_Prelude
begin

text \<open>
  Suspension of organizations, \<^verbatim>\<open>internal/saas/quota\<close>: the suspension store and its in-memory
  implementation and the kill switch over any store (\<^verbatim>\<open>suspension.go\<close>), the read cache of a gateway
  replica (\<^verbatim>\<open>suspension_cache.go\<close>) and the seam the billing code drives
  (\<^verbatim>\<open>billing_adapter.go\<close>). A store is a record of operations over its state; each takes the
  reading of the clock at its call. The locale \<open>suspension_store\<close> is the contract of a store
  that is not a cache.
\<close>

section \<open>Stores\<close>

type_synonym SuspensionReason = string

definition ReasonManual :: SuspensionReason where "ReasonManual = ''manual''"
definition ReasonAbuseSignal :: SuspensionReason where "ReasonAbuseSignal = ''abuse_signal''"
definition ReasonEmergencyStop :: SuspensionReason where "ReasonEmergencyStop = ''emergency_stop''"
definition ReasonSpendCap :: SuspensionReason where "ReasonSpendCap = ''spend_cap''"
definition ReasonDunning :: SuspensionReason where "ReasonDunning = ''dunning''"

lemmas reason_defs = ReasonManual_def ReasonAbuseSignal_def ReasonEmergencyStop_def ReasonSpendCap_def ReasonDunning_def

record Suspension =
  su_OrgID :: string
  su_Reason :: SuspensionReason
  su_Note :: string
  su_At :: time
  su_ManualHold :: bool

record 's SuspensionStore =
  ss_Suspend :: "time \<Rightarrow> 's \<Rightarrow> Suspension \<Rightarrow> (string, unit) result \<times> 's"
  ss_Lift :: "time \<Rightarrow> 's \<Rightarrow> string \<Rightarrow> (string, bool) result \<times> 's"
  ss_IsSuspended :: "time \<Rightarrow> 's \<Rightarrow> string \<Rightarrow> (string, Suspension option) result \<times> 's"

type_synonym MemSuspensionStore = "string \<rightharpoonup> Suspension"

definition NewMemSuspensionStore :: MemSuspensionStore where
  "NewMemSuspensionStore = Map.empty"

definition mem_Suspend :: "MemSuspensionStore \<Rightarrow> Suspension \<Rightarrow> MemSuspensionStore" where
  "mem_Suspend s sus =
     (let sus' = (case s (su_OrgID sus) of Some prev \<Rightarrow> sus\<lparr>su_At := su_At prev\<rparr> | None \<Rightarrow> sus)
      in s(su_OrgID sus \<mapsto> sus'))"

definition mem_Lift :: "MemSuspensionStore \<Rightarrow> string \<Rightarrow> bool \<times> MemSuspensionStore" where
  "mem_Lift s orgID = (s orgID \<noteq> None, s(orgID := None))"

definition mem_IsSuspended :: "MemSuspensionStore \<Rightarrow> string \<Rightarrow> Suspension option" where
  "mem_IsSuspended s orgID = s orgID"

definition mem_store :: "MemSuspensionStore SuspensionStore" where
  "mem_store =
     \<lparr>ss_Suspend = (\<lambda>now s sus. (Inr (), mem_Suspend s sus)),
      ss_Lift = (\<lambda>now s orgID. case mem_Lift s orgID of (b, s') \<Rightarrow> (Inr b, s')),
      ss_IsSuspended = (\<lambda>now s orgID. (Inr (mem_IsSuspended s orgID), s))\<rparr>"

section \<open>The kill switch\<close>

definition ks_Suspend ::
  "'s SuspensionStore \<Rightarrow> time \<Rightarrow> 's \<Rightarrow> string \<Rightarrow> SuspensionReason \<Rightarrow> string \<Rightarrow> bool \<Rightarrow> (string, unit) result \<times> 's" where
  "ks_Suspend S now s orgID reason note manualHold =
     ss_Suspend S now s \<lparr>su_OrgID = orgID, su_Reason = reason, su_Note = note, su_At = now, su_ManualHold = manualHold\<rparr>"

definition ks_Lift :: "'s SuspensionStore \<Rightarrow> time \<Rightarrow> 's \<Rightarrow> string \<Rightarrow> (string, bool) result \<times> 's" where
  "ks_Lift S now s orgID = ss_Lift S now s orgID"

definition ks_LiftReason :: "'s SuspensionStore \<Rightarrow> time \<Rightarrow> 's \<Rightarrow> string \<Rightarrow> SuspensionReason \<Rightarrow> (string, bool) result \<times> 's" where
  "ks_LiftReason S now s orgID reason =
     (case ss_IsSuspended S now s orgID of
        (Inl e, s1) \<Rightarrow> (Inl e, s1)
      | (Inr None, s1) \<Rightarrow> (Inr False, s1)
      | (Inr (Some sus), s1) \<Rightarrow>
          if su_Reason sus \<noteq> reason \<or> su_ManualHold sus then (Inr False, s1)
          else ss_Lift S now s1 orgID)"

fun ks_EmergencyStop :: "'s SuspensionStore \<Rightarrow> time \<Rightarrow> 's \<Rightarrow> string list \<Rightarrow> string \<Rightarrow> nat \<Rightarrow> nat \<times> string option \<times> 's" where
  "ks_EmergencyStop S now s [] note n = (n, None, s)"
| "ks_EmergencyStop S now s (orgID # orgs) note n =
     (case ks_Suspend S now s orgID ReasonEmergencyStop note True of
        (Inl e, s1) \<Rightarrow> (n, Some e, s1)
      | (Inr _, s1) \<Rightarrow> ks_EmergencyStop S now s1 orgs note (n + 1))"

text \<open>\<open>fired\<close> walks the map of flagged organizations and their reasons.\<close>

fun process_fired :: "'s SuspensionStore \<Rightarrow> time \<Rightarrow> 's \<Rightarrow> (string \<times> string) list \<Rightarrow> string list \<Rightarrow> string list \<times> string option \<times> 's" where
  "process_fired S now s [] acc = (acc, None, s)"
| "process_fired S now s ((orgID, reason) # fired) acc =
     (case ks_Suspend S now s orgID ReasonAbuseSignal reason True of
        (Inl e, s1) \<Rightarrow> (acc, Some e, s1)
      | (Inr _, s1) \<Rightarrow> process_fired S now s1 fired (acc @ [orgID]))"

definition ks_ProcessSignals ::
  "'s SuspensionStore \<Rightarrow> time \<Rightarrow> 's \<Rightarrow> (string, (string \<times> string) list) result \<Rightarrow> string list \<times> string option \<times> 's" where
  "ks_ProcessSignals S now s signal =
     (case signal of Inl e \<Rightarrow> ([], Some e, s) | Inr fired \<Rightarrow> process_fired S now s fired [])"

section \<open>The billing seam\<close>

definition billingReason :: "string \<Rightarrow> SuspensionReason option" where
  "billingReason reason =
     (if reason = ''spend_cap'' then Some ReasonSpendCap else if reason = ''dunning'' then Some ReasonDunning else None)"

definition bs_Suspend ::
  "'s SuspensionStore \<Rightarrow> time \<Rightarrow> 's \<Rightarrow> string \<Rightarrow> string \<Rightarrow> string \<Rightarrow> bool \<Rightarrow> (string, unit) result \<times> 's" where
  "bs_Suspend S now s orgID reason note manualHold =
     ks_Suspend S now s orgID (case billingReason reason of Some r \<Rightarrow> r | None \<Rightarrow> ReasonManual) note manualHold"

definition bs_LiftReason :: "'s SuspensionStore \<Rightarrow> time \<Rightarrow> 's \<Rightarrow> string \<Rightarrow> string \<Rightarrow> (string, bool) result \<times> 's" where
  "bs_LiftReason S now s orgID reason =
     (case billingReason reason of None \<Rightarrow> (Inr False, s) | Some r \<Rightarrow> ks_LiftReason S now s orgID r)"

section \<open>The read cache\<close>

definition DefaultSuspensionCacheTTL :: duration where
  "DefaultSuspensionCacheTTL = 3 * second_ns"

record suspensionCacheEntry =
  ce_sus :: "Suspension option"
  ce_expires :: time

record 's CachedSuspensionStore =
  cs_inner :: 's
  cs_ttl :: duration
  cs_entries :: "string \<rightharpoonup> suspensionCacheEntry"

definition NewCachedSuspensionStore :: "'s \<Rightarrow> duration \<Rightarrow> 's CachedSuspensionStore" where
  "NewCachedSuspensionStore inner ttl =
     \<lparr>cs_inner = inner, cs_ttl = (if ttl \<le> 0 then DefaultSuspensionCacheTTL else ttl), cs_entries = Map.empty\<rparr>"

definition invalidate :: "'s CachedSuspensionStore \<Rightarrow> string \<Rightarrow> 's CachedSuspensionStore" where
  "invalidate c orgID = c\<lparr>cs_entries := (cs_entries c)(orgID := None)\<rparr>"

definition cached_Suspend ::
  "'s SuspensionStore \<Rightarrow> time \<Rightarrow> 's CachedSuspensionStore \<Rightarrow> Suspension \<Rightarrow> (string, unit) result \<times> 's CachedSuspensionStore" where
  "cached_Suspend S now c sus =
     (case ss_Suspend S now (cs_inner c) sus of
        (Inl e, i) \<Rightarrow> (Inl e, c\<lparr>cs_inner := i\<rparr>)
      | (Inr _, i) \<Rightarrow> (Inr (), invalidate (c\<lparr>cs_inner := i\<rparr>) (su_OrgID sus)))"

definition cached_Lift ::
  "'s SuspensionStore \<Rightarrow> time \<Rightarrow> 's CachedSuspensionStore \<Rightarrow> string \<Rightarrow> (string, bool) result \<times> 's CachedSuspensionStore" where
  "cached_Lift S now c orgID =
     (case ss_Lift S now (cs_inner c) orgID of
        (Inl e, i) \<Rightarrow> (Inl e, c\<lparr>cs_inner := i\<rparr>)
      | (Inr b, i) \<Rightarrow> (Inr b, invalidate (c\<lparr>cs_inner := i\<rparr>) orgID))"

text \<open>A read is three steps, each under its own lock: look up, read the inner store, fill the cache.\<close>

definition cache_lookup :: "time \<Rightarrow> 's CachedSuspensionStore \<Rightarrow> string \<Rightarrow> Suspension option option" where
  "cache_lookup now c orgID =
     (case cs_entries c orgID of
        Some e \<Rightarrow> if now < ce_expires e then Some (ce_sus e) else None
      | None \<Rightarrow> None)"

definition cache_fill :: "time \<Rightarrow> 's CachedSuspensionStore \<Rightarrow> string \<Rightarrow> Suspension option \<Rightarrow> 's CachedSuspensionStore" where
  "cache_fill now c orgID sus = c\<lparr>cs_entries := (cs_entries c)(orgID \<mapsto> \<lparr>ce_sus = sus, ce_expires = now + cs_ttl c\<rparr>)\<rparr>"

definition cached_IsSuspended ::
  "'s SuspensionStore \<Rightarrow> time \<Rightarrow> 's CachedSuspensionStore \<Rightarrow> string \<Rightarrow> (string, Suspension option) result \<times> 's CachedSuspensionStore" where
  "cached_IsSuspended S now c orgID =
     (case cache_lookup now c orgID of
        Some sus \<Rightarrow> (Inr sus, c)
      | None \<Rightarrow>
          (case ss_IsSuspended S now (cs_inner c) orgID of
             (Inl e, i) \<Rightarrow> (Inl e, c\<lparr>cs_inner := i\<rparr>)
           | (Inr sus, i) \<Rightarrow> (Inr sus, cache_fill now (c\<lparr>cs_inner := i\<rparr>) orgID sus)))"

definition cached_store :: "'s SuspensionStore \<Rightarrow> 's CachedSuspensionStore SuspensionStore" where
  "cached_store S = \<lparr>ss_Suspend = cached_Suspend S, ss_Lift = cached_Lift S, ss_IsSuspended = cached_IsSuspended S\<rparr>"

section \<open>The contract of a store\<close>

definition add_suspension :: "(string \<rightharpoonup> Suspension) \<Rightarrow> Suspension \<Rightarrow> string \<rightharpoonup> Suspension" where
  "add_suspension v sus =
     v(su_OrgID sus \<mapsto> (case v (su_OrgID sus) of Some prev \<Rightarrow> sus\<lparr>su_At := su_At prev\<rparr> | None \<Rightarrow> sus))"

locale suspension_store =
  fixes S :: "'s SuspensionStore" and view :: "'s \<Rightarrow> string \<rightharpoonup> Suspension"
  assumes suspend: "ss_Suspend S now s sus = (r, s') \<Longrightarrow>
      r = Inr () \<and> view s' = add_suspension (view s) sus \<or> isl r \<and> view s' = view s"
    and lift: "ss_Lift S now s orgID = (b, s') \<Longrightarrow>
      b = Inr (view s orgID \<noteq> None) \<and> view s' = (view s)(orgID := None) \<or> isl b \<and> view s' = view s"
    and read: "ss_IsSuspended S now s orgID = (q, s') \<Longrightarrow> view s' = view s \<and> (q = Inr (view s orgID) \<or> isl q)"
begin

text \<open>An automated lift removes a suspension with its own reason and without a hold, and nothing else.\<close>

lemma lift_reason_scoped:
  assumes "ks_LiftReason S now s orgID reason = (r, s')"
  shows "(r = Inr True \<and> view s' = (view s)(orgID := None) \<and>
      (\<exists>sus. view s orgID = Some sus \<and> su_Reason sus = reason \<and> \<not> su_ManualHold sus)) \<or>
    (r \<noteq> Inr True \<and> view s' = view s \<and>
      (isl r \<or> (\<forall>sus. view s orgID = Some sus \<longrightarrow> su_Reason sus \<noteq> reason \<or> su_ManualHold sus)))"
proof -
  obtain q s1 where q: "ss_IsSuspended S now s orgID = (q, s1)" by fastforce
  note rd = read [OF q]
  show ?thesis
  proof (cases "isl q")
    case True
    then show ?thesis using assms q rd by (cases q) (auto simp: ks_LiftReason_def)
  next
    case False
    then have v: "q = Inr (view s orgID)" "view s1 = view s" using rd by auto
    show ?thesis
    proof (cases "view s orgID")
      case None
      then show ?thesis using assms q v by (auto simp: ks_LiftReason_def)
    next
      case (Some sus)
      show ?thesis
      proof (cases "su_Reason sus \<noteq> reason \<or> su_ManualHold sus")
        case True
        then show ?thesis using assms q v Some by (auto simp: ks_LiftReason_def)
      next
        case False
        then have "ss_Lift S now s1 orgID = (r, s')" using assms q v Some by (simp add: ks_LiftReason_def)
        from lift [OF this] show ?thesis using False v(2) Some by auto
      qed
    qed
  qed
qed

lemma suspend_visible:
  "ks_Suspend S now s orgID reason note hold = (Inr (), s') \<Longrightarrow>
   \<exists>sus. view s' orgID = Some sus \<and> su_Reason sus = reason \<and> su_ManualHold sus = hold"
  using suspend [of now s "\<lparr>su_OrgID = orgID, su_Reason = reason, su_Note = note, su_At = now, su_ManualHold = hold\<rparr>" "Inr ()" s']
  by (auto simp: ks_Suspend_def add_suspension_def split: option.splits)

end

interpretation mem: suspension_store mem_store "\<lambda>s. s"
  by unfold_locales (auto simp: mem_store_def mem_Suspend_def mem_Lift_def mem_IsSuspended_def add_suspension_def Let_def split: option.splits)

section \<open>Runs of a cached store\<close>

text \<open>
  What can happen to a replica's cached store: another replica writes to the shared inner store,
  the replica itself suspends, lifts or reads.
\<close>

datatype 's cache_event = Elsewhere 's | OwnSuspend Suspension | OwnLift string | OwnRead string

fun cache_step :: "'s SuspensionStore \<Rightarrow> 's CachedSuspensionStore \<Rightarrow> time \<times> 's cache_event \<Rightarrow> 's CachedSuspensionStore" where
  "cache_step S c (t, Elsewhere i) = c\<lparr>cs_inner := i\<rparr>"
| "cache_step S c (t, OwnSuspend sus) = snd (cached_Suspend S t c sus)"
| "cache_step S c (t, OwnLift orgID) = snd (cached_Lift S t c orgID)"
| "cache_step S c (t, OwnRead orgID) = snd (cached_IsSuspended S t c orgID)"

definition cache_run :: "'s SuspensionStore \<Rightarrow> 's CachedSuspensionStore \<Rightarrow> (time \<times> 's cache_event) list \<Rightarrow> 's CachedSuspensionStore" where
  "cache_run S c xs = foldl (cache_step S) c xs"

text \<open>The own write of an event, when the inner store accepts it.\<close>

fun own_write :: "'s SuspensionStore \<Rightarrow> 's CachedSuspensionStore \<Rightarrow> time \<times> 's cache_event \<Rightarrow> string \<Rightarrow> bool" where
  "own_write S c (t, OwnSuspend sus) orgID \<longleftrightarrow> su_OrgID sus = orgID \<and> fst (cached_Suspend S t c sus) = Inr ()"
| "own_write S c (t, OwnLift q) orgID \<longleftrightarrow> q = orgID \<and> \<not> isl (fst (cached_Lift S t c q))"
| "own_write S c _ orgID \<longleftrightarrow> False"

fun own_write_in :: "'s SuspensionStore \<Rightarrow> 's CachedSuspensionStore \<Rightarrow> (time \<times> 's cache_event) list \<Rightarrow> string \<Rightarrow> bool" where
  "own_write_in S c [] orgID = False"
| "own_write_in S c (x # xs) orgID = (own_write S c x orgID \<or> own_write_in S (cache_step S c x) xs orgID)"

lemma own_write_in_snoc: "own_write_in S c (xs @ [x]) orgID \<longleftrightarrow> own_write_in S c xs orgID \<or> own_write S (cache_run S c xs) x orgID"
  by (induction xs arbitrary: c) (auto simp: cache_run_def)

lemma cache_run_append: "cache_run S c (xs @ ys) = cache_run S (cache_run S c xs) ys"
  by (simp add: cache_run_def)

lemma cache_ttl: "cs_ttl (cache_step S c x) = cs_ttl c"
  by (cases "(S, c, x)" rule: cache_step.cases)
    (auto simp: cached_Suspend_def cached_Lift_def cached_IsSuspended_def invalidate_def cache_fill_def split: prod.splits sum.splits option.splits)

lemma cache_run_ttl: "cs_ttl (cache_run S c xs) = cs_ttl c"
  by (induction xs arbitrary: c) (simp_all add: cache_run_def cache_ttl)

context suspension_store
begin

text \<open>What one step leaves in the cache.\<close>

lemma cache_step_entry:
  assumes "cs_entries (cache_step S c (t, x)) orgID = Some e"
  shows "cs_entries c orgID = Some e \<and> \<not> own_write S c (t, x) orgID \<or>
    x = OwnRead orgID \<and> ce_expires e = t + cs_ttl c \<and> ce_sus e = view (cs_inner (cache_step S c (t, x))) orgID"
proof (cases x)
  case (OwnSuspend sus)
  then show ?thesis using assms
    by (cases "ss_Suspend S t (cs_inner c) sus") (auto simp: cached_Suspend_def invalidate_def split: sum.splits if_splits)
next
  case (OwnLift q)
  then show ?thesis using assms
    by (cases "ss_Lift S t (cs_inner c) q") (auto simp: cached_Lift_def invalidate_def split: sum.splits if_splits)
next
  case (OwnRead q)
  obtain r i where i: "ss_IsSuspended S t (cs_inner c) q = (r, i)" by fastforce
  show ?thesis using assms OwnRead i read [OF i]
    by (auto simp: cached_IsSuspended_def cache_fill_def split: option.splits sum.splits if_splits)
qed (use assms in simp)

definition filled_by :: "'s CachedSuspensionStore \<Rightarrow> (time \<times> 's cache_event) list \<Rightarrow> string \<Rightarrow> suspensionCacheEntry \<Rightarrow> bool" where
  "filled_by c xs orgID e \<longleftrightarrow> (\<exists>pre t post. xs = pre @ (t, OwnRead orgID) # post \<and> ce_expires e = t + cs_ttl c \<and>
     ce_sus e = view (cs_inner (cache_run S c (pre @ [(t, OwnRead orgID)]))) orgID \<and>
     \<not> own_write_in S (cache_run S c (pre @ [(t, OwnRead orgID)])) post orgID)"

lemma cache_run_entry:
  assumes "cs_entries c = Map.empty" "cs_entries (cache_run S c xs) orgID = Some e"
  shows "filled_by c xs orgID e"
  using assms(2)
proof (induction xs rule: rev_induct)
  case Nil
  then show ?case using assms(1) by (simp add: cache_run_def)
next
  case (snoc x xs)
  let ?c = "cache_run S c xs"
  obtain t ev where x: "x = (t, ev)" by (cases x)
  have s: "cs_entries (cache_step S ?c (t, ev)) orgID = Some e" using snoc.prems by (simp add: cache_run_def x)
  from cache_step_entry [OF s] show ?case
  proof
    assume a: "cs_entries ?c orgID = Some e \<and> \<not> own_write S ?c (t, ev) orgID"
    with snoc.IH obtain pre u post where p: "xs = pre @ (u, OwnRead orgID) # post" "ce_expires e = u + cs_ttl c"
      "ce_sus e = view (cs_inner (cache_run S c (pre @ [(u, OwnRead orgID)]))) orgID"
      "\<not> own_write_in S (cache_run S c (pre @ [(u, OwnRead orgID)])) post orgID"
      by (auto simp: filled_by_def)
    have "?c = cache_run S (cache_run S c (pre @ [(u, OwnRead orgID)])) post" by (simp add: p(1) cache_run_append [symmetric])
    then have "\<not> own_write_in S (cache_run S c (pre @ [(u, OwnRead orgID)])) (post @ [x]) orgID"
      using p(4) a by (simp add: own_write_in_snoc x)
    then show ?case unfolding filled_by_def
      using p by (intro exI [of _ pre] exI [of _ u] exI [of _ "post @ [x]"]) simp
  next
    assume a: "ev = OwnRead orgID \<and> ce_expires e = t + cs_ttl ?c \<and> ce_sus e = view (cs_inner (cache_step S ?c (t, ev))) orgID"
    then show ?case unfolding filled_by_def
      by (intro exI [of _ xs] exI [of _ t] exI [of _ "[]"]) (simp add: x cache_run_ttl cache_run_append, simp add: cache_run_def)
  qed
qed

text \<open>
  An answer is the current state of the inner store, or what it was at an earlier read within
  the time to live, with no write of the replica's own to the organization in between.
\<close>

lemma cached_answer:
  assumes "cs_entries c = Map.empty" "cached_IsSuspended S now (cache_run S c xs) orgID = (Inr sus, c')"
  shows "sus = view (cs_inner (cache_run S c xs)) orgID \<or>
    (\<exists>pre t post. xs = pre @ (t, OwnRead orgID) # post \<and> now < t + cs_ttl c \<and>
       sus = view (cs_inner (cache_run S c (pre @ [(t, OwnRead orgID)]))) orgID \<and>
       \<not> own_write_in S (cache_run S c (pre @ [(t, OwnRead orgID)])) post orgID)"
proof (cases "cache_lookup now (cache_run S c xs) orgID")
  case None
  obtain r i where i: "ss_IsSuspended S now (cs_inner (cache_run S c xs)) orgID = (r, i)" by fastforce
  then have "r = Inr sus" using assms(2) None by (cases r) (auto simp: cached_IsSuspended_def)
  then show ?thesis using read [OF i] by simp
next
  case (Some v)
  then obtain e where e: "cs_entries (cache_run S c xs) orgID = Some e" "now < ce_expires e" "v = ce_sus e"
    by (auto simp: cache_lookup_def split: option.splits if_splits)
  have "v = sus" using assms(2) Some by (simp add: cached_IsSuspended_def)
  then show ?thesis using cache_run_entry [OF assms(1) e(1)] e(2,3) by (auto simp: filled_by_def)
qed

end

section \<open>Properties\<close>


definition hold_abuse :: Suspension where
  "hold_abuse = \<lparr>su_OrgID = ''acme'', su_Reason = ReasonAbuseSignal, su_Note = ''miner'', su_At = 1, su_ManualHold = True\<rparr>"


lemma own_write_visible:
  "\<exists>sus' c'. cached_IsSuspended mem_store now (snd (cached_Suspend mem_store t c sus)) (su_OrgID sus) = (Inr (Some sus'), c')"
  by (simp add: cached_IsSuspended_def cached_Suspend_def cache_lookup_def invalidate_def mem_store_def mem_Suspend_def
    mem_IsSuspended_def Let_def)

text \<open>
  The steps of a read may interleave with a suspension by the same replica: a read that saw the
  inner store before the suspension fills the cache after it, and the replica then answers
  that the organization is not suspended until the entry expires.
\<close>

lemma cache_own_write_race:
  assumes "cache_lookup t c orgID = None" "cs_inner c orgID = None" "u < t + cs_ttl c" "su_OrgID sus = orgID"
  shows "cached_IsSuspended mem_store u (cache_fill t (snd (cached_Suspend mem_store t c sus)) orgID (mem_IsSuspended (cs_inner c) orgID)) orgID =
    (Inr None, cache_fill t (snd (cached_Suspend mem_store t c sus)) orgID None)"
  using assms by (simp add: cached_IsSuspended_def cache_lookup_def cache_fill_def cached_Suspend_def mem_store_def mem_IsSuspended_def invalidate_def)

text \<open>
  An automated lift clears a suspension only when it carries the reason of the lift and no
  manual hold; otherwise the store is as it was. But a suspension through the billing seam
  replaces a held one, reason and hold, and the lift that matches it then clears the
  organization.
\<close>

theorem automated_lift_scoped:
  "(\<exists>b s'. bs_LiftReason mem_store now s orgID reason = (Inr b, s') \<and>
     (b \<longleftrightarrow> (\<exists>sus. s orgID = Some sus \<and> billingReason reason = Some (su_Reason sus) \<and> \<not> su_ManualHold sus)) \<and>
     s' = (if b then s(orgID := None) else s)) \<and>
   snd (bs_LiftReason mem_store now (snd (bs_Suspend mem_store t [orgID \<mapsto> hold_abuse] orgID ''dunning'' note False)) orgID ''dunning'') =
     Map.empty"
proof
  show "\<exists>b s'. bs_LiftReason mem_store now s orgID reason = (Inr b, s') \<and>
      (b \<longleftrightarrow> (\<exists>sus. s orgID = Some sus \<and> billingReason reason = Some (su_Reason sus) \<and> \<not> su_ManualHold sus)) \<and>
      s' = (if b then s(orgID := None) else s)"
  proof (cases "billingReason reason")
    case (Some r)
    then show ?thesis
      by (cases "s orgID") (auto simp: bs_LiftReason_def ks_LiftReason_def mem_store_def mem_IsSuspended_def mem_Lift_def)
  qed (auto simp: bs_LiftReason_def)
  show "snd (bs_LiftReason mem_store now (snd (bs_Suspend mem_store t [orgID \<mapsto> hold_abuse] orgID ''dunning'' note False)) orgID ''dunning'') =
      Map.empty"
    by (simp add: bs_LiftReason_def bs_Suspend_def ks_LiftReason_def ks_Suspend_def mem_store_def mem_Suspend_def mem_IsSuspended_def
      mem_Lift_def billingReason_def Let_def)
qed

end
