(* ===== verification/Billing_Webhook.thy ===== *)
theory Billing_Webhook
  imports Payment_Provider Quota_Suspension
begin

text \<open>
  The provider-neutral billing webhook, \<^verbatim>\<open>internal/saas/billingprovider\<close>: the map between
  organizations and customers (\<^verbatim>\<open>customers.go\<close>), the counters (\<^verbatim>\<open>webhookmetrics.go\<close>) and the
  handler (\<^verbatim>\<open>billingprovider.go\<close>). The handler reaches its stores through interfaces, each a
  record of operations or an optional operation; a nil seam is \<open>None\<close>. The blocks of
  \<^verbatim>\<open>ServeHTTP\<close> between two early returns are definitions of their own and return the message
  of the 500 response they end in, if any.
\<close>

section \<open>Customers\<close>

record MemCustomers =
  mc_byOrg :: "string \<rightharpoonup> string"
  mc_byCustomer :: "string \<rightharpoonup> string"

definition NewMemCustomers :: MemCustomers where
  "NewMemCustomers = \<lparr>mc_byOrg = Map.empty, mc_byCustomer = Map.empty\<rparr>"

definition Link :: "MemCustomers \<Rightarrow> string \<Rightarrow> string \<Rightarrow> MemCustomers" where
  "Link m orgID customerRef =
     (let m1 = (case mc_byOrg m orgID of Some old \<Rightarrow> m\<lparr>mc_byCustomer := (mc_byCustomer m)(old := None)\<rparr> | None \<Rightarrow> m);
          m2 = (case mc_byCustomer m1 customerRef of Some old \<Rightarrow> m1\<lparr>mc_byOrg := (mc_byOrg m1)(old := None)\<rparr> | None \<Rightarrow> m1)
      in m2\<lparr>mc_byOrg := (mc_byOrg m2)(orgID \<mapsto> customerRef), mc_byCustomer := (mc_byCustomer m2)(customerRef \<mapsto> orgID)\<rparr>)"

definition OrgForCustomer :: "MemCustomers \<Rightarrow> string \<Rightarrow> string option" where
  "OrgForCustomer m customerRef = mc_byCustomer m customerRef"

definition CustomerForOrg :: "MemCustomers \<Rightarrow> string \<Rightarrow> string option" where
  "CustomerForOrg m orgID = mc_byOrg m orgID"

section \<open>The handler and its state\<close>

record 'st StatusStore =
  sto_Status :: "'st \<Rightarrow> string \<Rightarrow> (string, BillingStatus) result"
  sto_SetStatus :: "'st \<Rightarrow> string \<Rightarrow> BillingStatus \<Rightarrow> (string, unit) result \<times> 'st"

definition mem_status :: "(string \<rightharpoonup> BillingStatus) StatusStore" where
  "mem_status = \<lparr>sto_Status = (\<lambda>m orgID. Inr (status_Status m orgID)), sto_SetStatus = (\<lambda>m orgID st. (Inr (), status_SetStatus m orgID st))\<rparr>"

type_synonym 'k SuspensionLifter = "'k \<Rightarrow> string \<Rightarrow> string \<Rightarrow> (string, bool) result \<times> 'k"

record ('c, 'st, 'l, 'k) WebhookHandler =
  wh_customers :: "'c \<Rightarrow> string \<Rightarrow> (string, string option) result"
  wh_linker :: "('c \<Rightarrow> string \<Rightarrow> string \<Rightarrow> (string, unit) result \<times> 'c) option"
  wh_status :: "'st StatusStore"
  wh_ledger :: "'l CreditLedger option"
  wh_suspender :: "'k Suspender option"
  wh_lifter :: "'k SuspensionLifter option"

record WebhookMetrics =
  wm_verifyFailures :: nat
  wm_handlerErrors :: nat

record ('c, 'st, 'l, 'k) webhook_state =
  wb_customers :: 'c
  wb_status :: 'st
  wb_ledger :: 'l
  wb_kill :: 'k
  wb_metrics :: "WebhookMetrics option"

definition observeVerifyFailure :: "('c, 'st, 'l, 'k) webhook_state \<Rightarrow> ('c, 'st, 'l, 'k) webhook_state" where
  "observeVerifyFailure s = s\<lparr>wb_metrics := map_option (\<lambda>m. m\<lparr>wm_verifyFailures := wm_verifyFailures m + 1\<rparr>) (wb_metrics s)\<rparr>"

definition observeHandlerError :: "('c, 'st, 'l, 'k) webhook_state \<Rightarrow> ('c, 'st, 'l, 'k) webhook_state" where
  "observeHandlerError s = s\<lparr>wb_metrics := map_option (\<lambda>m. m\<lparr>wm_handlerErrors := wm_handlerErrors m + 1\<rparr>) (wb_metrics s)\<rparr>"

text \<open>\<^verbatim>\<open>WithSuspender\<close>: the lifter is wired when the suspender is one too.\<close>

definition WithSuspender ::
  "('c, 'st, 'l, 'k) WebhookHandler \<Rightarrow> 'k Suspender \<Rightarrow> 'k SuspensionLifter option \<Rightarrow> ('c, 'st, 'l, 'k) WebhookHandler" where
  "WithSuspender h susp lifts =
     (let h1 = h\<lparr>wh_suspender := Some susp\<rparr>
      in case lifts of None \<Rightarrow> h1 | Some l \<Rightarrow> h1\<lparr>wh_lifter := Some l\<rparr>)"

section \<open>Serving a webhook\<close>

definition serve_link ::
  "('c, 'st, 'l, 'k) WebhookHandler \<Rightarrow> Event \<Rightarrow> ('c, 'st, 'l, 'k) webhook_state \<Rightarrow> string option \<times> ('c, 'st, 'l, 'k) webhook_state" where
  "serve_link h ev s =
     (case wh_linker h of
        Some link \<Rightarrow>
          if ev_OrgID ev \<noteq> [] \<and> ev_CustomerRef ev \<noteq> [] then
            (case link (wb_customers s) (ev_OrgID ev) (ev_CustomerRef ev) of
               (Inl e, c) \<Rightarrow> (Some ''customer link failed'', s\<lparr>wb_customers := c\<rparr>)
             | (Inr _, c) \<Rightarrow> (None, s\<lparr>wb_customers := c\<rparr>))
          else (None, s)
      | None \<Rightarrow> (None, s))"

definition set_status ::
  "('c, 'st, 'l, 'k) WebhookHandler \<Rightarrow> string \<Rightarrow> BillingStatus \<Rightarrow> ('c, 'st, 'l, 'k) webhook_state \<Rightarrow>
     string option \<times> ('c, 'st, 'l, 'k) webhook_state" where
  "set_status h orgID st s =
     (case sto_SetStatus (wh_status h) (wb_status s) orgID st of
        (Inl e, m) \<Rightarrow> (Some ''status update failed'', s\<lparr>wb_status := m\<rparr>)
      | (Inr _, m) \<Rightarrow> (None, s\<lparr>wb_status := m\<rparr>))"

definition serve_lift ::
  "('c, 'st, 'l, 'k) WebhookHandler \<Rightarrow> string \<Rightarrow> ('c, 'st, 'l, 'k) webhook_state \<Rightarrow> string option \<times> ('c, 'st, 'l, 'k) webhook_state" where
  "serve_lift h orgID s =
     (case wh_lifter h of
        None \<Rightarrow> (None, s)
      | Some lifts \<Rightarrow>
          (case lifts (wb_kill s) orgID ''spend_cap'' of
             (Inl e, k) \<Rightarrow> (Some ''suspension lift failed'', s\<lparr>wb_kill := k\<rparr>)
           | (Inr False, k) \<Rightarrow> (None, s\<lparr>wb_kill := k\<rparr>)
           | (Inr True, k) \<Rightarrow>
               let s1 = s\<lparr>wb_kill := k\<rparr>
               in case sto_Status (wh_status h) (wb_status s1) orgID of
                    Inl e \<Rightarrow> (Some ''status read failed'', s1)
                  | Inr cur \<Rightarrow> if cur = StatusSuspended then set_status h orgID StatusActive s1 else (None, s1)))"

definition serve_topup ::
  "('c, 'st, 'l, 'k) WebhookHandler \<Rightarrow> time \<Rightarrow> Event \<Rightarrow> ('c, 'st, 'l, 'k) webhook_state \<Rightarrow>
     string option \<times> ('c, 'st, 'l, 'k) webhook_state" where
  "serve_topup h now ev s =
     (case (ev_TopUp ev, wh_ledger h) of
        (Some t, Some C) \<Rightarrow>
          if tc_OrgID t \<noteq> [] \<and> tc_AmountCents t > 0 then
            (case TopUp C (wb_ledger s) (tc_OrgID t) (tc_AmountCents t) (tc_Ref t) now of
               (Inl (LedgerFailure x), l) \<Rightarrow> (Some ''credit top-up failed'', s\<lparr>wb_ledger := l\<rparr>)
             | (_, l) \<Rightarrow> serve_lift h (tc_OrgID t) (s\<lparr>wb_ledger := l\<rparr>))
          else (None, s)
      | _ \<Rightarrow> (None, s))"

definition serve_recover ::
  "('c, 'st, 'l, 'k) WebhookHandler \<Rightarrow> string \<Rightarrow> BillingStatus \<Rightarrow> ('c, 'st, 'l, 'k) webhook_state \<Rightarrow>
     string option \<times> ('c, 'st, 'l, 'k) webhook_state" where
  "serve_recover h orgID st s =
     (case wh_lifter h of
        Some lifts \<Rightarrow>
          if st = StatusActive then
            (case lifts (wb_kill s) orgID ''dunning'' of
               (Inl e, k) \<Rightarrow> (Some ''suspension lift failed'', s\<lparr>wb_kill := k\<rparr>)
             | (Inr b, k) \<Rightarrow> (None, s\<lparr>wb_kill := k\<rparr>))
          else (None, s)
      | None \<Rightarrow> (None, s))"

definition dunning_note :: string where
  "dunning_note = ''billing provider reported the subscription suspended (canceled, paused, or payment retries exhausted)''"

definition serve_suspend ::
  "('c, 'st, 'l, 'k) WebhookHandler \<Rightarrow> string \<Rightarrow> BillingStatus \<Rightarrow> ('c, 'st, 'l, 'k) webhook_state \<Rightarrow>
     string option \<times> ('c, 'st, 'l, 'k) webhook_state" where
  "serve_suspend h orgID st s =
     (case wh_suspender h of
        Some susp \<Rightarrow>
          if st = StatusSuspended then
            (case sto_Status (wh_status h) (wb_status s) orgID of
               Inl e \<Rightarrow> (Some ''status read failed'', s)
             | Inr cur \<Rightarrow>
                 if cur \<noteq> StatusSuspended then
                   (case susp (wb_kill s) orgID ''dunning'' dunning_note False of
                      (Inl e, k) \<Rightarrow> (Some ''suspend failed'', s\<lparr>wb_kill := k\<rparr>)
                    | (Inr _, k) \<Rightarrow> (None, s\<lparr>wb_kill := k\<rparr>))
                 else (None, s))
          else (None, s)
      | None \<Rightarrow> (None, s))"

text \<open>Run a block unless an earlier one has answered.\<close>

definition and_then :: "string option \<times> 's \<Rightarrow> ('s \<Rightarrow> string option \<times> 's) \<Rightarrow> string option \<times> 's" where
  "and_then r f = (case r of (Some e, s) \<Rightarrow> (Some e, s) | (None, s) \<Rightarrow> f s)"

definition serve_status ::
  "('c, 'st, 'l, 'k) WebhookHandler \<Rightarrow> Event \<Rightarrow> ('c, 'st, 'l, 'k) webhook_state \<Rightarrow> string option \<times> ('c, 'st, 'l, 'k) webhook_state" where
  "serve_status h ev s =
     (if ev_Status ev = [] then (None, s)
      else case wh_customers h (wb_customers s) (ev_CustomerRef ev) of
             Inl e \<Rightarrow> (Some ''customer lookup failed'', s)
           | Inr None \<Rightarrow> (None, s)
           | Inr (Some orgID) \<Rightarrow>
               and_then (serve_recover h orgID (ev_Status ev) s) (\<lambda>s.
               and_then (serve_suspend h orgID (ev_Status ev) s)
                 (set_status h orgID (ev_Status ev))))"

definition serve_event ::
  "('c, 'st, 'l, 'k) WebhookHandler \<Rightarrow> time \<Rightarrow> Event \<Rightarrow> ('c, 'st, 'l, 'k) webhook_state \<Rightarrow>
     string option \<times> ('c, 'st, 'l, 'k) webhook_state" where
  "serve_event h now ev s = and_then (and_then (serve_link h ev s) (serve_topup h now ev)) (serve_status h ev)"

definition maxWebhookBytes :: nat where "maxWebhookBytes = 2 ^ 20"

text \<open>The status code of the response; a failed read of the body is \<open>None\<close>.\<close>

definition ServeHTTP ::
  "(bytes \<Rightarrow> (string, Event) result) \<Rightarrow> ('c, 'st, 'l, 'k) WebhookHandler \<Rightarrow> time \<Rightarrow> bytes option \<Rightarrow> ('c, 'st, 'l, 'k) webhook_state \<Rightarrow>
     nat \<times> ('c, 'st, 'l, 'k) webhook_state" where
  "ServeHTTP verify h now body s =
     (case body of
        None \<Rightarrow> (400, s)
      | Some payload \<Rightarrow>
          (case verify (take maxWebhookBytes payload) of
             Inl e \<Rightarrow> (400, observeVerifyFailure s)
           | Inr ev \<Rightarrow>
               (case serve_event h now ev s of
                  (Some msg, s') \<Rightarrow> (500, observeHandlerError s')
                | (None, s') \<Rightarrow> (200, s'))))"

section \<open>The in-memory deployment\<close>

text \<open>
  The handler as the console wires it over the in-memory stores, with the billing seam of the
  kill switch as suspender and lifter.
\<close>

type_synonym mem_webhook_state = "(MemCustomers, string \<rightharpoonup> BillingStatus, MemCreditLedger, MemSuspensionStore) webhook_state"

definition mem_handler ::
  "time \<Rightarrow> (MemCustomers, string \<rightharpoonup> BillingStatus, MemCreditLedger, MemSuspensionStore) WebhookHandler" where
  "mem_handler now =
     WithSuspender
       \<lparr>wh_customers = (\<lambda>m c. Inr (OrgForCustomer m c)), wh_linker = Some (\<lambda>m orgID c. (Inr (), Link m orgID c)),
        wh_status = mem_status, wh_ledger = Some mem_ledger, wh_suspender = None, wh_lifter = None\<rparr>
       (bs_Suspend mem_store now) (Some (bs_LiftReason mem_store now))"

lemma mem_handler_sel [simp]:
  "wh_customers (mem_handler now) m c = Inr (OrgForCustomer m c)"
  "wh_linker (mem_handler now) = Some (\<lambda>m orgID c. (Inr (), Link m orgID c))"
  "wh_status (mem_handler now) = mem_status" "wh_ledger (mem_handler now) = Some mem_ledger"
  "wh_suspender (mem_handler now) = Some (bs_Suspend mem_store now)"
  "wh_lifter (mem_handler now) = Some (bs_LiftReason mem_store now)"
  by (simp_all add: mem_handler_def WithSuspender_def Let_def)

lemma mem_status_sel [simp]:
  "sto_Status mem_status m orgID = Inr (status_Status m orgID)"
  "sto_SetStatus mem_status m orgID st = (Inr (), m(orgID \<mapsto> st))"
  by (simp_all add: mem_status_def status_SetStatus_def)

section \<open>Customers\<close>

text \<open>The two directions of the map are inverse to each other.\<close>

definition customers_inv :: "MemCustomers \<Rightarrow> bool" where
  "customers_inv m \<longleftrightarrow> (\<forall>orgID c. mc_byOrg m orgID = Some c \<longleftrightarrow> mc_byCustomer m c = Some orgID)"

lemma customers_inv_New [inv_intros]: "customers_inv NewMemCustomers"
  by (simp add: customers_inv_def NewMemCustomers_def)

lemma customers_inv_Link [inv_intros]: "customers_inv m \<Longrightarrow> customers_inv (Link m orgID c)"
  by (auto simp: customers_inv_def Link_def Let_def split: option.splits; metis option.inject option.distinct(1))

lemma Link_lookup: "OrgForCustomer (Link m orgID c) c = Some orgID" "CustomerForOrg (Link m orgID c) orgID = Some c"
  by (simp_all add: Link_def OrgForCustomer_def CustomerForOrg_def Let_def)

lemma Link_again: "Link (Link m orgID c) orgID c = Link m orgID c"
  by (simp add: Link_def Let_def fun_upd_idem split: option.split)

section \<open>The effect of an event on the in-memory stores\<close>

text \<open>A suspension the billing code may lift: it has the reason and no hold.\<close>

definition liftable :: "MemSuspensionStore \<Rightarrow> string \<Rightarrow> SuspensionReason \<Rightarrow> bool" where
  "liftable k orgID reason \<longleftrightarrow> (\<exists>sus. k orgID = Some sus \<and> su_Reason sus = reason \<and> \<not> su_ManualHold sus)"

definition lifted :: "MemSuspensionStore \<Rightarrow> string \<Rightarrow> SuspensionReason \<Rightarrow> MemSuspensionStore" where
  "lifted k orgID reason = (if liftable k orgID reason then k(orgID := None) else k)"

lemma bs_LiftReason_mem:
  "bs_LiftReason mem_store now k orgID ''spend_cap'' = (Inr (liftable k orgID ReasonSpendCap), lifted k orgID ReasonSpendCap)"
  "bs_LiftReason mem_store now k orgID ''dunning'' = (Inr (liftable k orgID ReasonDunning), lifted k orgID ReasonDunning)"
  by (cases "k orgID"; auto simp: bs_LiftReason_def billingReason_def ks_LiftReason_def mem_store_def mem_IsSuspended_def mem_Lift_def
    liftable_def lifted_def)+

definition dunned :: "time \<Rightarrow> MemSuspensionStore \<Rightarrow> string \<Rightarrow> MemSuspensionStore" where
  "dunned now k orgID = mem_Suspend k \<lparr>su_OrgID = orgID, su_Reason = ReasonDunning, su_Note = dunning_note, su_At = now, su_ManualHold = False\<rparr>"

lemma bs_Suspend_mem: "bs_Suspend mem_store now k orgID ''dunning'' dunning_note False = (Inr (), dunned now k orgID)"
  by (simp add: bs_Suspend_def ks_Suspend_def billingReason_def mem_store_def dunned_def)

lemma dunned_at [simp]: "\<exists>sus. dunned now k orgID orgID = Some sus \<and> su_Reason sus = ReasonDunning \<and> \<not> su_ManualHold sus"
  by (simp add: dunned_def mem_Suspend_def Let_def split: option.split)

lemma dunned_other [simp]: "q \<noteq> orgID \<Longrightarrow> dunned now k orgID q = k q"
  by (simp add: dunned_def mem_Suspend_def Let_def)

definition pays :: "Event \<Rightarrow> bool" where
  "pays ev \<longleftrightarrow> (\<exists>t. ev_TopUp ev = Some t \<and> tc_OrgID t \<noteq> [] \<and> tc_AmountCents t > 0)"

abbreviation paid_org :: "Event \<Rightarrow> string" where
  "paid_org ev \<equiv> tc_OrgID (the (ev_TopUp ev))"

definition topup_state :: "time \<Rightarrow> Event \<Rightarrow> mem_webhook_state \<Rightarrow> mem_webhook_state" where
  "topup_state now ev s =
     (if pays ev then
        s\<lparr>wb_ledger := snd (TopUp mem_ledger (wb_ledger s) (paid_org ev) (tc_AmountCents (the (ev_TopUp ev))) (tc_Ref (the (ev_TopUp ev))) now),
          wb_kill := lifted (wb_kill s) (paid_org ev) ReasonSpendCap,
          wb_status := (if liftable (wb_kill s) (paid_org ev) ReasonSpendCap \<and> status_Status (wb_status s) (paid_org ev) = StatusSuspended
            then (wb_status s)(paid_org ev \<mapsto> StatusActive) else wb_status s)\<rparr>
      else s)"

definition link_state :: "Event \<Rightarrow> mem_webhook_state \<Rightarrow> mem_webhook_state" where
  "link_state ev s =
     (if ev_OrgID ev \<noteq> [] \<and> ev_CustomerRef ev \<noteq> [] then s\<lparr>wb_customers := Link (wb_customers s) (ev_OrgID ev) (ev_CustomerRef ev)\<rparr> else s)"

definition status_state :: "time \<Rightarrow> Event \<Rightarrow> mem_webhook_state \<Rightarrow> mem_webhook_state" where
  "status_state now ev s =
     (case if ev_Status ev = [] then None else OrgForCustomer (wb_customers s) (ev_CustomerRef ev) of
        None \<Rightarrow> s
      | Some orgID \<Rightarrow>
          s\<lparr>wb_kill :=
              (if ev_Status ev = StatusActive then lifted (wb_kill s) orgID ReasonDunning
               else if ev_Status ev = StatusSuspended \<and> status_Status (wb_status s) orgID \<noteq> StatusSuspended
               then dunned now (wb_kill s) orgID else wb_kill s),
            wb_status := (wb_status s)(orgID \<mapsto> ev_Status ev)\<rparr>)"

lemma serve_link_mem: "serve_link (mem_handler now) ev s = (None, link_state ev s)"
  by (simp add: serve_link_def link_state_def)

lemma mem_TopUp_no_failure: "TopUp mem_ledger l orgID amount ref now = (Inl e, l') \<Longrightarrow> e = ErrDuplicateEntry"
  by (auto simp: TopUp_def mem_ledger_def mem_Append_def appendLocked_def Let_def split: if_splits)

lemma serve_lift_mem:
  "serve_lift (mem_handler now) orgID s =
     (None, s\<lparr>wb_kill := lifted (wb_kill s) orgID ReasonSpendCap,
        wb_status := (if liftable (wb_kill s) orgID ReasonSpendCap \<and> status_Status (wb_status s) orgID = StatusSuspended
            then (wb_status s)(orgID \<mapsto> StatusActive) else wb_status s)\<rparr>)"
  by (cases "liftable (wb_kill s) orgID ReasonSpendCap") (simp_all add: serve_lift_def bs_LiftReason_mem set_status_def Let_def)

lemma serve_topup_mem: "serve_topup (mem_handler now) t ev s = (None, topup_state t ev s)"
proof (cases "pays ev")
  case True
  then obtain c where c: "ev_TopUp ev = Some c" "tc_OrgID c \<noteq> []" "tc_AmountCents c > 0" by (auto simp: pays_def)
  obtain r l where r: "TopUp mem_ledger (wb_ledger s) (tc_OrgID c) (tc_AmountCents c) (tc_Ref c) t = (r, l)" by fastforce
  have "r = Inl ErrDuplicateEntry \<or> r = Inr ()" using mem_TopUp_no_failure r by (cases r) auto
  then show ?thesis using c r True by (auto simp: serve_topup_def serve_lift_mem topup_state_def)
qed (auto simp: serve_topup_def topup_state_def pays_def split: option.split)

lemma status_distinct [simp]: "StatusActive \<noteq> []" "StatusSuspended \<noteq> []" "StatusActive \<noteq> StatusSuspended" "StatusSuspended \<noteq> StatusActive"
  by (simp_all add: status_defs)

lemma serve_status_mem: "serve_status (mem_handler now) ev s = (None, status_state now ev s)"
  by (auto simp: serve_status_def status_state_def serve_recover_def serve_suspend_def set_status_def and_then_def bs_LiftReason_mem bs_Suspend_mem
    split: option.split)

lemma serve_event_mem:
  "serve_event (mem_handler now) now ev s = (None, status_state now ev (topup_state now ev (link_state ev s)))"
  by (simp add: serve_event_def serve_link_mem serve_topup_mem serve_status_mem and_then_def)

section \<open>Redelivery\<close>

lemma lifted_again [simp]: "\<not> liftable (lifted k orgID reason) orgID reason" "lifted (lifted k orgID reason) orgID reason = lifted k orgID reason"
  by (auto simp: lifted_def liftable_def)

lemma liftable_lifted: "liftable (lifted k orgID r) q r' \<Longrightarrow> liftable k q r'"
  by (auto simp: lifted_def liftable_def split: if_splits)

lemma liftable_dunned: "liftable (dunned now k orgID) q ReasonSpendCap \<Longrightarrow> liftable k q ReasonSpendCap"
  using dunned_at [of now k orgID] by (cases "q = orgID") (auto simp: liftable_def reason_defs)

lemma not_liftable_lifted: "\<not> liftable k orgID reason \<Longrightarrow> lifted k orgID reason = k"
  by (simp add: lifted_def)

lemma TopUp_again:
  "snd (TopUp mem_ledger (snd (TopUp mem_ledger l orgID amount ref now)) orgID amount ref now') = snd (TopUp mem_ledger l orgID amount ref now)"
  by (simp add: TopUp_def mem_ledger_def mem_Append_def appendLocked_def Let_def)

lemma link_state_again: "wb_customers s = wb_customers (link_state ev s') \<Longrightarrow> link_state ev s = s"
  by (simp add: link_state_def Link_again)

lemma topup_state_again:
  assumes "pays ev \<Longrightarrow> wb_ledger s = wb_ledger (topup_state now ev s')" "pays ev \<Longrightarrow> \<not> liftable (wb_kill s) (paid_org ev) ReasonSpendCap"
  shows "topup_state now' ev s = s"
  using assms by (simp add: topup_state_def TopUp_again not_liftable_lifted)

lemma status_state_sel [simp]: "wb_customers (status_state now ev s) = wb_customers s" "wb_ledger (status_state now ev s) = wb_ledger s"
  by (simp_all add: status_state_def split: option.split)

lemma topup_state_sel [simp]: "wb_customers (topup_state now ev s) = wb_customers s"
  by (simp add: topup_state_def)

lemma link_state_sel [simp]: "wb_ledger (link_state ev s) = wb_ledger s" "wb_kill (link_state ev s) = wb_kill s" "wb_status (link_state ev s) = wb_status s"
  by (simp_all add: link_state_def)

lemma status_state_liftable: "liftable (wb_kill (status_state now ev s)) q ReasonSpendCap \<Longrightarrow> liftable (wb_kill s) q ReasonSpendCap"
  by (auto simp: status_state_def dest: liftable_lifted liftable_dunned split: option.splits if_splits)

lemma status_state_again: "status_state now' ev (status_state now ev s) = status_state now ev s"
  by (auto simp: status_state_def status_Status_def split: option.split)

text \<open>
  C38: Webhooks are delivered at least once: on the in-memory stores a verified event is always
  acknowledged, and delivering it again, at any later time, changes nothing. In particular a
  paid top-up is credited once, and a redelivered suspension keeps the time of the first.
\<close>

theorem webhook_redelivery:
  "fst (serve_event (mem_handler now) now ev s) = None \<and>
   serve_event (mem_handler now') now' ev (snd (serve_event (mem_handler now) now ev s)) = (None, snd (serve_event (mem_handler now) now ev s))"
proof -
  let ?t = "topup_state now ev (link_state ev s)"
  let ?s = "status_state now ev ?t"
  have 1: "link_state ev ?s = ?s" by (rule link_state_again [of _ _ s]) simp
  have 2: "topup_state now' ev ?s = ?s"
  proof (rule topup_state_again)
    show "wb_ledger ?s = wb_ledger (topup_state now ev (link_state ev s))" by simp
    assume "pays ev"
    then show "\<not> liftable (wb_kill ?s) (paid_org ev) ReasonSpendCap"
      using status_state_liftable [of now ev ?t "paid_org ev"] by (auto simp: topup_state_def)
  qed
  show ?thesis by (simp add: serve_event_mem 1 2 status_state_again)
qed

section \<open>Authenticity\<close>

text \<open>The text under the MAC of a request: its timestamp and the part of the body that is read.\<close>

definition signed_text :: "string \<Rightarrow> bytes \<Rightarrow> bytes" where
  "signed_text header body = fst (paddle_header header) @ '':'' @ take maxWebhookBytes body"

text \<open>
  C37: No unauthenticated request changes billing state. Behind the Paddle provider a request that
  is answered with anything but 400 carries a MAC under the configured secret of its timestamp
  and of exactly the body that is processed, and the timestamp is within the tolerance of the
  clock; a request answered with 400 leaves every store as it was. A second request with the
  same signature that is not refused has the same timestamp and body, or two texts collide.
\<close>

theorem webhook_authentic:
  fixes header header' :: string and body body' :: bytes
  assumes "0 \<le> pp_tolerance p" "pp_tolerance p < 2 ^ 63 - 1"
    and "ServeHTTP (paddle_VerifyWebhook hmac unmarshal p now header) h now (Some body) s = (code, s')"
    and "ServeHTTP (paddle_VerifyWebhook hmac unmarshal p now' header') h' now' (Some body') t = (code', t')"
  shows "(code = 400 \<longrightarrow> s' = observeVerifyFailure s) \<and>
    (code \<noteq> 400 \<longrightarrow> pp_secret p \<noteq> [] \<and> hex_decode (snd (paddle_header header)) = Some (hmac (pp_secret p) (signed_text header body)) \<and>
       (\<exists>sec. ParseInt64 (fst (paddle_header header)) = Some sec \<and> \<bar>now - Unix sec\<bar> \<le> pp_tolerance p)) \<and>
    (code \<noteq> 400 \<and> code' \<noteq> 400 \<and> hex_decode (snd (paddle_header header)) = hex_decode (snd (paddle_header header')) \<longrightarrow>
       fst (paddle_header header) = fst (paddle_header header') \<and> take maxWebhookBytes body = take maxWebhookBytes body' \<or>
       signed_text header body \<noteq> signed_text header' body' \<and> hmac (pp_secret p) (signed_text header body) = hmac (pp_secret p) (signed_text header' body'))"
proof -
  have accepted: "paddle_verifySignature hmac p u hd (take maxWebhookBytes b) = Inr ()"
    if "ServeHTTP (paddle_VerifyWebhook hmac unmarshal p u hd) g u (Some b) x = (c, x')" "c \<noteq> 400" for u hd b g x c x'
    using that by (auto simp: ServeHTTP_def paddle_VerifyWebhook_def split: sum.splits)
  have refused: "code = 400 \<longrightarrow> s' = observeVerifyFailure s"
    using assms(3) by (auto simp: ServeHTTP_def split: sum.splits prod.splits option.splits)
  show ?thesis
  proof (cases "code = 400")
    case False
    note a = accepted [OF assms(3) False]
    have "code' \<noteq> 400 \<Longrightarrow> paddle_verifySignature hmac p now' header' (take maxWebhookBytes body') = Inr ()"
      by (rule accepted [OF assms(4)])
    then show ?thesis using refused False signature_binds [OF a a assms(1,2)] signature_binds [OF a _ assms(1,2)]
      unfolding signed_text_def by fast
  qed (use refused in simp)
qed

definition demo_topup :: Event where
  "demo_topup =
     \<lparr>ev_Status = [], ev_CustomerRef = ''ctm_1'', ev_OrgID = ''acme'',
      ev_TopUp = Some \<lparr>tc_OrgID = ''acme'', tc_AmountCents = 5000, tc_Ref = ''txn_1''\<rparr>\<rparr>"

text \<open>An organization over its spend cap: suspended in the kill switch and in billing.\<close>

definition capped_state :: mem_webhook_state where
  "capped_state =
     \<lparr>wb_customers = NewMemCustomers, wb_status = [''acme'' \<mapsto> StatusSuspended], wb_ledger = credited,
      wb_kill = [''acme'' \<mapsto> \<lparr>su_OrgID = ''acme'', su_Reason = ReasonSpendCap, su_Note = ''over'', su_At = 1, su_ManualHold = False\<rparr>],
      wb_metrics = None\<rparr>"

definition demo_paddle_event :: paddle_event where
  "demo_paddle_event =
     \<lparr>pe_EventType = ''transaction.completed'', pe_ID = ''txn_1'', pe_CustomerID = ''ctm_1'', pe_Kind = ''credit_topup'',
      pe_OrgID = ''acme'', pe_AmountCents = ''5000''\<rparr>"

definition demo_header :: string where
  "demo_header = ''ts=10;h1='' @ hex_encode (demo_hmac ''s3cret'' ''10:x'')"

lemma demo_header_fields: "paddle_header demo_header = (''10'', hex_encode (demo_hmac ''s3cret'' ''10:x''))"
  by code_simp

lemma demo_paddle_sel: "pp_secret demo_paddle = ''s3cret''" "pp_tolerance demo_paddle = 300000000000"
  by (simp_all add: demo_paddle_def paddle_New_def defaultTolerance_def)

lemma demo_verified: "paddle_VerifyWebhook demo_hmac (\<lambda>b. Inr demo_paddle_event) demo_paddle (Unix 12) demo_header ''x'' = Inr demo_topup"
proof -
  have s: "ParseInt64 ''10'' = Some 10" "ParseInt64 ''5000'' = Some 5000" by code_simp+
  have "\<not> outside_tolerance (Unix 12) 300000000000 10" by (simp add: outside_tolerance_def time_Sub_def Unix_def i64_def)
  then have "paddle_verifySignature demo_hmac demo_paddle (Unix 12) demo_header ''x'' = Inr ()"
    unfolding paddle_accepts demo_header_fields demo_paddle_sel
    by (intro exI [of _ "''10''"] exI [of _ "hex_encode (demo_hmac ''s3cret'' ''10:x'')"])
      (simp add: s hex_decode_encode, simp add: hex_encode_def demo_hmac_def)
  then show ?thesis by (simp add: paddle_VerifyWebhook_def paddle_map_def demo_paddle_event_def isTopUpTxn_def demo_topup_def s)
qed

theorem webhook_authentic_witness:
  "fst (ServeHTTP (paddle_VerifyWebhook demo_hmac (\<lambda>b. Inr demo_paddle_event) demo_paddle (Unix 12) demo_header)
      (mem_handler (Unix 12)) (Unix 12) (Some ''x'') capped_state) = 200 \<and>
   hex_decode (snd (paddle_header demo_header)) = Some (demo_hmac (pp_secret demo_paddle) (signed_text demo_header ''x''))"
proof -
  let ?S = "ServeHTTP (paddle_VerifyWebhook demo_hmac (\<lambda>b. Inr demo_paddle_event) demo_paddle (Unix 12) demo_header)
      (mem_handler (Unix 12)) (Unix 12) (Some ''x'') capped_state"
  have ok: "?S = (200, snd (serve_event (mem_handler (Unix 12)) (Unix 12) demo_topup capped_state))"
    using serve_event_mem [of "Unix 12" demo_topup capped_state] demo_verified
    by (simp add: ServeHTTP_def maxWebhookBytes_def split: prod.split)
  have t: "0 \<le> pp_tolerance demo_paddle" "pp_tolerance demo_paddle < 2 ^ 63 - 1" by (simp_all add: demo_paddle_sel)
  show ?thesis using webhook_authentic [OF t ok ok] ok by simp
qed

section \<open>What the transition gate and the automatic lift miss\<close>

text \<open>
  A cancellation that arrives while the organization is suspended for its spend cap leaves no
  trace in the kill switch: the status is already suspended, so the transition gate skips the
  suspension. The next top-up then lifts the spend cap suspension and sets the status to active.
\<close>

lemma cancellation_forgotten:
  assumes "liftable (wb_kill s) orgID ReasonSpendCap" "status_Status (wb_status s) orgID = StatusSuspended"
    and "ev = \<lparr>ev_Status = StatusSuspended, ev_CustomerRef = c, ev_OrgID = [], ev_TopUp = None\<rparr>" "OrgForCustomer (wb_customers s) c = Some orgID"
    and "pays ev'" "paid_org ev' = orgID" "ev_Status ev' = []"
    and "s1 = snd (serve_event (mem_handler t1) t1 ev s)" "s2 = snd (serve_event (mem_handler t2) t2 ev' s1)"
  shows "wb_kill s2 orgID = None \<and> status_Status (wb_status s2) orgID = StatusActive"
proof -
  have "link_state ev s = s" "topup_state t1 ev s = s" by (simp_all add: link_state_def topup_state_def pays_def assms(3))
  then have s1: "wb_kill s1 = wb_kill s" "wb_status s1 = (wb_status s)(orgID \<mapsto> StatusSuspended)"
    using assms(2,4) by (simp_all add: assms(8) serve_event_mem status_state_def, simp_all add: assms(3))
  have "s2 = topup_state t2 ev' (link_state ev' s1)" using assms(7) by (simp add: assms(9) serve_event_mem status_state_def)
  then show ?thesis using assms(1,5,6) s1 by (simp add: topup_state_def status_Status_def lifted_def)
qed

text \<open>A redelivered top-up lifts a spend cap suspension that is newer than the payment, though nothing is credited.\<close>

lemma redelivered_topup_lifts:
  assumes "pays ev" "ev_Status ev = []" "s1 = snd (serve_event (mem_handler t1) t1 ev s)" "liftable k (paid_org ev) ReasonSpendCap"
    and "s2 = snd (serve_event (mem_handler t2) t2 ev (s1\<lparr>wb_kill := k\<rparr>))"
  shows "wb_kill s2 (paid_org ev) = None \<and> wb_ledger s2 = wb_ledger s1"
proof -
  have s1: "s1 = topup_state t1 ev (link_state ev s)" and s2: "s2 = topup_state t2 ev (link_state ev (s1\<lparr>wb_kill := k\<rparr>))"
    using assms(2) by (simp_all add: assms(3,5) serve_event_mem status_state_def)
  have "wb_ledger s2 = snd (TopUp mem_ledger (wb_ledger s1) (paid_org ev) (tc_AmountCents (the (ev_TopUp ev))) (tc_Ref (the (ev_TopUp ev))) t2)"
    using assms(1) by (simp add: s2 topup_state_def)
  moreover have "wb_ledger s1 = snd (TopUp mem_ledger (wb_ledger s) (paid_org ev) (tc_AmountCents (the (ev_TopUp ev))) (tc_Ref (the (ev_TopUp ev))) t1)"
    using assms(1) by (simp add: s1 topup_state_def)
  ultimately show ?thesis using assms(1,4) by (simp add: TopUp_again s2 topup_state_def lifted_def)
qed

end
