(* ===== verification/Go_Duration.thy ===== *)
theory Go_Duration
  imports Go_Text Float64
begin

text \<open>
  \<^verbatim>\<open>time.ParseDuration\<close>: a signed sequence of decimal numbers, each with an optional fraction
  and a unit. Intermediate values are unsigned 64 bit integers; the fraction goes through
  \<^verbatim>\<open>float64\<close>.
\<close>

fun leadingInt :: "int \<Rightarrow> string \<Rightarrow> (int \<times> string) option" where
  "leadingInt x [] = Some (x, [])"
| "leadingInt x (c # cs) =
     (case digit_value c of
        None \<Rightarrow> Some (x, c # cs)
      | Some d \<Rightarrow>
          if x > 2 ^ 63 div 10 then None
          else if x * 10 + d > 2 ^ 63 then None else leadingInt (x * 10 + d) cs)"

fun leadingFraction :: "int \<Rightarrow> rat \<Rightarrow> bool \<Rightarrow> string \<Rightarrow> int \<times> rat \<times> string" where
  "leadingFraction x scale overflow [] = (x, scale, [])"
| "leadingFraction x scale overflow (c # cs) =
     (case digit_value c of
        None \<Rightarrow> (x, scale, c # cs)
      | Some d \<Rightarrow>
          if overflow \<or> x > (2 ^ 63 - 1) div 10 \<or> x * 10 + d > 2 ^ 63 then leadingFraction x scale True cs
          else leadingFraction (x * 10 + d) (f64 (scale * 10)) False cs)"

definition unitMap :: "string \<rightharpoonup> int" where
  "unitMap = map_of
     [(''ns'', 1), (''us'', 1000), ([CHR 0xC2, CHR 0xB5, CHR ''s''], 1000), ([CHR 0xCE, CHR 0xBC, CHR ''s''], 1000),
      (''ms'', 1000000), (''s'', 1000000000), (''m'', 60000000000), (''h'', 3600000000000)]"

text \<open>One number with its unit: its value and the rest of the text.\<close>

definition duration_component :: "string \<Rightarrow> (int \<times> string) option" where
  "duration_component s =
     (if s = [] \<or> \<not> (hd s = CHR ''.'' \<or> digit_value (hd s) \<noteq> None) then None
      else case leadingInt 0 s of
        None \<Rightarrow> None
      | Some (v, s1) \<Rightarrow>
          let (x, scale, s2) = (if s1 \<noteq> [] \<and> hd s1 = CHR ''.'' then leadingFraction 0 1 False (tl s1) else (0, 1, s1));
              pre = (s1 \<noteq> s);
              post = (s1 \<noteq> [] \<and> hd s1 = CHR ''.'' \<and> s2 \<noteq> tl s1);
              u = takeWhile (\<lambda>c. c \<noteq> CHR ''.'' \<and> digit_value c = None) s2
          in if \<not> pre \<and> \<not> post \<or> u = [] then None
             else case unitMap u of
               None \<Rightarrow> None
             | Some un \<Rightarrow>
                 if v > 2 ^ 63 div un then None
                 else let w = (v * un + (if x > 0 then trunc_i64 (f64 (f64 (of_int x) * f64 (of_int un / scale))) else 0)) mod 2 ^ 64
                      in if x > 0 \<and> w > 2 ^ 63 then None else Some (w, drop (length u) s2))"

lemma leadingInt_length: "leadingInt x s = Some (v, s') \<Longrightarrow> length s' \<le> length s"
  by (induction x s rule: leadingInt.induct) (auto split: option.splits if_splits)

lemma leadingFraction_length: "leadingFraction x sc ov s = (v, sc', s') \<Longrightarrow> length s' \<le> length s"
  by (induction x sc ov s rule: leadingFraction.induct) (fastforce split: option.splits if_splits)+

lemma duration_component_length: "duration_component s = Some (v, s') \<Longrightarrow> length s' < length s"
proof -
  assume a: "duration_component s = Some (v, s')"
  then obtain w s1 where s1: "leadingInt 0 s = Some (w, s1)" "s \<noteq> []"
    by (auto simp: duration_component_def split: if_splits option.splits)
  obtain x sc s2 where s2: "(if s1 \<noteq> [] \<and> hd s1 = CHR ''.'' then leadingFraction 0 1 False (tl s1) else (0, 1, s1)) = (x, sc, s2)"
    by (metis prod_cases3)
  let ?u = "takeWhile (\<lambda>c. c \<noteq> CHR ''.'' \<and> digit_value c = None) s2"
  have u: "?u \<noteq> []" "s' = drop (length ?u) s2"
    using a s1 s2 by (auto simp: duration_component_def Let_def split: if_splits option.splits)
  have "length s2 \<le> length s1" using s2 leadingFraction_length [of 0 1 False "tl s1" x sc s2]
    by (auto split: if_splits)
  moreover have "length ?u \<le> length s2" "0 < length ?u" using u(1) by (auto intro: length_takeWhile_le)
  ultimately show ?thesis using leadingInt_length [OF s1(1)] unfolding u(2) length_drop by linarith
qed

function sum_components :: "int \<Rightarrow> string \<Rightarrow> int option" where
  "sum_components d s =
     (if s = [] then Some d
      else case duration_component s of
        None \<Rightarrow> None
      | Some (v, s') \<Rightarrow> if (d + v) mod 2 ^ 64 > 2 ^ 63 then None else sum_components ((d + v) mod 2 ^ 64) s')"
  by pat_completeness auto
termination
  by (relation "measure (length \<circ> snd)") (auto dest: duration_component_length)

declare sum_components.simps [simp del]

definition ParseDuration :: "string \<Rightarrow> duration option" where
  "ParseDuration s =
     (let neg = (s \<noteq> [] \<and> hd s = CHR ''-'');
          r = (if s \<noteq> [] \<and> (hd s = CHR ''-'' \<or> hd s = CHR ''+'') then tl s else s)
      in if r = ''0'' then Some 0
         else if r = [] then None
         else case sum_components 0 r of
                None \<Rightarrow> None
              | Some d \<Rightarrow> if neg then Some (- d) else if d > 2 ^ 63 - 1 then None else Some d)"

end
