(* ===== verification/Drawdown_Driver.thy ===== *)
theory Drawdown_Driver
  imports Billing_Service Go_Duration
begin

text \<open>
  The drawdown driver of the console, \<^verbatim>\<open>cmd/console/drawdown.go\<close>, and its metrics
  (\<^verbatim>\<open>cmd/console/metrics.go\<close>): every cycle lists the organizations and their usage records of the
  lookback, settles what is not settled yet, evaluates the spend caps and prunes the markers that
  left the lookback. The organization list and the record store answer with a value or an
  error. The service reads its own clock: \<open>clk n\<close> is the reading at its \<open>n\<close>-th call, and \<open>svc t\<close>
  is the service as wired at time \<open>t\<close>. The field \<open>dv_calls\<close> of the state keeps the drawdowns
  that were made and their results; the code does not look at it.
\<close>

section \<open>Configuration\<close>

definition defaultDrawdownInterval :: duration where
  "defaultDrawdownInterval = 5 * 60 * second_ns"

definition drawdownLookback :: duration where
  "drawdownLookback = 2 * 3600 * second_ns"

definition drawdownInterval :: "string \<Rightarrow> bool \<Rightarrow> (string, duration) result" where
  "drawdownInterval raw usageStoreLive =
     (if raw = [] then Inr (if usageStoreLive then defaultDrawdownInterval else 0)
      else if raw = ''0'' \<or> raw = ''off'' then Inr 0
      else case ParseDuration raw of
             None \<Rightarrow> Inl ''parse MITOS_CONSOLE_DRAWDOWN_INTERVAL''
           | Some d \<Rightarrow> if d < 0 then Inl (''MITOS_CONSOLE_DRAWDOWN_INTERVAL is negative: '' @ raw) else Inr d)"

section \<open>State\<close>

record drawdownMetrics =
  dm_cycleErrors :: nat
  dm_lastSuccess :: int
  dm_creditExhausted :: nat

record drawdownStats =
  ds_orgs :: nat
  ds_records :: nat
  ds_drawn :: nat
  ds_failed :: nat
  ds_replayed :: nat
  ds_settledCents :: int
  ds_carriedMilli :: int
  ds_pruned :: int
  ds_suspended :: nat

definition zero_stats :: drawdownStats where
  "zero_stats =
     \<lparr>ds_orgs = 0, ds_records = 0, ds_drawn = 0, ds_failed = 0, ds_replayed = 0, ds_settledCents = 0, ds_carriedMilli = 0,
      ds_pruned = 0, ds_suspended = 0\<rparr>"

type_synonym draw_call = "UsageRecord \<times> (billing_error, DrawdownResult) result"

record ('l, 'k) driver_state =
  dv_billing :: "('l, 'k) billing_state"
  dv_reads :: nat
  dv_metrics :: "drawdownMetrics option"
  dv_calls :: "draw_call list"

text \<open>Seconds since the Unix epoch.\<close>

definition unix_seconds :: "time \<Rightarrow> int" where
  "unix_seconds t = t div second_ns - 62135596800"

definition markStarted :: "time \<Rightarrow> drawdownMetrics option \<Rightarrow> drawdownMetrics option" where
  "markStarted now m = map_option (\<lambda>m. m\<lparr>dm_lastSuccess := unix_seconds now\<rparr>) m"

definition observeCycle :: "drawdownStats \<Rightarrow> time \<Rightarrow> drawdownMetrics option \<Rightarrow> drawdownMetrics option" where
  "observeCycle stats now m =
     map_option (\<lambda>m. let m1 = m\<lparr>dm_cycleErrors := dm_cycleErrors m + ds_failed stats\<rparr>
                     in if ds_failed stats = 0 then m1\<lparr>dm_lastSuccess := unix_seconds now\<rparr> else m1) m"

definition observeCreditExhausted :: "drawdownMetrics option \<Rightarrow> drawdownMetrics option" where
  "observeCreditExhausted m = map_option (\<lambda>m. m\<lparr>dm_creditExhausted := dm_creditExhausted m + 1\<rparr>) m"

definition count_failed :: "drawdownStats \<Rightarrow> drawdownStats" where
  "count_failed stats = stats\<lparr>ds_failed := ds_failed stats + 1\<rparr>"

section \<open>The service calls\<close>

definition SettledWindowKeys :: "('l, 'k) Service \<Rightarrow> ('l, 'k) billing_state \<Rightarrow> string \<Rightarrow> time \<Rightarrow> (ledger_error, string set) result" where
  "SettledWindowKeys sv b orgID since = cl_SettledWindowKeys (sv_ledger sv) (st_ledger b) orgID since"

definition PruneProcessedWindows ::
  "('l, 'k) Service \<Rightarrow> ('l, 'k) billing_state \<Rightarrow> time \<Rightarrow> (ledger_error, int) result \<times> ('l, 'k) billing_state" where
  "PruneProcessedWindows sv b olderThan =
     (case cl_PruneProcessedWindows (sv_ledger sv) (st_ledger b) olderThan of (r, l) \<Rightarrow> (r, b\<lparr>st_ledger := l\<rparr>))"

definition call_Drawdown ::
  "(time \<Rightarrow> ('l, 'k) Service) \<Rightarrow> (nat \<Rightarrow> time) \<Rightarrow> ('l, 'k) driver_state \<Rightarrow> UsageRecord \<Rightarrow>
     (billing_error, DrawdownResult) result \<times> ('l, 'k) driver_state" where
  "call_Drawdown svc clk d rec =
     (let t = clk (dv_reads d);
          (r, l) = Drawdown (sv_ledger (svc t)) (sv_rates (svc t)) t (st_ledger (dv_billing d)) rec
      in (r, d\<lparr>dv_billing := (dv_billing d)\<lparr>st_ledger := l\<rparr>, dv_reads := dv_reads d + 1, dv_calls := dv_calls d @ [(rec, r)]\<rparr>))"

definition call_EnforceSpendCap ::
  "(time \<Rightarrow> ('l, 'k) Service) \<Rightarrow> (nat \<Rightarrow> time) \<Rightarrow> ('l, 'k) driver_state \<Rightarrow> string \<Rightarrow>
     (bool \<times> billing_error option) \<times> ('l, 'k) driver_state" where
  "call_EnforceSpendCap svc clk d orgID =
     (let t = clk (dv_reads d);
          (b, e, s) = EnforceSpendCapFromLedger (svc t) t (dv_billing d) orgID
      in ((b, e), d\<lparr>dv_billing := s, dv_reads := dv_reads d + 1\<rparr>))"

section \<open>A cycle\<close>

text \<open>
  The body of the loop over the records of an organization. The remainder after the last
  newly settled record of the organization is \<open>None\<close> while nothing was settled.
\<close>

definition draw_record ::
  "(time \<Rightarrow> ('l, 'k) Service) \<Rightarrow> (nat \<Rightarrow> time) \<Rightarrow> string set \<Rightarrow> drawdownStats \<times> int option \<times> ('l, 'k) driver_state \<Rightarrow> UsageRecord \<Rightarrow>
     drawdownStats \<times> int option \<times> ('l, 'k) driver_state" where
  "draw_record svc clk settled x rec =
     (case x of (stats0, carried, d) \<Rightarrow>
        let stats = stats0\<lparr>ds_records := ds_records stats0 + 1\<rparr>
        in if DrawdownKey (ur_OrgID rec) (ur_SandboxID rec) (ur_Window rec) \<in> settled
           then (stats\<lparr>ds_replayed := ds_replayed stats + 1\<rparr>, carried, d)
           else case call_Drawdown svc clk d rec of
                  (Inl e, d1) \<Rightarrow> (count_failed stats, carried, d1)
                | (Inr res, d1) \<Rightarrow>
                    if dr_Replayed res then (stats\<lparr>ds_replayed := ds_replayed stats + 1\<rparr>, carried, d1)
                    else (stats\<lparr>ds_drawn := ds_drawn stats + 1, ds_settledCents := i64 (ds_settledCents stats + dr_FromCredit res)\<rparr>,
                          Some (dr_CarriedMilliCents res),
                          if dr_Remaining res > 0 then d1\<lparr>dv_metrics := observeCreditExhausted (dv_metrics d1)\<rparr> else d1))"

definition draw_org ::
  "(time \<Rightarrow> ('l, 'k) Service) \<Rightarrow> (nat \<Rightarrow> time) \<Rightarrow> (string \<Rightarrow> time \<Rightarrow> time \<Rightarrow> (string, UsageRecord list) result) \<Rightarrow> time \<Rightarrow> time \<Rightarrow>
     drawdownStats \<times> ('l, 'k) driver_state \<Rightarrow> string \<Rightarrow> drawdownStats \<times> ('l, 'k) driver_state" where
  "draw_org svc clk list from' to' x orgID =
     (case x of (stats, d) \<Rightarrow>
        (case list orgID from' to' of
           Inl e \<Rightarrow> (count_failed stats, d)
         | Inr recs \<Rightarrow>
             if recs = [] then (stats, d)
             else (case SettledWindowKeys (svc (clk (dv_reads d))) (dv_billing d) orgID from' of
                     Inl e \<Rightarrow> (count_failed stats, d)
                   | Inr settled \<Rightarrow>
                       (case foldl (draw_record svc clk settled) (stats, None, d) recs of
                          (stats1, carried, d1) \<Rightarrow>
                            let stats2 = (case carried of
                                    None \<Rightarrow> stats1
                                  | Some c \<Rightarrow> stats1\<lparr>ds_carriedMilli := i64 (ds_carriedMilli stats1 + c)\<rparr>)
                            in (case call_EnforceSpendCap svc clk d1 orgID of
                                  ((b, Some e), d2) \<Rightarrow> (count_failed stats2, d2)
                                | ((True, None), d2) \<Rightarrow> (stats2\<lparr>ds_suspended := ds_suspended stats2 + 1\<rparr>, d2)
                                | ((False, None), d2) \<Rightarrow> (stats2, d2))))))"

definition runDrawdownOnce ::
  "(time \<Rightarrow> ('l, 'k) Service) \<Rightarrow> (nat \<Rightarrow> time) \<Rightarrow> (string, string list) result \<Rightarrow>
     (string \<Rightarrow> time \<Rightarrow> time \<Rightarrow> (string, UsageRecord list) result) \<Rightarrow> duration \<Rightarrow> time \<Rightarrow> ('l, 'k) driver_state \<Rightarrow>
     drawdownStats \<times> ('l, 'k) driver_state" where
  "runDrawdownOnce svc clk orgs list lookback now d =
     (case orgs of
        Inl e \<Rightarrow> let stats = count_failed zero_stats in (stats, d\<lparr>dv_metrics := observeCycle stats now (dv_metrics d)\<rparr>)
      | Inr os \<Rightarrow>
          let from' = now - lookback;
              to' = now - cfg_Window DefaultConfig;
              (stats1, d1) = foldl (draw_org svc clk list from' to') (zero_stats\<lparr>ds_orgs := length os\<rparr>, d) os;
              (r, b) = PruneProcessedWindows (svc (clk (dv_reads d1))) (dv_billing d1) from';
              stats2 = (case r of Inl e \<Rightarrow> count_failed stats1 | Inr n \<Rightarrow> stats1\<lparr>ds_pruned := n\<rparr>)
          in (stats2, d1\<lparr>dv_billing := b, dv_metrics := observeCycle stats2 now (dv_metrics d1)\<rparr>))"

text \<open>The ticks of the driver: the time of each, and what its organization list and record store answer.\<close>

type_synonym tick = "time \<times> (string, string list) result \<times> (string \<Rightarrow> time \<Rightarrow> time \<Rightarrow> (string, UsageRecord list) result)"

fun drawdown_loop ::
  "(time \<Rightarrow> ('l, 'k) Service) \<Rightarrow> (nat \<Rightarrow> time) \<Rightarrow> tick list \<Rightarrow> ('l, 'k) driver_state \<Rightarrow> drawdownStats list \<times> ('l, 'k) driver_state" where
  "drawdown_loop svc clk [] d = ([], d)"
| "drawdown_loop svc clk ((now, orgs, list) # ticks) d =
     (let (stats, d1) = runDrawdownOnce svc clk orgs list drawdownLookback now d;
          (rest, d2) = drawdown_loop svc clk ticks d1
      in (stats # rest, d2))"

definition startDrawdownDriver ::
  "(time \<Rightarrow> ('l, 'k) Service) \<Rightarrow> (nat \<Rightarrow> time) \<Rightarrow> time \<Rightarrow> tick list \<Rightarrow> ('l, 'k) driver_state \<Rightarrow> drawdownStats list \<times> ('l, 'k) driver_state" where
  "startDrawdownDriver svc clk now ticks d = drawdown_loop svc clk ticks (d\<lparr>dv_metrics := markStarted now (dv_metrics d)\<rparr>)"

section \<open>Every window is settled once, over all cycles\<close>

lemma usageKey_window:
  assumes "usageKey rec = usageKey rec'" "ur_OrgID rec = ur_OrgID rec'" "0 \<le> ur_Window rec" "0 \<le> ur_Window rec'"
  shows "ur_SandboxID rec = ur_SandboxID rec' \<and> ur_Window rec = ur_Window rec'"
proof -
  have "rev (rfc3339_nano (ur_Window rec)) @ CHR ''|'' # rev (ur_SandboxID rec) =
      rev (rfc3339_nano (ur_Window rec')) @ CHR ''|'' # rev (ur_SandboxID rec')"
    using arg_cong [OF assms(1), of rev] assms(2) by (simp add: usageKey_def DrawdownKey_def)
  then have "rev (rfc3339_nano (ur_Window rec)) = rev (rfc3339_nano (ur_Window rec')) \<and> rev (ur_SandboxID rec) = rev (ur_SandboxID rec')"
    by (rule cut_unique) (simp_all add: rfc3339_chars)
  then show ?thesis using rfc3339_inj [of "ur_Window rec" "ur_Window rec'"] assms(3,4) by simp
qed

definition credit_taken :: "Rates \<Rightarrow> draw_call list \<Rightarrow> int" where
  "credit_taken rates calls = sum_list (map (dr_FromCredit \<circ> snd) (landed rates calls))"

lemma landed_append: "landed rates (xs @ ys) = landed rates xs @ landed rates ys"
  by (simp add: landed_def)

text \<open>
  What holds between two calls of the driver, from a ledger that looked like \<open>v0\<close> when it
  started: the settled windows are distinct, each is still marked or older than what the prunes
  have passed, and the balances have fallen by what the settlements took.
\<close>

definition drawn_once :: "Rates \<Rightarrow> ledger_view \<Rightarrow> time \<Rightarrow> ledger_view \<Rightarrow> draw_call list \<Rightarrow> bool" where
  "drawn_once rates v0 passed v calls \<longleftrightarrow>
     carry_ok v \<and> (\<forall>orgID. 0 \<le> spec_balance v orgID \<and> spec_balance v orgID < 2 ^ 63) \<and>
     distinct (landed_keys (landed rates calls)) \<and>
     (\<forall>(rec, x) \<in> set (landed rates calls). 0 \<le> ur_Window rec \<and>
        (lv_marks v (ur_OrgID rec, usageKey rec) = Some (ur_Window rec) \<or> ur_Window rec < passed)) \<and>
     (\<forall>orgID. spec_balance v orgID = spec_balance v0 orgID - landed_sum (dr_FromCredit \<circ> snd) orgID (landed rates calls))"

lemma drawn_once_skip:
  "drawn_once rates v0 passed v calls \<Longrightarrow> \<not> settled_now rates rec r \<Longrightarrow> drawn_once rates v0 passed v (calls @ [(rec, r)])"
proof -
  assume a: "drawn_once rates v0 passed v calls" "\<not> settled_now rates rec r"
  have e: "landed rates (calls @ [(rec, r)]) = landed rates calls" using a(2) by (simp add: landed_def)
  show ?thesis using a(1) unfolding drawn_once_def e .
qed

lemma drawn_once_settle:
  assumes "drawn_once rates v0 passed v calls" "settlement rates v rec d v'" "lv_marks v (ur_OrgID rec, usageKey rec) = None"
    and "settled_now rates rec (Inr d)" "passed \<le> ur_Window rec" "0 \<le> ur_Window rec"
  shows "drawn_once rates v0 passed v' (calls @ [(rec, Inr d)])"
proof -
  let ?L = "landed rates calls" and ?k = "(ur_OrgID rec, usageKey rec)"
  have L: "landed rates (calls @ [(rec, Inr d)]) = ?L @ [(rec, d)]"
    using assms(4) by (simp add: landed_append landed_Cons) (simp add: landed_def)
  have fresh: "(ur_OrgID r, usageKey r) \<noteq> ?k" if "(r, x) \<in> set ?L" for r x
  proof
    assume k: "(ur_OrgID r, usageKey r) = ?k"
    have m: "0 \<le> ur_Window r" "lv_marks v (ur_OrgID r, usageKey r) = Some (ur_Window r) \<or> ur_Window r < passed"
      using assms(1) that by (auto simp: drawn_once_def)
    have "ur_Window r = ur_Window rec" using usageKey_window [of r rec] k m(1) assms(6) by simp
    with m(2) k assms(3,5) show False by simp
  qed
  have "?k \<notin> set (landed_keys ?L)"
  proof
    assume "?k \<in> set (landed_keys ?L)"
    then obtain r x where "(r, x) \<in> set ?L" "(ur_OrgID r, usageKey r) = ?k" by (auto simp: landed_keys_def)
    then show False using fresh by blast
  qed
  then have 1: "distinct (landed_keys (?L @ [(rec, d)]))" using assms(1) by (simp add: drawn_once_def landed_keys_def)
  have 2: "\<forall>(r, x) \<in> set (?L @ [(rec, d)]). 0 \<le> ur_Window r \<and>
      (lv_marks v' (ur_OrgID r, usageKey r) = Some (ur_Window r) \<or> ur_Window r < passed)"
  proof (clarify)
    fix r x assume "(r, x) \<in> set (?L @ [(rec, d)])"
    then show "0 \<le> ur_Window r \<and> (lv_marks v' (ur_OrgID r, usageKey r) = Some (ur_Window r) \<or> ur_Window r < passed)"
      using assms(1,2,6) fresh [of r x] by (auto simp: drawn_once_def settlement_def)
  qed
  have 3: "spec_balance v' orgID = spec_balance v0 orgID - landed_sum (dr_FromCredit \<circ> snd) orgID (?L @ [(rec, d)])" for orgID
    using assms(1,2) by (auto simp: drawn_once_def settlement_def landed_sum_def)
  have "carry_ok v" "\<forall>orgID. 0 \<le> spec_balance v orgID \<and> spec_balance v orgID < 2 ^ 63" using assms(1) unfolding drawn_once_def by blast+
  from settlement_carry [OF assms(2) this(1)] settlement_balance [OF assms(2) this(2)] 1 2 3
  show ?thesis unfolding drawn_once_def L by blast
qed

lemma drawn_once_later: "drawn_once rates v0 passed v calls \<Longrightarrow> passed \<le> t \<Longrightarrow> drawn_once rates v0 t v calls"
  by (fastforce simp: drawn_once_def)

lemma drawn_once_prune:
  assumes "drawn_once rates v0 t v calls"
  shows "drawn_once rates v0 t (spec_prune v t) calls"
proof -
  have "lv_marks (spec_prune v t) k = Some w \<or> w < t" if "lv_marks v k = Some w \<or> w < t" for k w
    using that by (auto simp: spec_prune_def)
  moreover have "spec_balance (spec_prune v t) = spec_balance v" "carry_ok (spec_prune v t) = carry_ok v"
    by (simp_all add: fun_eq_iff spec_balance_def spec_prune_def carry_ok_def)
  ultimately show ?thesis using assms by (fastforce simp: drawn_once_def)
qed

text \<open>
  What the driver asks of the record store: a listing contains only windows from the start of the
  lookback on, of organizations the ledger accepts and with prices that fit.
\<close>

definition listing_ok :: "Rates \<Rightarrow> (string \<Rightarrow> bool) \<Rightarrow> time \<Rightarrow> UsageRecord list \<Rightarrow> bool" where
  "listing_ok rates org_ok from' recs \<longleftrightarrow>
     (\<forall>rec \<in> set recs. org_ok (ur_OrgID rec) \<and> from' \<le> ur_Window rec \<and> 0 \<le> ur_Window rec \<and> CostMilliCents rates rec < 2 ^ 62)"

definition tick_ok :: "Rates \<Rightarrow> (string \<Rightarrow> bool) \<Rightarrow> tick \<Rightarrow> bool" where
  "tick_ok rates org_ok x \<longleftrightarrow>
     (case x of (now, orgs, list) \<Rightarrow>
        \<forall>os orgID recs. orgs = Inr os \<and> orgID \<in> set os \<and>
          list orgID (now - drawdownLookback) (now - cfg_Window DefaultConfig) = Inr recs \<longrightarrow>
          listing_ok rates org_ok (now - drawdownLookback) recs)"

lemma i64_shift: "i64 (i64 (a + x) - (t + x)) = i64 (a - t)"
  by (simp add: i64_def mod_simps algebra_simps)

lemma i64_add_cong: "i64 a = i64 b \<Longrightarrow> i64 (a + x) = i64 (b + x)"
proof -
  assume "i64 a = i64 b"
  then have "(a + 2 ^ 63) mod 2 ^ 64 = (b + 2 ^ 63) mod 2 ^ 64" by (simp add: i64_def)
  from mod_add_cong [OF this refl [of "x mod 2 ^ 64"]] show ?thesis by (simp add: i64_def algebra_simps)
qed

lemma credit_taken_snoc: "credit_taken rates (calls @ [(rec, r)]) =
    credit_taken rates calls + (if settled_now rates rec r then dr_FromCredit (projr r) else 0)"
  by (simp add: credit_taken_def landed_append landed_Cons) (simp add: landed_def)

lemma drawn_once_in_i64: "drawn_once rates v0 passed v calls \<Longrightarrow> carry_ok v \<and> in_i64 (spec_balance v orgID)"
proof -
  assume "drawn_once rates v0 passed v calls"
  then have "carry_ok v" "0 \<le> spec_balance v orgID \<and> spec_balance v orgID < 2 ^ 63" unfolding drawn_once_def by blast+
  then show ?thesis by (simp add: in_i64_def)
qed

abbreviation dv_ledger :: "('l, 'k) driver_state \<Rightarrow> 'l" where
  "dv_ledger d \<equiv> st_ledger (dv_billing d)"

lemma EnforceSpendCap_ledger: "EnforceSpendCap sv now s orgID x = (b, e, s') \<Longrightarrow> st_ledger s' = st_ledger s"
  by (auto simp: EnforceSpendCap_def Let_def split: option.splits if_splits prod.splits sum.splits)

lemma EnforceSpendCapFromLedger_ledger: "EnforceSpendCapFromLedger sv now s orgID = (b, e, s') \<Longrightarrow> st_ledger s' = st_ledger s"
  by (auto simp: EnforceSpendCapFromLedger_def Let_def split: option.splits if_splits sum.splits dest: EnforceSpendCap_ledger)

lemma call_EnforceSpendCap_keeps:
  "call_EnforceSpendCap svc clk d orgID = (r, d') \<Longrightarrow> dv_ledger d' = dv_ledger d \<and> dv_calls d' = dv_calls d"
  by (auto simp: call_EnforceSpendCap_def Let_def split: prod.splits dest: EnforceSpendCapFromLedger_ledger)

context credit_ledger
begin

text \<open>The driver state is sound, and the settled cents count what the settlements took.\<close>

definition driver_ok :: "Rates \<Rightarrow> ledger_view \<Rightarrow> time \<Rightarrow> int \<Rightarrow> int \<Rightarrow> ('l, 'k) driver_state \<Rightarrow> bool" where
  "driver_ok rates v0 passed base cents d \<longleftrightarrow>
     inv (dv_ledger d) \<and> drawn_once rates v0 passed (view (dv_ledger d)) (dv_calls d) \<and>
     i64 (cents - credit_taken rates (dv_calls d)) = i64 base"

definition wired :: "Rates \<Rightarrow> (time \<Rightarrow> ('l, 'k) Service) \<Rightarrow> bool" where
  "wired rates svc \<longleftrightarrow> (\<forall>t. sv_ledger (svc t) = C \<and> sv_rates (svc t) = rates)"

lemma call_Drawdown_ok:
  assumes "wired rates svc" "driver_ok rates v0 passed base cents d" "call_Drawdown svc clk d rec = (r, d')"
    and "org_ok (ur_OrgID rec)" "passed \<le> ur_Window rec" "0 \<le> ur_Window rec" "CostMilliCents rates rec < 2 ^ 62"
  shows "driver_ok rates v0 passed base (if settled_now rates rec r then i64 (cents + dr_FromCredit (projr r)) else cents) d' \<and>
    (\<forall>x. r = Inr x \<and> \<not> settled_now rates rec r \<and> \<not> dr_Replayed x \<longrightarrow> dr_FromCredit x = 0)"
proof -
  let ?t = "clk (dv_reads d)" and ?l = "dv_ledger d"
  obtain l where dd: "Drawdown C rates ?t ?l rec = (r, l)" and d': "dv_ledger d' = l" "dv_calls d' = dv_calls d @ [(rec, r)]"
    using assms(1,3) by (auto simp: call_Drawdown_def wired_def Let_def split: prod.splits)
  have o: "inv ?l" "drawn_once rates v0 passed (view ?l) (dv_calls d)" "i64 (cents - credit_taken rates (dv_calls d)) = i64 base"
    using assms(2) by (simp_all add: driver_ok_def)
  note step = drawdown_step [OF o(1) assms(4) dd _ assms(7)] and ok = drawn_once_in_i64 [OF o(2)]
  have z: "\<forall>x. r = Inr x \<and> \<not> settled_now rates rec r \<and> \<not> dr_Replayed x \<longrightarrow> dr_FromCredit x = 0"
    using dd by (auto simp: settled_now_def Drawdown_def zero_drawdown_def)
  show ?thesis
  proof (cases "settled_now rates rec r")
    case False
    then have "view l = view ?l" "inv l" using step ok by simp_all
    then show ?thesis using False o z drawn_once_skip [OF o(2) False] by (simp add: driver_ok_def d' credit_taken_snoc)
  next
    case True
    then obtain x where x: "r = Inr x" by (auto simp: settled_now_def split: sum.splits)
    have "settlement rates (view ?l) rec x (view l)" "lv_marks (view ?l) (ur_OrgID rec, usageKey rec) = None" "inv l"
      using step ok True x by simp_all
    from drawn_once_settle [OF o(2) this(1,2) _ assms(5,6)] this(3) show ?thesis
      using True x o(3) by (simp add: driver_ok_def d' credit_taken_snoc i64_shift)
  qed
qed

lemma draw_record_ok:
  assumes "wired rates svc" "driver_ok rates v0 passed base (ds_settledCents stats) d" "draw_record svc clk settled (stats, c, d) rec = (stats', c', d')"
    and "org_ok (ur_OrgID rec)" "passed \<le> ur_Window rec" "0 \<le> ur_Window rec" "CostMilliCents rates rec < 2 ^ 62"
  shows "driver_ok rates v0 passed base (ds_settledCents stats') d'"
proof (cases "DrawdownKey (ur_OrgID rec) (ur_SandboxID rec) (ur_Window rec) \<in> settled")
  case True
  then show ?thesis using assms(2,3) by (auto simp: draw_record_def)
next
  case False
  obtain r d1 where r: "call_Drawdown svc clk d rec = (r, d1)" by fastforce
  note ok = call_Drawdown_ok [OF assms(1,2) r assms(4-7)]
  have m: "driver_ok rates v0 passed base c (d1\<lparr>dv_metrics := m\<rparr>) = driver_ok rates v0 passed base c d1" for c m
    by (simp add: driver_ok_def)
  have w: "driver_ok rates v0 passed base (i64 c) d1 = driver_ok rates v0 passed base c d1" for c
    using i64_shift [of c 0 "credit_taken rates (dv_calls d1)"] by (simp add: driver_ok_def)
  show ?thesis
  proof (cases r)
    case (Inl e)
    then show ?thesis using assms(3) False r ok by (auto simp: draw_record_def count_failed_def settled_now_def)
  next
    case (Inr x)
    then show ?thesis using assms(3) False r ok m w
      by (cases "settled_now rates rec r") (auto simp: draw_record_def settled_now_def Let_def split: if_splits)
  qed
qed

lemma draw_records_ok:
  assumes "wired rates svc" "driver_ok rates v0 passed base (ds_settledCents stats) d"
    and "foldl (draw_record svc clk settled) (stats, c, d) recs = (stats', c', d')" "listing_ok rates org_ok passed recs"
  shows "driver_ok rates v0 passed base (ds_settledCents stats') d'"
  using assms(2-4)
proof (induction recs arbitrary: stats c d)
  case (Cons rec recs)
  obtain s1 c1 d1 where s1: "draw_record svc clk settled (stats, c, d) rec = (s1, c1, d1)" by (metis prod_cases3)
  have "driver_ok rates v0 passed base (ds_settledCents s1) d1"
    using draw_record_ok [OF assms(1) Cons.prems(1) s1] Cons.prems(3) by (simp add: listing_ok_def)
  then show ?case using Cons.IH Cons.prems(2,3) s1 by (simp add: listing_ok_def)
qed simp

lemma draw_org_ok:
  assumes "wired rates svc" "driver_ok rates v0 passed base (ds_settledCents stats) d"
    and "draw_org svc clk list passed to' (stats, d) orgID = (stats', d')"
    and "\<And>recs. list orgID passed to' = Inr recs \<Longrightarrow> listing_ok rates org_ok passed recs"
  shows "driver_ok rates v0 passed base (ds_settledCents stats') d'"
proof (cases "list orgID passed to'")
  case (Inl e)
  then show ?thesis using assms(2,3) by (auto simp: draw_org_def count_failed_def)
next
  case (Inr recs)
  let ?keys = "SettledWindowKeys (svc (clk (dv_reads d))) (dv_billing d) orgID passed"
  show ?thesis
  proof (cases "recs = [] \<or> isl ?keys")
    case True
    then show ?thesis using assms(2,3) Inr by (cases ?keys) (auto simp: draw_org_def count_failed_def split: if_splits)
  next
    case False
    then obtain settled where k: "?keys = Inr settled" by (cases ?keys) auto
    obtain s1 c1 d1 where f: "foldl (draw_record svc clk settled) (stats, None, d) recs = (s1, c1, d1)" by (metis prod_cases3)
    obtain b e d2 where en: "call_EnforceSpendCap svc clk d1 orgID = ((b, e), d2)" by (metis prod.exhaust)
    have "driver_ok rates v0 passed base (ds_settledCents s1) d1" by (rule draw_records_ok [OF assms(1,2) f assms(4) [OF Inr]])
    then have "driver_ok rates v0 passed base (ds_settledCents s1) d2"
      using call_EnforceSpendCap_keeps [OF en] by (simp add: driver_ok_def)
    moreover have "ds_settledCents stats' = ds_settledCents s1 \<and> d' = d2"
      using assms(3) Inr False k f en by (auto simp: draw_org_def count_failed_def Let_def split: option.splits bool.splits)
    ultimately show ?thesis by simp
  qed
qed

lemma draw_orgs_ok:
  assumes "wired rates svc" "driver_ok rates v0 passed base (ds_settledCents stats) d"
    and "foldl (draw_org svc clk list passed to') (stats, d) os = (stats', d')"
    and "\<And>orgID recs. orgID \<in> set os \<Longrightarrow> list orgID passed to' = Inr recs \<Longrightarrow> listing_ok rates org_ok passed recs"
  shows "driver_ok rates v0 passed base (ds_settledCents stats') d'"
  using assms(2-4)
proof (induction os arbitrary: stats d)
  case (Cons orgID os)
  obtain s1 d1 where s1: "draw_org svc clk list passed to' (stats, d) orgID = (s1, d1)" by fastforce
  have "driver_ok rates v0 passed base (ds_settledCents s1) d1"
    by (rule draw_org_ok [OF assms(1) Cons.prems(1) s1]) (use Cons.prems(3) in auto)
  then show ?case using Cons.IH [of s1 d1] Cons.prems(2,3) s1 by auto
qed simp

lemma runDrawdownOnce_ok:
  assumes "wired rates svc" "driver_ok rates v0 passed base 0 d" "tick_ok rates org_ok (now, orgs, list)" "passed \<le> now - drawdownLookback"
    and "runDrawdownOnce svc clk orgs list drawdownLookback now d = (stats, d')"
  shows "driver_ok rates v0 (now - drawdownLookback) base (ds_settledCents stats) d'"
proof (cases orgs)
  case (Inl e)
  then show ?thesis using assms(2,4,5)
    by (auto simp: runDrawdownOnce_def count_failed_def zero_stats_def driver_ok_def Let_def intro: drawn_once_later)
next
  case (Inr os)
  let ?from = "now - drawdownLookback" and ?to = "now - cfg_Window DefaultConfig"
  have d0: "driver_ok rates v0 ?from base (ds_settledCents (zero_stats\<lparr>ds_orgs := length os\<rparr>)) d"
    using assms(2,4) by (auto simp: driver_ok_def zero_stats_def intro: drawn_once_later)
  obtain s1 d1 where f: "foldl (draw_org svc clk list ?from ?to) (zero_stats\<lparr>ds_orgs := length os\<rparr>, d) os = (s1, d1)" by fastforce
  have o: "driver_ok rates v0 ?from base (ds_settledCents s1) d1"
    by (rule draw_orgs_ok [OF assms(1) d0 f]) (use assms(3) Inr in \<open>auto simp: tick_ok_def\<close>)
  obtain r l where p: "cl_PruneProcessedWindows C (dv_ledger d1) ?from = (r, l)" by fastforce
  have "inv l \<and> (view l = spec_prune (view (dv_ledger d1)) ?from \<or> view l = view (dv_ledger d1))"
    using prune [OF _ p] o by (auto simp: driver_ok_def)
  then have l: "inv l" "drawn_once rates v0 ?from (view l) (dv_calls d1)"
    using o drawn_once_prune [of rates v0 ?from "view (dv_ledger d1)" "dv_calls d1"] by (auto simp: driver_ok_def)
  have "dv_ledger d' = l \<and> dv_calls d' = dv_calls d1 \<and> ds_settledCents stats = ds_settledCents s1"
    using assms(1,5) Inr f p
    by (auto simp: runDrawdownOnce_def PruneProcessedWindows_def wired_def count_failed_def Let_def split: sum.splits)
  then show ?thesis using l o by (simp add: driver_ok_def)
qed

lemma driver_ok_shift: "driver_ok rates v0 passed base cents d = driver_ok rates v0 passed (base + x) (cents + x) d"
  using i64_add_cong [of "cents - credit_taken rates (dv_calls d)" base x]
    i64_add_cong [of "cents + x - credit_taken rates (dv_calls d)" "base + x" "- x"]
  by (auto simp: driver_ok_def algebra_simps)

lemma drawdown_loop_ok:
  assumes "wired rates svc" "driver_ok rates v0 passed base cents d" "\<forall>x \<in> set ticks. tick_ok rates org_ok x"
    and "sorted (map fst ticks)" "\<forall>x \<in> set ticks. passed \<le> fst x - drawdownLookback"
    and "drawdown_loop svc clk ticks d = (statss, d')"
  shows "\<exists>passed'. driver_ok rates v0 passed' base (cents + sum_list (map ds_settledCents statss)) d'"
  using assms(2-6)
proof (induction ticks arbitrary: passed cents d statss)
  case (Cons x ticks)
  obtain now orgs list where x: "x = (now, orgs, list)" by (metis prod_cases3)
  obtain stats d1 where one: "runDrawdownOnce svc clk orgs list drawdownLookback now d = (stats, d1)" by fastforce
  obtain rest where more: "drawdown_loop svc clk ticks d1 = (rest, d')" "statss = stats # rest"
    using Cons.prems(5) one by (auto simp: x split: prod.splits)
  have "driver_ok rates v0 passed (base - cents) 0 d" using Cons.prems(1) driver_ok_shift [of rates v0 passed base cents d "- cents"] by simp
  then have "driver_ok rates v0 (now - drawdownLookback) (base - cents) (ds_settledCents stats) d1"
    by (rule runDrawdownOnce_ok [OF assms(1) _ _ _ one]) (use Cons.prems(2,4) x in auto)
  then have ok: "driver_ok rates v0 (now - drawdownLookback) base (cents + ds_settledCents stats) d1"
    using driver_ok_shift [of rates v0 "now - drawdownLookback" "base - cents" "ds_settledCents stats" d1 cents] by (simp add: add.commute)
  have "\<forall>y \<in> set ticks. now - drawdownLookback \<le> fst y - drawdownLookback" using Cons.prems(3) by (auto simp: x)
  from Cons.IH [OF ok _ _ this more(1)] show ?case using Cons.prems(2,3) more(2) by (auto simp: add.assoc)
qed auto

end

text \<open>
  C13: Over any number of cycles of the drawdown driver, each listing the overlapping lookback
  again and pruning the markers that left it, no usage window is settled twice, no balance
  becomes negative, every balance falls by exactly the credit its settlements took, and the
  settled cents the cycles report add up to that credit. The clock must not run backwards
  and a listing must start at the lookback.
\<close>

theorem drawdown_cycles_settle_once:
  assumes "\<forall>t. sv_ledger (svc t) = mem_ledger \<and> sv_rates (svc t) = rates"
    and "ledger_inv (dv_ledger d)" "carry_ok (mem_view (dv_ledger d))" "dv_calls d = []"
    and "\<forall>orgID. 0 \<le> spec_balance (mem_view (dv_ledger d)) orgID \<and> spec_balance (mem_view (dv_ledger d)) orgID < 2 ^ 63"
    and "\<forall>x \<in> set ticks. tick_ok rates nul_free x" "sorted (map fst ticks)"
    and "startDrawdownDriver svc clk t0 ticks d = (statss, d')"
  shows "distinct (landed_keys (landed rates (dv_calls d'))) \<and>
    (\<forall>orgID. 0 \<le> spec_balance (mem_view (dv_ledger d')) orgID \<and>
       spec_balance (mem_view (dv_ledger d')) orgID =
         spec_balance (mem_view (dv_ledger d)) orgID - landed_sum (dr_FromCredit \<circ> snd) orgID (landed rates (dv_calls d'))) \<and>
    i64 (sum_list (map ds_settledCents statss)) = i64 (credit_taken rates (dv_calls d'))"
proof -
  let ?d = "d\<lparr>dv_metrics := markStarted t0 (dv_metrics d)\<rparr>" and ?v = "mem_view (dv_ledger d)"
  have w: "memory.wired rates svc" using assms(1) by (simp add: memory.wired_def)
  let ?passed = "(if ticks = [] then 0 else fst (hd ticks)) - drawdownLookback"
  have "drawn_once rates ?v ?passed ?v []" using assms(3,5) unfolding drawn_once_def by (simp add: landed_def landed_keys_def landed_sum_def)
  then have ok: "memory.driver_ok rates ?v ?passed 0 0 ?d" using assms(2,4) by (simp add: memory.driver_ok_def credit_taken_def landed_def)
  have le: "\<forall>x \<in> set ticks. ?passed \<le> fst x - drawdownLookback" using assms(7) by (cases ticks) auto
  obtain passed' where fin: "memory.driver_ok rates ?v passed' 0 (0 + sum_list (map ds_settledCents statss)) d'"
    using memory.drawdown_loop_ok [OF w ok assms(6,7) le assms(8) [unfolded startDrawdownDriver_def]] by blast
  then have o: "drawn_once rates ?v passed' (mem_view (dv_ledger d')) (dv_calls d')"
    "i64 (sum_list (map ds_settledCents statss) - credit_taken rates (dv_calls d')) = i64 0"
    by (simp_all add: memory.driver_ok_def)
  have "i64 (sum_list (map ds_settledCents statss)) = i64 (credit_taken rates (dv_calls d'))"
    using i64_add_cong [OF o(2), of "credit_taken rates (dv_calls d')"] by simp
  then show ?thesis using o(1) unfolding drawn_once_def by blast
qed

definition demo_service :: "(MemCreditLedger, unit) Service" where
  "demo_service = \<lparr>sv_ledger = mem_ledger, sv_suspend = None, sv_alerts = None, sv_rates = DefaultRates\<rparr>"

definition demo_driver :: "(MemCreditLedger, unit) driver_state" where
  "demo_driver =
     \<lparr>dv_billing = \<lparr>st_ledger = credited, st_caps = Map.empty, st_status = Map.empty, st_kill = (), st_alerted = []\<rparr>,
      dv_reads = 0, dv_metrics = None, dv_calls = []\<rparr>"

definition demo_ticks :: "tick list" where
  "demo_ticks = [(3600 * second_ns, Inr [''acme''], \<lambda>q f t. Inr [gpu_record]), (3900 * second_ns, Inr [''acme''], \<lambda>q f t. Inr [gpu_record])]"

theorem drawdown_cycles_settle_once_witness:
  "distinct (landed_keys (landed DefaultRates (dv_calls (snd (startDrawdownDriver (\<lambda>t. demo_service) (\<lambda>n. 1) 0 demo_ticks demo_driver))))) \<and>
   0 \<le> spec_balance (mem_view (dv_ledger (snd (startDrawdownDriver (\<lambda>t. demo_service) (\<lambda>n. 1) 0 demo_ticks demo_driver)))) ''acme''"
proof -
  let ?r = "startDrawdownDriver (\<lambda>t. demo_service) (\<lambda>n. 1) 0 demo_ticks demo_driver"
  have s: "\<forall>t. sv_ledger ((\<lambda>t. demo_service) t) = mem_ledger \<and> sv_rates ((\<lambda>t. demo_service) t) = DefaultRates" by (simp add: demo_service_def)
  have l: "dv_ledger demo_driver = credited" "dv_calls demo_driver = []" by (simp_all add: demo_driver_def)
  have t: "\<forall>x \<in> set demo_ticks. tick_ok DefaultRates nul_free x" "sorted (map fst demo_ticks)"
    by (auto simp: demo_ticks_def tick_ok_def listing_ok_def drawdownLookback_def gpu_cost) (auto simp: gpu_record_def nul_free_def)
  have b: "\<forall>orgID. 0 \<le> spec_balance (mem_view (dv_ledger demo_driver)) orgID \<and> spec_balance (mem_view (dv_ledger demo_driver)) orgID < 2 ^ 63"
    by (simp add: l credited_facts)
  have c: "ledger_inv (dv_ledger demo_driver)" "carry_ok (mem_view (dv_ledger demo_driver))" by (simp_all add: l credited_facts)
  have "?r = (fst ?r, snd ?r)" by simp
  from drawdown_cycles_settle_once [OF s c l(2) b t this] show ?thesis by blast
qed

section \<open>A window is settled before it is complete\<close>

text \<open>
  The upper bound of a listing is the current time minus one window, so a window is listed as
  soon as it has ended. Samples arrive once a minute: when the window from 60 s to 120 s is
  listed at 121 s, the sample at 125 s that completes it has not been taken, and the record
  holds the five seconds up to the sample at 65 s. Its settlement is final.
\<close>

lemma window_settled_too_early:
  "60 * second_ns < 121 * second_ns - cfg_Window DefaultConfig \<and>
   vcpu_at (the (Integrate [''sb''] (map minute_sample [0, 1]) DefaultConfig)) ''sb'' (60 * second_ns) = 10 \<and>
   vcpu_at (the (Integrate [''sb''] (map minute_sample [0, 1, 2]) DefaultConfig)) ''sb'' (60 * second_ns) = 120"
proof -
  have g: "sandbox_group (map minute_sample [0, 1]) ''sb'' = map minute_sample [0, 1]"
    "sandbox_group (map minute_sample [0, 1, 2]) ''sb'' = map minute_sample [0, 1, 2]"
    by (simp_all add: sandbox_group_def dedupeByTimestamp_def minute_sample_def)
  show ?thesis unfolding vcpu_at_Integrate g effective_default
    by (simp add: slices.simps slice_end_def Truncate_def DefaultConfig_def minute_sample_def)
      (simp add: add_vcpu_def Seconds_def quot_def f64_numeral f64.zero)
qed

end
