(* ===== verification/Quota_Enforcer.thy ===== *)
theory Quota_Enforcer
  imports Quota_Suspension Usage_Meter
begin

text \<open>
  Admission at the gateway, \<^verbatim>\<open>internal/saas/quota\<close>: the token buckets (\<^verbatim>\<open>ratelimit.go\<close>), the tiers of
  the plan ladder and their egress posture (\<^verbatim>\<open>tier.go\<close>), the enforcement decision (\<^verbatim>\<open>enforcer.go\<close>),
  the live usage read from usage records (\<^verbatim>\<open>liveusage.go\<close>) and the adapter that maps a denial to a
  public error code (\<^verbatim>\<open>gateway_adapter.go\<close>).
\<close>

section \<open>Token buckets\<close>

record bucket =
  bk_ratePerMinute :: rat
  bk_burst :: rat
  bk_tokens :: rat
  bk_last :: time

definition newBucket :: "rat \<Rightarrow> rat \<Rightarrow> bucket" where
  "newBucket ratePerMinute burst = \<lparr>bk_ratePerMinute = ratePerMinute, bk_burst = burst, bk_tokens = burst, bk_last = 0\<rparr>"

definition bucket_refill :: "bucket \<Rightarrow> time \<Rightarrow> bucket" where
  "bucket_refill b now =
     (let b0 = (if IsZero (bk_last b) then b\<lparr>bk_last := now\<rparr> else b);
          elapsed = Seconds (now - bk_last b0)
      in if elapsed > 0
         then let t = f64 (bk_tokens b0 + f64 (elapsed * f64 (bk_ratePerMinute b0 / 60)))
              in b0\<lparr>bk_tokens := (if t > bk_burst b0 then bk_burst b0 else t), bk_last := now\<rparr>
         else b0)"

definition bucket_allow :: "bucket \<Rightarrow> time \<Rightarrow> rat \<Rightarrow> bool \<times> bucket" where
  "bucket_allow b now n =
     (if bk_ratePerMinute b \<le> 0 then (True, b)
      else let b1 = bucket_refill b now
           in if bk_tokens b1 \<ge> n then (True, b1\<lparr>bk_tokens := f64 (bk_tokens b1 - n)\<rparr>) else (False, b1))"

type_synonym BucketKind = string

definition BucketLifecycle :: BucketKind where "BucketLifecycle = ''lifecycle''"
definition BucketInSandbox :: BucketKind where "BucketInSandbox = ''in_sandbox''"

type_synonym RateLimiter = "string \<times> BucketKind \<rightharpoonup> bucket"

definition Allow :: "RateLimiter \<Rightarrow> time \<Rightarrow> string \<Rightarrow> BucketKind \<Rightarrow> rat \<Rightarrow> rat \<Rightarrow> bool \<times> RateLimiter" where
  "Allow rl now key kind ratePerMinute burst =
     (let burst' = (if burst \<le> 0 then ratePerMinute else burst);
          b = (case rl (key, kind) of
                 None \<Rightarrow> newBucket ratePerMinute burst'
               | Some b \<Rightarrow> b\<lparr>bk_ratePerMinute := ratePerMinute, bk_burst := burst'\<rparr>);
          (ok, b') = bucket_allow b now 1
      in (ok, rl((key, kind) \<mapsto> b')))"

section \<open>Tiers\<close>

type_synonym TierName = string

definition TierFree :: TierName where "TierFree = ''free''"
definition TierStarter :: TierName where "TierStarter = ''starter''"
definition TierPro :: TierName where "TierPro = ''pro''"

record EgressTier =
  eg_BlockNetwork :: bool
  eg_Open :: bool
  eg_AllowCIDRs :: "string list"

record Tier =
  ti_Name :: TierName
  ti_MaxConcurrentSandboxes :: int
  ti_MaxAggregateVCPUs :: int
  ti_MaxAggregateMemBytes :: int
  ti_MaxAggregateStorageBytes :: int
  ti_MaxSandboxVCPUs :: int
  ti_MaxSandboxMemBytes :: int
  ti_MaxSandboxStorageBytes :: int
  ti_CreationRatePerMinute :: rat
  ti_APIRequestsPerMinute :: rat
  ti_Egress :: EgressTier

abbreviation gib :: int where
  "gib \<equiv> 2 ^ 30"

definition free_tier :: Tier where
  "free_tier =
     \<lparr>ti_Name = TierFree, ti_MaxConcurrentSandboxes = 2, ti_MaxAggregateVCPUs = 4, ti_MaxAggregateMemBytes = 4 * gib,
      ti_MaxAggregateStorageBytes = 20 * gib, ti_MaxSandboxVCPUs = 2, ti_MaxSandboxMemBytes = 2 * gib,
      ti_MaxSandboxStorageBytes = 10 * gib, ti_CreationRatePerMinute = 5, ti_APIRequestsPerMinute = 60,
      ti_Egress = \<lparr>eg_BlockNetwork = False, eg_Open = False, eg_AllowCIDRs = []\<rparr>\<rparr>"

definition starter_tier :: Tier where
  "starter_tier =
     \<lparr>ti_Name = TierStarter, ti_MaxConcurrentSandboxes = 10, ti_MaxAggregateVCPUs = 20, ti_MaxAggregateMemBytes = 40 * gib,
      ti_MaxAggregateStorageBytes = 200 * gib, ti_MaxSandboxVCPUs = 4, ti_MaxSandboxMemBytes = 8 * gib,
      ti_MaxSandboxStorageBytes = 50 * gib, ti_CreationRatePerMinute = 30, ti_APIRequestsPerMinute = 300,
      ti_Egress = \<lparr>eg_BlockNetwork = False, eg_Open = False, eg_AllowCIDRs = []\<rparr>\<rparr>"

definition pro_tier :: Tier where
  "pro_tier =
     \<lparr>ti_Name = TierPro, ti_MaxConcurrentSandboxes = 100, ti_MaxAggregateVCPUs = 400, ti_MaxAggregateMemBytes = 800 * gib,
      ti_MaxAggregateStorageBytes = 4000 * gib, ti_MaxSandboxVCPUs = 16, ti_MaxSandboxMemBytes = 64 * gib,
      ti_MaxSandboxStorageBytes = 500 * gib, ti_CreationRatePerMinute = 120, ti_APIRequestsPerMinute = 1200,
      ti_Egress = \<lparr>eg_BlockNetwork = False, eg_Open = True, eg_AllowCIDRs = []\<rparr>\<rparr>"

definition DefaultTiers :: "TierName \<rightharpoonup> Tier" where
  "DefaultTiers = [TierFree \<mapsto> free_tier, TierStarter \<mapsto> starter_tier, TierPro \<mapsto> pro_tier]"

definition AbusePorts :: "int list" where
  "AbusePorts = [25, 465, 587]"

text \<open>The policy of \<^verbatim>\<open>netconf.SandboxPolicy\<close> that a tier selects; the empty egress mode is its zero value.\<close>

record TierPolicy =
  tp_Egress :: string
  tp_Inbound :: string
  tp_AllowCIDRs :: "string list"
  tp_BlockNetwork :: bool

definition egress_Policy :: "EgressTier \<Rightarrow> TierPolicy" where
  "egress_Policy e =
     (let p = \<lparr>tp_Egress = [], tp_Inbound = ''deny'', tp_AllowCIDRs = [], tp_BlockNetwork = False\<rparr>
      in if eg_BlockNetwork e then p\<lparr>tp_BlockNetwork := True\<rparr>
         else if eg_Open e then p\<lparr>tp_Egress := ''allow''\<rparr>
         else p\<lparr>tp_Egress := ''deny'', tp_AllowCIDRs := eg_AllowCIDRs e\<rparr>)"

definition ResolveEgress :: "Tier \<Rightarrow> TierPolicy \<times> int list" where
  "ResolveEgress t = (egress_Policy (ti_Egress t), AbusePorts)"

section \<open>The decision\<close>

datatype quota_error =
  ErrSuspended | ErrConcurrencyExceeded | ErrAggregateExceeded | ErrSandboxTooLarge | ErrRateLimited | ErrUnknownTier | OfQuotaSeam string

record LiveUsage =
  lu_ConcurrentSandboxes :: int
  lu_VCPUs :: int
  lu_MemBytes :: int
  lu_StorageBytes :: int

record SandboxSpec =
  sp_VCPUs :: int
  sp_MemBytes :: int
  sp_StorageBytes :: int

record Request =
  rq_Op :: string
  rq_IP :: string
  rq_NewSandbox :: SandboxSpec

definition isCreate :: "Request \<Rightarrow> bool" where
  "isCreate r \<longleftrightarrow> rq_Op r = ''sandbox.create'' \<or> rq_Op r = ''sandbox.fork''"

definition isLifecycle :: "Request \<Rightarrow> bool" where
  "isLifecycle r \<longleftrightarrow> rq_Op r = ''sandbox.create'' \<or> rq_Op r = ''sandbox.terminate'' \<or> rq_Op r = ''sandbox.fork''"

record 's Enforcer =
  ef_tiers :: "TierName \<rightharpoonup> Tier"
  ef_tier :: "string \<Rightarrow> (string, TierName) result"
  ef_live :: "string \<Rightarrow> (string, LiveUsage) result"
  ef_sus :: "'s SuspensionStore option"

definition checkSize :: "Tier \<Rightarrow> SandboxSpec \<Rightarrow> quota_error option" where
  "checkSize tier s =
     (if ti_MaxSandboxVCPUs tier > 0 \<and> sp_VCPUs s > ti_MaxSandboxVCPUs tier then Some ErrSandboxTooLarge
      else if ti_MaxSandboxMemBytes tier > 0 \<and> sp_MemBytes s > ti_MaxSandboxMemBytes tier then Some ErrSandboxTooLarge
      else if ti_MaxSandboxStorageBytes tier > 0 \<and> sp_StorageBytes s > ti_MaxSandboxStorageBytes tier then Some ErrSandboxTooLarge
      else None)"

definition checkLive :: "'s Enforcer \<Rightarrow> Tier \<Rightarrow> string \<Rightarrow> SandboxSpec \<Rightarrow> quota_error option" where
  "checkLive e tier orgID s =
     (case ef_live e orgID of
        Inl err \<Rightarrow> Some (OfQuotaSeam err)
      | Inr live \<Rightarrow>
          if ti_MaxConcurrentSandboxes tier > 0 \<and> i64 (lu_ConcurrentSandboxes live + 1) > ti_MaxConcurrentSandboxes tier
          then Some ErrConcurrencyExceeded
          else if ti_MaxAggregateVCPUs tier > 0 \<and> i32 (lu_VCPUs live + sp_VCPUs s) > ti_MaxAggregateVCPUs tier
          then Some ErrAggregateExceeded
          else if ti_MaxAggregateMemBytes tier > 0 \<and> i64 (lu_MemBytes live + sp_MemBytes s) > ti_MaxAggregateMemBytes tier
          then Some ErrAggregateExceeded
          else if ti_MaxAggregateStorageBytes tier > 0 \<and> i64 (lu_StorageBytes live + sp_StorageBytes s) > ti_MaxAggregateStorageBytes tier
          then Some ErrAggregateExceeded
          else None)"

definition checkRates :: "Tier \<Rightarrow> string \<Rightarrow> Request \<Rightarrow> time \<Rightarrow> RateLimiter \<Rightarrow> quota_error option \<times> RateLimiter" where
  "checkRates tier orgID req now rl =
     (let kind = (if isLifecycle req then BucketLifecycle else BucketInSandbox);
          rate = ti_APIRequestsPerMinute tier;
          (ok1, rl1) = Allow rl now (''org:'' @ orgID) kind rate rate
      in if \<not> ok1 then (Some ErrRateLimited, rl1)
         else let (ok2, rl2) = (if rq_IP req \<noteq> [] then Allow rl1 now (''ip:'' @ rq_IP req) kind rate rate else (True, rl1))
              in if \<not> ok2 then (Some ErrRateLimited, rl2)
                 else let (ok3, rl3) = (if isCreate req
                                          then Allow rl2 now (''org-create:'' @ orgID) BucketLifecycle (ti_CreationRatePerMinute tier) (ti_CreationRatePerMinute tier)
                                          else (True, rl2))
                      in if \<not> ok3 then (Some ErrRateLimited, rl3) else (None, rl3))"

text \<open>The state of the decision is the suspension store and the rate limiter.\<close>

definition Check :: "'s Enforcer \<Rightarrow> time \<Rightarrow> 's \<times> RateLimiter \<Rightarrow> string \<Rightarrow> Request \<Rightarrow> quota_error option \<times> 's \<times> RateLimiter" where
  "Check e now st orgID req =
     (let (s, rl) = st;
          (sus, s1) = (case ef_sus e of None \<Rightarrow> (Inr None, s) | Some S \<Rightarrow> ss_IsSuspended S now s orgID)
      in case sus of
           Inl err \<Rightarrow> (Some (OfQuotaSeam err), s1, rl)
         | Inr (Some x) \<Rightarrow> (Some ErrSuspended, s1, rl)
         | Inr None \<Rightarrow>
             (case ef_tier e orgID of
                Inl err \<Rightarrow> (Some (OfQuotaSeam err), s1, rl)
              | Inr tierName \<Rightarrow>
                  (case ef_tiers e tierName of
                     None \<Rightarrow> (Some ErrUnknownTier, s1, rl)
                   | Some tier \<Rightarrow>
                       let err = (if isCreate req
                                  then (case checkSize tier (rq_NewSandbox req) of
                                          Some x \<Rightarrow> Some x
                                        | None \<Rightarrow> checkLive e tier orgID (rq_NewSandbox req))
                                  else None)
                       in case err of
                            Some x \<Rightarrow> (Some x, s1, rl)
                          | None \<Rightarrow> (case checkRates tier orgID req now rl of (r, rl') \<Rightarrow> (r, s1, rl')))))"

section \<open>The gateway adapter\<close>

definition envelopeFor :: "quota_error \<Rightarrow> string" where
  "envelopeFor err =
     (case err of
        ErrSuspended \<Rightarrow> ''forbidden''
      | ErrUnknownTier \<Rightarrow> ''forbidden''
      | ErrRateLimited \<Rightarrow> ''rate_limited''
      | _ \<Rightarrow> ''quota_exceeded'')"

definition zero_spec :: SandboxSpec where
  "zero_spec = \<lparr>sp_VCPUs = 0, sp_MemBytes = 0, sp_StorageBytes = 0\<rparr>"

text \<open>
  \<open>ip\<close> is what the request context holds for the caller address, empty without an extractor;
  \<open>requested\<close> the requested shape, \<open>None\<close> without an extractor or when it finds none.
\<close>

definition adapter_Check ::
  "'s Enforcer \<Rightarrow> time \<Rightarrow> 's \<times> RateLimiter \<Rightarrow> string \<Rightarrow> string \<Rightarrow> string \<Rightarrow> SandboxSpec option \<Rightarrow>
     (quota_error \<times> string) option \<times> 's \<times> RateLimiter" where
  "adapter_Check e now st orgID op ip requested =
     (let spec = (if op = ''sandbox.create'' \<or> op = ''sandbox.fork'' then (case requested of Some z \<Rightarrow> z | None \<Rightarrow> zero_spec) else zero_spec)
      in case Check e now st orgID \<lparr>rq_Op = op, rq_IP = ip, rq_NewSandbox = spec\<rparr> of
           (None, st') \<Rightarrow> (None, st')
         | (Some err, st') \<Rightarrow> (Some (err, envelopeFor err), st'))"

section \<open>Live usage from usage records\<close>

definition usage_backed_Live :: "MemUsageStore \<Rightarrow> duration \<Rightarrow> time \<Rightarrow> string \<Rightarrow> (string, LiveUsage) result" where
  "usage_backed_Live store window now orgID =
     (let win = (if window \<le> 0 then 2 * cfg_Window DefaultConfig else window);
          recs = ListRecords store orgID (now - win) 0
      in Inr \<lparr>lu_ConcurrentSandboxes = int (card (set (map ur_SandboxID recs))), lu_VCPUs = 0, lu_MemBytes = 0, lu_StorageBytes = 0\<rparr>)"

section \<open>How much a bucket lets through\<close>

abbreviation ulp :: rat where
  "ulp \<equiv> 1 / 2 ^ 53"

lemma f64_up: "0 \<le> x \<Longrightarrow> x \<le> y \<Longrightarrow> f64 x \<le> y * (1 + ulp)"
  using f64.upper [of x] mult_right_mono [of x y "1 + ulp"] by simp

lemma Seconds_bound:
  assumes "0 \<le> d"
  shows "Seconds d \<le> of_int d / 1000000000 * (1 + ulp) ^ 3"
proof -
  let ?q = "d div second_ns" and ?r = "d mod second_ns"
  have q: "quot d second_ns = ?q" using assms by (simp add: quot_nonneg)
  have r: "d - ?q * second_ns = ?r" by (simp add: minus_div_mult_eq_mod)
  have nn: "(0::rat) \<le> of_int ?q" "(0::rat) \<le> of_int ?r" using assms by simp_all
  have 1: "0 \<le> f64 (of_int ?q)" "f64 (of_int ?q) \<le> of_int ?q * (1 + ulp)" using nn f64.nonneg f64_up [OF nn(1) order_refl] by simp_all
  have 2: "0 \<le> f64 (of_int ?r)" "f64 (of_int ?r) \<le> of_int ?r * (1 + ulp)" using nn f64.nonneg f64_up [OF nn(2) order_refl] by simp_all
  then have 3: "0 \<le> f64 (f64 (of_int ?r) / 1000000000)" "f64 (f64 (of_int ?r) / 1000000000) \<le> of_int ?r / 1000000000 * (1 + ulp) * (1 + ulp)"
    using f64.nonneg [of "f64 (of_int ?r) / 1000000000"] f64_up [of "f64 (of_int ?r) / 1000000000" "of_int ?r / 1000000000 * (1 + ulp)"] by simp_all
  have "of_int ?q * (1 + ulp) \<le> of_int ?q * (1 + ulp) * (1 + ulp)" using nn(1) by simp
  then have 4: "f64 (of_int ?q) + f64 (f64 (of_int ?r) / 1000000000) \<le> (of_int ?q + of_int ?r / 1000000000) * (1 + ulp) * (1 + ulp)"
    using 1(2) 3(2) unfolding distrib_right by linarith
  have "(of_int d :: rat) = of_int ?q * 1000000000 + of_int ?r"
    by (metis div_mult_mod_eq of_int_add of_int_mult of_int_numeral)
  from arg_cong [OF this, of "\<lambda>x. x / 1000000000"] have d: "of_int d / 1000000000 = (of_int ?q + of_int ?r / 1000000000 :: rat)"
    by (simp only: add_divide_distrib)
  show ?thesis unfolding Seconds_def q r
    using f64_up [OF add_nonneg_nonneg [OF 1(1) 3(1)] 4] by (simp add: d power3_eq_cube mult.assoc)
qed

text \<open>What elapsed time adds, with the rounding of the arithmetic, and what one request costs.\<close>

lemma refill_bound:
  assumes "0 \<le> tokens" "tokens \<le> burst" "0 < rate" "0 \<le> d"
  shows "f64 (tokens + f64 (Seconds d * f64 (rate / 60))) \<le> tokens + burst * ulp + of_int d / 1000000000 * (rate / 60) * (1 + 1 / 2 ^ 50)"
proof -
  let ?D = "of_int d / 1000000000 :: rat" and ?R = "rate / 60" and ?p = "f64 (Seconds d * f64 (rate / 60))"
  have S: "0 \<le> Seconds d" using assms(4) by (simp add: Seconds_def f64.nonneg quot_nonneg minus_div_mult_eq_mod)
  have R: "0 \<le> f64 ?R" "f64 ?R \<le> ?R * (1 + ulp)" using assms(3) f64.nonneg [of ?R] f64_up [of ?R ?R] by simp_all
  have D: "0 \<le> ?D * ?R" using assms(3,4) by simp
  have "Seconds d * f64 ?R \<le> (?D * (1 + ulp) ^ 3) * (?R * (1 + ulp))"
    using Seconds_bound [OF assms(4)] R S assms(4) by (intro mult_mono) simp_all
  then have m: "Seconds d * f64 ?R \<le> ?D * ?R * (1 + ulp) ^ 4" by (simp add: power4_eq_xxxx power3_eq_cube mult_ac)
  have p: "0 \<le> ?p" "?p \<le> ?D * ?R * (1 + ulp) ^ 4 * (1 + ulp)"
    using f64.nonneg [of "Seconds d * f64 ?R"] S R(1) f64_up [OF _ m] by simp_all
  have "f64 (tokens + ?p) \<le> (tokens + ?D * ?R * (1 + ulp) ^ 4 * (1 + ulp)) * (1 + ulp)"
    using assms(1) p by (intro f64_up) simp_all
  also have "\<dots> = tokens + tokens * ulp + ?D * ?R * (1 + ulp) ^ 6" by (simp add: distrib_right distrib_left eval_nat_numeral mult.assoc)
  also have "\<dots> \<le> tokens + burst * ulp + ?D * ?R * (1 + 1 / 2 ^ 50)"
    using assms(2) D by (intro add_mono mult_left_mono mult_right_mono order_refl) (simp_all add: power_def)
  finally show ?thesis .
qed

lemma spend_bound: "1 \<le> tokens \<Longrightarrow> tokens \<le> burst \<Longrightarrow> f64 (tokens - 1) \<le> tokens - 1 + burst * ulp"
  using f64_up [of "tokens - 1" "tokens - 1"] by (simp add: algebra_simps)

lemma Seconds_nonpos: "d \<le> 0 \<Longrightarrow> Seconds d \<le> 0"
proof -
  assume d: "d \<le> 0"
  have q: "quot d second_ns = - ((- d) div second_ns)" using d by (cases "d = 0") (simp_all add: quot_def)
  have "(- d) div second_ns * second_ns \<le> - d" 
    using div_mult_mod_eq [of "- d" second_ns] pos_mod_sign [of second_ns "- d"] by linarith
  then have r: "d - quot d second_ns * second_ns \<le> 0" by (simp add: q)
  have "quot d second_ns \<le> 0" using d by (simp add: q pos_imp_zdiv_nonneg_iff)
  then show "Seconds d \<le> 0" unfolding Seconds_def using r
    by (intro f64.nonpos add_nonpos_nonpos divide_nonpos_pos) simp_all
qed

text \<open>
  The account of a bucket after \<open>k\<close> of \<open>n\<close> requests were let through since \<open>t0\<close>: what is left
  and what was spent come out of the burst and the refill.
\<close>

definition bucket_account :: "rat \<Rightarrow> rat \<Rightarrow> time \<Rightarrow> time \<Rightarrow> nat \<Rightarrow> nat \<Rightarrow> bucket \<Rightarrow> bool" where
  "bucket_account rate burst t0 t1 n k b \<longleftrightarrow>
     0 \<le> bk_tokens b \<and> bk_tokens b \<le> burst \<and>
     (if bk_last b = 0 then bk_tokens b = burst \<and> k = 0
      else t0 \<le> bk_last b \<and> bk_last b \<le> t1 \<and>
        bk_tokens b + of_nat k \<le> burst + of_int (bk_last b - t0) / 1000000000 * (rate / 60) * (1 + 1 / 2 ^ 50) + of_nat n * (2 * burst * ulp))"

lemma account_arith:
  fixes t :: rat
  assumes "t \<le> T + U + A2" "An = A1 + A2" "T + K \<le> B + A1 + N"
  shows "(if t > b then b else t) + K \<le> B + An + N + U"
  using assms by (cases "t > b") simp_all

lemma bucket_refill_account:
  assumes "bucket_account rate burst t0 t1 n k b" "bk_ratePerMinute b = rate" "bk_burst b = burst" "0 < rate" "0 < burst"
    and "0 < t0" "t0 \<le> now" "now \<le> t1"
  shows "let b1 = bucket_refill b now in 0 \<le> bk_tokens b1 \<and> bk_tokens b1 \<le> burst \<and> t0 \<le> bk_last b1 \<and> bk_last b1 \<le> t1 \<and>
    bk_tokens b1 + of_nat k \<le> burst + of_int (bk_last b1 - t0) / 1000000000 * (rate / 60) * (1 + 1 / 2 ^ 50) + of_nat n * (2 * burst * ulp) + burst * ulp"
proof -
  let ?add = "\<lambda>t. of_int (t - t0) / 1000000000 * (rate / 60) * (1 + 1 / 2 ^ 50) :: rat"
  let ?b0 = "if IsZero (bk_last b) then b\<lparr>bk_last := now\<rparr> else b"
  have nn: "0 \<le> ?add t" if "t0 \<le> t" for t using that assms(4) by (intro mult_nonneg_nonneg divide_nonneg_pos) simp_all
  have b0: "0 \<le> bk_tokens ?b0" "bk_tokens ?b0 \<le> burst" "t0 \<le> bk_last ?b0" "bk_last ?b0 \<le> t1" "bk_burst ?b0 = burst" "bk_ratePerMinute ?b0 = rate"
      "bk_tokens ?b0 + of_nat k \<le> burst + ?add (bk_last ?b0) + of_nat n * (2 * burst * ulp)"
    using assms nn [of now] unfolding bucket_account_def by (auto split: if_splits)
  show ?thesis
  proof (cases "Seconds (now - bk_last ?b0) > 0")
    case False
    then have "bucket_refill b now = ?b0" by (simp add: bucket_refill_def Let_def)
    moreover have "0 \<le> burst * ulp" using assms(5) by simp
    ultimately show ?thesis using b0 unfolding Let_def by auto
  next
    case True
    let ?d = "now - bk_last ?b0"
    let ?t = "f64 (bk_tokens ?b0 + f64 (Seconds ?d * f64 (rate / 60)))"
    have d: "0 \<le> ?d" using True Seconds_nonpos [of ?d] by linarith
    have b1: "bucket_refill b now = ?b0\<lparr>bk_tokens := (if ?t > burst then burst else ?t), bk_last := now\<rparr>"
      using True b0(5,6) by (simp add: bucket_refill_def Let_def)
    have t: "0 \<le> ?t" using b0(1) True f64.nonneg assms(4) by simp
    have e: "(of_int (now - t0) :: rat) = of_int (bk_last ?b0 - t0) + of_int ?d" by simp
    have "(if ?t > burst then burst else ?t) + of_nat k \<le> burst + ?add now + of_nat n * (2 * burst * ulp) + burst * ulp"
      by (rule account_arith [OF refill_bound [OF b0(1,2) assms(4) d] _ b0(7)]) (simp only: e add_divide_distrib distrib_right)
    then show ?thesis using t assms(5,7,8) unfolding Let_def b1 by simp
  qed
qed

lemma spend_arith:
  fixes f :: rat
  assumes "f \<le> T - 1 + U" "T + K \<le> B + A + M + U"
  shows "f + (K + 1) \<le> B + A + (M + (U + U))"
  using assms by linarith

lemma bucket_allow_account:
  assumes "bucket_account rate burst t0 t1 n k b" "bk_ratePerMinute b = rate" "bk_burst b = burst" "0 < rate" "0 < burst" "burst \<le> 2 ^ 53"
    and "0 < t0" "t0 \<le> now" "now \<le> t1" "bucket_allow b now 1 = (ok, b')"
  shows "bucket_account rate burst t0 t1 (Suc n) (if ok then Suc k else k) b'"
proof -
  let ?b1 = "bucket_refill b now"
  let ?A = "of_int (bk_last ?b1 - t0) / 1000000000 * (rate / 60) * (1 + 1 / 2 ^ 50) :: rat" and ?W = "2 * burst * ulp"
  from bucket_refill_account [OF assms(1-5,7-9), unfolded Let_def]
  have r: "0 \<le> bk_tokens ?b1" "bk_tokens ?b1 \<le> burst" "t0 \<le> bk_last ?b1" "bk_last ?b1 \<le> t1"
    "bk_tokens ?b1 + of_nat k \<le> burst + ?A + of_nat n * ?W + burst * ulp" by blast+
  have l: "bk_last ?b1 \<noteq> 0" using r assms(7) by linarith
  have u: "0 \<le> burst * ulp" using assms(5) by simp
  have W: "of_nat (Suc n) * ?W = of_nat n * ?W + (burst * ulp + burst * ulp)" by (simp add: algebra_simps)
  show ?thesis
  proof (cases "1 \<le> bk_tokens ?b1")
    case True
    let ?f = "f64 (bk_tokens ?b1 - 1)"
    have b': "ok" "b' = ?b1\<lparr>bk_tokens := ?f\<rparr>" using True assms(2,4,10) by (auto simp: bucket_allow_def Let_def)
    have s: "?f \<le> bk_tokens ?b1 - 1 + burst * ulp" by (rule spend_bound [OF True r(2)])
    have k: "(of_nat (Suc k) :: rat) = of_nat k + 1" by simp
    have "?f + of_nat (Suc k) \<le> burst + ?A + of_nat (Suc n) * ?W" unfolding W k by (rule spend_arith [OF s r(5)])
    moreover have "?f \<le> burst"
    proof -
      have "burst * ulp \<le> 1" using assms(6) by simp
      then show ?thesis using s r(2) by linarith
    qed
    moreover have "0 \<le> ?f" using True by (intro f64.nonneg) simp
    ultimately show ?thesis using r(3,4) l b'(1) unfolding bucket_account_def b'(2) bucket.simps by simp
  next
    case False
    then have b': "\<not> ok" "b' = ?b1" using assms(2,4,10) by (auto simp: bucket_allow_def Let_def)
    have "bk_tokens ?b1 + of_nat k \<le> burst + ?A + of_nat (Suc n) * ?W" unfolding W using r(5) u by linarith
    then show ?thesis using r(1-4) l b'(1) unfolding bucket_account_def b'(2) by simp
  qed
qed

type_synonym allow_call = "time \<times> (string \<times> BucketKind) \<times> rat \<times> rat"

fun allow_run :: "RateLimiter \<Rightarrow> allow_call list \<Rightarrow> (allow_call \<times> bool) list \<times> RateLimiter" where
  "allow_run rl [] = ([], rl)"
| "allow_run rl ((now, (key, kind), rate, burst) # xs) =
     (let (ok, rl1) = Allow rl now key kind rate burst; (oks, rl2) = allow_run rl1 xs
      in (((now, (key, kind), rate, burst), ok) # oks, rl2))"

definition passed :: "string \<times> BucketKind \<Rightarrow> (allow_call \<times> bool) list \<Rightarrow> nat" where
  "passed bk rs = length (filter (\<lambda>(c, ok). fst (snd c) = bk \<and> ok) rs)"

definition asked :: "string \<times> BucketKind \<Rightarrow> allow_call list \<Rightarrow> nat" where
  "asked bk xs = length (filter (\<lambda>c. fst (snd c) = bk) xs)"

definition steady :: "string \<times> BucketKind \<Rightarrow> rat \<Rightarrow> rat \<Rightarrow> time \<Rightarrow> time \<Rightarrow> allow_call list \<Rightarrow> bool" where
  "steady bk rate burst t0 t1 xs \<longleftrightarrow>
     (\<forall>(t, bk', r, b) \<in> set xs. bk' = bk \<longrightarrow> t0 \<le> t \<and> t \<le> t1 \<and> r = rate \<and> b = burst)"

definition limiter_account :: "rat \<Rightarrow> rat \<Rightarrow> time \<Rightarrow> time \<Rightarrow> nat \<Rightarrow> nat \<Rightarrow> bucket option \<Rightarrow> bool" where
  "limiter_account rate burst t0 t1 n k ob =
     (case ob of None \<Rightarrow> k = 0 | Some b \<Rightarrow> bucket_account rate burst t0 t1 n k b)"

lemma Allow_account:
  assumes "limiter_account rate burst t0 t1 n k (rl (key, kind))" "0 < rate" "0 < burst" "burst \<le> 2 ^ 53" "0 < t0" "t0 \<le> now" "now \<le> t1"
    and "Allow rl now key kind rate burst = (ok, rl')"
  shows "limiter_account rate burst t0 t1 (Suc n) (if ok then Suc k else k) (rl' (key, kind))"
proof -
  let ?b = "case rl (key, kind) of None \<Rightarrow> newBucket rate burst | Some b \<Rightarrow> b\<lparr>bk_ratePerMinute := rate, bk_burst := burst\<rparr>"
  obtain b' where b': "bucket_allow ?b now 1 = (ok, b')" "rl' = rl((key, kind) \<mapsto> b')"
    using assms(3,8) by (auto simp: Allow_def Let_def split: prod.splits)
  have "bucket_account rate burst t0 t1 n k ?b" "bk_ratePerMinute ?b = rate" "bk_burst ?b = burst"
    using assms(1,3) by (auto simp: limiter_account_def newBucket_def bucket_account_def split: option.splits)
  from bucket_allow_account [OF this assms(2-7) b'(1)] show ?thesis by (simp add: b'(2) limiter_account_def)
qed

lemma allow_run_account:
  assumes "0 < rate" "0 < burst" "burst \<le> 2 ^ 53" "0 < t0"
  shows "limiter_account rate burst t0 t1 n k (rl (key, kind)) \<Longrightarrow> steady (key, kind) rate burst t0 t1 xs \<Longrightarrow> allow_run rl xs = (rs, rl') \<Longrightarrow>
    limiter_account rate burst t0 t1 (n + asked (key, kind) xs) (k + passed (key, kind) rs) (rl' (key, kind))"
proof (induction xs arbitrary: rl rs n k)
  case (Cons c xs)
  obtain now q qk r b where c: "c = (now, (q, qk), r, b)" by (metis prod.exhaust)
  obtain ok rl1 where a: "Allow rl now q qk r b = (ok, rl1)" by fastforce
  obtain rs1 where run: "allow_run rl1 xs = (rs1, rl')" and rs: "rs = (c, ok) # rs1"
    using Cons.prems(3) a by (auto simp: c split: prod.splits)
  have st: "steady (key, kind) rate burst t0 t1 xs" using Cons.prems(2) by (simp add: steady_def)
  show ?case
  proof (cases "(q, qk) = (key, kind)")
    case True
    then have eq: "q = key" "qk = kind" "t0 \<le> now" "now \<le> t1" "r = rate" "b = burst" using Cons.prems(2) by (auto simp: steady_def c)
    have "limiter_account rate burst t0 t1 (Suc n) (if ok then Suc k else k) (rl1 (key, kind))"
      using Allow_account [of rate burst t0 t1 n k rl key kind now ok rl1] Cons.prems(1) assms eq a by simp
    from Cons.IH [OF this st run] True show ?thesis by (cases ok) (simp_all add: rs c passed_def asked_def)
  next
    case False
    then have "rl1 (key, kind) = rl (key, kind)" using a by (auto simp: Allow_def Let_def split: prod.splits)
    then show ?thesis using Cons.IH [OF _ st run, of n k] Cons.prems(1) False by (auto simp: rs c passed_def asked_def)
  qed
qed (simp add: passed_def asked_def)

text \<open>
  C36: However requests to different buckets interleave, a bucket that is charged at one rate and
  burst between two instants lets at most the burst and the refill of the elapsed time through,
  up to the rounding of the floating point arithmetic.
\<close>

theorem rate_limit_bound:
  assumes "rl (key, kind) = None" "0 < rate" "0 < burst" "burst \<le> 2 ^ 53" "0 < t0" "t0 \<le> t1"
    and "steady (key, kind) rate burst t0 t1 xs" "allow_run rl xs = (rs, rl')"
  shows "of_nat (passed (key, kind) rs) \<le>
    burst + of_int (t1 - t0) / 1000000000 * (rate / 60) * (1 + 1 / 2 ^ 50) + of_nat (asked (key, kind) xs) * (2 * burst / 2 ^ 53)"
proof -
  let ?add = "\<lambda>t. of_int (t - t0) / 1000000000 * (rate / 60) * (1 + 1 / 2 ^ 50) :: rat" and ?k = "passed (key, kind) rs"
  have nn: "0 \<le> ?add t1" using assms(2,6) by (intro mult_nonneg_nonneg divide_nonneg_pos) simp_all
  have m: "0 \<le> of_nat (asked (key, kind) xs) * (2 * burst * ulp)" using assms(3) by simp
  have "limiter_account rate burst t0 t1 0 0 (rl (key, kind))" using assms(1) by (simp add: limiter_account_def)
  from allow_run_account [OF assms(2-5) this assms(7,8)]
  have acc: "limiter_account rate burst t0 t1 (asked (key, kind) xs) ?k (rl' (key, kind))" by simp
  have "of_nat ?k \<le> burst + ?add t1 + of_nat (asked (key, kind) xs) * (2 * burst * ulp)"
  proof (cases "?k = 0")
    case True
    have "0 \<le> burst + ?add t1 + of_nat (asked (key, kind) xs) * (2 * burst * ulp)" using nn m assms(3) by linarith
    then show ?thesis using True by simp
  next
    case False
    then obtain b where b: "bucket_account rate burst t0 t1 (asked (key, kind) xs) ?k b"
      using acc by (auto simp: limiter_account_def split: option.splits)
    then have l: "bk_last b \<le> t1" "0 \<le> bk_tokens b"
      "bk_tokens b + of_nat ?k \<le> burst + ?add (bk_last b) + of_nat (asked (key, kind) xs) * (2 * burst * ulp)"
      using False unfolding bucket_account_def by (auto split: if_splits)
    have "?add (bk_last b) \<le> ?add t1" using l(1) assms(2) by (intro mult_right_mono divide_right_mono) simp_all
    then show ?thesis using l by linarith
  qed
  then show ?thesis by simp
qed

theorem rate_limit_bound_witness:
  "of_nat (passed (''org:acme'', BucketLifecycle) (fst (allow_run Map.empty (replicate 3 (1, (''org:acme'', BucketLifecycle), 2, 2))))) \<le>
     (2 :: rat) + 3 * (4 / 2 ^ 53)"
proof -
  let ?xs = "replicate 3 (1, (''org:acme'', BucketLifecycle), 2, 2)"
  obtain rs rl' where r: "allow_run Map.empty ?xs = (rs, rl')" by fastforce
  have "steady (''org:acme'', BucketLifecycle) 2 2 1 1 ?xs" by (simp add: steady_def)
  from rate_limit_bound [OF _ _ _ _ _ _ this r] show ?thesis by (simp add: r asked_def)
qed

section \<open>Admission\<close>

definition fits :: "int \<Rightarrow> int \<Rightarrow> bool" where
  "fits cap x \<longleftrightarrow> cap \<le> 0 \<or> x \<le> cap"

definition within_size :: "Tier \<Rightarrow> SandboxSpec \<Rightarrow> bool" where
  "within_size tier s \<longleftrightarrow> fits (ti_MaxSandboxVCPUs tier) (sp_VCPUs s) \<and> fits (ti_MaxSandboxMemBytes tier) (sp_MemBytes s) \<and>
     fits (ti_MaxSandboxStorageBytes tier) (sp_StorageBytes s)"

definition within_caps :: "Tier \<Rightarrow> LiveUsage \<Rightarrow> SandboxSpec \<Rightarrow> bool" where
  "within_caps tier live s \<longleftrightarrow> fits (ti_MaxConcurrentSandboxes tier) (lu_ConcurrentSandboxes live + 1) \<and>
     fits (ti_MaxAggregateVCPUs tier) (lu_VCPUs live + sp_VCPUs s) \<and> fits (ti_MaxAggregateMemBytes tier) (lu_MemBytes live + sp_MemBytes s) \<and>
     fits (ti_MaxAggregateStorageBytes tier) (lu_StorageBytes live + sp_StorageBytes s)"

definition live_in_range :: "LiveUsage \<Rightarrow> SandboxSpec \<Rightarrow> bool" where
  "live_in_range live s \<longleftrightarrow> in_i64 (lu_ConcurrentSandboxes live + 1) \<and> in_i32 (lu_VCPUs live + sp_VCPUs s) \<and>
     in_i64 (lu_MemBytes live + sp_MemBytes s) \<and> in_i64 (lu_StorageBytes live + sp_StorageBytes s)"

lemma checkSize_None: "checkSize tier s = None \<longleftrightarrow> within_size tier s"
  by (auto simp: checkSize_def within_size_def fits_def)

lemma checkLive_None:
  assumes "\<And>live. ef_live e orgID = Inr live \<Longrightarrow> live_in_range live s"
  shows "checkLive e tier orgID s = None \<longleftrightarrow> (\<exists>live. ef_live e orgID = Inr live \<and> within_caps tier live s)"
  using assms by (cases "ef_live e orgID") (auto simp: checkLive_def within_caps_def fits_def live_in_range_def wrap_simps)

lemma checkSize_error: "checkSize tier s = Some x \<Longrightarrow> x = ErrSandboxTooLarge"
  by (auto simp: checkSize_def split: if_splits)

lemma checkLive_error: "checkLive e tier orgID s = Some x \<Longrightarrow> x \<noteq> ErrRateLimited"
  by (auto simp: checkLive_def split: if_splits sum.splits)

lemma checkRates_error: "checkRates tier orgID req now rl = (Some x, rl') \<Longrightarrow> x = ErrRateLimited"
  by (auto simp: checkRates_def Let_def split: if_splits prod.splits)

definition requested_spec :: "string \<Rightarrow> SandboxSpec option \<Rightarrow> SandboxSpec" where
  "requested_spec op requested =
     (if op = ''sandbox.create'' \<or> op = ''sandbox.fork'' then (case requested of Some z \<Rightarrow> z | None \<Rightarrow> zero_spec) else zero_spec)"

text \<open>The decision for an organization that is not suspended.\<close>

lemma Check_live:
  assumes "ef_sus e = Some mem_store" "s orgID = None"
  shows "Check e now (s, rl) orgID req =
     (case ef_tier e orgID of
        Inl err \<Rightarrow> (Some (OfQuotaSeam err), s, rl)
      | Inr tierName \<Rightarrow>
          (case ef_tiers e tierName of
             None \<Rightarrow> (Some ErrUnknownTier, s, rl)
           | Some tier \<Rightarrow>
               (case (if isCreate req then (case checkSize tier (rq_NewSandbox req) of
                        Some x \<Rightarrow> Some x | None \<Rightarrow> checkLive e tier orgID (rq_NewSandbox req)) else None) of
                  Some x \<Rightarrow> (Some x, s, rl)
                | None \<Rightarrow> (case checkRates tier orgID req now rl of (r, rl') \<Rightarrow> (r, s, rl')))))"
proof -
  have "ss_IsSuspended mem_store now s orgID = (Inr None, s)" using assms(2) by (simp add: mem_store_def mem_IsSuspended_def)
  then show ?thesis unfolding Check_def Let_def assms(1) by simp
qed

lemma Check_suspended:
  "ef_sus e = Some mem_store \<Longrightarrow> s orgID = Some x \<Longrightarrow> Check e now (s, rl) orgID req = (Some ErrSuspended, s, rl)"
  by (simp add: Check_def mem_store_def mem_IsSuspended_def)

lemma Check_cases:
  assumes "ef_sus e = Some mem_store" "s orgID = None" "Check e now (s, rl) orgID req = (r, s', rl')"
    and "\<And>live. ef_live e orgID = Inr live \<Longrightarrow> live_in_range live (rq_NewSandbox req)"
  shows "s' = s \<and> (r \<noteq> None \<and> r \<noteq> Some ErrRateLimited \<longrightarrow> rl' = rl) \<and>
    (r = None \<longrightarrow> (\<exists>name tier. ef_tier e orgID = Inr name \<and> ef_tiers e name = Some tier \<and>
       checkRates tier orgID req now rl = (None, rl') \<and>
       (isCreate req \<longrightarrow> within_size tier (rq_NewSandbox req) \<and>
          (\<exists>live. ef_live e orgID = Inr live \<and> within_caps tier live (rq_NewSandbox req)))))"
proof -
  note C = assms(3) [unfolded Check_live [of e s orgID, OF assms(1,2)]]
  note lv = checkLive_None [of e orgID "rq_NewSandbox req", OF assms(4)]
  show ?thesis
  proof (cases "ef_tier e orgID")
    case (Inr name)
    show ?thesis
    proof (cases "ef_tiers e name")
      case (Some tier)
      show ?thesis using C Inr Some checkRates_error [of tier orgID req now rl] checkSize_None [of tier "rq_NewSandbox req"] lv [of tier]
        by (cases "checkRates tier orgID req now rl"; cases "fst (checkRates tier orgID req now rl)") (auto split: if_splits option.splits)
    qed (use C Inr in auto)
  qed (use C in auto)
qed


definition demo_enforcer :: "MemSuspensionStore Enforcer" where
  "demo_enforcer =
     \<lparr>ef_tiers = DefaultTiers, ef_tier = (\<lambda>orgID. Inr TierFree),
      ef_live = (\<lambda>orgID. Inr \<lparr>lu_ConcurrentSandboxes = 2, lu_VCPUs = 1, lu_MemBytes = 0, lu_StorageBytes = 0\<rparr>), ef_sus = Some mem_store\<rparr>"


end
