(* ===== verification/Spend_Control.thy ===== *)
theory Spend_Control
  imports Billing_Webhook Drawdown_Driver Quota_Enforcer
begin

text \<open>
  How the drawdown driver, the billing webhook and the gateway act together on the shared
  in-memory stores: a cycle that finds a breached hard cap suspends the organization in the store
  the gateway reads, and a paid top-up takes it back into service. The lemmas here describe
  what one component leaves for the next; the properties are in the root theory.
\<close>

section \<open>The service over the in-memory stores\<close>

definition mem_service :: "Rates \<Rightarrow> (BudgetAlertEvent \<Rightarrow> (string, unit) result) option \<Rightarrow> time \<Rightarrow> (MemCreditLedger, MemSuspensionStore) Service" where
  "mem_service rates alerts now =
     \<lparr>sv_ledger = mem_ledger, sv_suspend = Some (bs_Suspend mem_store now), sv_alerts = alerts, sv_rates = rates\<rparr>"

type_synonym mem_billing_state = "(MemCreditLedger, MemSuspensionStore) billing_state"

text \<open>The stores of the webhook as the billing service sees them.\<close>

definition billing_of :: "mem_webhook_state \<Rightarrow> (string \<rightharpoonup> SpendCap) \<Rightarrow> mem_billing_state" where
  "billing_of s caps = \<lparr>st_ledger = wb_ledger s, st_caps = caps, st_status = wb_status s, st_kill = wb_kill s, st_alerted = []\<rparr>"

abbreviation org_entries :: "mem_billing_state \<Rightarrow> string \<Rightarrow> LedgerEntry list" where
  "org_entries s orgID \<equiv> ml_byOrg (st_ledger s) orgID"

section \<open>Enforcing a cap\<close>

lemma enforce_reads:
  assumes "st_caps s orgID = Some cap" "0 < sc_HardCap cap"
  shows "EnforceSpendCapFromLedger (mem_service rates alerts u) now s orgID =
    EnforceSpendCap (mem_service rates alerts u) now s orgID (i64 (period_spend (month_start now) (org_entries s orgID)))"
  using assms spend_of_recent(1) [of "month_start now" "org_entries s orgID"]
  by (simp add: EnforceSpendCapFromLedger_def caps_Get_def mem_service_def mem_ledger_def mem_EntriesSince_def Let_def not_less)

lemma period_spend_nonneg: "0 \<le> period_spend p es"
  unfolding period_spend_def by (rule sum_list_nonneg) auto

text \<open>An organization that the kill switch and billing both hold suspended.\<close>

definition blocked :: "mem_billing_state \<Rightarrow> string \<Rightarrow> bool" where
  "blocked s orgID \<longleftrightarrow> st_kill s orgID \<noteq> None \<and> status_Status (st_status s) orgID = StatusSuspended"

lemma enforce_breach:
  assumes "st_caps s orgID = Some cap" "0 < sc_HardCap cap" "sc_HardCap cap \<le> period_spend (month_start now) (org_entries s orgID)"
    and "period_spend (month_start now) (org_entries s orgID) < 2 ^ 63"
    and "EnforceSpendCapFromLedger (mem_service rates alerts u) now s orgID = (b, e, s')"
  shows "b \<and> e = None \<and> blocked s' orgID"
proof -
  let ?p = "period_spend (month_start now) (org_entries s orgID)"
  have "i64 ?p = ?p" using assms(4) period_spend_nonneg [of "month_start now" "org_entries s orgID"] by (simp add: wrap_simps in_i64_def)
  then show ?thesis using assms(5) assms(1-3) unfolding enforce_reads [OF assms(1,2)]
    by (auto simp: EnforceSpendCap_def caps_Get_def mem_service_def bs_Suspend_def ks_Suspend_def mem_store_def mem_Suspend_def blocked_def
      status_SetStatus_def status_Status_def Let_def)
qed

lemma enforce_no_spend:
  assumes "st_caps s orgID = Some cap" "0 < sc_HardCap cap" "period_spend (month_start now) (org_entries s orgID) = 0"
  shows "\<not> fst (EnforceSpendCapFromLedger (mem_service rates alerts u) now s orgID) \<and>
    st_kill (snd (snd (EnforceSpendCapFromLedger (mem_service rates alerts u) now s orgID))) = st_kill s"
  using assms(1,2) unfolding enforce_reads [OF assms(1,2)] assms(3)
  by (simp add: EnforceSpendCap_def caps_Get_def i64_def Let_def split: option.split)

text \<open>An enforcement for one organization leaves the others alone.\<close>

definition same_org :: "string \<Rightarrow> mem_billing_state \<Rightarrow> mem_billing_state \<Rightarrow> bool" where
  "same_org orgID s s' \<longleftrightarrow>
     org_entries s' orgID = org_entries s orgID \<and> st_caps s' orgID = st_caps s orgID \<and>
     st_kill s' orgID = st_kill s orgID \<and> st_status s' orgID = st_status s orgID"

lemma same_org_refl [simp]: "same_org orgID s s"
  by (simp add: same_org_def)

lemma same_org_trans: "same_org orgID s t \<Longrightarrow> same_org orgID t u \<Longrightarrow> same_org orgID s u"
  by (simp add: same_org_def)

lemma EnforceSpendCap_same:
  assumes "EnforceSpendCap (mem_service rates alerts u) now s q x = (b, e, s')"
  shows "st_ledger s' = st_ledger s \<and> st_caps s' = st_caps s \<and> (q \<noteq> orgID \<longrightarrow> same_org orgID s s')"
  using assms
  by (auto simp: EnforceSpendCap_def mem_service_def bs_Suspend_def ks_Suspend_def mem_store_def mem_Suspend_def same_org_def status_SetStatus_def Let_def
    split: option.splits if_splits sum.splits)

lemma enforce_same:
  assumes "EnforceSpendCapFromLedger (mem_service rates alerts u) now s q = (b, e, s')"
  shows "st_ledger s' = st_ledger s \<and> st_caps s' = st_caps s \<and> (q \<noteq> orgID \<longrightarrow> same_org orgID s s')"
  using assms EnforceSpendCap_same [of rates alerts u now s q _ b e s' orgID]
  by (auto simp: EnforceSpendCapFromLedger_def Let_def split: option.splits if_splits sum.splits)

lemma Drawdown_settles:
  assumes "Drawdown C rates now l rec = (r, l')"
  shows "l' = l \<or> (\<exists>e m w. le_OrgID e = ur_OrgID rec \<and> l' = snd (cl_SettleWindow C l e m w))"
proof (cases "CostMilliCents rates rec = 0 \<or> isl (cl_Remainder C l (ur_OrgID rec)) \<or> isl (cl_Balance C l (ur_OrgID rec))")
  case True
  then show ?thesis using assms
    by (cases "cl_Remainder C l (ur_OrgID rec)"; cases "cl_Balance C l (ur_OrgID rec)"; cases "CostMilliCents rates rec = 0")
      (auto simp: Drawdown_def Let_def)
next
  case False
  then obtain c b where cb: "cl_Remainder C l (ur_OrgID rec) = Inr c" "cl_Balance C l (ur_OrgID rec) = Inr b"
    by (cases "cl_Remainder C l (ur_OrgID rec)"; cases "cl_Balance C l (ur_OrgID rec)") auto
  have n: "CostMilliCents rates rec \<noteq> 0" using False by blast
  define e where "e f = \<lparr>le_OrgID = ur_OrgID rec, le_Kind = KindUsageDrawdown, le_Amount = i64 (- f), le_Key = usageKey rec,
    le_At = now, le_Note = ''usage drawdown''\<rparr>" for f
  obtain f m w res where "Drawdown C rates now l rec = (case cl_SettleWindow C l (e f) m w of
        (Inl ErrDuplicateEntry, l') \<Rightarrow>
          (case priorDrawdownCredit C l' rec of
             Inl e \<Rightarrow> (Inl e, l')
           | Inr prior \<Rightarrow>
               (Inr \<lparr>dr_Cost = prior, dr_FromCredit = prior, dr_Remaining = 0, dr_CarriedMilliCents = c, dr_Replayed = True\<rparr>, l'))
      | (Inl e, l') \<Rightarrow> (Inl (OfLedger ''append drawdown'' e), l')
      | (Inr _, l') \<Rightarrow> (Inr res, l'))"
    unfolding Drawdown_def Let_def cb sum.case if_not_P [OF n] e_def by blast
  then have "l' = snd (cl_SettleWindow C l (e f) m w)"
    using assms by (cases "cl_SettleWindow C l (e f) m w") (auto split: sum.splits ledger_error.splits)
  moreover have "le_OrgID (e f) = ur_OrgID rec" by (simp add: e_def)
  ultimately show ?thesis by blast
qed

lemma Drawdown_other:
  assumes "Drawdown mem_ledger rates now l rec = (r, l')" "orgID \<noteq> ur_OrgID rec"
  shows "ml_byOrg l' orgID = ml_byOrg l orgID"
proof -
  have "ml_byOrg (snd (mem_SettleWindow l e m w)) orgID = ml_byOrg l orgID" if "le_OrgID e \<noteq> orgID" for e m w
    using that by (auto simp: mem_SettleWindow_def appendLocked_def Let_def)
  then show ?thesis using Drawdown_settles [OF assms(1)] assms(2) by (auto simp: mem_ledger_def)
qed
section \<open>A cycle on the shared stores\<close>

definition only_ledger :: "string \<Rightarrow> mem_billing_state \<Rightarrow> mem_billing_state \<Rightarrow> bool" where
  "only_ledger q b b' \<longleftrightarrow>
     st_caps b' = st_caps b \<and> st_kill b' = st_kill b \<and> st_status b' = st_status b \<and>
     (\<forall>orgID. orgID \<noteq> q \<longrightarrow> org_entries b' orgID = org_entries b orgID)"

lemma only_ledger_trans: "only_ledger q a b \<Longrightarrow> only_ledger q b c \<Longrightarrow> only_ledger q a c"
  by (simp add: only_ledger_def)

lemma draw_record_only_ledger:
  assumes "draw_record (mem_service rates alerts) clk settled (stats, c, d) rec = (stats', c', d')" "ur_OrgID rec = q"
  shows "only_ledger q (dv_billing d) (dv_billing d')"
proof (cases "DrawdownKey (ur_OrgID rec) (ur_SandboxID rec) (ur_Window rec) \<in> settled")
  case True
  then show ?thesis using assms(1) by (auto simp: draw_record_def only_ledger_def)
next
  case False
  obtain r d1 where r: "call_Drawdown (mem_service rates alerts) clk d rec = (r, d1)" by fastforce
  obtain l where l: "Drawdown mem_ledger rates (clk (dv_reads d)) (dv_ledger d) rec = (r, l)" "dv_billing d1 = (dv_billing d)\<lparr>st_ledger := l\<rparr>"
    using r by (auto simp: call_Drawdown_def mem_service_def Let_def split: prod.splits)
  have "dv_billing d' = dv_billing d1"
    using assms(1) False r by (auto simp: draw_record_def Let_def split: sum.splits if_splits)
  then show ?thesis using Drawdown_other [OF l(1)] assms(2) l(2) by (simp add: only_ledger_def)
qed

lemma draw_records_only_ledger:
  assumes "foldl (draw_record (mem_service rates alerts) clk settled) (stats, c, d) recs = (stats', c', d')" "\<forall>rec \<in> set recs. ur_OrgID rec = q"
  shows "only_ledger q (dv_billing d) (dv_billing d')"
  using assms
proof (induction recs arbitrary: stats c d)
  case Nil
  then show ?case by (simp add: only_ledger_def)
next
  case (Cons rec recs)
  obtain s1 c1 d1 where s1: "draw_record (mem_service rates alerts) clk settled (stats, c, d) rec = (s1, c1, d1)" by (metis prod_cases3)
  have "only_ledger q (dv_billing d1) (dv_billing d')" using Cons.IH [of s1 c1 d1] Cons.prems s1 by simp
  then show ?case using draw_record_only_ledger [OF s1] Cons.prems(2) only_ledger_trans by auto
qed

lemma draw_org_effect:
  assumes "draw_org (mem_service rates alerts) (\<lambda>n. t) list from' to' (stats, d) q = (stats', d')"
    and "\<forall>rs. list q from' to' = Inr rs \<longrightarrow> (\<forall>rec \<in> set rs. ur_OrgID rec = q)"
  shows "st_caps (dv_billing d') = st_caps (dv_billing d) \<and> (orgID \<noteq> q \<longrightarrow> same_org orgID (dv_billing d) (dv_billing d')) \<and>
    (\<forall>recs cap. list q from' to' = Inr recs \<and> recs \<noteq> [] \<and> st_caps (dv_billing d) q = Some cap \<and> 0 < sc_HardCap cap \<and>
       sc_HardCap cap \<le> period_spend (month_start t) (org_entries (dv_billing d') q) \<and>
       period_spend (month_start t) (org_entries (dv_billing d') q) < 2 ^ 63 \<longrightarrow> blocked (dv_billing d') q)"
proof (cases "list q from' to' = Inr [] \<or> isl (list q from' to')")
  case True
  then show ?thesis using assms(1) by (cases "list q from' to'") (auto simp: draw_org_def)
next
  case False
  then obtain recs where recs: "list q from' to' = Inr recs" "recs \<noteq> []" by (cases "list q from' to'") auto
  obtain settled where k: "SettledWindowKeys (mem_service rates alerts t) (dv_billing d) q from' = Inr settled"
    by (simp add: SettledWindowKeys_def mem_service_def mem_ledger_def mem_SettledWindowKeys_def)
  obtain s1 c1 d1 where f: "foldl (draw_record (mem_service rates alerts) (\<lambda>n. t) settled) (stats, None, d) recs = (s1, c1, d1)" by (metis prod_cases3)
  obtain b e s2 where en: "EnforceSpendCapFromLedger (mem_service rates alerts t) t (dv_billing d1) q = (b, e, s2)" by (metis prod_cases3)
  have o: "only_ledger q (dv_billing d) (dv_billing d1)" by (rule draw_records_only_ledger [OF f]) (use assms(2) recs in auto)
  have d': "dv_billing d' = s2"
    using assms(1) recs k f en
    by (auto simp: draw_org_def call_EnforceSpendCap_def Let_def split: option.splits bool.splits)
  note same = enforce_same [OF en]
  have "same_org orgID (dv_billing d) s2" if "orgID \<noteq> q" using that o same [of orgID] by (simp add: only_ledger_def same_org_def)
  moreover have "blocked s2 q" if "st_caps (dv_billing d) q = Some cap" "0 < sc_HardCap cap"
      "sc_HardCap cap \<le> period_spend (month_start t) (org_entries s2 q)" "period_spend (month_start t) (org_entries s2 q) < 2 ^ 63" for cap
    using enforce_breach [of "dv_billing d1" q cap t rates alerts t b e s2, OF _ that(2) _ _ en] that same o by (simp add: only_ledger_def)
  ultimately show ?thesis using d' same o by (auto simp: only_ledger_def)
qed

lemma draw_orgs_same:
  assumes "foldl (draw_org (mem_service rates alerts) (\<lambda>n. t) list from' to') (stats, d) os = (stats', d')" "orgID \<notin> set os"
    and "\<forall>q \<in> set os. \<forall>rs. list q from' to' = Inr rs \<longrightarrow> (\<forall>rec \<in> set rs. ur_OrgID rec = q)"
  shows "same_org orgID (dv_billing d) (dv_billing d')"
  using assms
proof (induction os arbitrary: stats d)
  case (Cons q os)
  obtain s1 d1 where s1: "draw_org (mem_service rates alerts) (\<lambda>n. t) list from' to' (stats, d) q = (s1, d1)" by fastforce
  have "same_org orgID (dv_billing d1) (dv_billing d')" using Cons.IH [of s1 d1] Cons.prems s1 by simp
  moreover have "same_org orgID (dv_billing d) (dv_billing d1)" using draw_org_effect [OF s1, of orgID] Cons.prems(2,3) by simp
  ultimately show ?case using same_org_trans by blast
qed simp

lemma draw_orgs_blocks:
  assumes "foldl (draw_org (mem_service rates alerts) (\<lambda>n. t) list from' to') (stats, d) os = (stats', d')" "distinct os" "orgID \<in> set os"
    and "\<forall>q \<in> set os. \<forall>rs. list q from' to' = Inr rs \<longrightarrow> (\<forall>rec \<in> set rs. ur_OrgID rec = q)"
    and "list orgID from' to' = Inr recs" "recs \<noteq> []" "st_caps (dv_billing d) orgID = Some cap" "0 < sc_HardCap cap"
    and "sc_HardCap cap \<le> period_spend (month_start t) (org_entries (dv_billing d') orgID)"
    and "period_spend (month_start t) (org_entries (dv_billing d') orgID) < 2 ^ 63"
  shows "blocked (dv_billing d') orgID"
proof -
  obtain pre post where os: "os = pre @ orgID # post" "orgID \<notin> set pre" "orgID \<notin> set post"
    using split_list [OF assms(3)] assms(2) by auto
  obtain s1 d1 where 1: "foldl (draw_org (mem_service rates alerts) (\<lambda>n. t) list from' to') (stats, d) pre = (s1, d1)" by fastforce
  obtain s2 d2 where 2: "draw_org (mem_service rates alerts) (\<lambda>n. t) list from' to' (s1, d1) orgID = (s2, d2)" by fastforce
  have 3: "foldl (draw_org (mem_service rates alerts) (\<lambda>n. t) list from' to') (s2, d2) post = (stats', d')"
    using assms(1) os(1) 1 2 by simp
  have p: "same_org orgID (dv_billing d) (dv_billing d1)" by (rule draw_orgs_same [OF 1 os(2)]) (use assms(4) os(1) in simp)
  have q: "same_org orgID (dv_billing d2) (dv_billing d')" by (rule draw_orgs_same [OF 3 os(3)]) (use assms(4) os(1) in simp)
  have "blocked (dv_billing d2) orgID"
    using draw_org_effect [OF 2] assms(4-10) os(1) p q by (simp add: same_org_def)
  then show ?thesis using q by (simp add: blocked_def same_org_def status_Status_def)
qed

lemma cycle_blocks:
  assumes "runDrawdownOnce (mem_service rates alerts) (\<lambda>n. t) (Inr os) list lookback now d = (stats, d')" "distinct os" "orgID \<in> set os"
    and "\<forall>q \<in> set os. \<forall>rs. list q (now - lookback) (now - cfg_Window DefaultConfig) = Inr rs \<longrightarrow> (\<forall>rec \<in> set rs. ur_OrgID rec = q)"
    and "list orgID (now - lookback) (now - cfg_Window DefaultConfig) = Inr recs" "recs \<noteq> []"
    and "st_caps (dv_billing d) orgID = Some cap" "0 < sc_HardCap cap"
    and "sc_HardCap cap \<le> period_spend (month_start t) (org_entries (dv_billing d') orgID)"
    and "period_spend (month_start t) (org_entries (dv_billing d') orgID) < 2 ^ 63"
  shows "blocked (dv_billing d') orgID"
proof -
  let ?from = "now - lookback" and ?to = "now - cfg_Window DefaultConfig"
  obtain s1 d1 where f: "foldl (draw_org (mem_service rates alerts) (\<lambda>n. t) list ?from ?to) (zero_stats\<lparr>ds_orgs := length os\<rparr>, d) os = (s1, d1)"
    by fastforce
  have d': "dv_billing d' = (dv_billing d1)\<lparr>st_ledger := snd (mem_PruneProcessedWindows (dv_ledger d1) ?from)\<rparr>"
    using assms(1) f by (auto simp: runDrawdownOnce_def PruneProcessedWindows_def mem_service_def mem_ledger_def Let_def split: prod.splits)
  then have e: "org_entries (dv_billing d') orgID = org_entries (dv_billing d1) orgID" by (simp add: mem_PruneProcessedWindows_def)
  have "blocked (dv_billing d1) orgID"
    by (rule draw_orgs_blocks [OF f assms(2-8)]) (use assms(9,10) e in simp_all)
  then show ?thesis by (simp add: d' blocked_def)
qed

section \<open>What the gateway answers\<close>

lemma gateway_refuses:
  assumes "ef_sus e = Some S" "ss_IsSuspended S now s orgID = (Inr (Some x), s')"
  shows "fst (adapter_Check e now (s, rl) orgID op ip requested) = Some (ErrSuspended, ''forbidden'')"
  using assms by (simp add: adapter_Check_def Check_def envelopeFor_def Let_def)

lemma gateway_not_suspended:
  assumes "ef_sus e = Some mem_store" "s orgID = None"
  shows "fst (Check e now (s, rl) orgID req) \<noteq> Some ErrSuspended"
proof -
  have "r \<noteq> Some ErrSuspended" if "checkRates tier orgID req now rl = (r, rl')" for tier r rl'
    using checkRates_error [of tier orgID req now rl] that by (cases r) auto
  moreover have "checkLive e tier orgID z \<noteq> Some ErrSuspended" "checkSize tier z \<noteq> Some ErrSuspended" for tier z
    by (auto simp: checkLive_def checkSize_def split: sum.splits)
  ultimately show ?thesis unfolding Check_live [of e s orgID, OF assms]
    by (auto split: sum.splits option.splits prod.splits if_splits)
qed

lemma cached_miss:
  "cache_lookup now c orgID = None \<Longrightarrow> cs_inner c orgID = Some x \<Longrightarrow>
   \<exists>c'. ss_IsSuspended (cached_store mem_store) now c orgID = (Inr (Some x), c')"
  by (simp add: cached_store_def cached_IsSuspended_def mem_store_def mem_IsSuspended_def)

section \<open>A paid top-up\<close>

lemma spend_after_payment:
  assumes "\<forall>e \<in> set es. le_Kind e = KindUsageDrawdown \<longrightarrow> le_At e < now" "now \<le> u" "p = month_start u"
    and "le_Kind x = KindTopUp" "0 < le_Amount x" "le_At x = now"
  shows "period_spend p (es @ [x]) = 0"
proof -
  have start: "now \<le> spend_start p (es @ [x])"
  proof (cases "p \<le> now")
    case True
    let ?S = "insert p (le_At ` {e \<in> set (es @ [x]). le_Kind e = KindTopUp \<and> le_Amount e > 0 \<and> p \<le> le_At e})"
    have "now \<in> ?S" using assms(4-6) True by auto
    then show ?thesis unfolding spend_start_def by (intro Max_ge) auto
  next
    case False
    then show ?thesis using spend_start_ge [of p "es @ [x]"] by simp
  qed
  have "filter (\<lambda>e. le_Kind e = KindUsageDrawdown \<and> le_Amount e < 0 \<and> spend_start p (es @ [x]) \<le> le_At e) (es @ [x]) = []"
    unfolding filter_empty_conv using assms(1,5) start by fastforce
  then show ?thesis by (simp only: period_spend_def list.map sum_list.Nil)
qed

lemma TopUp_fresh:
  assumes "seen_key orgID (''topup:'' @ ref) \<notin> ml_seenKey l"
  shows "\<exists>l'. TopUp mem_ledger l orgID amount ref now = (Inr (), l') \<and>
    ml_byOrg l' = (ml_byOrg l)(orgID := ml_byOrg l orgID @ [\<lparr>le_OrgID = orgID, le_Kind = KindTopUp, le_Amount = amount,
      le_Key = ''topup:'' @ ref, le_At = now, le_Note = ''prepaid top-up''\<rparr>])"
  using assms by (simp add: TopUp_def mem_ledger_def mem_Append_def appendLocked_def Let_def)

lemma balance_after_topup:
  "ml_byOrg l' = (ml_byOrg l)(orgID := ml_byOrg l orgID @ [x]) \<Longrightarrow>
   spec_balance (mem_view l') orgID = spec_balance (mem_view l) orgID + le_Amount x"
  by (simp add: spec_balance_def mem_view_def)

end
