(* ===== verification/Spec2Isabelle.thy ===== *)
theory Spec2Isabelle
  imports Egress_Typing Fork_Runs Cap_Token Node_Lifecycle Warm_Pool Cas_Store Spend_Control
begin

text \<open>
  Mitos runs sandboxes as microVMs forked from warm snapshots on a Kubernetes cluster. This
  development models the parts of it that decide who gets what: addresses and uids on a node,
  capabilities of a caller, the node a fork goes to, the bytes of a snapshot, the packets a guest
  may send, the amount an organization is charged, and whether a request is admitted. A
  definition has the name of the Go function it translates where Isabelle allows it.

  \<^bold>\<open>Parts and how they interact.\<close> The controller keeps a registry of nodes and picks one for every
  fork. The fork engine of the node reserves a slot, takes a jailer uid and a network identity for
  the VM, installs an egress filter for its tap, registers its guest address with a controlled
  resolver, which pins its answers into the filter, and with a forward proxy, and journals the
  sandbox so that a restarted engine finds it again. Snapshots travel between nodes through a
  content-addressed store. Nodes
  report samples of usage; the collector integrates them into records; the console settles the
  records against the credit ledger, evaluates spend caps and suspends an organization; webhooks
  of the payment provider add credit and lift suspensions; the gateway asks the enforcer, which
  reads the same suspension store, before it admits a request.

  \<^bold>\<open>Conventions.\<close> Go \<^verbatim>\<open>string\<close> and \<^verbatim>\<open>[]byte\<close> are lists of bytes. Unsigned integers are words of their
  width; signed integers are \<^typ>\<open>int\<close> with \<open>i32\<close> and \<open>i64\<close> written out where the code may wrap;
  \<^verbatim>\<open>float64\<close> is a rational with rounding after every operation; times and durations are
  nanoseconds. A pointer that may be nil is an option. A method is a function from a state record
  to its result and the new state, and a mutex makes it one step. The order in which Go walks a
  map is an argument, and the theorems hold for every order. Hashes, JSON codecs, HTTP, \<^verbatim>\<open>%q\<close>
  quoting, Unicode tables, the clock and the runner of host commands are arguments as well; what
  a theorem needs of them is a hypothesis of that theorem, with a witness that satisfies it.

  \<^bold>\<open>Shared theories.\<close>
  \<^item> \<open>Mitos_Prelude\<close>: the integer types, lists, maps. \<open>Float64\<close>, \<open>Civil_Time\<close>, \<open>Go_Text\<close>,
    \<open>Go_Duration\<close>, \<open>Json_Text\<close>, \<open>Base64_Url\<close>, \<open>Net_Address\<close>, \<open>Address_Text\<close>: the parts of the
    standard library the code calls, with the round trips of printing and parsing.
  \<^item> \<open>Resource_Pool\<close>, \<open>Best_Pick\<close>: the contracts of the allocators and of the selections, as
    locales; \<open>rounding\<close>, \<open>credit_ledger\<close> and \<open>suspension_store\<close> are the other interfaces. Each is
    interpreted on the definitions of the component that provides it.

  \<^bold>\<open>Components.\<close>
  \<^item> \<open>Net_Identity\<close> (\<^verbatim>\<open>internal/netconf/identity.go\<close>) and \<open>Uid_Allocator\<close>
    (\<^verbatim>\<open>internal/firecracker/jailer.go\<close>): no two live holders share a link or a uid after any run of
    acquires and releases, and a request is refused only when the range is exhausted.
  \<^item> \<open>Cap_Token\<close> (\<^verbatim>\<open>internal/captoken\<close>): a verified token never grants more than any prefix of its
    chain; minted and attenuated tokens verify; the last tag binds the chain; the wire form round
    trips.
  \<^item> \<open>Isolation_Tier\<close>, \<open>Node_Registry\<close>, \<open>Node_Scheduler\<close>, \<open>Node_Lifecycle\<close>
    (\<^verbatim>\<open>internal/controller/isolation_tier.go\<close>, \<^verbatim>\<open>node_registry.go\<close>, \<^verbatim>\<open>scheduler.go\<close>): the chosen node
    passes every gate, a node is found when one passes, the choice does not depend on the order
    of the map, and no run leaks a connection. \<open>Warm_Pool\<close> (\<^verbatim>\<open>warmpool_autoscale.go\<close>): the target
    of the autoscaler.
  \<^item> \<open>Cas_Manifest\<close>, \<open>Cas_Store\<close> (\<^verbatim>\<open>internal/cas\<close>): a digest identifies a manifest, every stored
    chunk has its digest after any run, a snapshot reads back as it was written, a pull from an
    untrusted peer stores only what the digests name, eviction removes just what it must.
  \<^item> \<open>Nft_Rules\<close>, \<open>Net_Policy\<close>, \<open>Egress_Chain\<close>, \<open>Egress_Filter\<close>, \<open>Egress_Typing\<close>
    (\<^verbatim>\<open>internal/netconf\<close>, \<^verbatim>\<open>internal/husk/netfilter.go\<close>, \<^verbatim>\<open>internal/network\<close>): after the filter of a sandbox
    is applied its packets are admitted exactly as its policy says; the documents are well typed.
    \<open>Dns_Proxy\<close> (\<^verbatim>\<open>internal/dnsproxy\<close>): an address is pinned only for an allowlisted name.
    \<open>Egress_Proxy\<close> (\<^verbatim>\<open>internal/egressproxy\<close>, \<^verbatim>\<open>internal/sniproxy\<close>): the proxies dial only what the
    denylist or the allowlist lets through, for a registered guest, and log nothing but targets.
  \<^item> \<open>Fork_Engine\<close> (\<^verbatim>\<open>internal/fork/engine.go\<close>, \<^verbatim>\<open>journal.go\<close>, \<^verbatim>\<open>reconcile.go\<close>,
    \<^verbatim>\<open>internal/firecracker/client.go\<close>): the state of a node as one record, and fork, live fork,
    termination and recovery with every rollback. \<open>fork\<close> is cut into the phases \<open>fork_launch\<close>,
    \<open>fork_attach\<close>, \<open>fork_boot\<close> and \<open>fork_commit\<close>, between which other calls may run.
    \<open>Fork_Invariant\<close>: each phase and each termination keeps the allocators, the registries and the
    journal in step with the sandboxes. \<open>Fork_Recovery\<close>: so does a restart; the relation
    \<open>engine_step\<close> interleaves them all. \<open>Fork_Runs\<close>: the calls are runs of that relation; uids and
    addresses are exclusive, the ceiling holds, a failed fork leaves nothing, a recovery is exact.
    The steps assume that no two forks are named alike and that journal writes succeed.
  \<^item> \<open>Usage_Meter\<close> (\<^verbatim>\<open>internal/usage\<close>), \<open>Credit_Ledger\<close>, \<open>Billing_Service\<close>
    (\<^verbatim>\<open>internal/saas/billing\<close>), \<open>Drawdown_Driver\<close> (\<^verbatim>\<open>cmd/console\<close>), \<open>Payment_Provider\<close>,
    \<open>Billing_Webhook\<close> (\<^verbatim>\<open>internal/saas/billingprovider\<close>): usage is neither lost nor counted twice,
    integration ends and does not depend on the order of samples, the ledger refines its abstract
    view, a window is charged once however often cycles are repeated or fail, and a redelivered
    webhook changes nothing.
  \<^item> \<open>Quota_Suspension\<close>, \<open>Quota_Enforcer\<close> (\<^verbatim>\<open>internal/saas/quota\<close>): staleness of the suspension
    cache, admission that fails closed, the bound of the token bucket. \<open>Spend_Control\<close> joins them
    with billing; its properties are in this theory.

  \<^bold>\<open>Bounds and fuel.\<close> No definition runs on fuel: every loop is structural or has a termination
  proof (\<open>v6_groups\<close> reads at most eight groups, the integration advances a window at each step).
  Where a theorem bounds a quantity, for example a sum below \<^verbatim>\<open>2^63\<close>, it is because the code wraps
  there; the bound is a hypothesis and is stated on the values of the run.

  \<^bold>\<open>Kernel and nft.\<close> What \<^verbatim>\<open>nft\<close> and the kernel do is not code of the repository. \<open>evaluates_rules\<close>
  states how a chain is evaluated, \<open>nft_host\<close> what a document does to the state of a host, and
  \<open>keeps_filter\<close> that other commands leave the filter alone; \<open>mem_run\<close> is a host with all of them.

  \<^bold>\<open>Not modelled.\<close>
  \<^item> Code that is mostly effects on a host, whose meaning is that of the kernel, Firecracker, the
    container runtime or Kubernetes: of the fork engine (\<^verbatim>\<open>internal/fork\<close>) the loading of memory,
    template building, encryption, pause and resume and the statistics, the VMM client beyond
    launch and kill, the husk stub beyond its networking, the node daemon, the guest agent, device plugin, CPU pinning,
    volumes and image building. The reconcilers of \<^verbatim>\<open>internal/controller\<close> read and write objects
    of the API server through a client; only their pure decisions are modelled.
  \<^item> Servers and clients of HTTP, gRPC and vsock: console, gateway, front door, facade, preview
    proxy, command line tools, MCP server and the SDKs. The decisions they delegate (tokens,
    quotas, billing) are modelled.
  \<^item> The Postgres stores: their behaviour is that of SQL statements; the in-memory stores with the
    same interfaces are modelled instead.
  \<^item> Cryptography and codecs, which are arguments; telemetry and logging, which change no state
    the code reads; generated code, third party code, web assets, benchmarks and smoke tests.
\<close>

section \<open>Spend control\<close>

text \<open>
  C15: A breached hard cap closes the gateway. After a drawdown cycle that lists an organization with
  records in the lookback and a hard spend cap, if the organization's spend of the period has
  reached the cap, then billing has it suspended and every request of it is refused as
  forbidden: by a gateway that reads the store directly, and by one behind a read cache as soon
  as its entry has expired.
\<close>

theorem breached_cap_closes_gateway:
  assumes "runDrawdownOnce (mem_service rates alerts) (\<lambda>n. t) (Inr os) list lookback now d = (stats, d')" "distinct os" "orgID \<in> set os"
    and "\<forall>q \<in> set os. \<forall>rs. list q (now - lookback) (now - cfg_Window DefaultConfig) = Inr rs \<longrightarrow> (\<forall>rec \<in> set rs. ur_OrgID rec = q)"
    and "list orgID (now - lookback) (now - cfg_Window DefaultConfig) = Inr recs" "recs \<noteq> []"
    and "st_caps (dv_billing d) orgID = Some cap" "0 < sc_HardCap cap"
    and "sc_HardCap cap \<le> period_spend (month_start t) (org_entries (dv_billing d') orgID)"
    and "period_spend (month_start t) (org_entries (dv_billing d') orgID) < 2 ^ 63"
    and "ef_sus direct = Some mem_store" "ef_sus cached = Some (cached_store mem_store)"
    and "cs_inner c = st_kill (dv_billing d')" "cache_lookup u c orgID = None"
  shows "status_Status (st_status (dv_billing d')) orgID = StatusSuspended \<and>
    fst (adapter_Check direct u (st_kill (dv_billing d'), rl) orgID op ip requested) = Some (ErrSuspended, ''forbidden'') \<and>
    fst (adapter_Check cached u (c, rl) orgID op ip requested) = Some (ErrSuspended, ''forbidden'')"
proof -
  have b: "blocked (dv_billing d') orgID" by (rule cycle_blocks [OF assms(1-10)])
  then obtain x where x: "st_kill (dv_billing d') orgID = Some x" by (auto simp: blocked_def)
  have "ss_IsSuspended mem_store u (st_kill (dv_billing d')) orgID = (Inr (Some x), st_kill (dv_billing d'))"
    using x by (simp add: mem_store_def mem_IsSuspended_def)
  moreover obtain c' where "ss_IsSuspended (cached_store mem_store) u c orgID = (Inr (Some x), c')"
    using cached_miss [OF assms(14)] x assms(13) by auto
  ultimately show ?thesis using b gateway_refuses [OF assms(11)] gateway_refuses [OF assms(12)] by (simp add: blocked_def)
qed

definition idle_record :: UsageRecord where
  "idle_record = gpu_record\<lparr>ur_GPUSeconds := 0\<rparr>"

definition overspent :: MemCreditLedger where
  "overspent = NewMemCreditLedger\<lparr>ml_byOrg := (\<lambda>x. [])(''acme'' :=
     [\<lparr>le_OrgID = ''acme'', le_Kind = KindUsageDrawdown, le_Amount = - 500, le_Key = [], le_At = 1, le_Note = []\<rparr>])\<rparr>"

definition overspent_driver :: "(MemCreditLedger, MemSuspensionStore) driver_state" where
  "overspent_driver =
     \<lparr>dv_billing = \<lparr>st_ledger = overspent, st_caps = [''acme'' \<mapsto> \<lparr>sc_OrgID = ''acme'', sc_SoftCap = 0, sc_HardCap = 400\<rparr>],
        st_status = Map.empty, st_kill = Map.empty, st_alerted = []\<rparr>,
      dv_reads = 0, dv_metrics = None, dv_calls = []\<rparr>"

definition overspent_cycle :: "drawdownStats \<times> (MemCreditLedger, MemSuspensionStore) driver_state" where
  "overspent_cycle = runDrawdownOnce (mem_service DefaultRates None) (\<lambda>n. 2) (Inr [''acme'']) (\<lambda>q f t. Inr [idle_record]) 10 12 overspent_driver"

lemma idle_cost: "CostMilliCents DefaultRates idle_record = 0"
proof -
  have "\<lfloor>1 / 2 :: rat\<rfloor> = 0" by (simp add: floor_eq_iff)
  then show ?thesis
    by (simp add: CostMilliCents_def QuantityFor_def meter_defs idle_record_def gpu_record_def f64.zero math_Round_def trunc_i64_def in_i64_def Let_def)
qed

lemma overspent_entries: "org_entries (dv_billing (snd overspent_cycle)) ''acme'' = ml_byOrg overspent ''acme''"
proof -
  have d: "Drawdown mem_ledger DefaultRates n l idle_record = (Inr zero_drawdown, l)" for n l by (simp add: Drawdown_def idle_cost)
  have sv: "sv_ledger (mem_service DefaultRates None 2) = mem_ledger" "sv_rates (mem_service DefaultRates None 2) = DefaultRates"
    by (simp_all add: mem_service_def)
  have k: "\<exists>K. cl_SettledWindowKeys mem_ledger (dv_ledger overspent_driver) ''acme'' 2 = Inr K \<and> usageKey idle_record \<notin> K"
    by (simp add: mem_ledger_def mem_SettledWindowKeys_def overspent_driver_def overspent_def NewMemCreditLedger_def)
  then obtain K where K: "cl_SettledWindowKeys mem_ledger (dv_ledger overspent_driver) ''acme'' 2 = Inr K" "usageKey idle_record \<notin> K" by blast
  obtain r d1 where r: "call_Drawdown (mem_service DefaultRates None) (\<lambda>n. 2) overspent_driver idle_record = (r, d1)" by fastforce
  then have r': "r = Inr zero_drawdown" "dv_ledger d1 = dv_ledger overspent_driver"
    by (auto simp: call_Drawdown_def sv d Let_def)
  obtain b e d2 where en: "call_EnforceSpendCap (mem_service DefaultRates None) (\<lambda>n. 2) d1 ''acme'' = ((b, e), d2)" by (metis prod.exhaust)
  have l: "dv_ledger d2 = dv_ledger overspent_driver" using call_EnforceSpendCap_keeps [OF en] r' by simp
  have "\<exists>s. draw_org (mem_service DefaultRates None) (\<lambda>n. 2) (\<lambda>q f t. Inr [idle_record]) 2 (12 - cfg_Window DefaultConfig)
      (zero_stats\<lparr>ds_orgs := 1\<rparr>, overspent_driver) ''acme'' = (s, d2)"
    using K r r' en unfolding usageKey_def
    by (cases b; cases e) (simp_all add: draw_org_def SettledWindowKeys_def sv draw_record_def zero_drawdown_def Let_def)
  then obtain s where "draw_org (mem_service DefaultRates None) (\<lambda>n. 2) (\<lambda>q f t. Inr [idle_record]) 2 (12 - cfg_Window DefaultConfig)
      (zero_stats\<lparr>ds_orgs := 1\<rparr>, overspent_driver) ''acme'' = (s, d2)" by blast
  then show ?thesis
    by (simp add: overspent_cycle_def runDrawdownOnce_def PruneProcessedWindows_def sv Let_def split: prod.split)
      (simp add: mem_ledger_def mem_PruneProcessedWindows_def l overspent_driver_def)
qed

theorem breached_cap_closes_gateway_witness:
  "fst (adapter_Check demo_enforcer 5 (st_kill (dv_billing (snd overspent_cycle)), Map.empty) ''acme'' ''sandbox.create'' [] None) =
     Some (ErrSuspended, ''forbidden'')"
proof -
  let ?d = "snd overspent_cycle"
  have run: "runDrawdownOnce (mem_service DefaultRates None) (\<lambda>n. 2) (Inr [''acme'']) (\<lambda>q f t. Inr [idle_record]) 10 12 overspent_driver = (fst overspent_cycle, ?d)"
    by (simp add: overspent_cycle_def)
  have org: "\<forall>q \<in> set [''acme'']. \<forall>rs. (\<lambda>q f t. Inr [idle_record]) q (12 - 10) (12 - cfg_Window DefaultConfig) = (Inr rs :: (string, UsageRecord list) result) \<longrightarrow>
      (\<forall>rec \<in> set rs. ur_OrgID rec = q)" by (auto simp: idle_record_def gpu_record_def)
  have cap: "st_caps (dv_billing overspent_driver) ''acme'' = Some \<lparr>sc_OrgID = ''acme'', sc_SoftCap = 0, sc_HardCap = 400\<rparr>"
    by (simp add: overspent_driver_def)
  have "month_start 2 = 0" by code_simp
  then have spend: "period_spend (month_start 2) (org_entries (dv_billing ?d) ''acme'') = 500"
    unfolding overspent_entries by (simp add: overspent_def period_spend_def spend_start_def KindUsageDrawdown_def KindTopUp_def)
  have g: "ef_sus demo_enforcer = Some mem_store" by (simp add: demo_enforcer_def)
  obtain e :: "MemSuspensionStore CachedSuspensionStore Enforcer" where e: "ef_sus e = Some (cached_store mem_store)"
    by (metis Enforcer.select_convs(4))
  show ?thesis
    using breached_cap_closes_gateway [OF run _ _ org _ _ cap, of "[idle_record]" demo_enforcer e
        "NewCachedSuspensionStore (st_kill (dv_billing ?d)) 0" 5 Map.empty "''sandbox.create''" "[]" None] spend g e
    by (simp add: NewCachedSuspensionStore_def cache_lookup_def)
qed

text \<open>
  C16: A paid top-up brings the organization back. When an organization is suspended for its
  spend cap and a verified event credits a new payment to it, the webhook answers 200, the
  suspension is gone, billing has the organization active again, its balance has grown by the
  payment, no later evaluation of any hard cap suspends it again for what was drawn down before
  the payment, and the gateway no longer refuses it as suspended.
\<close>

theorem topup_restores_service:
  assumes "liftable (wb_kill s) orgID ReasonSpendCap" "status_Status (wb_status s) orgID = StatusSuspended"
    and "verify (take maxWebhookBytes body) = Inr ev" "ev_Status ev = []"
    and "ev_TopUp ev = Some \<lparr>tc_OrgID = orgID, tc_AmountCents = amount, tc_Ref = ref\<rparr>" "orgID \<noteq> []" "0 < amount"
    and "seen_key orgID (''topup:'' @ ref) \<notin> ml_seenKey (wb_ledger s)"
    and "\<forall>e \<in> set (ml_byOrg (wb_ledger s) orgID). le_Kind e = KindUsageDrawdown \<longrightarrow> le_At e < now"
    and "ServeHTTP verify (mem_handler now) now (Some body) s = (code, s')"
    and "caps orgID = Some cap" "0 < sc_HardCap cap" "now \<le> u" "ef_sus g = Some mem_store"
  shows "code = 200 \<and> wb_kill s' orgID = None \<and> status_Status (wb_status s') orgID = StatusActive \<and>
    spec_balance (mem_view (wb_ledger s')) orgID = spec_balance (mem_view (wb_ledger s)) orgID + amount \<and>
    st_kill (snd (snd (EnforceSpendCapFromLedger (mem_service rates alerts u) u (billing_of s' caps) orgID))) orgID = None \<and>
    fst (Check g u (wb_kill s', rl) orgID req) \<noteq> Some ErrSuspended"
proof -
  have p: "pays ev" "paid_org ev = orgID" using assms(5-7) by (simp_all add: pays_def)
  have s': "code = 200" "s' = topup_state now ev (link_state ev s)"
    using assms(3,4,10) by (auto simp: ServeHTTP_def serve_event_mem status_state_def)
  let ?x = "\<lparr>le_OrgID = orgID, le_Kind = KindTopUp, le_Amount = amount, le_Key = ''topup:'' @ ref, le_At = now, le_Note = ''prepaid top-up''\<rparr>"
  obtain l where l: "TopUp mem_ledger (wb_ledger s) orgID amount ref now = (Inr (), l)"
    "ml_byOrg l = (ml_byOrg (wb_ledger s))(orgID := ml_byOrg (wb_ledger s) orgID @ [?x])"
    using TopUp_fresh [OF assms(8)] by blast
  have st: "wb_ledger s' = l" "wb_kill s' orgID = None" "status_Status (wb_status s') orgID = StatusActive"
    using p assms(1,2,5) l(1) by (simp_all add: s'(2) topup_state_def lifted_def status_Status_def)
  have "period_spend (month_start u) (org_entries (billing_of s' caps) orgID) = 0"
    using spend_after_payment [OF assms(9,13) refl, of ?x] assms(7) by (simp add: billing_of_def st l(2))
  then have "st_kill (snd (snd (EnforceSpendCapFromLedger (mem_service rates alerts u) u (billing_of s' caps) orgID))) orgID = None"
    using enforce_no_spend [of "billing_of s' caps" orgID cap u rates alerts u] assms(11,12) st by (simp add: billing_of_def)
  then show ?thesis
    using s' st balance_after_topup [OF l(2)] gateway_not_suspended [OF assms(14), of "wb_kill s'" orgID] by simp
qed

theorem topup_restores_service_witness:
  "wb_kill capped_state ''acme'' \<noteq> None \<and>
   wb_kill (snd (ServeHTTP (\<lambda>b. Inr demo_topup) (mem_handler 2) 2 (Some []) capped_state)) ''acme'' = None \<and>
   fst (Check demo_enforcer 3 (wb_kill (snd (ServeHTTP (\<lambda>b. Inr demo_topup) (mem_handler 2) 2 (Some []) capped_state)), Map.empty)
     ''acme'' \<lparr>rq_Op = ''sandbox.create'', rq_IP = [], rq_NewSandbox = zero_spec\<rparr>) \<noteq> Some ErrSuspended"
proof -
  let ?S = "ServeHTTP (\<lambda>b. Inr demo_topup) (mem_handler 2) 2 (Some []) capped_state"
  let ?caps = "[''acme'' \<mapsto> \<lparr>sc_OrgID = ''acme'', sc_SoftCap = 0, sc_HardCap = 400\<rparr>]"
  have 1: "liftable (wb_kill capped_state) ''acme'' ReasonSpendCap" "status_Status (wb_status capped_state) ''acme'' = StatusSuspended"
    by (simp_all add: capped_state_def liftable_def status_Status_def)
  have 2: "ev_Status demo_topup = []" "ev_TopUp demo_topup = Some \<lparr>tc_OrgID = ''acme'', tc_AmountCents = 5000, tc_Ref = ''txn_1''\<rparr>"
    by (simp_all add: demo_topup_def)
  have 3: "seen_key ''acme'' (''topup:'' @ ''txn_1'') \<notin> ml_seenKey (wb_ledger capped_state)"
    "\<forall>e \<in> set (ml_byOrg (wb_ledger capped_state) ''acme''). le_Kind e = KindUsageDrawdown \<longrightarrow> le_At e < 2"
    by (simp_all add: capped_state_def credited_def GrantSignupCredit_def mem_ledger_def mem_Append_def appendLocked_def NewMemCreditLedger_def
      seen_key_def Let_def)
  have g: "ef_sus demo_enforcer = Some mem_store" by (simp add: demo_enforcer_def)
  have "?S = (fst ?S, snd ?S)" by simp
  from topup_restores_service [OF 1 refl 2 _ _ 3 this, of ?caps _ 3 demo_enforcer] g show ?thesis
    by (simp add: capped_state_def)
qed

end
